(* ===== verification/Prelude.thy ===== *)
theory Prelude
  imports Main "HOL-Library.Word" "HOL-Library.Monad_Syntax"
begin

unbundle bit_operations_syntax

text \<open>
  Shared vocabulary of the development: the Rust integer types as words, the error values
  of the library (\<open>anyhow::Error\<close> and \<open>Result<_, String>\<close>, by the literal text of their
  message), the two ways an operation is written down (a result \<open>error + 'a\<close> for code that
  takes \<open>&self\<close>, a state-passing operation for code that takes \<open>&mut self\<close>), and the generic
  list and result lemmas the components share.
\<close>

type_synonym u8 = "8 word"
type_synonym u16 = "16 word"
type_synonym u32 = "32 word"
type_synonym u64 = "64 word"
type_synonym i64 = "64 word" \<comment> \<open>two's complement; \<open>sint\<close> reads it\<close>

text \<open>A Rust \<open>String\<close> is its sequence of Unicode scalar values (\<open>char\<close>s).\<close>

type_synonym rstring = "u32 list"

text \<open>
  Errors. \<open>Msg\<close> carries the literal message of a \<open>bail!\<close> or \<open>anyhow!\<close> site with its
  placeholders as written, \<open>NameMsg\<close> the messages of the form \<open>"{name}: text"\<close>. \<open>Panic\<close> is
  a Rust panic (slice index out of range, \<open>unwrap\<close>, division by zero), \<open>IoError\<close> a failed
  device access, and \<open>Diverges\<close> the result of a model loop whose fuel ran out (an endless
  loop or recursion of the code).
\<close>

datatype error =
    Panic
  | IoError
  | Diverges
  | Msg string
  | NameMsg rstring string

type_synonym 'a result = "error + 'a"

subsection \<open>Results: the \<open>?\<close> operator\<close>

definition tryR :: "'a result \<Rightarrow> ('a \<Rightarrow> 'b result) \<Rightarrow> 'b result" where
  "tryR m f = (case m of Inl e \<Rightarrow> Inl e | Inr x \<Rightarrow> f x)"

definition guardR :: "bool \<Rightarrow> error \<Rightarrow> 'a result \<Rightarrow> 'a result" where
  "guardR b e m = (if b then m else Inl e)"

definition is_ok :: "'a result \<Rightarrow> bool" where
  "is_ok r = (case r of Inl _ \<Rightarrow> False | Inr _ \<Rightarrow> True)"

lemma tryR_simps [simp]:
  "tryR (Inl e) f = Inl e"
  "tryR (Inr x) f = f x"
  by (simp_all add: tryR_def)

lemma tryR_Inr_iff: "tryR m f = Inr y \<longleftrightarrow> (\<exists>x. m = Inr x \<and> f x = Inr y)"
  by (cases m) auto

lemma tryR_Inl_iff: "tryR m f = Inl e \<longleftrightarrow> m = Inl e \<or> (\<exists>x. m = Inr x \<and> f x = Inl e)"
  by (cases m) auto

lemma tryR_InrE:
  assumes "tryR m f = Inr y"
  obtains x where "m = Inr x" and "f x = Inr y"
  using assms by (auto simp: tryR_Inr_iff)

lemma tryR_assoc: "tryR (tryR m f) g = tryR m (\<lambda>x. tryR (f x) g)"
  by (cases m) auto

text \<open>An error that no step raises is not the result.\<close>

lemma tryR_neq: "m \<noteq> Inl e \<Longrightarrow> (\<And>x. f x \<noteq> Inl e) \<Longrightarrow> tryR m f \<noteq> Inl e"
  by (cases m) auto

lemma if_neq: "(b \<Longrightarrow> x \<noteq> e) \<Longrightarrow> (\<not> b \<Longrightarrow> y \<noteq> e) \<Longrightarrow> (if b then x else y) \<noteq> e"
  by simp

lemma guardR_simps [simp]:
  "guardR True e m = m"
  "guardR False e m = Inl e"
  by (simp_all add: guardR_def)

lemma guardR_Inr_iff: "guardR b e m = Inr y \<longleftrightarrow> b \<and> m = Inr y"
  by (simp add: guardR_def)

lemma is_ok_simps [simp]: "is_ok (Inr x)" "\<not> is_ok (Inl e)"
  by (simp_all add: is_ok_def)

lemma tryR_cong [fundef_cong]:
  "m = m' \<Longrightarrow> (\<And>x. m' = Inr x \<Longrightarrow> f x = f' x) \<Longrightarrow> tryR m f = tryR m' f'"
  by (cases m') (auto simp: tryR_def)

text \<open>\<open>map_err(|e| anyhow!("text {e}"))\<close>: the message gets a prefix.\<close>

fun prefix_err :: "string \<Rightarrow> error \<Rightarrow> error" where
  "prefix_err p (Msg m) = Msg (p @ m)"
| "prefix_err p e = e"

definition prefixR :: "string \<Rightarrow> 'a result \<Rightarrow> 'a result" where
  "prefixR p r = (case r of Inl e \<Rightarrow> Inl (prefix_err p e) | Inr x \<Rightarrow> Inr x)"

lemma prefixR_simps [simp]:
  "prefixR p (Inr x) = Inr x"
  "prefixR p (Inl e) = Inl (prefix_err p e)"
  by (simp_all add: prefixR_def)

lemma prefixR_Inr_iff [simp]: "prefixR p r = Inr x \<longleftrightarrow> r = Inr x"
  by (cases r) simp_all

text \<open>A loop that collects a value per element and stops at the first error.\<close>

fun mapR :: "('a \<Rightarrow> 'b result) \<Rightarrow> 'a list \<Rightarrow> ('b list) result" where
  "mapR f [] = Inr []"
| "mapR f (x # xs) = tryR (f x) (\<lambda>y. tryR (mapR f xs) (\<lambda>ys. Inr (y # ys)))"

lemma mapR_cong [fundef_cong]:
  "xs = ys \<Longrightarrow> (\<And>x. x \<in> set ys \<Longrightarrow> f x = g x) \<Longrightarrow> mapR f xs = mapR g ys"
  by (induction ys arbitrary: xs) (auto intro!: tryR_cong)

lemma mapR_Inr_iff:
  "mapR f xs = Inr ys \<longleftrightarrow> list_all2 (\<lambda>x y. f x = Inr y) xs ys"
  by (induction xs arbitrary: ys) (auto simp: tryR_Inr_iff list_all2_Cons1)

lemma mapR_map: "(\<And>x. x \<in> set xs \<Longrightarrow> f x = Inr (g x)) \<Longrightarrow> mapR f xs = Inr (map g xs)"
  by (induction xs) auto

text \<open>A search loop with an early return: the first value found, or the first error.\<close>

fun first_some :: "('a \<Rightarrow> 'b option result) \<Rightarrow> 'a list \<Rightarrow> 'b option result" where
  "first_some f [] = Inr None"
| "first_some f (x # xs) =
     tryR (f x) (\<lambda>r. case r of Some y \<Rightarrow> Inr (Some y) | None \<Rightarrow> first_some f xs)"

lemma first_some_Some:
  "first_some f xs = Inr (Some y) \<Longrightarrow> \<exists>x\<in>set xs. f x = Inr (Some y)"
  by (induction xs) (auto simp: tryR_Inr_iff split: option.splits)

lemma first_some_None:
  "first_some f xs = Inr None \<longleftrightarrow> (\<forall>x\<in>set xs. f x = Inr None)"
  by (induction xs) (auto simp: tryR_Inr_iff split: option.splits)

subsection \<open>Operations: state passing with the state kept on errors\<close>

text \<open>
  Code that takes \<open>&mut self\<close> returns a result and leaves a state behind, also when the
  result is an error: a caller may catch the error and go on with the mutated state.
\<close>

type_synonym ('s, 'a) operation = "'s \<Rightarrow> 'a result \<times> 's"

definition retS :: "'a \<Rightarrow> ('s, 'a) operation" where
  "retS x s = (Inr x, s)"

definition failS :: "error \<Rightarrow> ('s, 'a) operation" where
  "failS e s = (Inl e, s)"

definition bindS :: "('s, 'a) operation \<Rightarrow> ('a \<Rightarrow> ('s, 'b) operation) \<Rightarrow> ('s, 'b) operation" where
  "bindS m f s = (case m s of (Inl e, s') \<Rightarrow> (Inl e, s') | (Inr x, s') \<Rightarrow> f x s')"

text \<open>Run code that only reads the state; update the state; test a condition.\<close>

definition askS :: "('s \<Rightarrow> 'a result) \<Rightarrow> ('s, 'a) operation" where
  "askS f s = (f s, s)"

definition modS :: "('s \<Rightarrow> 's) \<Rightarrow> ('s, unit) operation" where
  "modS f s = (Inr (), f s)"

definition ensureS :: "bool \<Rightarrow> error \<Rightarrow> ('s, unit) operation" where
  "ensureS b e s = (if b then Inr () else Inl e, s)"

text \<open>
  Catch an error, as \<open>match op { Ok(x) => .., Err(e) => .. }\<close> does. A panic is not an \<open>Err\<close>, nor
  is a loop that does not end.
\<close>

definition is_err :: "error \<Rightarrow> bool" where
  "is_err e \<longleftrightarrow> e \<noteq> Panic \<and> e \<noteq> Diverges"

definition matchS ::
  "('s, 'a) operation \<Rightarrow> ('a \<Rightarrow> ('s, 'b) operation) \<Rightarrow> (error \<Rightarrow> ('s, 'b) operation)
    \<Rightarrow> ('s, 'b) operation" where
  "matchS m f h s =
     (case m s of (Inl e, s') \<Rightarrow> if is_err e then h e s' else (Inl e, s') | (Inr x, s') \<Rightarrow> f x s')"

text \<open>Run an operation for every element, stopping at the first error.\<close>

fun forS :: "('a \<Rightarrow> ('s, unit) operation) \<Rightarrow> 'a list \<Rightarrow> ('s, unit) operation" where
  "forS f [] = retS ()"
| "forS f (x # xs) = bindS (f x) (\<lambda>_. forS f xs)"

text \<open>The same with a value carried from one element to the next.\<close>

fun foldS :: "('a \<Rightarrow> 'b \<Rightarrow> ('s, 'b) operation) \<Rightarrow> 'a list \<Rightarrow> 'b \<Rightarrow> ('s, 'b) operation" where
  "foldS f [] b = retS b"
| "foldS f (x # xs) b = bindS (f x b) (foldS f xs)"

lemma retS_run [simp]: "retS x s = (Inr x, s)"
  by (simp add: retS_def)

lemma failS_run [simp]: "failS e s = (Inl e, s)"
  by (simp add: failS_def)

lemma bindS_Inl: "m s = (Inl e, s') \<Longrightarrow> bindS m f s = (Inl e, s')"
  by (simp add: bindS_def)

lemma bindS_Inr: "m s = (Inr x, s') \<Longrightarrow> bindS m f s = f x s'"
  by (simp add: bindS_def)

lemma bindS_okE:
  assumes "bindS m f s = (Inr y, s'')"
  obtains x s' where "m s = (Inr x, s')" and "f x s' = (Inr y, s'')"
  using assms by (auto simp: bindS_def split: prod.splits sum.splits)

lemma bindS_retS [simp]: "bindS (retS x) f s = f x s"
  by (simp add: bindS_def)

lemma bindS_failS [simp]: "bindS (failS e) f s = (Inl e, s)"
  by (simp add: bindS_def)

lemma bindS_modS [simp]: "bindS (modS h) f s = f () (h s)"
  by (simp add: bindS_def modS_def)

lemma bindS_ensureS [simp]: "bindS (ensureS b e) f s = (if b then f () s else (Inl e, s))"
  by (simp add: bindS_def ensureS_def)

lemma bindS_askS [simp]:
  "bindS (askS r) f s = (case r s of Inl e \<Rightarrow> (Inl e, s) | Inr x \<Rightarrow> f x s)"
  by (simp add: bindS_def askS_def split: sum.split)

lemma askS_ok: "askS f s = (Inr x, s') \<longleftrightarrow> f s = Inr x \<and> s' = s"
  by (auto simp: askS_def)

lemma modS_run [simp]: "modS f s = (Inr (), f s)"
  by (simp add: modS_def)

lemma ensureS_ok: "ensureS b e s = (Inr u, s') \<longleftrightarrow> b \<and> s' = s"
  by (auto simp: ensureS_def)

lemma bindS_cong [fundef_cong]:
  assumes "m s = m' s'" and "s = s'"
    and "\<And>x t. m' s' = (Inr x, t) \<Longrightarrow> f x t = f' x t"
  shows "bindS m f s = bindS m' f' s'"
  using assms by (cases "m' s'") (auto simp: bindS_def split: sum.splits)

text \<open>An invariant of the state that an operation keeps, whether it succeeds or fails.\<close>

definition keeps :: "('s \<Rightarrow> bool) \<Rightarrow> ('s, 'a) operation \<Rightarrow> bool" where
  "keeps P m \<longleftrightarrow> (\<forall>s. P s \<longrightarrow> P (snd (m s)))"

lemma keepsI: "(\<And>s. P s \<Longrightarrow> P (snd (m s))) \<Longrightarrow> keeps P m"
  by (simp add: keeps_def)

lemma keepsD: "keeps P m \<Longrightarrow> P s \<Longrightarrow> m s = (r, s') \<Longrightarrow> P s'"
  by (force simp: keeps_def)

named_theorems keeps_intros "operations that keep a state invariant"

lemma keeps_retS [keeps_intros]: "keeps P (retS x)"
  by (simp add: keeps_def)

lemma keeps_failS [keeps_intros]: "keeps P (failS e)"
  by (simp add: keeps_def)

lemma keeps_askS [keeps_intros]: "keeps P (askS f)"
  by (simp add: keeps_def askS_def)

lemma keeps_ensureS [keeps_intros]: "keeps P (ensureS b e)"
  by (simp add: keeps_def ensureS_def)

lemma keeps_bindS [keeps_intros]:
  assumes "keeps P m" and "\<And>x. keeps P (f x)"
  shows "keeps P (bindS m f)"
proof (rule keepsI)
  fix s assume "P s"
  show "P (snd (bindS m f s))"
  proof (cases "m s")
    case (Pair r s')
    have "P s'" by (rule keepsD [OF assms(1) \<open>P s\<close> Pair])
    with Pair assms(2) show ?thesis
      by (cases r) (auto simp: bindS_def keeps_def)
  qed
qed

lemma keeps_matchS [keeps_intros]:
  assumes "keeps P m" and "\<And>x. keeps P (f x)" and "\<And>e. keeps P (h e)"
  shows "keeps P (matchS m f h)"
proof (rule keepsI)
  fix s assume "P s"
  show "P (snd (matchS m f h s))"
  proof (cases "m s")
    case (Pair r s')
    have "P s'" by (rule keepsD [OF assms(1) \<open>P s\<close> Pair])
    with Pair assms(2,3) show ?thesis
      by (cases r) (auto simp: matchS_def keeps_def)
  qed
qed

lemma keeps_forS [keeps_intros]: "(\<And>x. keeps P (f x)) \<Longrightarrow> keeps P (forS f xs)"
  by (induction xs) (auto intro: keeps_intros)

lemma keeps_modS: "(\<And>s. P s \<Longrightarrow> P (f s)) \<Longrightarrow> keeps P (modS f)"
  by (simp add: keeps_def)

lemma keeps_if [keeps_intros]:
  "(b \<Longrightarrow> keeps P m) \<Longrightarrow> (\<not> b \<Longrightarrow> keeps P m') \<Longrightarrow> keeps P (if b then m else m')"
  by simp

lemma keeps_case_prod [keeps_intros]: "(\<And>a b. keeps P (f a b)) \<Longrightarrow> keeps P (case p of (a, b) \<Rightarrow> f a b)"
  by (cases p) simp

lemma keeps_case_prod_app [keeps_intros]:
  "(\<And>a b. keeps P (f a b x)) \<Longrightarrow> keeps P ((case p of (a, b) \<Rightarrow> f a b) x)"
  by (cases p) simp

lemma keeps_case_option [keeps_intros]:
  "keeps P m \<Longrightarrow> (\<And>x. keeps P (f x)) \<Longrightarrow> keeps P (case r of None \<Rightarrow> m | Some x \<Rightarrow> f x)"
  by (cases r) simp_all

lemma keeps_case_list [keeps_intros]:
  "keeps P m \<Longrightarrow> (\<And>x xs. keeps P (f x xs)) \<Longrightarrow> keeps P (case r of [] \<Rightarrow> m | x # xs \<Rightarrow> f x xs)"
  by (cases r) simp_all

lemma keeps_case_sum [keeps_intros]:
  "(\<And>e. keeps P (h e)) \<Longrightarrow> (\<And>x. keeps P (f x)) \<Longrightarrow> keeps P (case r of Inl e \<Rightarrow> h e | Inr x \<Rightarrow> f x)"
  by (cases r) simp_all

lemma keeps_Let [keeps_intros]: "(\<And>x. keeps P (f x)) \<Longrightarrow> keeps P (let x = v in f x)"
  by simp

lemma keeps_foldS [keeps_intros]: "(\<And>x b. keeps P (f x b)) \<Longrightarrow> keeps P (foldS f xs b)"
  by (induction xs arbitrary: b) (auto intro: keeps_intros)

text \<open>An error that an operation never ends in.\<close>

definition never :: "error \<Rightarrow> ('s, 'a) operation \<Rightarrow> bool" where
  "never e m \<longleftrightarrow> (\<forall>s. fst (m s) \<noteq> Inl e)"

named_theorems never_intros "operations that never end in an error"

lemma neverD: "never e m \<Longrightarrow> m s \<noteq> (Inl e, s')"
  by (metis never_def fst_conv)

lemma never_retS [never_intros]: "never e (retS x)"
  by (simp add: never_def)

lemma never_failS [never_intros]: "e' \<noteq> e \<Longrightarrow> never e (failS e')"
  by (simp add: never_def)

lemma never_askS: "(\<And>s. f s \<noteq> Inl e) \<Longrightarrow> never e (askS f)"
  by (simp add: never_def askS_def)

lemma never_modS [never_intros]: "never e (modS f)"
  by (simp add: never_def)

lemma never_ensureS [never_intros]: "e' \<noteq> e \<Longrightarrow> never e (ensureS b e')"
  by (simp add: never_def ensureS_def)

lemma never_bindS [never_intros]:
  "never e m \<Longrightarrow> (\<And>x. never e (f x)) \<Longrightarrow> never e (bindS m f)"
  unfolding never_def bindS_def by (auto split: prod.splits sum.splits) (metis fst_conv)+

lemma never_forS [never_intros]: "(\<And>x. never e (f x)) \<Longrightarrow> never e (forS f xs)"
  by (induction xs) (auto intro: never_intros)

lemma never_if [never_intros]:
  "(b \<Longrightarrow> never e m) \<Longrightarrow> (\<not> b \<Longrightarrow> never e m') \<Longrightarrow> never e (if b then m else m')"
  by simp

lemma never_Let [never_intros]: "(\<And>x. never e (f x)) \<Longrightarrow> never e (let x = v in f x)"
  by simp

lemma never_case_prod [never_intros]: "(\<And>a b. never e (f a b)) \<Longrightarrow> never e (case p of (a, b) \<Rightarrow> f a b)"
  by (cases p) simp

lemma never_case_option [never_intros]:
  "never e m \<Longrightarrow> (\<And>x. never e (f x)) \<Longrightarrow> never e (case r of None \<Rightarrow> m | Some x \<Rightarrow> f x)"
  by (cases r) simp_all

lemma guardR_neq: "e' \<noteq> e \<Longrightarrow> m \<noteq> Inl e \<Longrightarrow> guardR b e' m \<noteq> Inl e"
  by (simp add: guardR_def)

lemma prefixR_Diverges: "r \<noteq> Inl Diverges \<Longrightarrow> prefixR p r \<noteq> Inl Diverges"
  by (cases r) (auto elim: prefix_err.elims)

subsection \<open>Lists\<close>

lemma map_nth_take_drop:
  "off + n \<le> length b \<Longrightarrow> map ((!) b) [off..<off + n] = take n (drop off b)"
  by (rule nth_equalityI) auto

lemma take_drop_append_left:
  "off + n \<le> length xs \<Longrightarrow> take n (drop off (xs @ ys)) = take n (drop off xs)"
  by (simp add: take_drop)

subsection \<open>Words\<close>

lemma unat_ucast_mod:
  "unat (ucast w :: 'b::len word) = unat (w :: 'a::len word) mod 2 ^ LENGTH('b)"
  by (simp add: unsigned_ucast_eq take_bit_eq_mod)

lemma unat_ucast_small:
  "unat (w :: 'a::len word) < 2 ^ LENGTH('b) \<Longrightarrow> unat (ucast w :: 'b::len word) = unat w"
  by (simp add: unat_ucast_mod)

lemma unat_bound: "unat (w :: 'a::len word) < 2 ^ LENGTH('a)"
  by (rule unsigned_less)

lemma unat_ucast_up [simp]:
  "unat (ucast (w :: u32) :: u64) = unat w"
  "unat (ucast (h :: u16) :: u32) = unat h"
  "unat (ucast (h :: u16) :: u64) = unat h"
  using unat_bound [of w] unat_bound [of h] by (simp_all add: unat_ucast_mod)

lemma of_nat_u32_eq:
  "m < 2 ^ 32 \<Longrightarrow> n < 2 ^ 32 \<Longrightarrow> (of_nat m :: u32) = of_nat n \<longleftrightarrow> m = n"
  by (simp add: word_unat_eq_iff unat_of_nat)

lemma word_less_Suc:
  assumes "(w :: u64) \<noteq> - 1"
  shows "w < w + 1"
proof -
  have "unat (- 1 :: u64) = 2 ^ 64 - 1" by (simp add: unsigned_minus_1_eq_mask mask_eq_exp_minus_1)
  then have "unat w \<noteq> 2 ^ 64 - 1" using assms by (metis word_unat_eq_iff)
  moreover have "unat w < 2 ^ 64" using unat_bound [of w] by simp
  ultimately show ?thesis by (simp add: word_less_nat_alt unat_word_ariths)
qed

lemma take_bit_self: "x < (2 ^ n :: 'a::len word) \<Longrightarrow> take_bit n x = x"
  by (simp add: take_bit_eq_mask less_mask_eq)

end
