(* ===== verification/Bytes.thy ===== *)
theory Bytes
  imports Prelude
begin

text \<open>
  The byte layer of \<open>src/fmt.rs\<close> (lines 60-116): big-endian integers in a buffer, the
  CRC32C of a buffer with its checksum field taken as zero, and the 2-bit state arrays that
  every refinement structure of the format uses. A buffer is a list of bytes. The getters
  and setters are total functions; a Rust slice that would be out of range panics, and the
  definitions that can reach such a slice test for it themselves.
\<close>

unbundle bit_operations_syntax

type_synonym buffer = "u8 list"

subsection \<open>Slices\<close>

definition get_bytes :: "buffer \<Rightarrow> nat \<Rightarrow> nat \<Rightarrow> buffer" where
  "get_bytes b off n = take n (drop off b)"

definition put_bytes :: "buffer \<Rightarrow> nat \<Rightarrow> buffer \<Rightarrow> buffer" where
  "put_bytes b off xs = take off b @ xs @ drop (off + length xs) b"

named_theorems layout "reading a buffer after a write to it"

lemma length_put_bytes [layout]:
  "off + length xs \<le> length b \<Longrightarrow> length (put_bytes b off xs) = length b"
  by (simp add: put_bytes_def)

lemma drop_put_bytes: "off + length xs \<le> n \<Longrightarrow> off + length xs \<le> length b \<Longrightarrow> drop n (put_bytes b off xs) = drop n b"
  by (simp add: put_bytes_def)

lemma length_get_bytes: "off + n \<le> length b \<Longrightarrow> length (get_bytes b off n) = n"
  by (simp add: get_bytes_def)

lemma get_put_same [layout]:
  "off + length xs \<le> length b \<Longrightarrow> n = length xs \<Longrightarrow> get_bytes (put_bytes b off xs) off n = xs"
  by (simp add: get_bytes_def put_bytes_def)

lemma nth_put_bytes:
  assumes "off + length xs \<le> length b" and "i < length b"
  shows "put_bytes b off xs ! i = (if off \<le> i \<and> i < off + length xs then xs ! (i - off) else b ! i)"
  using assms by (auto simp: put_bytes_def nth_append min_def)

lemma get_put_other [layout]:
  assumes "off + length xs \<le> length b" and "o2 + n \<le> off \<or> off + length xs \<le> o2"
  shows "get_bytes (put_bytes b off xs) o2 n = get_bytes b o2 n"
proof (rule nth_equalityI)
  show "length (get_bytes (put_bytes b off xs) o2 n) = length (get_bytes b o2 n)"
    using assms(1) by (simp add: get_bytes_def length_put_bytes)
next
  fix i assume "i < length (get_bytes (put_bytes b off xs) o2 n)"
  then have i: "i < n" "o2 + i < length b"
    using assms(1) by (auto simp: get_bytes_def length_put_bytes)
  then have "get_bytes (put_bytes b off xs) o2 n ! i = put_bytes b off xs ! (o2 + i)"
    using assms(1) by (simp add: get_bytes_def length_put_bytes)
  also have "\<dots> = b ! (o2 + i)"
    using assms i by (auto simp: nth_put_bytes)
  also have "\<dots> = get_bytes b o2 n ! i"
    using i by (simp add: get_bytes_def)
  finally show "get_bytes (put_bytes b off xs) o2 n ! i = get_bytes b o2 n ! i" .
qed

lemma nth_put_other [layout]:
  assumes "off + length xs \<le> length b" and "i < off \<or> off + length xs \<le> i" and "i < length b"
  shows "put_bytes b off xs ! i = b ! i"
  using assms by (auto simp: nth_put_bytes)

lemma get_bytes_append_left:
  "off + n \<le> length b \<Longrightarrow> get_bytes (b @ c) off n = get_bytes b off n"
  by (simp add: get_bytes_def)

lemma get_bytes_take:
  "off + n \<le> m \<Longrightarrow> get_bytes (take m b) off n = get_bytes b off n"
  by (simp add: get_bytes_def drop_take min_def)

lemma get_bytes_list_update_other [layout]:
  "i < off \<or> off + n \<le> i \<Longrightarrow> get_bytes (b[i := v]) off n = get_bytes b off n"
  by (auto simp: get_bytes_def drop_update_swap)

text \<open>
  A buffer that is filled from the front: a known prefix \<open>P\<close> and \<open>k\<close> zero bytes. Writing at
  or past the end of the prefix extends the prefix, so that an encoder that writes its fields
  in ascending order becomes the concatenation of its fields.
\<close>

definition pad :: "buffer \<Rightarrow> nat \<Rightarrow> buffer" where
  "pad P k = P @ replicate k 0"

lemma pad_start: "replicate k 0 = pad [] k"
  by (simp add: pad_def)

lemma length_pad [simp]: "length (pad P k) = length P + k"
  by (simp add: pad_def)

lemma put_pad:
  assumes "length P \<le> off" and "off + length xs \<le> length P + k"
  shows "put_bytes (pad P k) off xs
           = pad (P @ replicate (off - length P) 0 @ xs) (k - (off - length P) - length xs)"
  using assms by (auto simp: put_bytes_def pad_def min_def)

text \<open>Reading a concatenation of fields.\<close>

named_theorems fields "reading a field of a concatenation"

lemma get_bytes_skip [fields]:
  "length xs \<le> off \<Longrightarrow> get_bytes (xs @ r) off n = get_bytes r (off - length xs) n"
  by (simp add: get_bytes_def)

lemma get_bytes_hit [fields]:
  "n = length xs \<Longrightarrow> get_bytes (xs @ r) 0 n = xs"
  by (simp add: get_bytes_def)

lemma get_bytes_last [fields]:
  "n = length xs \<Longrightarrow> get_bytes xs 0 n = xs"
  by (simp add: get_bytes_def)

lemma put_bytes_front:
  "length xs = length ys \<Longrightarrow> off = length P \<Longrightarrow> put_bytes (P @ xs @ r) off ys = P @ ys @ r"
  by (simp add: put_bytes_def)

subsection \<open>Big-endian integers\<close>

definition to_be :: "nat \<Rightarrow> 'a::len word \<Rightarrow> buffer" where
  "to_be n w = map (\<lambda>i. ucast (drop_bit (8 * (n - 1 - i)) w)) [0..<n]"

definition from_be :: "buffer \<Rightarrow> 'a::len word" where
  "from_be bs = foldl (\<lambda>a b. push_bit 8 a OR ucast b) 0 bs"

lemma length_to_be [simp]: "length (to_be n w) = n"
  by (simp add: to_be_def)

lemma bit_from_be:
  "bit (from_be bs :: 'a::len word) k \<longleftrightarrow>
     k < LENGTH('a) \<and> k < 8 * length bs \<and> bit (rev bs ! (k div 8)) (k mod 8)"
proof (induction bs arbitrary: k rule: rev_induct)
  case Nil
  then show ?case by (simp add: from_be_def)
next
  case (snoc b bs)
  have step: "(from_be (bs @ [b]) :: 'a word) = push_bit 8 (from_be bs) OR ucast b"
    by (simp add: from_be_def)
  show ?case
  proof (cases "k < 8")
    case True
    then show ?thesis
      by (auto simp: step bit_simps)
  next
    case False
    then obtain j where k: "k = j + 8"
      by (metis add.commute le_Suc_ex not_less)
    have "bit (from_be (bs @ [b]) :: 'a word) k \<longleftrightarrow> k < LENGTH('a) \<and> bit (from_be bs :: 'a word) j"
      using k by (auto simp: step bit_simps dest: bit_imp_le_length)
    moreover have "(j + 8) div 8 = Suc (j div 8)" "(j + 8) mod 8 = j mod 8"
      by simp_all
    ultimately show ?thesis
      using k by (simp only: snoc.IH) auto
  qed
qed

lemma from_be_to_be:
  assumes "LENGTH('a) = 8 * n"
  shows "from_be (to_be n (w :: 'a::len word)) = w"
proof (rule bit_word_eqI)
  fix k assume "k < LENGTH('a)"
  with assms have k: "k < 8 * n" by simp
  then have j: "k div 8 < n" by auto
  then have "rev (to_be n w) ! (k div 8) = ucast (drop_bit (8 * (k div 8)) w)"
    by (simp add: to_be_def rev_nth)
  then show "bit (from_be (to_be n w) :: 'a word) k = bit w k"
    using k \<open>k < LENGTH('a)\<close> by (simp add: bit_from_be bit_simps)
qed

lemma to_be_from_be:
  assumes "length bs = n" and "8 * n \<le> LENGTH('a)"
  shows "to_be n (from_be bs :: 'a::len word) = bs"
proof (rule nth_equalityI)
  show "length (to_be n (from_be bs :: 'a word)) = length bs"
    using assms by simp
next
  fix i assume "i < length (to_be n (from_be bs :: 'a word))"
  then have i: "i < n" by simp
  show "to_be n (from_be bs :: 'a word) ! i = bs ! i"
  proof (rule bit_word_eqI)
    fix k assume "k < LENGTH(8)"
    then have k: "k < 8" by simp
    define p where "p = n - Suc i"
    have p: "p < n" "(8 * p + k) div 8 = p" "(8 * p + k) mod 8 = k" "8 * p + k < 8 * n"
      using i k by (auto simp: p_def)
    have "rev bs ! p = bs ! i"
      using i assms(1) by (simp add: rev_nth p_def)
    then show "bit (to_be n (from_be bs :: 'a word) ! i) k = bit (bs ! i) k"
      using i k p assms by (simp add: to_be_def bit_simps bit_from_be flip: p_def)
  qed
qed

definition put_u16 :: "buffer \<Rightarrow> nat \<Rightarrow> u16 \<Rightarrow> buffer" where
  "put_u16 b off v = put_bytes b off (to_be 2 v)"

definition put_u32 :: "buffer \<Rightarrow> nat \<Rightarrow> u32 \<Rightarrow> buffer" where
  "put_u32 b off v = put_bytes b off (to_be 4 v)"

definition put_u64 :: "buffer \<Rightarrow> nat \<Rightarrow> u64 \<Rightarrow> buffer" where
  "put_u64 b off v = put_bytes b off (to_be 8 v)"

definition put_i64 :: "buffer \<Rightarrow> nat \<Rightarrow> i64 \<Rightarrow> buffer" where
  "put_i64 b off v = put_bytes b off (to_be 8 v)"

definition get_u16 :: "buffer \<Rightarrow> nat \<Rightarrow> u16" where
  "get_u16 b off = from_be (get_bytes b off 2)"

definition get_u32 :: "buffer \<Rightarrow> nat \<Rightarrow> u32" where
  "get_u32 b off = from_be (get_bytes b off 4)"

definition get_u64 :: "buffer \<Rightarrow> nat \<Rightarrow> u64" where
  "get_u64 b off = from_be (get_bytes b off 8)"

definition get_i64 :: "buffer \<Rightarrow> nat \<Rightarrow> i64" where
  "get_i64 b off = from_be (get_bytes b off 8)"

lemmas put_int_defs = put_u16_def put_u32_def put_u64_def put_i64_def
lemmas get_int_defs = get_u16_def get_u32_def get_u64_def get_i64_def

lemma from_be_to_be_ints [simp]:
  "from_be (to_be 2 (a :: u16)) = a"
  "from_be (to_be 4 (b :: u32)) = b"
  "from_be (to_be 8 (c :: u64)) = c"
  by (rule from_be_to_be, simp)+

subsection \<open>The checksum of a buffer\<close>

text \<open>
  \<open>crc32c_append\<close> is the function of the crate crc32c, a parameter of the model;
  \<open>crc32c d\<close> is \<open>crc32c_append 0 d\<close> by the crate's documentation.
\<close>

type_synonym crc_fun = "u32 \<Rightarrow> buffer \<Rightarrow> u32"

definition csum :: "crc_fun \<Rightarrow> buffer \<Rightarrow> nat \<Rightarrow> u32" where
  "csum crc32c_append buf csum_off =
     (let c = crc32c_append 0 (take csum_off buf);
          c = crc32c_append c [0, 0, 0, 0]
      in crc32c_append c (drop (csum_off + 4) buf))"

text \<open>The checksum does not see its own field.\<close>

lemma csum_put_field:
  assumes "off + 4 \<le> length b"
  shows "csum crc (put_u32 b off c) off = csum crc b off"
  using assms by (simp add: csum_def put_u32_def put_bytes_def)

text \<open>Sealing a buffer (storing its checksum at offset 4) and verifying it.\<close>

definition seal :: "crc_fun \<Rightarrow> buffer \<Rightarrow> buffer" where
  "seal crc b = put_u32 b 4 (csum crc b 4)"

lemma seal_verifies:
  assumes "8 \<le> length b"
  shows "get_u32 (seal crc b) 4 = csum crc (seal crc b) 4"
proof -
  have "csum crc (seal crc b) 4 = csum crc b 4"
    using assms by (simp add: seal_def csum_put_field)
  moreover have "get_u32 (seal crc b) 4 = csum crc b 4"
    using assms by (simp add: seal_def get_u32_def put_u32_def layout)
  ultimately show ?thesis by simp
qed

text \<open>A sealed buffer whose checksum field was still zero.\<close>

lemma seal_fields:
  "length M = 4 \<Longrightarrow> seal crc (M @ replicate 4 0 @ r) = M @ to_be 4 (csum crc (M @ replicate 4 0 @ r) 4) @ r"
  unfolding seal_def put_u32_def by (rule put_bytes_front) simp_all

lemma length_seal [simp]: "8 \<le> length b \<Longrightarrow> length (seal crc b) = length b"
  by (simp add: seal_def put_u32_def layout)

lemma get_bytes_seal [layout]:
  "8 \<le> length b \<Longrightarrow> off + n \<le> 4 \<or> 8 \<le> off \<Longrightarrow> get_bytes (seal crc b) off n = get_bytes b off n"
  unfolding seal_def put_u32_def by (subst get_put_other) auto

lemma nth_seal [layout]:
  "8 \<le> length b \<Longrightarrow> i < 4 \<or> 8 \<le> i \<Longrightarrow> i < length b \<Longrightarrow> seal crc b ! i = b ! i"
  unfolding seal_def put_u32_def by (subst nth_put_other) auto

subsection \<open>2-bit state arrays\<close>

abbreviation CELL_FREE :: u8 where "CELL_FREE \<equiv> 0"
abbreviation CELL_RSVD :: u8 where "CELL_RSVD \<equiv> 1"
abbreviation CELL_FULL :: u8 where "CELL_FULL \<equiv> 2"
abbreviation CELL_REFINED :: u8 where "CELL_REFINED \<equiv> 3"

definition cell_get :: "buffer \<Rightarrow> nat \<Rightarrow> u8" where
  "cell_get buf idx = drop_bit (2 * (idx mod 4)) (buf ! (idx div 4)) AND 3"

definition cell_set :: "buffer \<Rightarrow> nat \<Rightarrow> u8 \<Rightarrow> buffer" where
  "cell_set buf idx state =
     (let i = idx div 4; sh = 2 * (idx mod 4)
      in buf[i := (buf ! i AND NOT (push_bit sh 3)) OR push_bit sh (state AND 3)])"

lemma length_cell_set [simp]: "length (cell_set b i st) = length b"
  by (simp add: cell_set_def Let_def)

text \<open>
  The contract every state array of the format offers, whatever it is stored in: setting a
  cell changes that cell and no other. The clients of the contract set runs of cells and
  keep counts of cells in a state.
\<close>

locale cell_array =
  fixes cget :: "'b \<Rightarrow> nat \<Rightarrow> u8"
    and cset :: "'b \<Rightarrow> nat \<Rightarrow> u8 \<Rightarrow> 'b"
    and cells :: "'b \<Rightarrow> nat"
  assumes get_set_same: "i < cells b \<Longrightarrow> st < 4 \<Longrightarrow> cget (cset b i st) i = st"
    and get_set_other: "i < cells b \<Longrightarrow> j < cells b \<Longrightarrow> i \<noteq> j \<Longrightarrow> cget (cset b i st) j = cget b j"
    and cells_set: "i < cells b \<Longrightarrow> cells (cset b i st) = cells b"
begin

lemma get_set:
  "i < cells b \<Longrightarrow> j < cells b \<Longrightarrow> st < 4 \<Longrightarrow> cget (cset b i st) j = (if i = j then st else cget b j)"
  by (simp add: get_set_same get_set_other)

lemma cells_fold_set:
  "hi \<le> cells b \<Longrightarrow> cells (fold (\<lambda>i b. cset b i st) [lo..<hi] b) = cells b"
  by (induction hi) (auto simp: cells_set)

lemma get_fold_set:
  assumes "hi \<le> cells b" and "st < 4" and "j < cells b"
  shows "cget (fold (\<lambda>i b. cset b i st) [lo..<hi] b) j = (if lo \<le> j \<and> j < hi then st else cget b j)"
  using assms
proof (induction hi)
  case 0
  then show ?case by simp
next
  case (Suc hi)
  then show ?case by (auto simp: get_set cells_fold_set)
qed

text \<open>The number of cells in a state follows every change of one cell.\<close>

lemma count_set_to:
  assumes "i < cells b" and "st < 4" and "cget b i \<noteq> st"
  shows "card {j. j < cells (cset b i st) \<and> cget (cset b i st) j = st}
           = Suc (card {j. j < cells b \<and> cget b j = st})"
proof -
  have "{j. j < cells (cset b i st) \<and> cget (cset b i st) j = st}
          = insert i {j. j < cells b \<and> cget b j = st}"
    using assms by (auto simp: cells_set get_set)
  then show ?thesis using assms by simp
qed

lemma count_set_from:
  assumes "i < cells b" and "st < 4" and "cget b i \<noteq> st"
  shows "Suc (card {j. j < cells (cset b i st) \<and> cget (cset b i st) j = cget b i})
           = card {j. j < cells b \<and> cget b j = cget b i}"
proof -
  have "{j. j < cells b \<and> cget b j = cget b i}
          = insert i {j. j < cells (cset b i st) \<and> cget (cset b i st) j = cget b i}"
    using assms by (auto simp: cells_set get_set split: if_splits)
  then show ?thesis using assms by (simp add: cells_set get_set)
qed

end

lemma mod4_cases: "(k::nat) mod 4 = 0 \<or> k mod 4 = 1 \<or> k mod 4 = 2 \<or> k mod 4 = 3"
  by auto

lemma u8_less_4_iff: "(x::u8) < 4 \<longleftrightarrow> (\<forall>k. 2 \<le> k \<longrightarrow> \<not> bit x k)"
proof -
  have "x < 4 \<longleftrightarrow> take_bit 2 x = x"
    by (simp add: word_less_nat_alt take_bit_eq_self_iff_drop_bit_eq_0 drop_bit_eq_div
        div_word_self word_eq_iff_unsigned unat_div div_eq_0_iff flip: unat_eq_zero)
  also have "\<dots> \<longleftrightarrow> (\<forall>k. 2 \<le> k \<longrightarrow> \<not> bit x k)"
  proof
    assume eq: "take_bit 2 x = x"
    show "\<forall>k. 2 \<le> k \<longrightarrow> \<not> bit x k"
      by (subst eq [symmetric]) (simp add: bit_take_bit_iff)
  next
    assume "\<forall>k. 2 \<le> k \<longrightarrow> \<not> bit x k"
    then show "take_bit 2 x = x"
      by (intro bit_word_eqI) (auto simp: bit_take_bit_iff, meson not_less)
  qed
  finally show ?thesis .
qed

lemma bit_3_iff: "bit (3 :: u8) k \<longleftrightarrow> k < 2"
proof -
  have "mask 2 = (3 :: u8)" by (simp add: mask_eq_exp_minus_1)
  moreover have "bit (mask 2 :: u8) k \<longleftrightarrow> k < 2" by (subst bit_mask_iff) auto
  ultimately show ?thesis by (simp only:)
qed

lemma bit_cell_get:
  "bit (cell_get b i) k \<longleftrightarrow> k < 2 \<and> bit (b ! (i div 4)) (2 * (i mod 4) + k)"
  by (auto simp: cell_get_def bit_and_iff bit_drop_bit_eq bit_3_iff add.commute
      simp del: bit_numeral_word_iff)

lemma cell_get_less_4: "cell_get b i < 4"
  by (simp add: u8_less_4_iff bit_cell_get)

text \<open>The bits of a byte after one of its four cells is written.\<close>

lemma bit_cell_byte:
  fixes x st :: u8
  shows "bit ((x AND NOT (push_bit (2 * p) 3)) OR push_bit (2 * p) (st AND 3)) m \<longleftrightarrow>
    (if 2 * p \<le> m \<and> m < 2 * p + 2 then m < 8 \<and> bit st (m - 2 * p) else bit x m)"
proof (cases "m < 8")
  case True
  have "m - 2 * p < 2 \<longleftrightarrow> m < 2 * p + 2" if "2 * p \<le> m" using that by arith
  with True show ?thesis
    by (auto simp: bit_or_iff bit_and_iff bit_not_iff bit_push_bit_iff bit_3_iff
        simp del: bit_numeral_word_iff)
next
  case False
  then show ?thesis by (auto dest: bit_imp_le_length)
qed

lemma cell_get_set_same:
  assumes "i < 4 * length b" and "st < 4"
  shows "cell_get (cell_set b i st) i = st"
proof (rule bit_word_eqI)
  fix k assume "k < LENGTH(8)"
  have "i div 4 < length b" using assms(1) by auto
  moreover have "2 * (i mod 4) + k < 8" if "k < 2" using that mod4_cases [of i] by auto
  ultimately show "bit (cell_get (cell_set b i st) i) k = bit st k"
    using assms(2) unfolding u8_less_4_iff cell_set_def Let_def bit_cell_get
    by (simp only: nth_list_update_eq bit_cell_byte) (auto simp: not_less)
qed

lemma cell_get_set_other:
  assumes "i < 4 * length b" and "i \<noteq> j"
  shows "cell_get (cell_set b i st) j = cell_get b j"
proof (cases "i div 4 = j div 4")
  case True
  define p q where "p = i mod 4" and "q = j mod 4"
  have "p \<noteq> q" unfolding p_def q_def using assms(2) True by (metis div_mult_mod_eq)
  then have disj: "\<not> (2 * p \<le> 2 * q + k \<and> 2 * q + k < 2 * p + 2)" if "k < 2" for k
    using that by arith
  have "j div 4 < length b" using assms(1) True by auto
  with True disj show ?thesis
    unfolding cell_set_def Let_def
    by (intro bit_word_eqI)
      (simp add: bit_cell_get bit_cell_byte del: push_bit_and flip: p_def q_def, blast)
next
  case False
  then show ?thesis
    by (simp add: cell_get_def cell_set_def Let_def)
qed

interpretation cells: cell_array cell_get cell_set "\<lambda>b. 4 * length b"
  by unfold_locales (auto simp: cell_get_set_same cell_get_set_other)

end
