(* ===== verification/Text.thy ===== *)
theory Text
  imports Prelude
begin

text \<open>
  The standard-library string operations the library uses on file names and labels:
  \<open>str::encode_utf16\<close> and \<open>String::from_utf16_lossy\<close>. Names are compared and hashed as
  UTF-16 on disk and as \<open>String\<close>s in memory, so the directory code is only right because
  decoding an encoded name gives the name back.
\<close>

unbundle bit_operations_syntax

text \<open>A Rust \<open>char\<close> is a Unicode scalar value: any code point but a surrogate.\<close>

definition scalar :: "u32 \<Rightarrow> bool" where
  "scalar c \<longleftrightarrow> c < 0xD800 \<or> (0xE000 \<le> c \<and> c \<le> 0x10FFFF)"

definition rstring_ok :: "rstring \<Rightarrow> bool" where
  "rstring_ok s \<longleftrightarrow> list_all scalar s"

definition utf16_char :: "u32 \<Rightarrow> u16 list" where
  "utf16_char c =
     (if c < 0x10000 then [ucast c]
      else let code = c - 0x10000
           in [0xD800 OR ucast (drop_bit 10 code), 0xDC00 OR (ucast code AND 0x3FF)])"

definition encode_utf16 :: "rstring \<Rightarrow> u16 list" where
  "encode_utf16 s = concat (map utf16_char s)"

definition surrogate_pair :: "u16 \<Rightarrow> u16 \<Rightarrow> u32" where
  "surrogate_pair u v =
     (push_bit 10 (ucast (u AND 0x3FF)) OR ucast (v AND 0x3FF)) + 0x10000"

fun from_utf16_lossy :: "u16 list \<Rightarrow> rstring" where
  "from_utf16_lossy [] = []"
| "from_utf16_lossy (u # us) =
     (if u < 0xD800 \<or> 0xDFFF < u then ucast u # from_utf16_lossy us
      else if 0xDC00 \<le> u then 0xFFFD # from_utf16_lossy us
      else case us of
             [] \<Rightarrow> [0xFFFD]
           | v # vs \<Rightarrow>
               if 0xDC00 \<le> v \<and> v \<le> 0xDFFF then surrogate_pair u v # from_utf16_lossy vs
               else 0xFFFD # from_utf16_lossy us)"

lemma encode_utf16_simps [simp]:
  "encode_utf16 [] = []"
  "encode_utf16 (c # s) = utf16_char c @ encode_utf16 s"
  by (simp_all add: encode_utf16_def)

text \<open>
  A surrogate carries ten bits of the offset code point: or-ing them into the surrogate
  base adds them, and masking gets them back.
\<close>

abbreviation mask10 :: u16 where "mask10 \<equiv> 0x3FF"

lemma mask10_eq: "mask10 = mask 10"
  by (simp add: mask_eq_exp_minus_1)

lemma mask10_self:
  assumes "x < (1024 :: u16)"
  shows "x AND mask10 = x"
proof -
  have "x < 2 ^ 10" using assms by simp
  then have "x AND mask 10 = x" by (rule less_mask_eq)
  then show ?thesis by (simp only: mask10_eq)
qed

lemma mask10_less: "(x AND mask10) < (1024 :: u16)"
proof -
  have "x AND mask10 \<le> mask10" by (rule word_and_le1)
  then show ?thesis by (rule le_less_trans) simp
qed

lemma surrogate_or:
  assumes "b AND mask10 = 0" and "x < (1024 :: u16)"
  shows "b OR x = b + x" and "(b OR x) AND mask10 = x"
proof -
  have "b AND x = (b AND mask10) AND x"
    using mask10_self [OF assms(2)] by (metis and.assoc and.commute)
  then have 0: "b AND x = 0" using assms(1) by simp
  then show "b OR x = b + x" by (simp add: disjunctive_add_eq_or)
  show "(b OR x) AND mask10 = x"
    using assms mask10_self by (simp add: bit.conj_disj_distrib2)
qed

lemma surrogate_range:
  assumes "x < (1024 :: u16)"
  shows "\<not> (0xD800 OR x) < 0xD800" "\<not> 0xDFFF < (0xD800 OR x)" "\<not> 0xDC00 \<le> (0xD800 OR x)"
    and "0xDC00 \<le> (0xDC00 OR x)" "(0xDC00 OR x) \<le> 0xDFFF"
proof -
  have "unat x < 1024" using assms by (simp add: word_less_nat_alt)
  moreover have "0xD800 OR x = 0xD800 + x" "0xDC00 OR x = 0xDC00 + x"
    by (rule surrogate_or(1), simp, rule assms)+
  ultimately show "\<not> (0xD800 OR x) < 0xD800" "\<not> 0xDFFF < (0xD800 OR x)" "\<not> 0xDC00 \<le> (0xD800 OR x)"
    "0xDC00 \<le> (0xDC00 OR x)" "(0xDC00 OR x) \<le> 0xDFFF"
    by (simp_all add: word_less_nat_alt word_le_nat_alt unat_word_ariths)
qed

text \<open>The offset of a supplementary code point has twenty bits.\<close>

lemma supplementary_bits:
  assumes "0x10000 \<le> c" and "c \<le> (0x10FFFF :: u32)"
  shows "c - 0x10000 < 2 ^ 20"
proof -
  have "unat (c - 0x10000) = unat c - 0x10000"
    using assms(1) by (simp add: unat_sub)
  then show ?thesis using assms by (simp add: word_less_nat_alt word_le_nat_alt)
qed

lemma bit_less_20:
  assumes "code < (2 ^ 20 :: u32)" and "bit code k"
  shows "k < 20"
proof -
  have "take_bit 20 code = code"
    using assms(1) by (rule take_bit_self)
  then show ?thesis using assms(2) by (metis bit_take_bit_iff)
qed

lemma high_part_less:
  assumes "code < (2 ^ 20 :: u32)"
  shows "(ucast (drop_bit 10 code) :: u16) < 1024"
proof -
  have "unat code < 2 ^ 20" using assms by (simp add: word_less_nat_alt)
  then have "unat code div 1024 < 1024" by (simp add: div_less_iff_less_mult)
  then show ?thesis
    by (simp add: word_less_nat_alt unat_ucast_mod unat_drop_bit_eq drop_bit_eq_div unat_div)
qed

lemma join_parts:
  assumes "code < (2 ^ 20 :: u32)"
  shows "push_bit 10 (ucast (ucast (drop_bit 10 code) :: u16)) OR ucast ((ucast code :: u16) AND mask10)
    = code"
proof (rule bit_word_eqI)
  fix k assume k: "k < LENGTH(32)"
  show "bit (push_bit 10 (ucast (ucast (drop_bit 10 code) :: u16)) OR
          ucast ((ucast code :: u16) AND mask10) :: u32) k = bit code k"
    using k bit_less_20 [OF assms, of k]
    by (auto simp: mask10_eq bit_or_iff bit_push_bit_iff bit_ucast_iff bit_drop_bit_eq bit_and_iff
        bit_mask_iff)
qed

lemma decode_pair:
  assumes "0x10000 \<le> c" and "c \<le> 0x10FFFF"
  shows "from_utf16_lossy (utf16_char c @ us) = c # from_utf16_lossy us"
proof -
  let ?code = "c - 0x10000" and ?b = "mask10"
  define hi lo :: u16 where "hi = ucast (drop_bit 10 ?code)" and "lo = ucast ?code AND mask10"
  have code: "?code < 2 ^ 20" using assms by (rule supplementary_bits)
  have hi: "hi < 1024" unfolding hi_def using code by (rule high_part_less)
  have lo: "lo < 1024" unfolding lo_def by (rule mask10_less)
  have "surrogate_pair (0xD800 OR hi) (0xDC00 OR lo)
      = (push_bit 10 (ucast hi) OR ucast lo) + 0x10000"
    unfolding surrogate_pair_def
    by (subst surrogate_or(2) [OF _ hi], simp, subst surrogate_or(2) [OF _ lo], simp, rule refl)
  also have "\<dots> = c"
    unfolding hi_def lo_def by (simp add: join_parts [OF code])
  finally have pair: "surrogate_pair (0xD800 OR hi) (0xDC00 OR lo) = c" .
  have "\<not> c < 0x10000" using assms(1) by simp
  then have "utf16_char c = [0xD800 OR hi, 0xDC00 OR lo]"
    by (simp add: utf16_char_def hi_def lo_def Let_def)
  then show ?thesis
    using surrogate_range [OF hi] surrogate_range [OF lo] pair by simp
qed

lemma decode_bmp:
  assumes "scalar c" and "c < 0x10000"
  shows "from_utf16_lossy (utf16_char c @ us) = c # from_utf16_lossy us"
proof -
  have u: "unat (ucast c :: u16) = unat c"
    using assms(2) by (simp add: unat_ucast_mod word_less_nat_alt)
  then have "(ucast c :: u16) < 0xD800 \<or> 0xDFFF < (ucast c :: u16)"
    using assms(1) by (auto simp: scalar_def word_less_nat_alt word_le_nat_alt)
  moreover have "ucast (ucast c :: u16) = c"
    using u by (simp add: word_unat_eq_iff unat_ucast_mod)
  ultimately show ?thesis using assms(2) by (simp add: utf16_char_def)
qed

lemma decode_char:
  assumes "scalar c"
  shows "from_utf16_lossy (utf16_char c @ us) = c # from_utf16_lossy us"
proof (cases "c < 0x10000")
  case True
  with assms show ?thesis by (rule decode_bmp)
next
  case False
  moreover have "c \<le> 0x10FFFF"
    using assms False by (auto simp: scalar_def word_less_nat_alt word_le_nat_alt)
  ultimately show ?thesis by (intro decode_pair) auto
qed

lemma utf16_roundtrip:
  "rstring_ok s \<Longrightarrow> from_utf16_lossy (encode_utf16 s) = s"
  by (induction s) (simp_all add: rstring_ok_def decode_char)

lemma encode_utf16_inj:
  "rstring_ok s \<Longrightarrow> rstring_ok t \<Longrightarrow> encode_utf16 s = encode_utf16 t \<longleftrightarrow> s = t"
  by (metis utf16_roundtrip)

end
