(* ===== verification/FmtSuper.thy ===== *)
theory FmtSuper
  imports Bytes Text
begin

text \<open>
  \<open>src/fmt.rs\<close>, first part: block addresses, the superblock, the AG header and the geometry
  of the allocator's root table. A structure with a fixed encoding is a \<open>codec\<close>: what is
  encoded is read back, wherever in a block it was stored.
\<close>

unbundle bit_operations_syntax

subsection \<open>Addresses\<close>

definition blk_addr :: "u32 \<Rightarrow> u32 \<Rightarrow> u64" where
  "blk_addr ag local = push_bit 32 (ucast ag) OR ucast local"

definition blk_split :: "u64 \<Rightarrow> u32 \<times> u32" where
  "blk_split addr = (ucast (drop_bit 32 addr), ucast addr)"

definition ino_addr :: "u32 \<Rightarrow> u32 \<Rightarrow> u64" where
  "ino_addr ag slot = blk_addr ag slot"

lemma blk_split_addr [simp]: "blk_split (blk_addr ag local) = (ag, local)"
proof -
  have "ucast (drop_bit 32 (blk_addr ag local)) = ag"
    by (rule bit_word_eqI) (auto simp: blk_addr_def bit_simps dest: bit_imp_le_length)
  moreover have "ucast (blk_addr ag local) = local"
    by (rule bit_word_eqI) (auto simp: blk_addr_def bit_simps)
  ultimately show ?thesis by (simp add: blk_split_def)
qed

lemma blk_addr_split: "blk_split a = (ag, l) \<Longrightarrow> blk_addr ag l = a"
proof -
  assume "blk_split a = (ag, l)"
  then have "ag = ucast (drop_bit 32 a)" "l = ucast a" by (auto simp: blk_split_def)
  then show "blk_addr ag l = a"
    by (intro bit_word_eqI) (auto simp: blk_addr_def bit_simps)
qed

lemma blk_addr_inj [simp]: "blk_addr ag l = blk_addr ag' l' \<longleftrightarrow> ag = ag' \<and> l = l'"
  by (metis blk_split_addr prod.inject)

subsection \<open>Structures with a fixed encoding\<close>

locale codec =
  fixes enc :: "'a \<Rightarrow> buffer"
    and dec :: "buffer \<Rightarrow> 'a result"
    and wf :: "'a \<Rightarrow> bool"
    and size :: nat
  assumes length_enc: "wf x \<Longrightarrow> length (enc x) = size"
    and dec_enc: "wf x \<Longrightarrow> dec (enc x @ rest) = Inr x"
begin

lemma dec_enc_exact: "wf x \<Longrightarrow> dec (enc x) = Inr x"
  by (metis append_Nil2 dec_enc)

lemma enc_inj: "wf x \<Longrightarrow> wf y \<Longrightarrow> enc x = enc y \<Longrightarrow> x = y"
  by (metis dec_enc_exact sum.inject(2))

lemma dec_stored:
  assumes "wf x" and "off + size \<le> length b"
  shows "dec (drop off (put_bytes b off (enc x))) = Inr x"
  using assms by (simp add: put_bytes_def dec_enc)

lemma dec_slice:
  assumes "wf x" and "off + size \<le> length b"
  shows "dec (get_bytes (put_bytes b off (enc x)) off size) = Inr x"
proof -
  have "get_bytes (put_bytes b off (enc x)) off size = enc x"
    using assms by (intro get_put_same) (simp_all add: length_enc)
  with assms(1) show ?thesis by (simp add: dec_enc_exact)
qed

end

subsection \<open>Superblock\<close>

definition VERSION :: u32 where "VERSION = 2"
definition SB_MAGIC :: buffer where "SB_MAGIC = [0x35, 0x46, 0x53, 0x42]"
definition AG_MAGIC :: buffer where "AG_MAGIC = [0x35, 0x46, 0x53, 0x48]"

abbreviation SB_SIZE :: nat where "SB_SIZE \<equiv> 512"
abbreviation AGHDR_SIZE :: nat where "AGHDR_SIZE \<equiv> 64"
abbreviation CELL_BLOCKS :: nat where "CELL_BLOCKS \<equiv> 256"
abbreviation ALLOC_FANOUT :: nat where "ALLOC_FANOUT \<equiv> 16"

record superblock =
  sb_compat :: u64
  sb_ro_compat :: u64
  sb_incompat :: u64
  sb_blocksize :: u32
  sb_inodesize :: u16
  sb_uuid :: buffer
  sb_disk_name :: "u16 list"
  sb_root_ino :: u64
  sb_next_ag :: u32
  sb_agmap_offset :: u64
  sb_agmap_length :: u64
  sb_journal_start :: u64
  sb_journal_length :: u64
  sb_kernel_offset :: u64
  sb_kernel_end :: u64
  sb_free_blocks :: u64
  sb_rsvd_blocks :: u64
  sb_full_blocks :: u64
  sb_gen :: u64
  sb_journal_seq :: u64
  sb_journal_head :: u64

text \<open>The array fields' types, and the block size the parser accepts.\<close>

definition is_power_of_two :: "u32 \<Rightarrow> bool" where
  "is_power_of_two x \<longleftrightarrow> x \<noteq> 0 \<and> x AND (x - 1) = 0"

definition sb_wf :: "superblock \<Rightarrow> bool" where
  "sb_wf sb \<longleftrightarrow> length (sb_uuid sb) = 16 \<and> length (sb_disk_name sb) = 16 \<and>
     is_power_of_two (sb_blocksize sb) \<and> 512 \<le> sb_blocksize sb"

text \<open>A run of 16-bit units, as the loops over \<open>disk_name\<close> and over names write and read it.\<close>

definition put_u16s :: "buffer \<Rightarrow> nat \<Rightarrow> u16 list \<Rightarrow> buffer" where
  "put_u16s b off us = put_bytes b off (concat (map (to_be 2) us))"

definition get_u16s :: "buffer \<Rightarrow> nat \<Rightarrow> nat \<Rightarrow> u16 list" where
  "get_u16s b off n = map (\<lambda>i. get_u16 b (off + i * 2)) [0..<n]"

lemma length_concat_u16s [simp]: "length (concat (map (to_be 2) us)) = 2 * length us"
  by (induction us) auto

lemma get_bytes_sub:
  assumes "i + m \<le> n"
  shows "get_bytes b (off + i) m = get_bytes (get_bytes b off n) i m"
proof -
  have "get_bytes (get_bytes b off n) i m = take m (take (n - i) (drop i (drop off b)))"
    by (simp only: get_bytes_def drop_take)
  also have "\<dots> = take m (drop i (drop off b))"
    using assms by (simp only: take_take min_def) (simp add: le_diff_conv2)
  finally show ?thesis by (simp add: get_bytes_def add.commute)
qed

lemma get_u16s_cong:
  assumes "get_bytes b off (2 * n) = get_bytes b' off' (2 * n)"
  shows "get_u16s b off n = get_u16s b' off' n"
proof -
  have "get_u16 b (off + i * 2) = get_u16 b' (off' + i * 2)" if "i < n" for i
  proof -
    have "i * 2 + 2 \<le> 2 * n" using that by simp
    then show ?thesis
      using assms by (simp add: get_u16_def get_bytes_sub [where n = "2 * n"])
  qed
  then show ?thesis by (simp add: get_u16s_def)
qed

lemma get_u16s_concat: "get_u16s (concat (map (to_be 2) us) @ rest) 0 (length us) = us"
proof (induction us)
  case Nil
  then show ?case by (simp add: get_u16s_def)
next
  case (Cons u us)
  let ?b = "concat (map (to_be 2) (u # us)) @ rest"
  have "get_u16 ?b 0 = u"
    by (simp add: get_u16_def get_bytes_def)
  moreover have "get_u16 ?b (Suc i * 2) = get_u16 (concat (map (to_be 2) us) @ rest) (i * 2)" for i
    by (simp add: get_u16_def get_bytes_def)
  then have "map (\<lambda>i. get_u16 ?b (0 + i * 2)) [1..<Suc (length us)] = us"
    using Cons.IH unfolding get_u16s_def One_nat_def
    by (subst map_Suc_upt [symmetric]) (simp add: o_def del: upt_Suc)
  ultimately show ?case
    by (simp add: get_u16s_def upt_conv_Cons del: upt_Suc)
qed

lemma get_put_u16s [layout]:
  assumes "off + 2 * length us \<le> length b" and "n = length us"
  shows "get_u16s (put_u16s b off us) off n = us"
proof -
  have "get_bytes (put_u16s b off us) off (2 * n) = concat (map (to_be 2) us)"
    unfolding put_u16s_def using assms by (simp add: layout)
  then have "get_u16s (put_u16s b off us) off n = get_u16s (concat (map (to_be 2) us) @ []) 0 n"
    using assms(2) by (intro get_u16s_cong) (simp add: get_bytes_def)
  then show ?thesis using get_u16s_concat [of us "[]"] assms(2) by simp
qed

definition sb_fields :: "superblock \<Rightarrow> buffer" where
  "sb_fields sb =
     (let b = replicate SB_SIZE 0;
          b = put_bytes b 0 SB_MAGIC;
          b = put_u32 b 8 VERSION;
          b = put_u64 b 12 (sb_compat sb);
          b = put_u64 b 20 (sb_ro_compat sb);
          b = put_u64 b 28 (sb_incompat sb);
          b = put_u32 b 36 (sb_blocksize sb);
          b = put_u16 b 40 (sb_inodesize sb);
          b = put_bytes b 42 (sb_uuid sb);
          b = put_u16s b 58 (sb_disk_name sb);
          b = put_u64 b 90 (sb_root_ino sb);
          b = put_u32 b 98 (sb_next_ag sb);
          b = put_u64 b 102 (sb_agmap_offset sb);
          b = put_u64 b 110 (sb_agmap_length sb);
          b = put_u64 b 118 (sb_journal_start sb);
          b = put_u64 b 126 (sb_journal_length sb);
          b = put_u64 b 134 (sb_kernel_offset sb);
          b = put_u64 b 142 (sb_kernel_end sb);
          b = put_u64 b 150 (sb_free_blocks sb);
          b = put_u64 b 158 (sb_rsvd_blocks sb);
          b = put_u64 b 166 (sb_full_blocks sb);
          b = put_u64 b 174 (sb_gen sb);
          b = put_u64 b 182 (sb_journal_seq sb);
          b = put_u64 b 190 (sb_journal_head sb)
      in b)"

definition sb_to_bytes :: "crc_fun \<Rightarrow> superblock \<Rightarrow> buffer" where
  "sb_to_bytes crc sb = seal crc (sb_fields sb)"

definition sb_read_fields :: "buffer \<Rightarrow> superblock" where
  "sb_read_fields b =
     \<lparr>sb_compat = get_u64 b 12, sb_ro_compat = get_u64 b 20, sb_incompat = get_u64 b 28,
      sb_blocksize = get_u32 b 36, sb_inodesize = get_u16 b 40,
      sb_uuid = get_bytes b 42 16, sb_disk_name = get_u16s b 58 16,
      sb_root_ino = get_u64 b 90, sb_next_ag = get_u32 b 98,
      sb_agmap_offset = get_u64 b 102, sb_agmap_length = get_u64 b 110,
      sb_journal_start = get_u64 b 118, sb_journal_length = get_u64 b 126,
      sb_kernel_offset = get_u64 b 134, sb_kernel_end = get_u64 b 142,
      sb_free_blocks = get_u64 b 150, sb_rsvd_blocks = get_u64 b 158,
      sb_full_blocks = get_u64 b 166, sb_gen = get_u64 b 174,
      sb_journal_seq = get_u64 b 182, sb_journal_head = get_u64 b 190\<rparr>"

definition sb_parse :: "crc_fun \<Rightarrow> buffer \<Rightarrow> superblock result" where
  "sb_parse crc b =
     (if length b < SB_SIZE then Inl (Msg ''superblock: short read'')
      else let b = take SB_SIZE b in
        if get_bytes b 0 4 \<noteq> SB_MAGIC then Inl (Msg ''superblock: bad magic'')
        else if get_u32 b 4 \<noteq> csum crc b 4 then Inl (Msg ''superblock: bad checksum'')
        else if get_u32 b 8 \<noteq> VERSION then Inl (Msg ''superblock: unsupported version {ver}'')
        else let sb = sb_read_fields b in
          if \<not> is_power_of_two (sb_blocksize sb) \<or> sb_blocksize sb < 512
          then Inl (Msg ''superblock: bad blocksize'')
          else Inr sb)"

definition sb_label :: "superblock \<Rightarrow> rstring" where
  "sb_label sb = from_utf16_lossy (takeWhile (\<lambda>u. u \<noteq> 0) (sb_disk_name sb))"

lemma length_SB_MAGIC [simp]: "length SB_MAGIC = 4"
  by (simp add: SB_MAGIC_def)

lemma length_AG_MAGIC [simp]: "length AG_MAGIC = 4"
  by (simp add: AG_MAGIC_def)

definition sb_tail :: "superblock \<Rightarrow> buffer" where
  "sb_tail sb =
     to_be 4 VERSION @ to_be 8 (sb_compat sb) @ to_be 8 (sb_ro_compat sb) @
     to_be 8 (sb_incompat sb) @ to_be 4 (sb_blocksize sb) @ to_be 2 (sb_inodesize sb) @
     sb_uuid sb @ concat (map (to_be 2) (sb_disk_name sb)) @ to_be 8 (sb_root_ino sb) @
     to_be 4 (sb_next_ag sb) @ to_be 8 (sb_agmap_offset sb) @ to_be 8 (sb_agmap_length sb) @
     to_be 8 (sb_journal_start sb) @ to_be 8 (sb_journal_length sb) @
     to_be 8 (sb_kernel_offset sb) @ to_be 8 (sb_kernel_end sb) @ to_be 8 (sb_free_blocks sb) @
     to_be 8 (sb_rsvd_blocks sb) @ to_be 8 (sb_full_blocks sb) @ to_be 8 (sb_gen sb) @
     to_be 8 (sb_journal_seq sb) @ to_be 8 (sb_journal_head sb) @ replicate 314 0"

lemma sb_fields_concat:
  "sb_wf sb \<Longrightarrow> sb_fields sb = SB_MAGIC @ replicate 4 0 @ sb_tail sb"
  by (simp add: sb_wf_def sb_fields_def put_int_defs put_u16s_def pad_start put_pad Let_def)
    (simp add: pad_def sb_tail_def)

lemma length_sb_tail: "sb_wf sb \<Longrightarrow> length (sb_tail sb) = 504"
  by (simp add: sb_tail_def sb_wf_def)

lemma sb_to_bytes_concat:
  assumes "sb_wf sb"
  shows "sb_to_bytes crc sb = SB_MAGIC @ to_be 4 (csum crc (sb_fields sb) 4) @ sb_tail sb"
  using assms by (simp add: sb_to_bytes_def sb_fields_concat seal_fields)

lemma get_u16s_skip [fields]:
  assumes "length xs \<le> off"
  shows "get_u16s (xs @ r) off n = get_u16s r (off - length xs) n"
  using assms by (intro get_u16s_cong) (simp add: fields)

lemma get_u16s_hit [fields]:
  "n = length us \<Longrightarrow> get_u16s (concat (map (to_be 2) us) @ r) 0 n = us"
  by (simp add: get_u16s_concat)

lemma sb_read_written:
  assumes "sb_wf sb"
  shows "sb_read_fields (sb_to_bytes crc sb) = sb"
  using assms
  by (simp add: sb_to_bytes_concat sb_read_fields_def get_int_defs fields sb_tail_def sb_wf_def)

lemma sb_parse_iff:
  "sb_parse crc b = Inr sb \<longleftrightarrow>
     SB_SIZE \<le> length b \<and> get_bytes b 0 4 = SB_MAGIC \<and>
     get_u32 b 4 = csum crc (take SB_SIZE b) 4 \<and> get_u32 b 8 = VERSION \<and>
     sb = sb_read_fields (take SB_SIZE b) \<and>
     is_power_of_two (sb_blocksize sb) \<and> 512 \<le> sb_blocksize sb"
  by (auto simp: sb_parse_def Let_def get_u32_def get_bytes_take split: if_splits)

lemma sb_parse_wf:
  assumes "sb_parse crc b = Inr sb"
  shows "sb_wf sb"
proof -
  have sb: "sb = sb_read_fields (take SB_SIZE b)" and len: "SB_SIZE \<le> length b"
    and bs: "is_power_of_two (sb_blocksize sb)" "512 \<le> sb_blocksize sb"
    using assms unfolding sb_parse_iff by blast+
  have "length (sb_uuid sb) = 16" "length (sb_disk_name sb) = 16"
    unfolding sb using len by (simp_all add: sb_read_fields_def get_u16s_def get_bytes_def)
  with bs show ?thesis by (simp add: sb_wf_def)
qed

lemma length_sb_to_bytes: "sb_wf sb \<Longrightarrow> length (sb_to_bytes crc sb) = SB_SIZE"
  by (simp add: sb_to_bytes_concat length_sb_tail)

lemma sb_to_bytes_verifies:
  assumes "sb_wf sb"
  shows "get_u32 (sb_to_bytes crc sb) 4 = csum crc (sb_to_bytes crc sb) 4"
proof -
  have "8 \<le> length (sb_fields sb)"
    using assms by (simp add: sb_fields_concat length_sb_tail)
  then show ?thesis unfolding sb_to_bytes_def by (rule seal_verifies)
qed

lemma sb_parse_to_bytes:
  assumes "sb_wf sb"
  shows "sb_parse crc (sb_to_bytes crc sb @ rest) = Inr sb"
proof -
  let ?b = "sb_to_bytes crc sb"
  have len: "length ?b = SB_SIZE" by (rule length_sb_to_bytes [OF assms])
  have "get_bytes ?b 0 4 = SB_MAGIC" "get_u32 ?b 8 = VERSION"
    by (simp_all add: sb_to_bytes_concat [OF assms] fields get_u32_def sb_tail_def)
  moreover have "get_u32 ?b 4 = csum crc ?b 4"
    by (rule sb_to_bytes_verifies [OF assms])
  ultimately show ?thesis
    using assms len
    by (simp add: sb_parse_iff sb_read_written sb_wf_def get_u32_def get_bytes_append_left)
qed

interpretation sb_codec: codec "sb_to_bytes crc" "sb_parse crc" sb_wf SB_SIZE for crc
  by unfold_locales (simp_all add: length_sb_to_bytes sb_parse_to_bytes)

subsection \<open>AG header\<close>

record ag_header =
  ah_num :: u32
  ah_gen :: u64
  ah_length :: u32
  ah_free_blocks :: u32
  ah_rsvd_blocks :: u32
  ah_full_blocks :: u32
  ah_alloc_root :: u32
  ah_ino_hint :: u32
  ah_data_hint :: u32
  ah_tbl_arena :: u32

definition ah_fields :: "ag_header \<Rightarrow> buffer" where
  "ah_fields h =
     (let b = replicate AGHDR_SIZE 0;
          b = put_bytes b 0 AG_MAGIC;
          b = put_u32 b 8 (ah_num h);
          b = put_u64 b 12 (ah_gen h);
          b = put_u32 b 20 (ah_length h);
          b = put_u32 b 24 (ah_free_blocks h);
          b = put_u32 b 28 (ah_rsvd_blocks h);
          b = put_u32 b 32 (ah_full_blocks h);
          b = put_u32 b 36 (ah_alloc_root h);
          b = put_u32 b 40 (ah_ino_hint h);
          b = put_u32 b 44 (ah_data_hint h);
          b = put_u32 b 48 (ah_tbl_arena h)
      in b)"

definition ah_to_bytes :: "crc_fun \<Rightarrow> ag_header \<Rightarrow> buffer" where
  "ah_to_bytes crc h = seal crc (ah_fields h)"

definition ah_parse :: "crc_fun \<Rightarrow> buffer \<Rightarrow> ag_header result" where
  "ah_parse crc b =
     (if length b < AGHDR_SIZE then Inl (Msg ''ag header: short read'')
      else let b = take AGHDR_SIZE b in
        if get_bytes b 0 4 \<noteq> AG_MAGIC then Inl (Msg ''ag header: bad magic'')
        else if get_u32 b 4 \<noteq> csum crc b 4 then Inl (Msg ''ag header: bad checksum'')
        else Inr \<lparr>ah_num = get_u32 b 8, ah_gen = get_u64 b 12, ah_length = get_u32 b 20,
          ah_free_blocks = get_u32 b 24, ah_rsvd_blocks = get_u32 b 28,
          ah_full_blocks = get_u32 b 32, ah_alloc_root = get_u32 b 36,
          ah_ino_hint = get_u32 b 40, ah_data_hint = get_u32 b 44,
          ah_tbl_arena = get_u32 b 48\<rparr>)"

definition ah_tail :: "ag_header \<Rightarrow> buffer" where
  "ah_tail h =
     to_be 4 (ah_num h) @ to_be 8 (ah_gen h) @ to_be 4 (ah_length h) @
     to_be 4 (ah_free_blocks h) @ to_be 4 (ah_rsvd_blocks h) @ to_be 4 (ah_full_blocks h) @
     to_be 4 (ah_alloc_root h) @ to_be 4 (ah_ino_hint h) @ to_be 4 (ah_data_hint h) @
     to_be 4 (ah_tbl_arena h) @ replicate 12 0"

lemma ah_fields_concat: "ah_fields h = AG_MAGIC @ replicate 4 0 @ ah_tail h"
  by (simp add: ah_fields_def put_int_defs pad_start put_pad Let_def) (simp add: pad_def ah_tail_def)

lemma length_ah_tail [simp]: "length (ah_tail h) = 56"
  by (simp add: ah_tail_def)

lemma ah_to_bytes_concat:
  "ah_to_bytes crc h = AG_MAGIC @ to_be 4 (csum crc (ah_fields h) 4) @ ah_tail h"
  by (simp add: ah_to_bytes_def ah_fields_concat seal_fields)

lemma length_ah_to_bytes [simp]: "length (ah_to_bytes crc h) = AGHDR_SIZE"
  by (simp add: ah_to_bytes_concat)

lemma ah_parse_to_bytes: "ah_parse crc (ah_to_bytes crc h @ rest) = Inr h"
proof -
  let ?b = "ah_to_bytes crc h"
  have "get_u32 ?b 4 = csum crc ?b 4"
    unfolding ah_to_bytes_def by (rule seal_verifies) (simp add: ah_fields_concat)
  then show ?thesis
    by (cases h)
      (simp add: ah_parse_def Let_def, simp add: ah_to_bytes_concat get_int_defs fields ah_tail_def)
qed

interpretation ah_codec: codec "ah_to_bytes crc" "ah_parse crc" "\<lambda>_. True" AGHDR_SIZE for crc
  by unfold_locales (simp_all add: ah_parse_to_bytes)

subsection \<open>Geometry of the allocator's root table\<close>

text \<open>
  Number of level-0 cells of an AG and blocks of its root table (a 2-bit state per cell, then
  a 6-byte child-table reference per cell). \<open>div_ceil\<close> rounds up, and panics on zero.
\<close>

definition div_ceil :: "nat \<Rightarrow> nat \<Rightarrow> nat" where
  "div_ceil a b = (a + b - 1) div b"

definition rt_geometry :: "u32 \<Rightarrow> u32 \<Rightarrow> nat \<times> nat" where
  "rt_geometry ag_blocks blocksize =
     (let cells = div_ceil (unat ag_blocks) CELL_BLOCKS;
          bytes = div_ceil cells 4 + cells * 6
      in (cells, div_ceil bytes (unat blocksize)))"

definition rt_ref_off :: "nat \<Rightarrow> nat \<Rightarrow> nat" where
  "rt_ref_off cells c = div_ceil cells 4 + c * 6"

lemma div_ceil_ge: "0 < b \<Longrightarrow> a \<le> div_ceil a b * b"
proof -
  assume b: "0 < b"
  have "a + b - 1 < (a + b - 1) div b * b + b"
    using b by (metis add.commute dividend_less_div_times)
  then show ?thesis using b by (simp add: div_ceil_def)
qed

lemma div_ceil_least: "0 < b \<Longrightarrow> a \<le> k * b \<Longrightarrow> div_ceil a b \<le> k"
proof -
  assume b: "0 < b" and "a \<le> k * b"
  then have "a + b - 1 < Suc k * b" using b by simp
  then have "(a + b - 1) div b < Suc k" using b by (simp only: div_less_iff_less_mult)
  then show ?thesis by (simp add: div_ceil_def)
qed

text \<open>Every state and every reference lies inside the table's blocks, and none overlap.\<close>

lemma rt_layout:
  assumes "rt_geometry ag_blocks bs = (cells, blocks)" and "0 < bs" and "c < cells"
  shows "c div 4 < rt_ref_off cells 0"
    and "rt_ref_off cells c + 6 \<le> blocks * unat bs"
    and "c' < c \<Longrightarrow> rt_ref_off cells c' + 6 \<le> rt_ref_off cells c"
proof -
  have bs: "0 < unat bs" using assms(2) by (simp add: word_less_nat_alt)
  have ceil4: "cells \<le> div_ceil cells 4 * 4" by (rule div_ceil_ge) simp
  then show "c div 4 < rt_ref_off cells 0"
    using assms(3) by (simp add: rt_ref_off_def div_less_iff_less_mult)
  have "div_ceil cells 4 + cells * 6 \<le> blocks * unat bs"
    using assms(1) div_ceil_ge [OF bs, of "div_ceil cells 4 + cells * 6"]
    by (auto simp: rt_geometry_def Let_def)
  then show "rt_ref_off cells c + 6 \<le> blocks * unat bs"
    using assms(3) by (simp add: rt_ref_off_def)
  show "c' < c \<Longrightarrow> rt_ref_off cells c' + 6 \<le> rt_ref_off cells c"
    by (simp add: rt_ref_off_def)
qed

text \<open>The cells cover the AG, and every cell but the last is a whole one.\<close>

lemma rt_cells_cover:
  assumes "rt_geometry ag_blocks bs = (cells, blocks)"
  shows "unat ag_blocks \<le> cells * CELL_BLOCKS"
    and "local < unat ag_blocks \<Longrightarrow> local div CELL_BLOCKS < cells"
proof -
  show 1: "unat ag_blocks \<le> cells * CELL_BLOCKS"
    using assms div_ceil_ge [of CELL_BLOCKS "unat ag_blocks"]
    by (auto simp: rt_geometry_def Let_def)
  show "local < unat ag_blocks \<Longrightarrow> local div CELL_BLOCKS < cells"
    using 1 by (simp add: div_less_iff_less_mult)
qed

end
