(* ===== verification/FmtMap.thy ===== *)
theory FmtMap
  imports FmtSuper
begin

text \<open>
  \<open>src/fmt.rs\<close>, second part: the AG map, its encoding and the resolution of block addresses
  to byte offsets of the device. The lemmas of the last subsection show that, as long as the
  segments of the map do not overlap on the device, different blocks never share a byte.
\<close>

unbundle bit_operations_syntax

definition AGMAP_MAGIC :: buffer where "AGMAP_MAGIC = [0x35, 0x46, 0x53, 0x4d]"

abbreviation AGF_PRESENT :: u16 where "AGF_PRESENT \<equiv> 1"
abbreviation AGF_IMMOVABLE :: u16 where "AGF_IMMOVABLE \<equiv> 2"
abbreviation AGF_RETIRED :: u16 where "AGF_RETIRED \<equiv> 4"
abbreviation AGMAP_HDR :: nat where "AGMAP_HDR \<equiv> 24"

record ag_segment =
  sg_block :: u32
  sg_blocks :: u32
  sg_dev_offset :: u64

record ag_entry =
  ae_flags :: u16
  ae_length :: u32
  ae_segs :: "ag_segment list"

record agmap =
  am_gen :: u64
  am_entries :: "ag_entry list"

subsection \<open>Encoding\<close>

fun am_put_segs :: "buffer \<Rightarrow> nat \<Rightarrow> ag_segment list \<Rightarrow> buffer \<times> nat" where
  "am_put_segs b off [] = (b, off)"
| "am_put_segs b off (s # ss) =
     (let b = put_u32 b off (sg_block s);
          b = put_u32 b (off + 4) (sg_blocks s);
          b = put_u64 b (off + 8) (sg_dev_offset s)
      in am_put_segs b (off + 16) ss)"

fun am_put_entries :: "nat \<Rightarrow> buffer \<Rightarrow> nat \<Rightarrow> ag_entry list \<Rightarrow> (buffer \<times> nat) result" where
  "am_put_entries capacity b off [] = Inr (b, off)"
| "am_put_entries capacity b off (e # es) =
     (if off + 8 + length (ae_segs e) * 16 > capacity then Inl (Msg ''ag map: capacity exceeded'')
      else
        let b = put_u16 b off (ae_flags e);
            b = put_u16 b (off + 2) (of_nat (length (ae_segs e)));
            b = put_u32 b (off + 4) (ae_length e);
            (b, off) = am_put_segs b (off + 8) (ae_segs e)
        in am_put_entries capacity b off es)"

definition am_to_bytes :: "crc_fun \<Rightarrow> agmap \<Rightarrow> nat \<Rightarrow> buffer result" where
  "am_to_bytes crc m capacity =
     guardR (20 \<le> capacity) Panic
       (let b = put_bytes (replicate capacity 0) 0 AGMAP_MAGIC;
            b = put_u64 b 8 (am_gen m);
            b = put_u32 b 16 (of_nat (length (am_entries m)))
        in tryR (am_put_entries capacity b AGMAP_HDR (am_entries m)) (\<lambda>(b, off).
           guardR (AGMAP_HDR \<le> capacity) Panic
             (let b = put_u32 b 20 (of_nat off)
              in Inr (put_u32 b 4 (csum crc (take off b) 4)))))"

subsection \<open>Decoding\<close>

fun am_get_segs :: "buffer \<Rightarrow> nat \<Rightarrow> nat \<Rightarrow> nat \<Rightarrow> (ag_segment list \<times> nat) result" where
  "am_get_segs b used 0 off = Inr ([], off)"
| "am_get_segs b used (Suc n) off =
     (if off + 16 > used then Inl (Msg ''ag map: truncated segment'')
      else tryR (am_get_segs b used n (off + 16)) (\<lambda>(ss, off').
        Inr (\<lparr>sg_block = get_u32 b off, sg_blocks = get_u32 b (off + 4),
              sg_dev_offset = get_u64 b (off + 8)\<rparr> # ss, off')))"

fun am_get_entries :: "buffer \<Rightarrow> nat \<Rightarrow> nat \<Rightarrow> nat \<Rightarrow> (ag_entry list) result" where
  "am_get_entries b used 0 off = Inr []"
| "am_get_entries b used (Suc n) off =
     (if off + 8 > used then Inl (Msg ''ag map: truncated entry'')
      else
        let flags = get_u16 b off; nseg = unat (get_u16 b (off + 2)); len = get_u32 b (off + 4)
        in tryR (am_get_segs b used nseg (off + 8)) (\<lambda>(ss, off').
           tryR (am_get_entries b used n off') (\<lambda>es.
             Inr (\<lparr>ae_flags = flags, ae_length = len, ae_segs = ss\<rparr> # es))))"

definition am_parse :: "crc_fun \<Rightarrow> buffer \<Rightarrow> agmap result" where
  "am_parse crc b =
     (if length b < AGMAP_HDR \<or> get_bytes b 0 4 \<noteq> AGMAP_MAGIC then Inl (Msg ''ag map: bad magic'')
      else let used = unat (get_u32 b 20) in
        if used < AGMAP_HDR \<or> used > length b then Inl (Msg ''ag map: bad length'')
        else if get_u32 b 4 \<noteq> csum crc (take used b) 4 then Inl (Msg ''ag map: bad checksum'')
        else tryR (am_get_entries b used (unat (get_u32 b 16)) AGMAP_HDR) (\<lambda>es.
          Inr \<lparr>am_gen = get_u64 b 8, am_entries = es\<rparr>))"

subsection \<open>Resolving block addresses\<close>

definition sg_holds :: "u32 \<Rightarrow> ag_segment \<Rightarrow> bool" where
  "sg_holds local s \<longleftrightarrow> sg_block s \<le> local \<and> local < sg_block s + sg_blocks s"

definition sg_place :: "u32 \<Rightarrow> u32 \<Rightarrow> ag_segment \<Rightarrow> u64" where
  "sg_place blocksize local s = sg_dev_offset s + ucast (local - sg_block s) * ucast blocksize"

definition am_resolve :: "agmap \<Rightarrow> u64 \<Rightarrow> u32 \<Rightarrow> u64 option" where
  "am_resolve m addr blocksize =
     (let (ag, local) = blk_split addr in
      if unat ag < length (am_entries m) then
        let e = am_entries m ! unat ag in
        if ae_flags e AND AGF_PRESENT = 0 \<or> ae_length e \<le> local then None
        else map_option (sg_place blocksize local) (find (sg_holds local) (ae_segs e))
      else None)"

subsection \<open>The encoding as a concatenation, and the round trip\<close>

definition seg_bytes :: "ag_segment \<Rightarrow> buffer" where
  "seg_bytes s = to_be 4 (sg_block s) @ to_be 4 (sg_blocks s) @ to_be 8 (sg_dev_offset s)"

definition entry_bytes :: "ag_entry \<Rightarrow> buffer" where
  "entry_bytes e = to_be 2 (ae_flags e) @ to_be 2 (of_nat (length (ae_segs e)) :: u16) @
     to_be 4 (ae_length e) @ concat (map seg_bytes (ae_segs e))"

lemma length_seg_bytes [simp]: "length (seg_bytes s) = 16"
  by (simp add: seg_bytes_def)

lemma length_concat_seg_bytes [simp]: "length (concat (map seg_bytes ss)) = 16 * length ss"
  by (induction ss) auto

lemma length_entry_bytes [simp]: "length (entry_bytes e) = 8 + 16 * length (ae_segs e)"
  by (simp add: entry_bytes_def)

definition am_used :: "ag_entry list \<Rightarrow> nat" where
  "am_used es = length (concat (map entry_bytes es))"

lemma am_used_simps [simp]:
  "am_used [] = 0"
  "am_used (e # es) = 8 + 16 * length (ae_segs e) + am_used es"
  by (simp_all add: am_used_def)

lemma am_put_segs_pad:
  "16 * length ss \<le> k \<Longrightarrow>
     am_put_segs (pad P k) (length P) ss
       = (pad (P @ concat (map seg_bytes ss)) (k - 16 * length ss), length P + 16 * length ss)"
proof (induction ss arbitrary: P k)
  case Nil
  then show ?case by simp
next
  case (Cons s ss)
  have "am_put_segs (pad P k) (length P) (s # ss)
      = am_put_segs (pad (P @ seg_bytes s) (k - 16)) (length (P @ seg_bytes s)) ss"
    using Cons.prems by (simp add: put_int_defs put_pad Let_def seg_bytes_def)
  also have "\<dots> = (pad ((P @ seg_bytes s) @ concat (map seg_bytes ss)) (k - 16 - 16 * length ss),
      length (P @ seg_bytes s) + 16 * length ss)"
    by (rule Cons.IH) (use Cons.prems in simp)
  finally show ?case by simp
qed

lemma am_put_entries_pad:
  assumes "length P + k = capacity" and "am_used es \<le> k"
  shows "am_put_entries capacity (pad P k) (length P) es
       = Inr (pad (P @ concat (map entry_bytes es)) (k - am_used es), length P + am_used es)"
  using assms
proof (induction es arbitrary: P k)
  case Nil
  then show ?case by simp
next
  case (Cons e es)
  let ?n = "length (ae_segs e)"
  let ?Q = "P @ to_be 2 (ae_flags e) @ to_be 2 (of_nat ?n :: u16) @ to_be 4 (ae_length e)"
  have "am_put_segs (pad ?Q (k - 8)) (length ?Q) (ae_segs e)
      = (pad (?Q @ concat (map seg_bytes (ae_segs e))) (k - 8 - 16 * ?n), length ?Q + 16 * ?n)"
    by (rule am_put_segs_pad) (use Cons.prems in simp)
  then have seg: "am_put_segs (pad ?Q (k - 8)) (length P + 8) (ae_segs e)
      = (pad (P @ entry_bytes e) (k - 8 - 16 * ?n), length (P @ entry_bytes e))"
    by (simp add: entry_bytes_def)
  have "am_put_entries capacity (pad P k) (length P) (e # es)
      = am_put_entries capacity (pad (P @ entry_bytes e) (k - 8 - 16 * ?n)) (length (P @ entry_bytes e)) es"
    using Cons.prems seg by (simp add: put_int_defs put_pad Let_def)
  also have "\<dots> = Inr (pad ((P @ entry_bytes e) @ concat (map entry_bytes es)) (k - 8 - 16 * ?n - am_used es),
      length (P @ entry_bytes e) + am_used es)"
    by (rule Cons.IH) (use Cons.prems in simp_all)
  finally show ?case by (simp add: algebra_simps)
qed

lemma am_put_segs_end: "\<exists>b'. am_put_segs b off ss = (b', off + 16 * length ss)"
proof (induction ss arbitrary: b off)
  case (Cons s ss)
  show ?case using Cons.IH [where off = "off + 16"] by (simp add: Let_def add.assoc)
qed simp

text \<open>Too little room is reported, never written past.\<close>

lemma am_put_entries_full:
  assumes "capacity < off + am_used es" and "off \<le> capacity"
  shows "am_put_entries capacity b off es = Inl (Msg ''ag map: capacity exceeded'')"
  using assms
proof (induction es arbitrary: b off)
  case Nil
  then show ?case by simp
next
  case (Cons e es)
  let ?b = "put_u32 (put_u16 (put_u16 b off (ae_flags e)) (off + 2) (of_nat (length (ae_segs e))))
    (off + 4) (ae_length e)"
  obtain b' where "am_put_segs ?b (off + 8) (ae_segs e) = (b', off + 8 + 16 * length (ae_segs e))"
    using am_put_segs_end by blast
  then show ?case
    using Cons.prems Cons.IH [of "off + 8 + 16 * length (ae_segs e)" b']
    by (simp add: Let_def algebra_simps)
qed

definition am_wf :: "agmap \<Rightarrow> bool" where
  "am_wf m \<longleftrightarrow> length (am_entries m) < 2 ^ 32 \<and>
     (\<forall>e\<in>set (am_entries m). length (ae_segs e) < 2 ^ 16) \<and>
     AGMAP_HDR + am_used (am_entries m) < 2 ^ 32"

definition am_head :: "agmap \<Rightarrow> u32 \<Rightarrow> buffer" where
  "am_head m used = to_be 8 (am_gen m) @ to_be 4 (of_nat (length (am_entries m)) :: u32) @ to_be 4 used"

definition am_body :: "agmap \<Rightarrow> buffer" where
  "am_body m = concat (map entry_bytes (am_entries m))"

lemma length_am_head [simp]: "length (am_head m u) = 16"
  by (simp add: am_head_def)

lemma length_am_body: "length (am_body m) = am_used (am_entries m)"
  by (simp add: am_body_def am_used_def)

lemma length_AGMAP_MAGIC [simp]: "length AGMAP_MAGIC = 4"
  by (simp add: AGMAP_MAGIC_def)

lemma am_to_bytes_concat:
  fixes crc :: crc_fun
  assumes "AGMAP_HDR + am_used (am_entries m) \<le> capacity"
  defines "u \<equiv> of_nat (AGMAP_HDR + am_used (am_entries m)) :: u32"
  defines "rest \<equiv> am_head m u @ am_body m"
  defines "c \<equiv> csum crc (AGMAP_MAGIC @ replicate 4 0 @ rest) 4"
  shows "am_to_bytes crc m capacity
    = Inr (AGMAP_MAGIC @ to_be 4 c @ rest @ replicate (capacity - AGMAP_HDR - am_used (am_entries m)) 0)"
proof -
  let ?n = "am_used (am_entries m)"
  let ?P = "AGMAP_MAGIC @ replicate 4 0 @ to_be 8 (am_gen m) @
    to_be 4 (of_nat (length (am_entries m)) :: u32) @ replicate 4 0"
  have "am_put_entries capacity (pad ?P (capacity - 24)) (length ?P) (am_entries m)
    = Inr (pad (?P @ concat (map entry_bytes (am_entries m))) (capacity - 24 - ?n), length ?P + ?n)"
    by (rule am_put_entries_pad) (use assms(1) in simp_all)
  moreover have "put_u32 (put_u64 (put_bytes (replicate capacity 0) 0 AGMAP_MAGIC) 8 (am_gen m)) 16
      (of_nat (length (am_entries m))) = pad (AGMAP_MAGIC @ replicate 4 0 @ to_be 8 (am_gen m) @
        to_be 4 (of_nat (length (am_entries m)) :: u32)) (capacity - 20)"
    using assms(1) by (simp add: put_int_defs pad_start [of capacity] put_pad)
  moreover have "pad (AGMAP_MAGIC @ replicate 4 0 @ to_be 8 (am_gen m) @
    to_be 4 (of_nat (length (am_entries m)) :: u32)) (capacity - 20) = pad ?P (capacity - 24)"
    using assms(1) by (simp add: pad_def flip: replicate_add)
  ultimately have "am_to_bytes crc m capacity
      = (let b = put_u32 (pad (?P @ am_body m) (capacity - 24 - ?n)) 20 u
         in Inr (put_u32 b 4 (csum crc (take (24 + ?n) b) 4)))"
    using assms(1)
    by (simp add: am_to_bytes_def am_body_def u_def)
  also have "put_u32 (pad (?P @ am_body m) (capacity - 24 - ?n)) 20 u
      = AGMAP_MAGIC @ replicate 4 0 @ rest @ replicate (capacity - 24 - ?n) 0"
    by (simp add: pad_def put_u32_def put_bytes_def rest_def am_head_def)
  finally show ?thesis
    by (simp add: c_def put_u32_def put_bytes_front rest_def length_am_body)
qed

text \<open>Reading entries back from the place they were written to.\<close>

lemma get_bytes_drop: "get_bytes b (off + i) n = get_bytes (drop off b) i n"
  by (simp add: get_bytes_def add.commute)

lemma get_bytes_drop0: "get_bytes b off n = get_bytes (drop off b) 0 n"
  by (simp add: get_bytes_def)

lemma drop_plus: "drop (m + n) xs = drop n (drop m xs)"
  by (simp add: add.commute)

lemma am_get_segs_written:
  assumes "drop off b = concat (map seg_bytes ss) @ r" and "off + 16 * length ss \<le> used"
  shows "am_get_segs b used (length ss) off = Inr (ss, off + 16 * length ss)"
  using assms
proof (induction ss arbitrary: off)
  case Nil
  then show ?case by simp
next
  case (Cons s ss)
  then have d: "drop off b = seg_bytes s @ concat (map seg_bytes ss) @ r" by simp
  then have "drop (off + 16) b = concat (map seg_bytes ss) @ r"
    by (simp add: drop_plus del: drop_drop)
  then have "am_get_segs b used (length ss) (off + 16) = Inr (ss, off + 16 + 16 * length ss)"
    using Cons.prems by (intro Cons.IH) simp_all
  moreover have "get_u32 b off = sg_block s" "get_u32 b (off + 4) = sg_blocks s"
    "get_u64 b (off + 8) = sg_dev_offset s"
    unfolding get_int_defs get_bytes_drop get_bytes_drop0 [of b off] d
    by (simp_all add: seg_bytes_def fields)
  ultimately show ?case
    using Cons.prems by simp
qed

lemma am_get_entries_written:
  assumes "drop off b = concat (map entry_bytes es) @ r" and "off + am_used es \<le> used"
    and "\<forall>e\<in>set es. length (ae_segs e) < 2 ^ 16"
  shows "am_get_entries b used (length es) off = Inr es"
  using assms
proof (induction es arbitrary: off)
  case Nil
  then show ?case by simp
next
  case (Cons e es)
  let ?n = "length (ae_segs e)"
  have d: "drop off b = entry_bytes e @ concat (map entry_bytes es) @ r"
    using Cons.prems(1) by simp
  have "drop (off + 8) b = concat (map seg_bytes (ae_segs e)) @ concat (map entry_bytes es) @ r"
    using d by (simp add: entry_bytes_def drop_plus del: drop_drop)
  then have segs: "am_get_segs b used ?n (off + 8) = Inr (ae_segs e, off + 8 + 16 * ?n)"
    using Cons.prems(2) by (intro am_get_segs_written) simp_all
  have "drop (off + (8 + 16 * ?n)) b = concat (map entry_bytes es) @ r"
    unfolding drop_plus [of off] d by simp
  then have "am_get_entries b used (length es) (off + (8 + 16 * ?n)) = Inr es"
    using Cons.prems by (intro Cons.IH) simp_all
  moreover have "get_u16 b off = ae_flags e" "get_u16 b (off + 2) = of_nat ?n"
    "get_u32 b (off + 4) = ae_length e"
    unfolding get_int_defs get_bytes_drop get_bytes_drop0 [of b off] d
    by (simp_all add: entry_bytes_def fields)
  moreover have "unat (of_nat ?n :: u16) = ?n"
    using Cons.prems(3) by (simp add: unat_of_nat)
  ultimately show ?case
    using Cons.prems segs by (simp add: add.assoc)
qed

lemma am_to_bytes_fits:
  assumes "am_to_bytes crc m capacity = Inr b"
  shows "AGMAP_HDR + am_used (am_entries m) \<le> capacity"
proof (rule ccontr)
  assume "\<not> AGMAP_HDR + am_used (am_entries m) \<le> capacity"
  then have "am_to_bytes crc m capacity \<noteq> Inr b"
    by (cases "AGMAP_HDR \<le> capacity")
      (auto simp: am_to_bytes_def guardR_def tryR_Inr_iff am_put_entries_full Let_def)
  with assms show False by simp
qed

lemma am_parse_to_bytes:
  assumes "am_wf m" and "am_to_bytes crc m capacity = Inr b"
  shows "am_parse crc b = Inr m"
proof -
  let ?n = "am_used (am_entries m)"
  have fits: "AGMAP_HDR + ?n \<le> capacity" by (rule am_to_bytes_fits [OF assms(2)])
  define u where "u = (of_nat (AGMAP_HDR + ?n) :: u32)"
  define body where "body = am_head m u @ am_body m"
  define c where "c = csum crc (AGMAP_MAGIC @ replicate 4 0 @ body) 4"
  have b: "b = AGMAP_MAGIC @ to_be 4 c @ body @ replicate (capacity - AGMAP_HDR - ?n) 0"
    using am_to_bytes_concat [OF fits, of crc] assms(2) by (simp add: u_def body_def c_def)
  have u: "unat u = 24 + ?n"
    using assms(1) unfolding u_def am_wf_def by (subst unat_of_nat) simp
  have cnt: "unat (of_nat (length (am_entries m)) :: u32) = length (am_entries m)"
    using assms(1) unfolding am_wf_def by (simp add: unat_of_nat)
  have "drop 24 b = am_body m @ replicate (capacity - AGMAP_HDR - ?n) 0"
    by (simp add: b body_def)
  then have ents: "am_get_entries b (24 + ?n) (length (am_entries m)) 24 = Inr (am_entries m)"
    using assms(1) unfolding am_body_def am_wf_def by (intro am_get_entries_written) simp_all
  have "take (24 + ?n) b = AGMAP_MAGIC @ to_be 4 c @ body"
    by (simp add: b body_def length_am_body)
  then have "csum crc (take (24 + ?n) b) 4 = c"
    by (simp add: c_def csum_def)
  moreover have "get_u32 b 20 = u" "get_u32 b 4 = c" "get_bytes b 0 4 = AGMAP_MAGIC"
    "get_u32 b 16 = of_nat (length (am_entries m))" "get_u64 b 8 = am_gen m"
    by (simp_all add: b body_def am_head_def get_int_defs fields)
  moreover have "length b = capacity" using fits by (simp add: b body_def length_am_body)
  ultimately show ?thesis
    using u cnt ents fits by (simp add: am_parse_def)
qed

lemma am_to_bytes_length:
  assumes "am_to_bytes crc m cap = Inr b"
  shows "length b = cap" and "am_wf m \<Longrightarrow> am_parse crc b = Inr m"
proof -
  have fits: "AGMAP_HDR + am_used (am_entries m) \<le> cap" by (rule am_to_bytes_fits [OF assms])
  note b = am_to_bytes_concat [OF fits, of crc]
  show "length b = cap" using b assms fits by (auto simp: length_am_body)
  show "am_wf m \<Longrightarrow> am_parse crc b = Inr m" using am_parse_to_bytes [OF _ assms] .
qed

subsection \<open>Where blocks live\<close>

text \<open>
  The byte range of a segment on the device, and the layout condition: no segment's arithmetic
  wraps, and no two segments of the map overlap.
\<close>

definition sg_range :: "u32 \<Rightarrow> ag_segment \<Rightarrow> nat \<times> nat" where
  "sg_range bs s =
     (unat (sg_dev_offset s), unat (sg_dev_offset s) + unat (sg_blocks s) * unat bs)"

definition apart :: "nat \<times> nat \<Rightarrow> nat \<times> nat \<Rightarrow> bool" where
  "apart x y \<longleftrightarrow> snd x \<le> fst y \<or> snd y \<le> fst x"

definition sg_ok :: "u32 \<Rightarrow> ag_segment \<Rightarrow> bool" where
  "sg_ok bs s \<longleftrightarrow> unat (sg_block s) + unat (sg_blocks s) < 2 ^ 32 \<and>
     snd (sg_range bs s) \<le> 2 ^ 64"

definition am_segs :: "agmap \<Rightarrow> ag_segment list" where
  "am_segs m = concat (map ae_segs (am_entries m))"

definition am_layout_ok :: "agmap \<Rightarrow> u32 \<Rightarrow> bool" where
  "am_layout_ok m bs \<longleftrightarrow> list_all (sg_ok bs) (am_segs m) \<and>
     sorted_wrt (\<lambda>s s'. apart (sg_range bs s) (sg_range bs s')) (am_segs m)"

lemma apart_sym: "apart x y \<longleftrightarrow> apart y x"
  by (auto simp: apart_def)

lemma sorted_wrt_concat_nth:
  assumes "sorted_wrt P (concat xss)" and "i < j" and "j < length xss"
    and "x \<in> set (xss ! i)" and "y \<in> set (xss ! j)"
  shows "P x y"
  using assms
proof (induction xss arbitrary: i j)
  case Nil
  then show ?case by simp
next
  case (Cons xs xss)
  from Cons.prems(2,3) obtain j' where j: "j = Suc j'" "j' < length xss" by (cases j) auto
  with Cons.prems(5) have y: "y \<in> set (concat xss)" by auto
  show ?case
  proof (cases i)
    case 0
    then show ?thesis using Cons.prems y by (auto simp: sorted_wrt_append)
  next
    case (Suc i')
    then show ?thesis using Cons j by (auto simp: sorted_wrt_append)
  qed
qed

lemma sorted_wrt_concat_inner:
  "sorted_wrt P (concat xss) \<Longrightarrow> xs \<in> set xss \<Longrightarrow> sorted_wrt P xs"
  by (induction xss) (auto simp: sorted_wrt_append)

lemma sorted_wrt_sym:
  assumes "sorted_wrt P xs" and "\<And>a b. P a b \<Longrightarrow> P b a"
    and "x \<in> set xs" and "y \<in> set xs" and "x \<noteq> y"
  shows "P x y"
  using assms(1,3-) by (induction xs) (auto dest: assms(2))

lemma am_segs_apart:
  assumes "am_layout_ok m bs"
    and "i < length (am_entries m)" "j < length (am_entries m)"
    and "s \<in> set (ae_segs (am_entries m ! i))" "s' \<in> set (ae_segs (am_entries m ! j))"
    and "i \<noteq> j \<or> s \<noteq> s'"
  shows "apart (sg_range bs s) (sg_range bs s')"
proof -
  let ?P = "\<lambda>s s'. apart (sg_range bs s) (sg_range bs s')"
  have sorted: "sorted_wrt ?P (concat (map ae_segs (am_entries m)))"
    using assms(1) by (simp add: am_layout_ok_def am_segs_def)
  consider "i < j" | "j < i" | "i = j" "s \<noteq> s'" using assms(6) by linarith
  then show ?thesis
  proof cases
    case 1
    then show ?thesis
      using sorted_wrt_concat_nth [OF sorted, of i j s s'] assms(3-5) by simp
  next
    case 2
    then show ?thesis
      using sorted_wrt_concat_nth [OF sorted, of j i s' s] assms by (simp add: apart_sym)
  next
    case 3
    have "sorted_wrt ?P (ae_segs (am_entries m ! i))"
      by (rule sorted_wrt_concat_inner [OF sorted]) (use assms(2) in simp)
    then show ?thesis
      by (rule sorted_wrt_sym) (use assms(4,5) 3 in \<open>auto simp: apart_sym\<close>)
  qed
qed

lemma am_layout_seg:
  assumes "am_layout_ok m bs" and "i < length (am_entries m)"
    and "s \<in> set (ae_segs (am_entries m ! i))"
  shows "sg_ok bs s"
  using assms by (auto simp: am_layout_ok_def am_segs_def list_all_iff)

text \<open>What a successful resolution means, segment by segment.\<close>

lemma am_resolve_SomeE:
  assumes "am_resolve m a bs = Some p"
  obtains ag local s where "blk_split a = (ag, local)"
    and "unat ag < length (am_entries m)" and "s \<in> set (ae_segs (am_entries m ! unat ag))"
    and "sg_holds local s" and "p = sg_place bs local s"
    and "local < ae_length (am_entries m ! unat ag)"
proof -
  obtain ag local where split: "blk_split a = (ag, local)" by fastforce
  let ?e = "am_entries m ! unat ag"
  obtain s where s: "find (sg_holds local) (ae_segs ?e) = Some s" "p = sg_place bs local s"
    and e: "unat ag < length (am_entries m)" "local < ae_length ?e"
    using assms split by (auto simp: am_resolve_def Let_def not_le split: if_splits)
  from s(1) have "s \<in> set (ae_segs ?e)" "sg_holds local s" by (auto simp: find_Some_iff)
  with split e s(2) show ?thesis by (intro that)
qed

text \<open>Within a segment the place is the exact sum, without wrap-around.\<close>

lemma sg_place_exact:
  assumes "sg_ok bs s" and "sg_holds local s"
  shows "unat (sg_place bs local s)
      = unat (sg_dev_offset s) + (unat local - unat (sg_block s)) * unat bs"
    and "unat local - unat (sg_block s) < unat (sg_blocks s)"
    and "unat (sg_block s) \<le> unat local"
proof -
  let ?k = "unat local - unat (sg_block s)"
  have lo: "unat (sg_block s) \<le> unat local"
    using assms(2) by (simp add: sg_holds_def word_le_nat_alt)
  moreover have "unat (sg_block s + sg_blocks s) = unat (sg_block s) + unat (sg_blocks s)"
    using assms(1) by (simp add: sg_ok_def unat_word_ariths)
  then have "unat local < unat (sg_block s) + unat (sg_blocks s)"
    using assms(2) by (simp add: sg_holds_def word_less_nat_alt)
  ultimately show k: "?k < unat (sg_blocks s)" and "unat (sg_block s) \<le> unat local" by simp_all
  have fits: "unat (sg_dev_offset s) + ?k * unat bs < 2 ^ 64 \<or> unat bs = 0"
  proof (cases "unat bs = 0")
    case False
    then have "?k * unat bs < unat (sg_blocks s) * unat bs" using k by simp
    moreover have "unat (sg_dev_offset s) + unat (sg_blocks s) * unat bs \<le> 2 ^ 64"
      using assms(1) by (simp add: sg_ok_def sg_range_def)
    ultimately show ?thesis by linarith
  qed simp
  have d: "unat (local - sg_block s) = ?k"
    using lo by (simp add: unat_sub word_le_nat_alt)
  have "unat (ucast (local - sg_block s) :: u64) = ?k" "unat (ucast bs :: u64) = unat bs"
    by (simp_all add: d)
  then have "unat (sg_place bs local s) = (unat (sg_dev_offset s) + ?k * unat bs) mod 2 ^ 64"
    by (simp add: sg_place_def unat_word_ariths mod_simps)
  then show "unat (sg_place bs local s) = unat (sg_dev_offset s) + ?k * unat bs"
    using fits unat_bound [of "sg_dev_offset s"] by auto
qed

lemma blocks_apart:
  fixes k l :: nat
  assumes "k \<noteq> l"
  shows "apart (off + k * b, off + k * b + b) (off + l * b, off + l * b + b)"
proof (cases "k < l")
  case True
  then have "Suc k * b \<le> l * b" by (intro mult_le_mono1) simp
  then show ?thesis by (simp add: apart_def)
next
  case False
  then have "Suc l * b \<le> k * b" using assms by (intro mult_le_mono1) simp
  then show ?thesis by (simp add: apart_def)
qed

definition blk_range :: "u32 \<Rightarrow> u64 \<Rightarrow> nat \<times> nat" where
  "blk_range bs p = (unat p, unat p + unat bs)"

lemma am_resolve_in_seg:
  assumes "sg_ok bs s" and "sg_holds local s"
  shows "fst (sg_range bs s) \<le> unat (sg_place bs local s)"
    and "unat (sg_place bs local s) + unat bs \<le> snd (sg_range bs s)"
proof -
  let ?k = "unat local - unat (sg_block s)"
  note place = sg_place_exact [OF assms]
  then have "Suc ?k * unat bs \<le> unat (sg_blocks s) * unat bs" by (intro mult_le_mono1) simp
  then show "unat (sg_place bs local s) + unat bs \<le> snd (sg_range bs s)"
    using place(1) by (simp add: sg_range_def)
  show "fst (sg_range bs s) \<le> unat (sg_place bs local s)"
    using place(1) by (simp add: sg_range_def)
qed

lemma am_resolve_apart:
  assumes ok: "am_layout_ok m bs" and "a \<noteq> a'"
    and r: "am_resolve m a bs = Some p" and r': "am_resolve m a' bs = Some p'"
  shows "apart (blk_range bs p) (blk_range bs p')"
proof -
  obtain ag local s where 1: "blk_split a = (ag, local)" "unat ag < length (am_entries m)"
    "s \<in> set (ae_segs (am_entries m ! unat ag))" "sg_holds local s" "p = sg_place bs local s"
    using r by (rule am_resolve_SomeE)
  obtain ag' local' s' where 2: "blk_split a' = (ag', local')" "unat ag' < length (am_entries m)"
    "s' \<in> set (ae_segs (am_entries m ! unat ag'))" "sg_holds local' s'" "p' = sg_place bs local' s'"
    using r' by (rule am_resolve_SomeE)
  have ok1: "sg_ok bs s" and ok2: "sg_ok bs s'"
    using 1 2 by (blast intro: am_layout_seg [OF ok])+
  show ?thesis
  proof (cases "ag = ag' \<and> s = s'")
    case True
    with 1(1) 2(1) \<open>a \<noteq> a'\<close> have "local \<noteq> local'" by (metis blk_addr_split)
    then have "unat local - unat (sg_block s) \<noteq> unat local' - unat (sg_block s)"
      using sg_place_exact(3) [OF ok1 1(4)] sg_place_exact(3) [OF ok2 2(4)] True
      by (metis eq_diff_iff word_unat_eq_iff)
    then show ?thesis
      using blocks_apart sg_place_exact(1) [OF ok1 1(4)] sg_place_exact(1) [OF ok2 2(4)] True 1(5) 2(5)
      by (simp add: blk_range_def)
  next
    case False
    then have "apart (sg_range bs s) (sg_range bs s')"
      using 1 2 by (intro am_segs_apart [OF ok]) (auto simp: word_unat_eq_iff)
    then show ?thesis
      using am_resolve_in_seg [OF ok1 1(4)] am_resolve_in_seg [OF ok2 2(4)] 1(5) 2(5)
      by (auto simp: apart_def blk_range_def)
  qed
qed

text \<open>An AG kept in one segment, as mkfs, \<open>add_ag\<close> and \<open>relocate\<close> leave it, resolves all of its
  blocks.\<close>

lemma am_resolve_one_segment:
  assumes "unat ag < length (am_entries m)"
    and "am_entries m ! unat ag = \<lparr>ae_flags = fl, ae_length = len,
      ae_segs = [\<lparr>sg_block = 0, sg_blocks = len, sg_dev_offset = off\<rparr>]\<rparr>"
    and "fl AND AGF_PRESENT \<noteq> 0"
  shows "am_resolve m (blk_addr ag local) bs
    = (if local < len then Some (off + ucast local * ucast bs) else None)"
  using assms
  by (auto simp: am_resolve_def Let_def sg_holds_def sg_place_def not_le)

end
