(* ===== verification/FmtInode.thy ===== *)
theory FmtInode
  imports FmtMap
begin

text \<open>
  \<open>src/fmt.rs\<close>, third part: inodes, the inline extent records and the embedded directory
  entries an inode's 128-byte payload may hold.
\<close>

unbundle bit_operations_syntax

abbreviation INODE_SIZE :: nat where "INODE_SIZE \<equiv> 256"
abbreviation INODE_PAYLOAD :: nat where "INODE_PAYLOAD \<equiv> 128"
abbreviation INODE_MAGIC :: u16 where "INODE_MAGIC \<equiv> 0x494e"
abbreviation INODE_FLAG_IMMUTABLE :: u32 where "INODE_FLAG_IMMUTABLE \<equiv> 1"
abbreviation FMT_EMPTY :: u8 where "FMT_EMPTY \<equiv> 1"
abbreviation FMT_EMBED :: u8 where "FMT_EMBED \<equiv> 2"
abbreviation FMT_EXTENT :: u8 where "FMT_EXTENT \<equiv> 3"
abbreviation FMT_TREE :: u8 where "FMT_TREE \<equiv> 4"
abbreviation DT_FILE :: u8 where "DT_FILE \<equiv> 1"
abbreviation DT_DIR :: u8 where "DT_DIR \<equiv> 2"

subsection \<open>Inodes\<close>

record ts =
  ts_sec :: i64
  ts_nsec :: u32

definition ts_default :: ts where
  "ts_default = \<lparr>ts_sec = 0, ts_nsec = 0\<rparr>"

record inode =
  in_format :: u8
  in_mode :: u16
  in_nlink :: u32
  in_uid :: u32
  in_gid :: u32
  in_flags :: u32
  in_gen :: u32
  in_size :: u64
  in_nblocks :: u64
  in_atime :: ts
  in_mtime :: ts
  in_ctime :: ts
  in_btime :: ts
  in_xattr :: u64
  in_payload :: buffer

definition inode_default :: inode where
  "inode_default =
     \<lparr>in_format = FMT_EMPTY, in_mode = 0, in_nlink = 0, in_uid = 0, in_gid = 0, in_flags = 0,
      in_gen = 0, in_size = 0, in_nblocks = 0, in_atime = ts_default, in_mtime = ts_default,
      in_ctime = ts_default, in_btime = ts_default, in_xattr = 0,
      in_payload = replicate INODE_PAYLOAD 0\<rparr>"

definition in_wf :: "inode \<Rightarrow> bool" where
  "in_wf ino \<longleftrightarrow> length (in_payload ino) = INODE_PAYLOAD"

definition put_ts :: "buffer \<Rightarrow> nat \<Rightarrow> ts \<Rightarrow> buffer" where
  "put_ts b off t = put_u32 (put_i64 b off (ts_sec t)) (off + 8) (ts_nsec t)"

definition get_ts :: "buffer \<Rightarrow> nat \<Rightarrow> ts" where
  "get_ts b off = \<lparr>ts_sec = get_i64 b off, ts_nsec = get_u32 b (off + 8)\<rparr>"

definition in_fields :: "inode \<Rightarrow> buffer" where
  "in_fields ino =
     (let b = replicate INODE_SIZE 0;
          b = put_u16 b 0 INODE_MAGIC;
          b = put_bytes b 2 [2];
          b = put_bytes b 3 [in_format ino];
          b = put_u16 b 8 (in_mode ino);
          b = put_u32 b 10 (in_nlink ino);
          b = put_u32 b 14 (in_uid ino);
          b = put_u32 b 18 (in_gid ino);
          b = put_u32 b 22 (in_flags ino);
          b = put_u32 b 26 (in_gen ino);
          b = put_u64 b 30 (in_size ino);
          b = put_u64 b 38 (in_nblocks ino);
          b = put_ts b 46 (in_atime ino);
          b = put_ts b 58 (in_mtime ino);
          b = put_ts b 70 (in_ctime ino);
          b = put_ts b 82 (in_btime ino);
          b = put_u64 b 94 (in_xattr ino);
          b = put_bytes b 128 (in_payload ino)
      in b)"

definition in_to_bytes :: "crc_fun \<Rightarrow> inode \<Rightarrow> buffer" where
  "in_to_bytes crc ino = seal crc (in_fields ino)"

definition in_parse :: "crc_fun \<Rightarrow> buffer \<Rightarrow> inode result" where
  "in_parse crc b =
     (if length b < INODE_SIZE then Inl (Msg ''inode: short read'')
      else let b = take INODE_SIZE b in
        if get_u16 b 0 \<noteq> INODE_MAGIC then Inl (Msg ''inode: bad magic'')
        else if get_u32 b 4 \<noteq> csum crc b 4 then Inl (Msg ''inode: bad checksum'')
        else if b ! 2 \<noteq> 2 then Inl (Msg ''inode: unsupported version {}'')
        else Inr
          \<lparr>in_format = b ! 3, in_mode = get_u16 b 8, in_nlink = get_u32 b 10, in_uid = get_u32 b 14,
           in_gid = get_u32 b 18, in_flags = get_u32 b 22, in_gen = get_u32 b 26,
           in_size = get_u64 b 30, in_nblocks = get_u64 b 38, in_atime = get_ts b 46,
           in_mtime = get_ts b 58, in_ctime = get_ts b 70, in_btime = get_ts b 82,
           in_xattr = get_u64 b 94, in_payload = drop 128 b\<rparr>)"

definition is_dir :: "inode \<Rightarrow> bool" where
  "is_dir ino \<longleftrightarrow> in_mode ino AND 0xF000 = 0x4000"

definition is_file :: "inode \<Rightarrow> bool" where
  "is_file ino \<longleftrightarrow> in_mode ino AND 0xF000 = 0x8000"

definition ts_bytes :: "ts \<Rightarrow> buffer" where
  "ts_bytes t = to_be 8 (ts_sec t) @ to_be 4 (ts_nsec t)"

lemma length_ts_bytes [simp]: "length (ts_bytes t) = 12"
  by (simp add: ts_bytes_def)

definition in_tail :: "inode \<Rightarrow> buffer" where
  "in_tail ino =
     to_be 2 (in_mode ino) @ to_be 4 (in_nlink ino) @ to_be 4 (in_uid ino) @ to_be 4 (in_gid ino) @
     to_be 4 (in_flags ino) @ to_be 4 (in_gen ino) @ to_be 8 (in_size ino) @
     to_be 8 (in_nblocks ino) @ ts_bytes (in_atime ino) @ ts_bytes (in_mtime ino) @
     ts_bytes (in_ctime ino) @ ts_bytes (in_btime ino) @ to_be 8 (in_xattr ino) @
     replicate 26 0 @ in_payload ino"

definition in_head :: "inode \<Rightarrow> buffer" where
  "in_head ino = to_be 2 INODE_MAGIC @ [2, in_format ino]"

lemma length_in_head [simp]: "length (in_head ino) = 4"
  by (simp add: in_head_def)

lemma length_in_tail: "in_wf ino \<Longrightarrow> length (in_tail ino) = 248"
  by (simp add: in_tail_def in_wf_def)

lemma in_fields_concat:
  "in_wf ino \<Longrightarrow> in_fields ino = in_head ino @ replicate 4 0 @ in_tail ino"
  by (simp add: in_wf_def in_fields_def put_int_defs put_ts_def pad_start put_pad Let_def)
    (simp add: pad_def in_tail_def in_head_def ts_bytes_def)

lemma in_to_bytes_concat:
  "in_wf ino \<Longrightarrow>
     in_to_bytes crc ino = in_head ino @ to_be 4 (csum crc (in_fields ino) 4) @ in_tail ino"
  by (simp add: in_to_bytes_def in_fields_concat seal_fields)

lemma length_in_to_bytes: "in_wf ino \<Longrightarrow> length (in_to_bytes crc ino) = INODE_SIZE"
  by (simp add: in_to_bytes_concat length_in_tail)

lemma get_ts_skip [fields]:
  assumes "length xs \<le> off"
  shows "get_ts (xs @ r) off = get_ts r (off - length xs)"
proof -
  have "off + 8 - length xs = off - length xs + 8" using assms by simp
  then show ?thesis using assms by (simp add: get_ts_def get_int_defs get_bytes_skip)
qed

lemma get_ts_hit [fields]: "get_ts (ts_bytes t @ r) 0 = t"
  by (simp add: get_ts_def get_int_defs ts_bytes_def fields)

lemma in_parse_to_bytes:
  assumes "in_wf ino"
  shows "in_parse crc (in_to_bytes crc ino @ rest) = Inr ino"
proof -
  let ?b = "in_to_bytes crc ino"
  have "get_u32 ?b 4 = csum crc ?b 4"
    unfolding in_to_bytes_def
    by (rule seal_verifies) (simp add: in_fields_concat [OF assms] length_in_tail [OF assms])
  moreover have "get_u16 ?b 0 = INODE_MAGIC" "?b ! 2 = 2" "?b ! 3 = in_format ino"
    by (simp_all add: in_to_bytes_concat [OF assms] in_head_def get_u16_def fields nth_append)
  moreover have "drop 128 ?b = in_payload ino"
    by (simp add: in_to_bytes_concat [OF assms] in_tail_def)
  moreover have "get_u16 ?b 8 = in_mode ino" "get_u32 ?b 10 = in_nlink ino"
    "get_u32 ?b 14 = in_uid ino" "get_u32 ?b 18 = in_gid ino" "get_u32 ?b 22 = in_flags ino"
    "get_u32 ?b 26 = in_gen ino" "get_u64 ?b 30 = in_size ino" "get_u64 ?b 38 = in_nblocks ino"
    "get_ts ?b 46 = in_atime ino" "get_ts ?b 58 = in_mtime ino" "get_ts ?b 70 = in_ctime ino"
    "get_ts ?b 82 = in_btime ino" "get_u64 ?b 94 = in_xattr ino"
    by (simp_all add: in_to_bytes_concat [OF assms] get_u16_def get_u32_def get_u64_def fields in_tail_def)
  ultimately show ?thesis
    by (simp add: in_parse_def length_in_to_bytes [OF assms])
qed

lemma in_parse_wf: "in_parse crc b = Inr ino \<Longrightarrow> in_wf ino"
  by (auto simp: in_parse_def Let_def in_wf_def min_def split: if_splits)

interpretation in_codec: codec "in_to_bytes crc" "in_parse crc" in_wf INODE_SIZE for crc
  by unfold_locales (simp_all add: length_in_to_bytes in_parse_to_bytes)

subsection \<open>Inline extent records\<close>

record extent =
  ex_file_block :: u64
  ex_blk :: u64
  ex_blocks :: u32

abbreviation EXTENT_REC :: nat where "EXTENT_REC \<equiv> 20"
abbreviation MAX_INLINE_EXTENTS :: nat where "MAX_INLINE_EXTENTS \<equiv> 6"

definition ext_at :: "buffer \<Rightarrow> nat \<Rightarrow> extent" where
  "ext_at payload i =
     \<lparr>ex_file_block = get_u64 payload (i * EXTENT_REC), ex_blk = get_u64 payload (i * EXTENT_REC + 8),
      ex_blocks = get_u32 payload (i * EXTENT_REC + 16)\<rparr>"

definition extents_parse :: "buffer \<Rightarrow> extent list" where
  "extents_parse payload =
     takeWhile (\<lambda>e. ex_blocks e \<noteq> 0) (map (ext_at payload) [0..<MAX_INLINE_EXTENTS])"

fun put_extents :: "buffer \<Rightarrow> nat \<Rightarrow> extent list \<Rightarrow> buffer" where
  "put_extents b i [] = b"
| "put_extents b i (e # es) =
     (let off = i * EXTENT_REC;
          b = put_u64 b off (ex_file_block e);
          b = put_u64 b (off + 8) (ex_blk e);
          b = put_u32 b (off + 16) (ex_blocks e)
      in put_extents b (Suc i) es)"

definition extents_store :: "extent list \<Rightarrow> buffer result" where
  "extents_store es =
     (if length es > MAX_INLINE_EXTENTS then Inl (Msg ''too many inline extents'')
      else Inr (put_extents (replicate INODE_PAYLOAD 0) 0 es))"

definition ext_bytes :: "extent \<Rightarrow> buffer" where
  "ext_bytes e = to_be 8 (ex_file_block e) @ to_be 8 (ex_blk e) @ to_be 4 (ex_blocks e)"

lemma length_ext_bytes [simp]: "length (ext_bytes e) = 20"
  by (simp add: ext_bytes_def)

lemma length_concat_ext_bytes [simp]: "length (concat (map ext_bytes es)) = 20 * length es"
  by (induction es) auto

lemma put_extents_pad:
  assumes "length P = i * 20" and "20 * length es \<le> k"
  shows "put_extents (pad P k) i es = pad (P @ concat (map ext_bytes es)) (k - 20 * length es)"
  using assms
proof (induction es arbitrary: P i k)
  case Nil
  then show ?case by simp
next
  case (Cons e es)
  have "put_extents (pad P k) i (e # es) = put_extents (pad (P @ ext_bytes e) (k - 20)) (Suc i) es"
    using Cons.prems by (simp add: put_int_defs put_pad Let_def ext_bytes_def)
  also have "\<dots> = pad ((P @ ext_bytes e) @ concat (map ext_bytes es)) (k - 20 - 20 * length es)"
    by (rule Cons.IH) (use Cons.prems in simp_all)
  finally show ?case by simp
qed

lemma ext_at_concat:
  "i < length es \<Longrightarrow> ext_at (concat (map ext_bytes es) @ r) i = es ! i"
proof (induction es arbitrary: i)
  case Nil
  then show ?case by simp
next
  case (Cons e es)
  show ?case
  proof (cases i)
    case 0
    then show ?thesis by (simp add: ext_at_def get_int_defs ext_bytes_def fields)
  next
    case (Suc j)
    then have "ext_at (concat (map ext_bytes (e # es)) @ r) i
        = ext_at (concat (map ext_bytes es) @ r) j"
      by (simp add: ext_at_def get_int_defs get_bytes_skip add.commute)
    with Suc Cons show ?thesis by simp
  qed
qed

lemma ext_at_zero:
  "20 * i + 20 \<le> k \<Longrightarrow> length P = 20 * n \<Longrightarrow> ex_blocks (ext_at (pad P k) (n + i)) = 0"
  by (simp add: ext_at_def pad_def get_u32_def get_bytes_def add_mult_distrib from_be_def
      foldl_conv_fold numeral_eq_Suc)

lemma extents_store_image:
  "extents_store es = Inr p \<longleftrightarrow>
     length es \<le> MAX_INLINE_EXTENTS \<and> p = pad (concat (map ext_bytes es)) (INODE_PAYLOAD - 20 * length es)"
  by (auto simp: extents_store_def pad_start put_extents_pad)

lemma extents_parse_store:
  assumes "extents_store es = Inr p" and "\<forall>e\<in>set es. ex_blocks e \<noteq> 0"
  shows "extents_parse p = es"
proof -
  let ?k = "INODE_PAYLOAD - 20 * length es" and ?P = "concat (map ext_bytes es)"
  have len: "length es \<le> 6" and p: "p = pad ?P ?k"
    using assms(1) by (simp_all add: extents_store_image)
  have "map (ext_at p) [0..<6] = map (ext_at p) [0..<length es] @ map (ext_at p) [length es..<6]"
    using len upt_add_eq_append [of 0 "length es" "6 - length es"] by (simp flip: map_append)
  also have "map (ext_at p) [0..<length es] = es"
    by (rule nth_equalityI) (simp_all add: p pad_def ext_at_concat)
  finally have map: "map (ext_at p) [0..<6] = es @ map (ext_at p) [length es..<6]" .
  show ?thesis
  proof (cases "length es = 6")
    case True
    with map assms(2) show ?thesis by (simp add: extents_parse_def takeWhile_eq_all_conv)
  next
    case False
    with len have "[length es..<6] = length es # [Suc (length es)..<6]"
      by (simp add: upt_conv_Cons)
    moreover have "ex_blocks (ext_at p (length es)) = 0"
      using ext_at_zero [of 0 ?k ?P "length es"] len False by (simp add: p)
    ultimately show ?thesis
      using map assms(2) by (simp add: extents_parse_def takeWhile_append2)
  qed
qed

text \<open>Records read from a payload are never empty, and there are at most six of them.\<close>

lemma extents_parse_nonzero: "e \<in> set (extents_parse p) \<Longrightarrow> ex_blocks e \<noteq> 0"
  by (auto simp: extents_parse_def dest: set_takeWhileD)

lemma extents_parse_bound: "length (extents_parse p) \<le> MAX_INLINE_EXTENTS"
  using length_takeWhile_le [of _ "map (ext_at p) [0..<6]"] by (simp add: extents_parse_def)

subsection \<open>Embedded directory entries\<close>

record dir_entry =
  de_ino :: u64
  de_ftype :: u8
  de_name :: rstring

function dir_parse_from :: "buffer \<Rightarrow> nat \<Rightarrow> dir_entry list" where
  "dir_parse_from payload off =
     (if length payload < off + 10 then []
      else
        let ino = get_u64 payload off;
            ftype = payload ! (off + 8);
            nlen = unat (payload ! (off + 9))
        in if ino = 0 \<or> length payload < off + 10 + nlen * 2 then []
           else \<lparr>de_ino = ino, de_ftype = ftype,
                 de_name = from_utf16_lossy (get_u16s payload (off + 10) nlen)\<rparr>
                # dir_parse_from payload (off + 10 + nlen * 2))"
  by pat_completeness auto
termination
  by (relation "measure (\<lambda>(payload, off). length payload - off)") auto

declare dir_parse_from.simps [simp del]

definition dir_parse :: "buffer \<Rightarrow> dir_entry list" where
  "dir_parse payload = dir_parse_from payload 0"

definition dir_append :: "buffer \<Rightarrow> dir_entry \<Rightarrow> buffer result" where
  "dir_append payload e =
     (let units = encode_utf16 (de_name e) in
      if length units > 255 then Inl (Msg ''name too long'')
      else
        let off = sum_list (map (\<lambda>ent. 10 + length (encode_utf16 (de_name ent)) * 2) (dir_parse payload));
            need = 10 + length units * 2
        in if off + need > INODE_PAYLOAD then Inl (Msg ''embedded directory full'')
           else
             let b = put_u64 payload off (de_ino e);
                 b = put_bytes b (off + 8) [de_ftype e];
                 b = put_bytes b (off + 9) [of_nat (length units)]
             in Inr (put_u16s b (off + 10) units))"

definition dirent_bytes :: "dir_entry \<Rightarrow> buffer" where
  "dirent_bytes e = to_be 8 (de_ino e) @ [de_ftype e, of_nat (length (encode_utf16 (de_name e)))] @
     concat (map (to_be 2) (encode_utf16 (de_name e)))"

definition dirent_size :: "dir_entry \<Rightarrow> nat" where
  "dirent_size e = 10 + length (encode_utf16 (de_name e)) * 2"

definition dirent_ok :: "dir_entry \<Rightarrow> bool" where
  "dirent_ok e \<longleftrightarrow> de_ino e \<noteq> 0 \<and> rstring_ok (de_name e) \<and> length (encode_utf16 (de_name e)) \<le> 255"

text \<open>The payload of an embedded directory: its entries one after the other, then zeros.\<close>

definition dir_image :: "dir_entry list \<Rightarrow> buffer" where
  "dir_image es = pad (concat (map dirent_bytes es)) (INODE_PAYLOAD - sum_list (map dirent_size es))"

lemma length_dirent_bytes [simp]: "length (dirent_bytes e) = dirent_size e"
  by (simp add: dirent_bytes_def dirent_size_def)

lemma length_concat_dirent_bytes [simp]:
  "length (concat (map dirent_bytes es)) = sum_list (map dirent_size es)"
  by (induction es) auto

lemma get_int_drop: "get_u64 b off = get_u64 (drop off b) 0" "get_u16s b off n = get_u16s (drop off b) 0 n"
  by (simp add: get_u64_def get_bytes_def)
    (rule get_u16s_cong, simp add: get_bytes_def)

lemma from_be_zeros [simp]: "from_be (replicate n 0) = 0"
  by (induction n) (simp_all add: from_be_def)

lemma dir_parse_from_end:
  "drop off b = replicate k 0 \<Longrightarrow> dir_parse_from b off = []"
proof -
  assume d: "drop off b = replicate k 0"
  have "get_u64 b off = from_be (replicate (min 8 k) 0)"
    unfolding get_int_drop [of b off] d by (simp add: get_u64_def get_bytes_def)
  then show ?thesis by (subst dir_parse_from.simps) (simp add: Let_def)
qed

lemma dir_parse_from_entry:
  assumes "drop off b = dirent_bytes e @ r" and "dirent_ok e"
  shows "dir_parse_from b off = e # dir_parse_from b (off + dirent_size e)"
proof -
  let ?us = "encode_utf16 (de_name e)"
  have len: "off + dirent_size e \<le> length b"
  proof -
    have "length (drop off b) = dirent_size e + length r" using assms(1) by simp
    moreover have "0 < dirent_size e" by (simp add: dirent_size_def)
    ultimately show ?thesis by simp
  qed
  have ino: "get_u64 b off = de_ino e"
    unfolding get_int_drop [of b off] assms(1) by (simp add: get_u64_def dirent_bytes_def fields)
  have "drop off b ! 8 = de_ftype e" "drop off b ! 9 = of_nat (length ?us)"
    unfolding assms(1) by (simp_all add: dirent_bytes_def nth_append)
  then have nth: "b ! (off + 8) = de_ftype e" "b ! (off + 9) = of_nat (length ?us)"
    using len by (simp_all add: dirent_size_def)
  have n: "unat (of_nat (length ?us) :: u8) = length ?us"
    using assms(2) by (simp add: dirent_ok_def unat_of_nat)
  have "drop (off + 10) b = concat (map (to_be 2) ?us) @ r"
    unfolding drop_plus [of off] assms(1) by (simp add: dirent_bytes_def)
  then have name: "get_u16s b (off + 10) (length ?us) = ?us"
    unfolding get_int_drop [of b "off + 10"] by (simp add: get_u16s_concat)
  show ?thesis
    using assms(2) len ino nth n name
    by (subst dir_parse_from.simps)
      (simp add: Let_def dirent_size_def dirent_ok_def utf16_roundtrip algebra_simps)
qed

lemma dir_parse_from_image:
  assumes "drop off b = concat (map dirent_bytes es) @ replicate k 0" and "\<forall>e\<in>set es. dirent_ok e"
  shows "dir_parse_from b off = es"
  using assms
proof (induction es arbitrary: off)
  case Nil
  then show ?case by (simp add: dir_parse_from_end)
next
  case (Cons e es)
  have "dir_parse_from b off = e # dir_parse_from b (off + dirent_size e)"
    by (rule dir_parse_from_entry) (use Cons.prems in simp_all)
  moreover have "drop (off + dirent_size e) b = concat (map dirent_bytes es) @ replicate k 0"
    unfolding drop_plus Cons.prems(1) by simp
  then have "dir_parse_from b (off + dirent_size e) = es"
    by (rule Cons.IH) (use Cons.prems in simp)
  ultimately show ?case by simp
qed

lemma dir_parse_image:
  "\<forall>e\<in>set es. dirent_ok e \<Longrightarrow> dir_parse (dir_image es) = es"
  unfolding dir_parse_def dir_image_def
  by (rule dir_parse_from_image) (simp_all add: pad_def)

lemma sum_dirent_size:
  "sum_list (map (\<lambda>ent. 10 + length (encode_utf16 (de_name ent)) * 2) es)
    = sum_list (map dirent_size es)"
  by (induction es) (simp_all add: dirent_size_def)

lemma dir_append_image:
  assumes "\<forall>x\<in>set es. dirent_ok x" and "length (encode_utf16 (de_name e)) \<le> 255"
    and "sum_list (map dirent_size es) + dirent_size e \<le> INODE_PAYLOAD"
  shows "dir_append (dir_image es) e = Inr (dir_image (es @ [e]))"
proof -
  let ?us = "encode_utf16 (de_name e)" and ?off = "sum_list (map dirent_size es)"
  let ?P = "concat (map dirent_bytes es)"
  have "put_u16s (put_bytes (put_bytes (put_u64 (pad ?P (INODE_PAYLOAD - ?off)) ?off (de_ino e))
        (?off + 8) [de_ftype e]) (?off + 9) [of_nat (length ?us)]) (?off + 10) ?us
      = pad (?P @ dirent_bytes e) (INODE_PAYLOAD - ?off - dirent_size e)"
    using assms(3) by (simp add: put_int_defs put_u16s_def put_pad dirent_size_def dirent_bytes_def mult.commute)
  then have "put_u16s (put_bytes (put_bytes (put_u64 (dir_image es) ?off (de_ino e))
        (?off + 8) [de_ftype e]) (?off + 9) [of_nat (length ?us)]) (?off + 10) ?us
      = dir_image (es @ [e])"
    by (simp add: dir_image_def)
  moreover have "\<not> INODE_PAYLOAD < ?off + (10 + length ?us * 2)" "\<not> 255 < length ?us"
    using assms(2,3) by (simp_all add: dirent_size_def)
  ultimately show ?thesis
    unfolding dir_append_def dir_parse_image [OF assms(1)] sum_dirent_size Let_def by (simp only: if_False)
qed

lemma dir_append_full:
  assumes "\<forall>x\<in>set es. dirent_ok x" and "length (encode_utf16 (de_name e)) \<le> 255"
    and "INODE_PAYLOAD < sum_list (map dirent_size es) + dirent_size e"
  shows "dir_append (dir_image es) e = Inl (Msg ''embedded directory full'')"
proof -
  let ?us = "encode_utf16 (de_name e)"
  have "INODE_PAYLOAD < sum_list (map dirent_size es) + (10 + length ?us * 2)" "\<not> 255 < length ?us"
    using assms(2,3) by (simp_all add: dirent_size_def)
  then show ?thesis
    unfolding dir_append_def dir_parse_image [OF assms(1)] sum_dirent_size Let_def
    by (simp only: if_False if_True)
qed

end
