(* ===== verification/Device.thy ===== *)
theory Device
  imports FmtInode
begin

text \<open>
  \<open>src/device.rs\<close>: a file-backed block device. The file is its bytes and its length; a read
  past the end fails, a write past the end extends the file with zeros in between. The write
  recorder tags every write with the number of syncs before it, which is what a power cut can
  leave behind: all writes of the finished epochs and any of the writes of the current one, in
  any order. Failures of the operating system on a valid request (a full disk, a medium error)
  are not modelled.
\<close>

subsection \<open>Files\<close>

record vfile =
  fl_bytes :: "nat \<Rightarrow> u8"
  fl_len :: nat

definition MAX_OFF :: nat where "MAX_OFF = 2 ^ 63"

definition fl_read :: "vfile \<Rightarrow> nat \<Rightarrow> nat \<Rightarrow> buffer" where
  "fl_read f off n = map (fl_bytes f) [off..<off + n]"

definition fl_write :: "vfile \<Rightarrow> nat \<Rightarrow> buffer \<Rightarrow> vfile" where
  "fl_write f off xs =
     (if xs = [] then f
      else \<lparr>fl_bytes = (\<lambda>i. if off \<le> i \<and> i < off + length xs then xs ! (i - off)
                        else if i < fl_len f then fl_bytes f i else 0),
            fl_len = max (fl_len f) (off + length xs)\<rparr>)"

definition fl_set_len :: "vfile \<Rightarrow> nat \<Rightarrow> vfile" where
  "fl_set_len f n = \<lparr>fl_bytes = (\<lambda>i. if i < n \<and> i < fl_len f then fl_bytes f i else 0), fl_len = n\<rparr>"

lemma length_fl_read [simp]: "length (fl_read f off n) = n"
  by (simp add: fl_read_def)

lemma fl_len_write: "off + length xs \<le> fl_len f \<Longrightarrow> fl_len (fl_write f off xs) = fl_len f"
  by (simp add: fl_write_def)

lemma fl_len_write_ge: "fl_len f \<le> fl_len (fl_write f off xs)"
  by (simp add: fl_write_def)

lemma fl_read_write_same [simp]: "n = length xs \<Longrightarrow> fl_read (fl_write f off xs) off n = xs"
  by (rule nth_equalityI) (auto simp: fl_read_def fl_write_def)

lemma fl_read_write_apart:
  assumes "apart (o2, o2 + n) (off, off + length xs)" and "o2 + n \<le> fl_len f"
  shows "fl_read (fl_write f off xs) o2 n = fl_read f o2 n"
  using assms by (auto simp: fl_read_def fl_write_def apart_def)

lemma fl_read_split:
  "fl_read f off (m + n) = fl_read f off m @ fl_read f (off + m) n"
  by (rule nth_equalityI) (auto simp: fl_read_def nth_append)

lemma fl_read_sub:
  "i + m \<le> n \<Longrightarrow> get_bytes (fl_read f off n) i m = fl_read f (off + i) m"
  by (rule nth_equalityI) (auto simp: fl_read_def get_bytes_def add.assoc)

subsection \<open>The device\<close>

type_synonym write_log = "(u32 \<times> u64 \<times> buffer) list"

record device =
  dv_file :: vfile
  dv_size :: u64
  dv_writable :: bool
  dv_nosync :: bool
  dv_recorder :: "(u32 \<times> write_log) option"

definition dv_new :: "vfile \<Rightarrow> u64 \<Rightarrow> bool \<Rightarrow> device" where
  "dv_new f sz writable =
     \<lparr>dv_file = f, dv_size = sz, dv_writable = writable, dv_nosync = False, dv_recorder = None\<rparr>"

text \<open>\<open>open\<close> and \<open>create\<close>, given the file the operating system found at the path.\<close>

definition dv_open :: "vfile \<Rightarrow> bool \<Rightarrow> device" where
  "dv_open f writable = dv_new f (of_nat (fl_len f)) writable"

definition dv_create :: "vfile \<Rightarrow> u64 \<Rightarrow> device result" where
  "dv_create f sz =
     (if (of_nat (fl_len f) :: u64) \<noteq> sz
      then guardR (unat sz < MAX_OFF) IoError (Inr (dv_new (fl_set_len f (unat sz)) sz True))
      else Inr (dv_new f sz True))"

definition dv_pread :: "device \<Rightarrow> nat \<Rightarrow> u64 \<Rightarrow> buffer result" where
  "dv_pread d n off =
     guardR (n = 0 \<or> unat off + n \<le> fl_len (dv_file d)) IoError
       (Inr (fl_read (dv_file d) (unat off) n))"

definition dv_record :: "u64 \<Rightarrow> buffer \<Rightarrow> device \<Rightarrow> device" where
  "dv_record off buf d =
     (case dv_recorder d of None \<Rightarrow> d
      | Some (epoch, log) \<Rightarrow> d\<lparr>dv_recorder := Some (epoch, log @ [(epoch, off, buf)])\<rparr>)"

definition dv_pwrite :: "buffer \<Rightarrow> u64 \<Rightarrow> (device, unit) operation" where
  "dv_pwrite buf off d =
     (let d = dv_record off buf d in
      if buf = [] \<or> dv_writable d \<and> unat off + length buf < MAX_OFF
      then (Inr (), d\<lparr>dv_file := fl_write (dv_file d) (unat off) buf\<rparr>)
      else (Inl IoError, d))"

definition dv_sync :: "(device, unit) operation" where
  "dv_sync d =
     (Inr (), case dv_recorder d of None \<Rightarrow> d
              | Some (epoch, log) \<Rightarrow> d\<lparr>dv_recorder := Some (epoch + 1, log)\<rparr>)"

definition dv_set_len :: "u64 \<Rightarrow> (device, unit) operation" where
  "dv_set_len sz d =
     (if dv_writable d \<and> unat sz < MAX_OFF
      then (Inr (), d\<lparr>dv_file := fl_set_len (dv_file d) (unat sz), dv_size := sz\<rparr>)
      else (Inl IoError, d))"

definition dv_set_nosync :: "bool \<Rightarrow> device \<Rightarrow> device" where
  "dv_set_nosync v d = d\<lparr>dv_nosync := v\<rparr>"

definition dv_record_start :: "device \<Rightarrow> device" where
  "dv_record_start d = d\<lparr>dv_recorder := Some (0, [])\<rparr>"

definition dv_record_take :: "device \<Rightarrow> write_log \<times> device" where
  "dv_record_take d =
     (case dv_recorder d of None \<Rightarrow> [] | Some (_, log) \<Rightarrow> log, d\<lparr>dv_recorder := None\<rparr>)"

lemma dv_record_file [simp]:
  "dv_file (dv_record off buf d) = dv_file d"
  "dv_writable (dv_record off buf d) = dv_writable d"
  "dv_size (dv_record off buf d) = dv_size d"
  "dv_nosync (dv_record off buf d) = dv_nosync d"
  by (simp_all add: dv_record_def split: option.split)

lemma dv_sync_file [simp]:
  "dv_file (snd (dv_sync d)) = dv_file d"
  "dv_writable (snd (dv_sync d)) = dv_writable d"
  "dv_size (snd (dv_sync d)) = dv_size d"
  "fst (dv_sync d) = Inr ()"
  by (simp_all add: dv_sync_def split: option.split)

text \<open>Writes inside the file of a writable device succeed.\<close>

definition dv_room :: "device \<Rightarrow> bool" where
  "dv_room d \<longleftrightarrow> dv_writable d \<and> fl_len (dv_file d) < MAX_OFF"

lemma dv_pwrite_inside:
  assumes "dv_room d" and "unat off + length buf \<le> fl_len (dv_file d)"
  shows "dv_pwrite buf off d
    = (Inr (), (dv_record off buf d)\<lparr>dv_file := fl_write (dv_file d) (unat off) buf\<rparr>)"
  using assms by (simp add: dv_pwrite_def dv_room_def Let_def)

lemma dv_pread_inside:
  "unat off + n \<le> fl_len (dv_file d) \<Longrightarrow> dv_pread d n off = Inr (fl_read (dv_file d) (unat off) n)"
  by (simp add: dv_pread_def)

lemma dv_pread_ok:
  "dv_pread d n off = Inr b \<longleftrightarrow>
     (n = 0 \<or> unat off + n \<le> fl_len (dv_file d)) \<and> b = fl_read (dv_file d) (unat off) n"
  by (auto simp: dv_pread_def guardR_Inr_iff)

subsection \<open>Power cuts\<close>

text \<open>
  The file after a list of writes, and the files a power cut in epoch \<open>e\<close> can leave: the
  writes of the earlier epochs in their order, then any writes of epoch \<open>e\<close> in any order.
\<close>

definition apply_writes :: "vfile \<Rightarrow> (u64 \<times> buffer) list \<Rightarrow> vfile" where
  "apply_writes f ws = fold (\<lambda>(off, xs) f. fl_write f (unat off) xs) ws f"

definition epoch_writes :: "u32 \<Rightarrow> write_log \<Rightarrow> (u64 \<times> buffer) list" where
  "epoch_writes e log = map snd (filter (\<lambda>w. fst w = e) log)"

definition before_epoch :: "u32 \<Rightarrow> write_log \<Rightarrow> (u64 \<times> buffer) list" where
  "before_epoch e log = map snd (filter (\<lambda>w. fst w < e) log)"

inductive crash_file :: "vfile \<Rightarrow> write_log \<Rightarrow> u32 \<Rightarrow> vfile \<Rightarrow> bool" for f0 log e where
  cut: "set ws \<subseteq> set (epoch_writes e log)
    \<Longrightarrow> crash_file f0 log e (apply_writes (apply_writes f0 (before_epoch e log)) ws)"

lemma apply_writes_simps [simp]:
  "apply_writes f [] = f"
  "apply_writes f ((off, xs) # ws) = apply_writes (fl_write f (unat off) xs) ws"
  "apply_writes f (us @ ws) = apply_writes (apply_writes f us) ws"
  by (simp_all add: apply_writes_def)

text \<open>Writes that stay inside the file and away from a range leave the range as it was.\<close>

definition inside :: "nat \<Rightarrow> u64 \<times> buffer \<Rightarrow> bool" where
  "inside n w \<longleftrightarrow> unat (fst w) + length (snd w) \<le> n"

definition write_range :: "u64 \<times> buffer \<Rightarrow> nat \<times> nat" where
  "write_range w = (unat (fst w), unat (fst w) + length (snd w))"

lemma fl_len_apply_writes:
  "\<forall>w\<in>set ws. inside (fl_len f) w \<Longrightarrow> fl_len (apply_writes f ws) = fl_len f"
  by (induction ws arbitrary: f) (auto simp: inside_def fl_len_write)

lemma fl_read_apply_writes:
  assumes "\<forall>w\<in>set ws. inside (fl_len f) w \<and> apart (off, off + n) (write_range w)"
    and "off + n \<le> fl_len f"
  shows "fl_read (apply_writes f ws) off n = fl_read f off n"
  using assms
proof (induction ws arbitrary: f)
  case Nil
  then show ?case by simp
next
  case (Cons w ws)
  obtain o2 xs where w: "w = (o2, xs)" by (cases w)
  have "fl_read (apply_writes (fl_write f (unat o2) xs) ws) off n = fl_read (fl_write f (unat o2) xs) off n"
    using Cons.prems w by (intro Cons.IH) (auto simp: inside_def fl_len_write)
  also have "\<dots> = fl_read f off n"
    using Cons.prems w by (intro fl_read_write_apart) (auto simp: write_range_def)
  finally show ?case by (simp add: w)
qed

text \<open>
  The recorder is faithful: the file is the file at \<open>record_start\<close> with every recorded
  write applied, as long as the writes succeed.
\<close>

definition recorded :: "vfile \<Rightarrow> device \<Rightarrow> bool" where
  "recorded f0 d \<longleftrightarrow> (\<exists>epoch log. dv_recorder d = Some (epoch, log) \<and>
     dv_file d = apply_writes f0 (map snd log) \<and> (\<forall>w\<in>set log. fst w \<le> epoch) \<and>
     sorted (map fst log))"

lemma recorded_start: "recorded (dv_file d) (dv_record_start d)"
  by (simp add: recorded_def dv_record_start_def)

lemma recorded_pwrite:
  assumes "recorded f0 d" and "dv_pwrite buf off d = (Inr (), d')"
  shows "recorded f0 d'"
proof -
  from assms(1) obtain epoch log where r: "dv_recorder d = Some (epoch, log)"
    "dv_file d = apply_writes f0 (map snd log)" "\<forall>w\<in>set log. fst w \<le> epoch" "sorted (map fst log)"
    by (auto simp: recorded_def)
  from assms(2) have "d' = (dv_record off buf d)\<lparr>dv_file := fl_write (dv_file d) (unat off) buf\<rparr>"
    by (auto simp: dv_pwrite_def Let_def split: if_splits)
  with r show ?thesis
    by (auto simp: recorded_def dv_record_def sorted_append)
qed

text \<open>Without a sync in between, a power cut after the recorded writes can lose any of them.\<close>

lemma crash_of_recorded:
  assumes "recorded f0 d" and "dv_recorder d = Some (epoch, log)" 
  shows "crash_file f0 log epoch (dv_file d)"
proof -
  from assms have fl: "dv_file d = apply_writes f0 (map snd log)"
    and le: "\<forall>w\<in>set log. fst w \<le> epoch" and sorted: "sorted (map fst log)"
    by (auto simp: recorded_def)
  have "map snd log = before_epoch epoch log @ epoch_writes epoch log"
    using le sorted
  proof (induction log)
    case Nil
    then show ?case by (simp add: before_epoch_def epoch_writes_def)
  next
    case (Cons w log)
    show ?case
    proof (cases "fst w < epoch")
      case True
      moreover have "fst w \<noteq> epoch" using True by (rule less_imp_neq)
      moreover have "map snd log = before_epoch epoch log @ epoch_writes epoch log"
        using Cons.prems by (intro Cons.IH) simp_all
      ultimately show ?thesis by (simp only: before_epoch_def epoch_writes_def) simp
    next
      case False
      then have "\<forall>x\<in>set (w # log). fst x = epoch" using Cons.prems by force
      then have "filter (\<lambda>x. fst x < epoch) (w # log) = []" "filter (\<lambda>x. fst x = epoch) (w # log) = w # log"
        by (auto simp: filter_empty_conv filter_id_conv)
      then show ?thesis by (simp only: before_epoch_def epoch_writes_def) simp
    qed
  qed
  with fl show ?thesis
    using crash_file.cut [of "epoch_writes epoch log" epoch log f0] by simp
qed

end
