(* ===== verification/Core.thy ===== *)
theory Core
  imports Device
begin

text \<open>
  \<open>src/fs.rs\<close>, lines 1-250: the mounted filesystem (device, superblock, AG map, allocator
  hints), opening it, address resolution, block, AG-header and inode I/O; with the
  transaction map of \<open>src/journal.rs\<close> that inode I/O reads through.
\<close>

record gofs =
  g_dev :: device
  g_sb :: superblock
  g_map :: agmap
  g_hints :: "u32 \<Rightarrow> (u32 \<times> u64) option"

definition onDev :: "(device, 'a) operation \<Rightarrow> (gofs, 'a) operation" where
  "onDev m g = (case m (g_dev g) of (r, d) \<Rightarrow> (r, g\<lparr>g_dev := d\<rparr>))"

definition g_bs :: "gofs \<Rightarrow> nat" where
  "g_bs g = unat (sb_blocksize (g_sb g))"

subsection \<open>Finding the superblock and the AG map\<close>

definition probe_sizes :: "u64 list" where
  "probe_sizes = [2048, 4096, 8192, 16384, 32768, 65536]"

text \<open>The backup superblock as seen with one candidate block size, if that is a match.\<close>

definition probe_backup :: "crc_fun \<Rightarrow> device \<Rightarrow> u64 \<Rightarrow> superblock option" where
  "probe_backup crc d bs =
     (case tryR (dv_pread d AGHDR_SIZE bs) (ah_parse crc) of
        Inl _ \<Rightarrow> None
      | Inr hdr \<Rightarrow>
          if ah_num hdr \<noteq> 0 then None
          else let off = (ucast (ah_length hdr) - 1) * bs in
            case tryR (dv_pread d SB_SIZE off) (sb_parse crc) of
              Inl _ \<Rightarrow> None
            | Inr sb \<Rightarrow> if ucast (sb_blocksize sb) = bs then Some sb else None)"

fun probe_backups :: "crc_fun \<Rightarrow> device \<Rightarrow> u64 list \<Rightarrow> superblock option" where
  "probe_backups crc d [] = None"
| "probe_backups crc d (bs # rest) =
     (case probe_backup crc d bs of Some sb \<Rightarrow> Some sb | None \<Rightarrow> probe_backups crc d rest)"

definition find_superblock :: "crc_fun \<Rightarrow> device \<Rightarrow> (superblock \<times> bool) result" where
  "find_superblock crc d =
     tryR (dv_pread d SB_SIZE 0) (\<lambda>sbbuf.
       case sb_parse crc sbbuf of
         Inr sb \<Rightarrow> Inr (sb, False)
       | Inl primary_err \<Rightarrow>
           (case probe_backups crc d probe_sizes of
              Some sb \<Rightarrow> Inr (sb, True)
            | None \<Rightarrow> Inl (Msg ''{primary_err}; backup superblock not found either'')))"

definition agmap_copy_off :: "superblock \<Rightarrow> u64 \<Rightarrow> u64" where
  "agmap_copy_off sb copy = sb_agmap_offset sb + copy * sb_agmap_length sb"

definition read_agmap_copy :: "crc_fun \<Rightarrow> device \<Rightarrow> superblock \<Rightarrow> u64 \<Rightarrow> agmap result" where
  "read_agmap_copy crc d sb copy =
     tryR (dv_pread d (unat (sb_agmap_length sb)) (agmap_copy_off sb copy)) (am_parse crc)"

definition better_map :: "agmap option \<Rightarrow> agmap result \<Rightarrow> agmap option" where
  "better_map best r =
     (case r of Inl _ \<Rightarrow> best
      | Inr m \<Rightarrow> (case best of None \<Rightarrow> Some m | Some b \<Rightarrow> if am_gen b < am_gen m then Some m else best))"

definition load_agmap ::
  "crc_fun \<Rightarrow> device \<Rightarrow> superblock \<Rightarrow> (agmap \<times> u64 result list) result" where
  "load_agmap crc d sb =
     (let copies = map (read_agmap_copy crc d sb) [0, 1];
          status = map (\<lambda>r. tryR r (\<lambda>m. Inr (am_gen m))) copies
      in case foldl better_map None copies of
           None \<Rightarrow> Inl (Msg ''no valid AG map copy'')
         | Some m \<Rightarrow> Inr (m, status))"

definition write_agmap :: "crc_fun \<Rightarrow> (gofs, unit) operation" where
  "write_agmap crc =
     bindS (modS (\<lambda>g. g\<lparr>g_map := (g_map g)\<lparr>am_gen := am_gen (g_map g) + 1\<rparr>\<rparr>)) (\<lambda>_.
     bindS (askS (\<lambda>g. am_to_bytes crc (g_map g) (unat (sb_agmap_length (g_sb g))))) (\<lambda>bytes.
     bindS (askS (\<lambda>g. Inr (g_sb g))) (\<lambda>sb.
     bindS (onDev (dv_pwrite bytes (sb_agmap_offset sb))) (\<lambda>_.
     onDev (dv_pwrite bytes (sb_agmap_offset sb + sb_agmap_length sb))))))"

subsection \<open>Blocks\<close>

definition g_resolve :: "gofs \<Rightarrow> u64 \<Rightarrow> u64 result" where
  "g_resolve g blk =
     (case am_resolve (g_map g) blk (sb_blocksize (g_sb g)) of
        None \<Rightarrow> Inl (Msg ''unmapped block address {blk:#x}'')
      | Some off \<Rightarrow> Inr off)"

definition read_block :: "gofs \<Rightarrow> u64 \<Rightarrow> buffer result" where
  "read_block g blk = tryR (g_resolve g blk) (\<lambda>off. dv_pread (g_dev g) (g_bs g) off)"

definition write_block :: "u64 \<Rightarrow> buffer \<Rightarrow> (gofs, unit) operation" where
  "write_block blk data =
     bindS (askS (\<lambda>g. g_resolve g blk)) (\<lambda>off. onDev (dv_pwrite data off))"

definition ag_header_block :: "u32 \<Rightarrow> u32" where
  "ag_header_block ag = (if ag = 0 then 1 else 0)"

definition read_ag_header :: "crc_fun \<Rightarrow> gofs \<Rightarrow> u32 \<Rightarrow> ag_header result" where
  "read_ag_header crc g ag =
     tryR (read_block g (blk_addr ag (ag_header_block ag))) (\<lambda>buf.
       prefixR ''AG {ag}: '' (ah_parse crc buf))"

definition read_root_table :: "gofs \<Rightarrow> ag_header \<Rightarrow> buffer result" where
  "read_root_table g hdr =
     (let (cells, rt_blocks) = rt_geometry (ah_length hdr) (sb_blocksize (g_sb g))
      in tryR (mapR (\<lambda>i. read_block g (blk_addr (ah_num hdr) (ah_alloc_root hdr + of_nat i))) [0..<rt_blocks])
           (\<lambda>bufs. Inr (concat bufs)))"

subsection \<open>Writing the superblock\<close>

text \<open>The backup copy lives in the last block of AG 0's first segment.\<close>

definition backup_off :: "gofs \<Rightarrow> u64 option" where
  "backup_off g =
     (case am_entries (g_map g) of [] \<Rightarrow> None
      | e # _ \<Rightarrow> (case ae_segs e of [] \<Rightarrow> None
          | s # _ \<Rightarrow> Some (sg_dev_offset s + (ucast (sg_blocks s) - 1) * ucast (sb_blocksize (g_sb g)))))"

definition backup_superblock_ok :: "crc_fun \<Rightarrow> gofs \<Rightarrow> bool" where
  "backup_superblock_ok crc g =
     (case backup_off g of None \<Rightarrow> True
      | Some off \<Rightarrow>
          (case tryR (dv_pread (g_dev g) SB_SIZE off) (sb_parse crc) of
             Inl _ \<Rightarrow> False
           | Inr b \<Rightarrow> sb_uuid b = sb_uuid (g_sb g) \<and> sb_gen b = sb_gen (g_sb g)))"

definition write_superblock :: "crc_fun \<Rightarrow> (gofs, unit) operation" where
  "write_superblock crc =
     bindS (modS (\<lambda>g. g\<lparr>g_sb := (g_sb g)\<lparr>sb_gen := sb_gen (g_sb g) + 1\<rparr>\<rparr>)) (\<lambda>_.
     bindS (askS (\<lambda>g. Inr (sb_to_bytes crc (g_sb g), backup_off g))) (\<lambda>(bytes, bak).
     bindS (onDev (dv_pwrite bytes 0)) (\<lambda>_.
     case bak of None \<Rightarrow> retS () | Some off \<Rightarrow> onDev (dv_pwrite bytes off))))"

subsection \<open>Transactions as seen by readers\<close>

text \<open>
  \<open>BTreeMap<u64, Vec<u8>>\<close>: an association list with ascending keys.
\<close>

type_synonym txn = "(u64 \<times> buffer) list"

fun bt_insert :: "u64 \<Rightarrow> buffer \<Rightarrow> txn \<Rightarrow> txn" where
  "bt_insert k v [] = [(k, v)]"
| "bt_insert k v ((k', v') # t) =
     (if k < k' then (k, v) # (k', v') # t
      else if k = k' then (k, v) # t
      else (k', v') # bt_insert k v t)"

definition txn_ok :: "txn \<Rightarrow> bool" where
  "txn_ok t \<longleftrightarrow> sorted_wrt (<) (map fst t)"

definition txn_read :: "gofs \<Rightarrow> txn \<Rightarrow> u64 \<Rightarrow> buffer result" where
  "txn_read g t blk = (case map_of t blk of Some b \<Rightarrow> Inr b | None \<Rightarrow> read_block g blk)"

definition txn_write :: "u64 \<Rightarrow> buffer \<Rightarrow> txn \<Rightarrow> txn" where
  "txn_write blk data t = bt_insert blk data t"

text \<open>Code that has a filesystem and an open transaction at hand.\<close>

type_synonym 'a fsop = "(gofs \<times> txn, 'a) operation"

definition onFs :: "(gofs, 'a) operation \<Rightarrow> 'a fsop" where
  "onFs m s = (case m (fst s) of (r, g) \<Rightarrow> (r, (g, snd s)))"

definition askF :: "(gofs \<Rightarrow> txn \<Rightarrow> 'a result) \<Rightarrow> 'a fsop" where
  "askF f = askS (\<lambda>(g, t). f g t)"

definition readF :: "u64 \<Rightarrow> buffer fsop" where
  "readF blk = askF (\<lambda>g t. txn_read g t blk)"

definition writeF :: "u64 \<Rightarrow> buffer \<Rightarrow> unit fsop" where
  "writeF blk data = modS (\<lambda>(g, t). (g, txn_write blk data t))"

subsection \<open>Inodes\<close>

definition inode_phys :: "gofs \<Rightarrow> u64 \<Rightarrow> u64 result" where
  "inode_phys g ino =
     (let (ag, slot) = blk_split ino;
          byte_off = ucast slot * ucast (sb_inodesize (g_sb g)) :: u64;
          bs = ucast (sb_blocksize (g_sb g)) :: u64
      in guardR (bs \<noteq> 0) Panic
           (tryR (g_resolve g (blk_addr ag (ucast (byte_off div bs)))) (\<lambda>off.
              Inr (off + byte_off mod bs))))"

definition inode_block_off :: "superblock \<Rightarrow> u64 \<Rightarrow> (u64 \<times> nat) result" where
  "inode_block_off sb ino =
     (let (ag, slot) = blk_split ino; isz = ucast (sb_inodesize sb) :: u32
      in guardR (isz \<noteq> 0) Panic
           (let slots = sb_blocksize sb div isz
            in guardR (slots \<noteq> 0) Panic
                 (Inr (blk_addr ag (slot div slots), unat ((slot mod slots) * isz)))))"

definition read_inode :: "crc_fun \<Rightarrow> gofs \<Rightarrow> u64 \<Rightarrow> inode result" where
  "read_inode crc g ino =
     tryR (inode_phys g ino) (\<lambda>off.
     tryR (dv_pread (g_dev g) INODE_SIZE off) (\<lambda>buf.
     prefixR ''inode {ino:#x}: '' (in_parse crc buf)))"

definition read_inode_txn :: "crc_fun \<Rightarrow> gofs \<Rightarrow> txn \<Rightarrow> u64 \<Rightarrow> inode result" where
  "read_inode_txn crc g t ino =
     tryR (inode_block_off (g_sb g) ino) (\<lambda>(blk, off).
     tryR (txn_read g t blk) (\<lambda>buf.
     guardR (off + INODE_SIZE \<le> length buf) Panic
       (prefixR ''inode {ino:#x}: '' (in_parse crc (get_bytes buf off INODE_SIZE)))))"

definition write_inode_txn :: "crc_fun \<Rightarrow> u64 \<Rightarrow> inode \<Rightarrow> unit fsop" where
  "write_inode_txn crc ino inode =
     bindS (askF (\<lambda>g t. inode_block_off (g_sb g) ino)) (\<lambda>(blk, off).
     bindS (readF blk) (\<lambda>buf.
     bindS (ensureS (off + INODE_SIZE \<le> length buf) Panic) (\<lambda>_.
     writeF blk (put_bytes buf off (in_to_bytes crc inode)))))"

end
