(* ===== verification/Store.thy ===== *)
theory Store
  imports Core
begin

text \<open>
  What the upper layers rely on when they read and write blocks. The interface
  \<open>block_store\<close> is provided twice: by an open transaction (reads see its own writes first) and
  by the device itself through the AG map, as long as the map's segments lie apart on the
  device (\<open>fs_ok\<close>). The lemmas on the superblock copies and on inode slots follow.
\<close>

unbundle bit_operations_syntax

locale block_store =
  fixes rd :: "'s \<Rightarrow> u64 \<Rightarrow> buffer result"
    and wr :: "u64 \<Rightarrow> buffer \<Rightarrow> 's \<Rightarrow> 's"
    and valid :: "'s \<Rightarrow> u64 \<Rightarrow> bool"
    and fits :: "'s \<Rightarrow> buffer \<Rightarrow> bool"
  assumes rd_wr_same: "valid s a \<Longrightarrow> fits s b \<Longrightarrow> rd (wr a b s) a = Inr b"
    and rd_wr_other: "valid s a \<Longrightarrow> fits s b \<Longrightarrow> valid s a' \<Longrightarrow> a \<noteq> a' \<Longrightarrow> rd (wr a b s) a' = rd s a'"
    and valid_wr: "valid s a \<Longrightarrow> fits s b \<Longrightarrow> valid (wr a b s) a' = valid s a'"
    and fits_wr: "valid s a \<Longrightarrow> fits s b \<Longrightarrow> fits (wr a b s) b' = fits s b'"
begin

definition wr_all :: "(u64 \<times> buffer) list \<Rightarrow> 's \<Rightarrow> 's" where
  "wr_all ws s = fold (\<lambda>(a, b) s. wr a b s) ws s"

lemma wr_all_simps [simp]:
  "wr_all [] s = s"
  "wr_all ((a, b) # ws) s = wr_all ws (wr a b s)"
  "wr_all (us @ ws) s = wr_all ws (wr_all us s)"
  by (simp_all add: wr_all_def)

lemma rd_wr:
  "valid s a \<Longrightarrow> fits s b \<Longrightarrow> valid s a' \<Longrightarrow> rd (wr a b s) a' = (if a = a' then Inr b else rd s a')"
  by (simp add: rd_wr_same rd_wr_other)

definition ok_writes :: "'s \<Rightarrow> (u64 \<times> buffer) list \<Rightarrow> bool" where
  "ok_writes s ws \<longleftrightarrow> (\<forall>(a, b)\<in>set ws. valid s a \<and> fits s b)"

lemma ok_writes_Cons [simp]:
  "ok_writes s ((a, b) # ws) \<longleftrightarrow> valid s a \<and> fits s b \<and> ok_writes s ws"
  by (auto simp: ok_writes_def)

lemma ok_writes_wr: "valid s a \<Longrightarrow> fits s b \<Longrightarrow> ok_writes (wr a b s) ws = ok_writes s ws"
  by (simp add: ok_writes_def valid_wr fits_wr)

lemma valid_wr_all: "ok_writes s ws \<Longrightarrow> valid (wr_all ws s) a = valid s a"
  by (induction ws arbitrary: s) (auto simp: ok_writes_wr valid_wr)

lemma fits_wr_all: "ok_writes s ws \<Longrightarrow> fits (wr_all ws s) b = fits s b"
  by (induction ws arbitrary: s) (auto simp: ok_writes_wr fits_wr)

text \<open>After any writes, a block holds the last data written to it.\<close>

lemma rd_wr_all:
  assumes "ok_writes s ws" and "valid s a"
  shows "rd (wr_all ws s) a = (case map_of (rev ws) a of Some b \<Rightarrow> Inr b | None \<Rightarrow> rd s a)"
  using assms
proof (induction ws arbitrary: s)
  case Nil
  then show ?case by simp
next
  case (Cons w ws)
  obtain c b where w: "w = (c, b)" by (cases w)
  have "rd (wr_all ws (wr c b s)) a
      = (case map_of (rev ws) a of Some d \<Rightarrow> Inr d | None \<Rightarrow> rd (wr c b s) a)"
    using Cons.prems w by (intro Cons.IH) (simp_all add: ok_writes_wr valid_wr)
  with Cons.prems w show ?case
    by (auto simp: rd_wr map_add_def split: option.splits)
qed

lemma rd_wr_all_distinct:
  assumes "ok_writes s ws" and "valid s a" and "distinct (map fst ws)"
  shows "rd (wr_all ws s) a = (case map_of ws a of Some b \<Rightarrow> Inr b | None \<Rightarrow> rd s a)"
proof -
  have "map_of (rev ws) = map_of ws"
    using assms(3) by (metis map_of_inject_set rev_map distinct_rev set_rev)
  with rd_wr_all [OF assms(1,2)] show ?thesis by simp
qed

text \<open>Writing the same set of blocks again changes nothing: replay is idempotent.\<close>

lemma rd_wr_all_again:
  assumes "ok_writes s ws" and "valid s a" and "distinct (map fst ws)"
  shows "rd (wr_all ws (wr_all ws s)) a = rd (wr_all ws s) a"
proof -
  have "ok_writes (wr_all ws s) ws"
    using assms(1) by (simp add: ok_writes_def valid_wr_all [OF assms(1)] fits_wr_all [OF assms(1)])
  then show ?thesis
    using assms by (simp add: rd_wr_all_distinct valid_wr_all split: option.split)
qed

end

subsection \<open>Provided by a transaction\<close>

lemma txn_ok_Nil [simp]: "txn_ok []"
  by (simp add: txn_ok_def)

lemma txn_ok_Cons [simp]:
  "txn_ok ((k, v) # t) \<longleftrightarrow> (\<forall>x\<in>fst ` set t. k < x) \<and> txn_ok t"
  by (auto simp: txn_ok_def)

lemma keys_bt_insert [simp]: "fst ` set (bt_insert k v t) = insert k (fst ` set t)"
  by (induction k v t rule: bt_insert.induct) auto

lemma txn_ok_insert [simp]: "txn_ok t \<Longrightarrow> txn_ok (bt_insert k v t)"
proof (induction k v t rule: bt_insert.induct)
  case (2 k v k' v' t)
  consider "k < k'" | "k = k'" | "k' < k" by (rule linorder_cases)
  then show ?case
  proof cases
    case 1
    then show ?thesis using 2 by (auto intro: less_trans)
  next
    case 2
    then show ?thesis using \<open>txn_ok ((k', v') # t)\<close> by simp
  next
    case 3
    then have "\<not> k < k'" "k \<noteq> k'" by auto
    with 2 3 show ?thesis by (simp del: bt_insert.simps add: bt_insert.simps(2))
  qed
qed simp

lemma map_of_bt_insert [simp]: "txn_ok t \<Longrightarrow> map_of (bt_insert k v t) = (map_of t)(k \<mapsto> v)"
proof (induction k v t rule: bt_insert.induct)
  case (2 k v k' v' t)
  consider "k < k'" | "k = k'" | "k' < k" by (rule linorder_cases)
  then show ?case
  proof cases
    case 3
    then have "\<not> k < k'" "k \<noteq> k'" by auto
    with 2 show ?thesis by (auto simp: fun_eq_iff)
  qed (auto simp: fun_eq_iff)
qed simp

lemma txn_ok_distinct: "txn_ok t \<Longrightarrow> distinct (map fst t)"
  by (induction t) force+

text \<open>A transaction over a filesystem: a write is seen by every later read of the block.\<close>

lemma txn_read_write:
  "txn_ok t \<Longrightarrow> txn_read g (txn_write a b t) a' = (if a = a' then Inr b else txn_read g t a')"
  by (simp add: txn_read_def txn_write_def)

definition txn_wr :: "u64 \<Rightarrow> buffer \<Rightarrow> gofs \<times> txn \<Rightarrow> gofs \<times> txn" where
  "txn_wr a b s = (fst s, txn_write a b (snd s))"

definition txn_rd :: "gofs \<times> txn \<Rightarrow> u64 \<Rightarrow> buffer result" where
  "txn_rd s a = txn_read (fst s) (snd s) a"

interpretation txn: block_store txn_rd txn_wr "\<lambda>s a. txn_ok (snd s)" "\<lambda>s b. True"
  by unfold_locales (simp_all add: txn_rd_def txn_wr_def txn_read_def txn_write_def)

subsection \<open>Provided by the device through the AG map\<close>

definition ag0_ok :: "agmap \<Rightarrow> bool" where
  "ag0_ok m \<longleftrightarrow>
     (case am_entries m of [] \<Rightarrow> False
      | e # _ \<Rightarrow> 2 \<le> ae_length e \<and> ae_flags e AND AGF_PRESENT \<noteq> 0 \<and>
          ae_segs e = [\<lparr>sg_block = 0, sg_blocks = ae_length e, sg_dev_offset = 0\<rparr>])"

definition fs_ok :: "gofs \<Rightarrow> bool" where
  "fs_ok g \<longleftrightarrow> sb_wf (g_sb g) \<and> am_layout_ok (g_map g) (sb_blocksize (g_sb g)) \<and>
     list_all (\<lambda>s. snd (sg_range (sb_blocksize (g_sb g)) s) \<le> fl_len (dv_file (g_dev g)))
       (am_segs (g_map g)) \<and>
     dv_room (g_dev g) \<and> ag0_ok (g_map g)"

definition mapped :: "gofs \<Rightarrow> u64 \<Rightarrow> bool" where
  "mapped g a \<longleftrightarrow> am_resolve (g_map g) a (sb_blocksize (g_sb g)) \<noteq> None"

definition place :: "gofs \<Rightarrow> u64 \<Rightarrow> u64" where
  "place g a = the (am_resolve (g_map g) a (sb_blocksize (g_sb g)))"

definition blk_wr :: "u64 \<Rightarrow> buffer \<Rightarrow> gofs \<Rightarrow> gofs" where
  "blk_wr a b g = g\<lparr>g_dev := snd (dv_pwrite b (place g a) (g_dev g))\<rparr>"

lemma mapped_resolve: "mapped g a \<Longrightarrow> g_resolve g a = Inr (place g a)"
  by (auto simp: mapped_def place_def g_resolve_def)

lemma g_resolve_iff: "g_resolve g a = Inr p \<longleftrightarrow> mapped g a \<and> p = place g a"
  by (auto simp: mapped_def place_def g_resolve_def split: option.split)

lemma place_inside:
  assumes "fs_ok g" and "mapped g a"
  shows "unat (place g a) + g_bs g \<le> fl_len (dv_file (g_dev g))"
proof -
  let ?bs = "sb_blocksize (g_sb g)"
  from assms(2) have "am_resolve (g_map g) a ?bs = Some (place g a)"
    by (auto simp: mapped_def place_def)
  then obtain ag :: u32 and local s where s: "unat ag < length (am_entries (g_map g))"
    "s \<in> set (ae_segs (am_entries (g_map g) ! unat ag))" "sg_holds local s"
    "place g a = sg_place ?bs local s"
    by (rule am_resolve_SomeE) blast
  have "am_layout_ok (g_map g) ?bs" using assms(1) by (simp add: fs_ok_def)
  then have "sg_ok ?bs s" using s by (blast intro: am_layout_seg)
  from am_resolve_in_seg(2) [OF this s(3)] s(4)
  have "unat (place g a) + unat ?bs \<le> snd (sg_range ?bs s)" by simp
  also have "s \<in> set (am_segs (g_map g))"
    using s(1,2) by (auto simp: am_segs_def)
  then have "snd (sg_range ?bs s) \<le> fl_len (dv_file (g_dev g))"
    using assms(1) by (auto simp: fs_ok_def list_all_iff)
  finally show ?thesis by (simp add: g_bs_def)
qed

lemma place_apart:
  assumes "fs_ok g" and "mapped g a" and "mapped g a'" and "a \<noteq> a'"
  shows "apart (unat (place g a), unat (place g a) + g_bs g) (unat (place g a'), unat (place g a') + g_bs g)"
  using am_resolve_apart [of "g_map g" "sb_blocksize (g_sb g)" a a' "place g a" "place g a'"] assms
  by (auto simp: fs_ok_def mapped_def place_def blk_range_def g_bs_def)

lemma read_block_mapped:
  assumes "fs_ok g" and "mapped g a"
  shows "read_block g a = Inr (fl_read (dv_file (g_dev g)) (unat (place g a)) (g_bs g))"
  using place_inside [OF assms] mapped_resolve [OF assms(2)]
  by (simp add: read_block_def dv_pread_def)

lemma write_block_mapped:
  assumes "fs_ok g" and "mapped g a" and "length b = g_bs g"
  shows "write_block a b g = (Inr (), blk_wr a b g)"
proof -
  have "dv_room (g_dev g)" using assms(1) by (simp add: fs_ok_def)
  then have "fst (dv_pwrite b (place g a) (g_dev g)) = Inr ()"
    using place_inside [OF assms(1,2)] assms(3) by (subst dv_pwrite_inside) simp_all
  then show ?thesis
    using mapped_resolve [OF assms(2)]
    by (cases "dv_pwrite b (place g a) (g_dev g)")
      (simp add: write_block_def bindS_def askS_def onDev_def blk_wr_def)
qed

text \<open>A device write inside the file that only moves bytes.\<close>

lemma fs_ok_dev:
  assumes "fs_ok g" and "fl_len (dv_file d) = fl_len (dv_file (g_dev g))"
    and "dv_writable d = dv_writable (g_dev g)"
  shows "fs_ok (g\<lparr>g_dev := d\<rparr>)"
  using assms by (simp add: fs_ok_def dv_room_def)

lemma blk_wr_fields [simp]:
  "g_sb (blk_wr a b g) = g_sb g" "g_map (blk_wr a b g) = g_map g" "g_hints (blk_wr a b g) = g_hints g"
  "g_bs (blk_wr a b g) = g_bs g" "mapped (blk_wr a b g) = mapped g" "place (blk_wr a b g) = place g"
  by (simp_all add: blk_wr_def g_bs_def mapped_def place_def fun_eq_iff)

lemma blk_wr_file:
  assumes "fs_ok g" and "mapped g a" and "length b = g_bs g"
  shows "dv_file (g_dev (blk_wr a b g)) = fl_write (dv_file (g_dev g)) (unat (place g a)) b"
    and "dv_writable (g_dev (blk_wr a b g)) = dv_writable (g_dev g)"
proof -
  have "dv_room (g_dev g)" using assms(1) by (simp add: fs_ok_def)
  then have *: "dv_pwrite b (place g a) (g_dev g) = (Inr (), (dv_record (place g a) b (g_dev g))
      \<lparr>dv_file := fl_write (dv_file (g_dev g)) (unat (place g a)) b\<rparr>)"
    using place_inside [OF assms(1,2)] assms(3) by (intro dv_pwrite_inside) simp_all
  show "dv_file (g_dev (blk_wr a b g)) = fl_write (dv_file (g_dev g)) (unat (place g a)) b"
    "dv_writable (g_dev (blk_wr a b g)) = dv_writable (g_dev g)"
    by (simp_all add: blk_wr_def *)
qed

lemma fs_ok_blk_wr [simp]:
  assumes "fs_ok g" and "mapped g a" and "length b = g_bs g"
  shows "fs_ok (blk_wr a b g)"
proof -
  have "fl_len (dv_file (g_dev (blk_wr a b g))) = fl_len (dv_file (g_dev g))"
    unfolding blk_wr_file(1) [OF assms]
    using place_inside [OF assms(1,2)] assms(3) by (simp add: fl_len_write)
  moreover have "dv_writable (g_dev (blk_wr a b g)) = dv_writable (g_dev g)"
    by (rule blk_wr_file(2) [OF assms])
  ultimately have "fs_ok (g\<lparr>g_dev := g_dev (blk_wr a b g)\<rparr>)"
    by (rule fs_ok_dev [OF assms(1)])
  then show ?thesis by (simp add: blk_wr_def)
qed

lemma read_block_blk_wr:
  assumes "fs_ok g" and "mapped g a" and "length b = g_bs g" and "mapped g a'"
  shows "read_block (blk_wr a b g) a' = (if a = a' then Inr b else read_block g a')"
proof -
  have "fl_read (dv_file (g_dev (blk_wr a b g))) (unat (place g a')) (g_bs g)
      = (if a = a' then b else fl_read (dv_file (g_dev g)) (unat (place g a')) (g_bs g))"
    unfolding blk_wr_file(1) [OF assms(1-3)]
    using place_apart [OF assms(1,4,2)] place_inside [OF assms(1,4)] assms(3)
    by (auto intro: fl_read_write_apart)
  then show ?thesis
    using assms by (simp add: read_block_mapped)
qed

interpretation blk: block_store read_block blk_wr
  "\<lambda>g a. fs_ok g \<and> mapped g a" "\<lambda>g b. length b = g_bs g"
  by unfold_locales (simp_all add: read_block_blk_wr)

subsection \<open>The superblock copies\<close>

definition ag0_length :: "gofs \<Rightarrow> u32" where
  "ag0_length g = ae_length (hd (am_entries (g_map g)))"

definition sb_home :: u64 where "sb_home = blk_addr 0 0"

definition sb_backup :: "gofs \<Rightarrow> u64" where
  "sb_backup g = blk_addr 0 (ag0_length g - 1)"

lemma ag0_place:
  assumes "fs_ok g" and "l < ag0_length g"
  shows "mapped g (blk_addr 0 l)" and "place g (blk_addr 0 l) = ucast l * ucast (sb_blocksize (g_sb g))"
proof -
  from assms(1) obtain e es where e: "am_entries (g_map g) = e # es"
    "ae_flags e AND AGF_PRESENT \<noteq> 0"
    "ae_segs e = [\<lparr>sg_block = 0, sg_blocks = ae_length e, sg_dev_offset = 0\<rparr>]"
    by (auto simp: fs_ok_def ag0_ok_def split: list.splits)
  then have "am_entries (g_map g) ! unat (0 :: u32) = \<lparr>ae_flags = ae_flags e, ae_length = ag0_length g,
      ae_segs = [\<lparr>sg_block = 0, sg_blocks = ag0_length g, sg_dev_offset = 0\<rparr>]\<rparr>"
    by (cases e) (simp add: ag0_length_def)
  then have "am_resolve (g_map g) (blk_addr 0 l) (sb_blocksize (g_sb g))
      = Some (0 + ucast l * ucast (sb_blocksize (g_sb g)))"
    using assms(2) e(1,2) by (subst am_resolve_one_segment) auto
  then show "mapped g (blk_addr 0 l)" "place g (blk_addr 0 l) = ucast l * ucast (sb_blocksize (g_sb g))"
    by (simp_all add: mapped_def place_def)
qed

lemma ag0_length_ge: "fs_ok g \<Longrightarrow> 2 \<le> ag0_length g"
  by (auto simp: fs_ok_def ag0_ok_def ag0_length_def split: list.splits)

lemma sb_copies:
  assumes "fs_ok g"
  shows "mapped g sb_home" and "place g sb_home = 0" and "mapped g (sb_backup g)"
    and "backup_off g = Some (place g (sb_backup g))" and "sb_home \<noteq> sb_backup g"
proof -
  have len: "2 \<le> unat (ag0_length g)"
    using ag0_length_ge [OF assms] by (simp add: word_le_nat_alt)
  then have "0 < ag0_length g" by (simp add: word_less_nat_alt)
  then show "mapped g sb_home" "place g sb_home = 0"
    using ag0_place [OF assms, of 0] by (simp_all add: sb_home_def)
  have pred: "unat (ag0_length g - 1) = unat (ag0_length g) - 1"
    using len by (simp add: unat_sub word_le_nat_alt)
  then have last: "ag0_length g - 1 < ag0_length g"
    using len by (simp add: word_less_nat_alt)
  then show "mapped g (sb_backup g)"
    using ag0_place(1) [OF assms] by (simp add: sb_backup_def)
  have "unat (ucast (ag0_length g) - 1 :: u64) = unat (ag0_length g) - 1"
    using len by (simp add: unat_sub word_le_nat_alt)
  then have "(ucast (ag0_length g) - 1 :: u64) = ucast (ag0_length g - 1)"
    by (simp add: word_unat_eq_iff pred)
  moreover obtain e es where "am_entries (g_map g) = e # es"
    "ae_segs e = [\<lparr>sg_block = 0, sg_blocks = ae_length e, sg_dev_offset = 0\<rparr>]"
    using assms by (auto simp: fs_ok_def ag0_ok_def split: list.splits)
  ultimately show "backup_off g = Some (place g (sb_backup g))"
    using ag0_place(2) [OF assms last] by (simp add: backup_off_def sb_backup_def ag0_length_def)
  have "0 \<noteq> ag0_length g - 1"
    using len pred by (metis One_nat_def Suc_1 diff_is_0_eq not_less_eq_eq order_refl unat_0)
  then show "sb_home \<noteq> sb_backup g"
    by (simp add: sb_home_def sb_backup_def)
qed

text \<open>Writing the front of a block leaves every other block as it was.\<close>

lemma front_write:
  assumes ok: "fs_ok g" and m: "mapped g a" and len: "length b \<le> g_bs g"
  obtains d where "dv_pwrite b (place g a) (g_dev g) = (Inr (), d)" and "fs_ok (g\<lparr>g_dev := d\<rparr>)"
    and "dv_file d = fl_write (dv_file (g_dev g)) (unat (place g a)) b"
    and "\<And>a'. mapped g a' \<Longrightarrow> a' \<noteq> a \<Longrightarrow> read_block (g\<lparr>g_dev := d\<rparr>) a' = read_block g a'"
proof -
  let ?d = "(dv_record (place g a) b (g_dev g))\<lparr>dv_file := fl_write (dv_file (g_dev g)) (unat (place g a)) b\<rparr>"
  have room: "dv_room (g_dev g)" using ok by (simp add: fs_ok_def)
  have in_file: "unat (place g a) + length b \<le> fl_len (dv_file (g_dev g))"
    using place_inside [OF ok m] len by simp
  have pw: "dv_pwrite b (place g a) (g_dev g) = (Inr (), ?d)"
    by (rule dv_pwrite_inside [OF room in_file])
  have ok': "fs_ok (g\<lparr>g_dev := ?d\<rparr>)"
    by (rule fs_ok_dev [OF ok]) (simp_all add: fl_len_write [OF in_file])
  have other: "read_block (g\<lparr>g_dev := ?d\<rparr>) a' = read_block g a'" if "mapped g a'" "a' \<noteq> a" for a'
  proof -
    have "apart (unat (place g a'), unat (place g a') + g_bs g)
        (unat (place g a), unat (place g a) + length b)"
      using place_apart [OF ok that(1) m that(2)] len by (auto simp: apart_def)
    then have "fl_read (fl_write (dv_file (g_dev g)) (unat (place g a)) b) (unat (place g a')) (g_bs g)
        = fl_read (dv_file (g_dev g)) (unat (place g a')) (g_bs g)"
      by (rule fl_read_write_apart) (rule place_inside [OF ok that(1)])
    moreover have "mapped (g\<lparr>g_dev := ?d\<rparr>) a'" "place (g\<lparr>g_dev := ?d\<rparr>) a' = place g a'"
      "g_bs (g\<lparr>g_dev := ?d\<rparr>) = g_bs g"
      using that(1) by (simp_all add: mapped_def place_def g_bs_def)
    ultimately show ?thesis
      using ok ok' that(1) by (simp add: read_block_mapped)
  qed
  show ?thesis by (rule that [OF pw ok' _ other]) simp_all
qed

lemma g_bs_ge: "fs_ok g \<Longrightarrow> 512 \<le> g_bs g"
  by (simp add: fs_ok_def sb_wf_def g_bs_def word_le_nat_alt)

definition bump_gen :: "gofs \<Rightarrow> gofs" where
  "bump_gen g = g\<lparr>g_sb := (g_sb g)\<lparr>sb_gen := sb_gen (g_sb g) + 1\<rparr>\<rparr>"

lemma fs_ok_sb:
  "fs_ok g \<Longrightarrow> sb_wf sb \<Longrightarrow> sb_blocksize sb = sb_blocksize (g_sb g) \<Longrightarrow> fs_ok (g\<lparr>g_sb := sb\<rparr>)"
  by (simp add: fs_ok_def)

lemma bump_gen_simps [simp]:
  "g_dev (bump_gen g) = g_dev g" "g_map (bump_gen g) = g_map g"
  "g_bs (bump_gen g) = g_bs g" "mapped (bump_gen g) = mapped g" "place (bump_gen g) = place g"
  "sb_blocksize (g_sb (bump_gen g)) = sb_blocksize (g_sb g)"
  "sb_backup (bump_gen g) = sb_backup g" "read_block (bump_gen g) = read_block g"
  by (simp_all add: bump_gen_def g_bs_def mapped_def place_def fun_eq_iff sb_backup_def ag0_length_def
      read_block_def g_resolve_def)

lemma fs_ok_bump_gen: "fs_ok g \<Longrightarrow> fs_ok (bump_gen g)"
  unfolding bump_gen_def by (rule fs_ok_sb) (simp_all add: fs_ok_def sb_wf_def)

lemma write_superblock_ok:
  assumes ok: "fs_ok g"
  obtains g' where "write_superblock crc g = (Inr (), g')" and "fs_ok g'"
    and "g_sb g' = (g_sb g)\<lparr>sb_gen := sb_gen (g_sb g) + 1\<rparr>" and "g_map g' = g_map g"
    and "g_hints g' = g_hints g"
    and "\<And>a. mapped g a \<Longrightarrow> a \<noteq> sb_home \<Longrightarrow> a \<noteq> sb_backup g \<Longrightarrow> read_block g' a = read_block g a"
    and "dv_pread (g_dev g') SB_SIZE 0 = Inr (sb_to_bytes crc (g_sb g'))"
    and "dv_pread (g_dev g') SB_SIZE (place g (sb_backup g)) = Inr (sb_to_bytes crc (g_sb g'))"
proof -
  let ?g1 = "bump_gen g"
  let ?b = "sb_to_bytes crc (g_sb ?g1)"
  have ok1: "fs_ok ?g1" by (rule fs_ok_bump_gen [OF ok])
  note c = sb_copies [OF ok] and c1 = sb_copies [OF ok1]
  have wf: "sb_wf (g_sb ?g1)" using ok1 by (simp add: fs_ok_def)
  have len: "length ?b = 512" by (rule length_sb_to_bytes [OF wf])
  then have fits: "length ?b \<le> g_bs ?g1" using g_bs_ge [OF ok] by simp
  obtain d where d: "dv_pwrite ?b (place ?g1 sb_home) (g_dev ?g1) = (Inr (), d)" "fs_ok (?g1\<lparr>g_dev := d\<rparr>)"
    "dv_file d = fl_write (dv_file (g_dev ?g1)) (unat (place ?g1 sb_home)) ?b"
    "\<And>a'. mapped ?g1 a' \<Longrightarrow> a' \<noteq> sb_home \<Longrightarrow> read_block (?g1\<lparr>g_dev := d\<rparr>) a' = read_block ?g1 a'"
    using front_write [OF ok1 c1(1) fits] by blast
  let ?g2 = "?g1\<lparr>g_dev := d\<rparr>"
  have g2: "mapped ?g2 = mapped g" "place ?g2 = place g" "g_bs ?g2 = g_bs g"
    by (simp_all add: bump_gen_def mapped_def place_def fun_eq_iff g_bs_def)
  have m2: "mapped ?g2 (sb_backup g)" and fits2: "length ?b \<le> g_bs ?g2"
    using c(3) fits g2 by simp_all
  obtain e where e: "dv_pwrite ?b (place ?g2 (sb_backup g)) (g_dev ?g2) = (Inr (), e)"
    "fs_ok (?g2\<lparr>g_dev := e\<rparr>)"
    "dv_file e = fl_write (dv_file (g_dev ?g2)) (unat (place ?g2 (sb_backup g))) ?b"
    "\<And>a'. mapped ?g2 a' \<Longrightarrow> a' \<noteq> sb_backup g \<Longrightarrow> read_block (?g2\<lparr>g_dev := e\<rparr>) a' = read_block ?g2 a'"
    using front_write [OF d(2) m2 fits2] by blast
  let ?g' = "?g2\<lparr>g_dev := e\<rparr>"
  have bko: "backup_off ?g1 = Some (place g (sb_backup g))" using c1(4) by simp
  have run: "write_superblock crc g = (Inr (), ?g')"
    using d(1) e(1) c1(2) g2 bko
    by (simp add: write_superblock_def bindS_def modS_def askS_def onDev_def flip: bump_gen_def)
  have home_in: "512 \<le> fl_len (dv_file (g_dev g))"
    using place_inside [OF ok c(1)] c(2) g_bs_ge [OF ok] by simp
  have back_in: "unat (place g (sb_backup g)) + 512 \<le> fl_len (dv_file (g_dev g))"
    using place_inside [OF ok c(3)] g_bs_ge [OF ok] by simp
  have len_d: "fl_len (dv_file d) = fl_len (dv_file (g_dev g))"
    using d(3) c(2) home_in len by (simp add: fl_len_write)
  have len_e: "fl_len (dv_file e) = fl_len (dv_file (g_dev g))"
    using e(3) g2 back_in len len_d by (simp add: fl_len_write)
  have ap: "apart (0, 512) (unat (place g (sb_backup g)), unat (place g (sb_backup g)) + 512)"
    using place_apart [OF ok c(1,3,5)] c(2) g_bs_ge [OF ok] by (auto simp: apart_def)
  have "fl_read (dv_file e) (unat (place g (sb_backup g))) 512 = ?b"
    using e(3) g2 len by simp
  then have pb: "dv_pread e SB_SIZE (place g (sb_backup g)) = Inr ?b"
    using back_in len_e by (simp add: dv_pread_def)
  have "fl_read (dv_file e) 0 512 = fl_read (dv_file d) 0 512"
    using fl_read_write_apart [of 0 512 "unat (place g (sb_backup g))" ?b "dv_file d"] e(3)
      ap g2 len len_d home_in by simp
  also have "\<dots> = ?b" using d(3) c(2) len by simp
  finally have ph: "dv_pread e SB_SIZE 0 = Inr ?b"
    using home_in len_e by (simp add: dv_pread_def)
  show ?thesis
  proof (rule that [OF run e(2)])
    show "read_block ?g' a = read_block g a"
      if "mapped g a" "a \<noteq> sb_home" "a \<noteq> sb_backup g" for a
      using d(4) [of a] e(4) [of a] that g2 by simp
  qed (use pb ph in \<open>simp_all add: bump_gen_def\<close>)
qed

subsection \<open>Inode slots\<close>

text \<open>Where an inode lies, without wrap-around; different inodes lie apart.\<close>

definition inode_spot :: "superblock \<Rightarrow> u64 \<Rightarrow> u64 \<times> nat" where
  "inode_spot sb ino =
     (let (ag, slot) = blk_split ino; slots = sb_blocksize sb div ucast (sb_inodesize sb)
      in (blk_addr ag (slot div slots), unat (slot mod slots) * unat (sb_inodesize sb)))"

definition slots_ok :: "superblock \<Rightarrow> bool" where
  "slots_ok sb \<longleftrightarrow> INODE_SIZE \<le> unat (sb_inodesize sb) \<and> unat (sb_inodesize sb) \<le> unat (sb_blocksize sb)"

lemma slots_facts:
  assumes "slots_ok sb"
  defines "isz \<equiv> ucast (sb_inodesize sb) :: u32" and "slots \<equiv> sb_blocksize sb div ucast (sb_inodesize sb)"
  shows "isz \<noteq> 0" and "slots \<noteq> 0" and "unat isz = unat (sb_inodesize sb)"
    and "unat slots = unat (sb_blocksize sb) div unat (sb_inodesize sb)"
    and "unat slots * unat (sb_inodesize sb) \<le> unat (sb_blocksize sb)"
proof -
  show isz: "unat isz = unat (sb_inodesize sb)" by (simp add: isz_def)
  have b: "0 < unat (sb_inodesize sb)" "unat (sb_inodesize sb) \<le> unat (sb_blocksize sb)"
    using assms(1) by (simp_all add: slots_ok_def)
  show "isz \<noteq> 0" using isz b(1) by auto
  show slots: "unat slots = unat (sb_blocksize sb) div unat (sb_inodesize sb)"
    by (simp add: slots_def unat_div)
  have "0 < unat (sb_blocksize sb) div unat (sb_inodesize sb)"
    using b by (simp add: div_greater_zero_iff)
  then show "slots \<noteq> 0" using slots by auto
  show "unat slots * unat (sb_inodesize sb) \<le> unat (sb_blocksize sb)"
    unfolding slots by (rule div_times_less_eq_dividend)
qed

lemma inode_block_off_spot:
  assumes "slots_ok sb"
  shows "inode_block_off sb ino = Inr (inode_spot sb ino)"
    and "snd (inode_spot sb ino) + INODE_SIZE \<le> unat (sb_blocksize sb)"
proof -
  obtain ag slot where split: "blk_split ino = (ag, slot)" by fastforce
  let ?isz = "ucast (sb_inodesize sb) :: u32" and ?n = "unat (sb_inodesize sb)"
  let ?slots = "sb_blocksize sb div ?isz"
  note f = slots_facts [OF assms]
  have "unat (slot mod ?slots) < unat ?slots"
    using f(2) by (simp add: unat_mod unat_gt_0)
  then have "Suc (unat (slot mod ?slots)) * ?n \<le> unat ?slots * ?n" by (intro mult_le_mono1) simp
  then have room: "unat (slot mod ?slots) * ?n + ?n \<le> unat (sb_blocksize sb)"
    using f(5) by simp
  then show "snd (inode_spot sb ino) + INODE_SIZE \<le> unat (sb_blocksize sb)"
    using assms split by (simp add: inode_spot_def slots_ok_def Let_def)
  have "unat (slot mod ?slots) * ?n < 2 ^ 32"
    using room unat_bound [of "sb_blocksize sb"] assms by (simp add: slots_ok_def)
  then have "unat ((slot mod ?slots) * ?isz) = unat (slot mod ?slots) * ?n"
    using f(3) by (simp add: unat_word_ariths)
  then show "inode_block_off sb ino = Inr (inode_spot sb ino)"
    using split f(1,2) by (simp add: inode_block_off_def inode_spot_def Let_def)
qed

lemma inode_spots_apart:
  assumes "slots_ok sb" and "ino \<noteq> ino'"
  shows "fst (inode_spot sb ino) \<noteq> fst (inode_spot sb ino') \<or>
    apart (snd (inode_spot sb ino), snd (inode_spot sb ino) + INODE_SIZE)
      (snd (inode_spot sb ino'), snd (inode_spot sb ino') + INODE_SIZE)"
proof -
  obtain ag slot where s: "blk_split ino = (ag, slot)" by fastforce
  obtain ag' slot' where s': "blk_split ino' = (ag', slot')" by fastforce
  let ?n = "unat (sb_inodesize sb)"
  let ?slots = "sb_blocksize sb div (ucast (sb_inodesize sb) :: u32)"
  have n: "INODE_SIZE \<le> ?n" using assms(1) by (simp add: slots_ok_def)
  have "ag \<noteq> ag' \<or> slot \<noteq> slot'" using assms(2) s s' by (metis blk_addr_split)
  moreover have "unat (slot mod ?slots) \<noteq> unat (slot' mod ?slots)"
    if "slot \<noteq> slot'" "slot div ?slots = slot' div ?slots"
  proof
    assume "unat (slot mod ?slots) = unat (slot' mod ?slots)"
    then have "slot mod ?slots = slot' mod ?slots" by (simp add: word_unat_eq_iff)
    with that show False by (metis word_mod_div_equality)
  qed
  ultimately have "blk_addr ag (slot div ?slots) \<noteq> blk_addr ag' (slot' div ?slots) \<or>
      unat (slot mod ?slots) \<noteq> unat (slot' mod ?slots)"
    by auto
  then show ?thesis
    using blocks_apart [of "unat (slot mod ?slots)" "unat (slot' mod ?slots)" 0 ?n] n s s'
    by (auto simp: inode_spot_def apart_def Let_def)
qed

text \<open>A transaction reads back the inode it wrote, and the other inodes as before.\<close>

definition blocks_full :: "gofs \<Rightarrow> txn \<Rightarrow> bool" where
  "blocks_full g t \<longleftrightarrow> (\<forall>a b. map_of t a = Some b \<longrightarrow> length b = g_bs g)"

lemma txn_read_length:
  assumes "blocks_full g t" and "txn_read g t a = Inr b"
  shows "length b = g_bs g"
  using assms
  by (auto simp: txn_read_def blocks_full_def read_block_def tryR_Inr_iff dv_pread_def guardR_Inr_iff
      split: option.splits)

lemma write_inode_run:
  assumes "slots_ok (g_sb g)" and "blocks_full g t" and "txn_read g t (fst (inode_spot (g_sb g) ino)) = Inr b"
  shows "write_inode_txn crc ino i (g, t)
    = (Inr (), (g, txn_write (fst (inode_spot (g_sb g) ino))
        (put_bytes b (snd (inode_spot (g_sb g) ino)) (in_to_bytes crc i)) t))"
proof -
  have "length b = g_bs g" by (rule txn_read_length [OF assms(2,3)])
  then show ?thesis
    using inode_block_off_spot [OF assms(1), of ino] assms(3)
    by (simp add: write_inode_txn_def askF_def readF_def writeF_def g_bs_def split_beta)
qed

lemma read_inode_spot:
  assumes "slots_ok (g_sb g)" and "blocks_full g t"
  shows "read_inode_txn crc g t ino
    = tryR (txn_read g t (fst (inode_spot (g_sb g) ino))) (\<lambda>b.
        prefixR ''inode {ino:#x}: '' (in_parse crc (get_bytes b (snd (inode_spot (g_sb g) ino)) INODE_SIZE)))"
proof -
  have "snd (inode_spot (g_sb g) ino) + INODE_SIZE \<le> g_bs g"
    using inode_block_off_spot(2) [OF assms(1)] by (simp add: g_bs_def)
  then show ?thesis
    using inode_block_off_spot(1) [OF assms(1), of ino] txn_read_length [OF assms(2)]
    by (cases "txn_read g t (fst (inode_spot (g_sb g) ino))") (auto simp: read_inode_txn_def split_beta)
qed

lemma blocks_full_write: "txn_ok t \<Longrightarrow> blocks_full g t \<Longrightarrow> length b = g_bs g \<Longrightarrow> blocks_full g (txn_write a b t)"
  by (auto simp: blocks_full_def txn_write_def)

lemma inode_read_write:
  assumes "slots_ok (g_sb g)" and "txn_ok t" and "blocks_full g t" and "in_wf i"
    and "write_inode_txn crc ino i (g, t) = (Inr (), (g', t'))"
  shows "g' = g" and "txn_ok t'" and "blocks_full g t'"
    and "read_inode_txn crc g t' ino = Inr i"
    and "ino' \<noteq> ino \<Longrightarrow> read_inode_txn crc g t' ino' = read_inode_txn crc g t ino'"
proof -
  obtain blk off where spot: "inode_spot (g_sb g) ino = (blk, off)" by fastforce
  have off: "off + INODE_SIZE \<le> g_bs g"
    using inode_block_off_spot(2) [OF assms(1), of ino] spot by (simp add: g_bs_def)
  obtain b where b: "txn_read g t blk = Inr b"
    using assms(5) inode_block_off_spot(1) [OF assms(1), of ino] spot
    by (cases "txn_read g t blk") (auto simp: write_inode_txn_def askF_def readF_def)
  let ?b = "put_bytes b off (in_to_bytes crc i)"
  have run: "g' = g" "t' = txn_write blk ?b t"
    using write_inode_run [OF assms(1,3), of ino b crc i] assms(5) b spot by simp_all
  show "g' = g" by (rule run(1))
  have len: "length b = g_bs g" "length (in_to_bytes crc i) = INODE_SIZE"
    using txn_read_length [OF assms(3) b] length_in_to_bytes [OF assms(4)] by simp_all
  then have len': "length ?b = g_bs g" using off by (simp add: length_put_bytes)
  show ok': "txn_ok t'" using run(2) assms(2) by (simp add: txn_write_def)
  show full': "blocks_full g t'" unfolding run(2) by (rule blocks_full_write [OF assms(2,3) len'])
  have rd: "txn_read g t' a = (if blk = a then Inr ?b else txn_read g t a)" for a
    unfolding run(2) by (rule txn_read_write [OF assms(2)])
  have "in_parse crc (get_bytes ?b off INODE_SIZE) = Inr i"
    using in_codec.dec_slice [OF assms(4)] off len by simp
  then show "read_inode_txn crc g t' ino = Inr i"
    using read_inode_spot [OF assms(1) full'] spot rd by simp
  assume ne: "ino' \<noteq> ino"
  obtain blk' off' where spot': "inode_spot (g_sb g) ino' = (blk', off')" by fastforce
  have "get_bytes ?b off' INODE_SIZE = get_bytes b off' INODE_SIZE" if "blk' = blk"
    using inode_spots_apart [OF assms(1) ne] spot spot' that len off
    by (intro get_put_other) (auto simp: apart_def)
  then show "read_inode_txn crc g t' ino' = read_inode_txn crc g t ino'"
    using read_inode_spot [OF assms(1) full', of crc ino'] read_inode_spot [OF assms(1,3), of crc ino']
      spot' rd b by (cases "blk' = blk") simp_all
qed

end
