(* ===== verification/Journal.thy ===== *)
theory Journal
  imports Store
begin

text \<open>
  \<open>src/journal.rs\<close>: whole-block physical transactions. A transaction is written to the
  journal as a descriptor, its blocks and a commit block, synced, applied in place, synced,
  and then forgotten by moving the superblock's head and sequence number. Replay re-applies
  transactions that were committed but not forgotten.
\<close>

definition JDESC_MAGIC :: buffer where "JDESC_MAGIC = [0x35, 0x46, 0x53, 0x4a]"
definition JCOMMIT_MAGIC :: buffer where "JCOMMIT_MAGIC = [0x35, 0x46, 0x53, 0x43]"

abbreviation JHDR :: nat where "JHDR \<equiv> 24"

subsection \<open>Blocks of the journal\<close>

fun put_targets :: "buffer \<Rightarrow> nat \<Rightarrow> u64 list \<Rightarrow> buffer" where
  "put_targets b i [] = b"
| "put_targets b i (t # ts) = put_targets (put_u64 b (JHDR + i * 8) t) (Suc i) ts"

definition desc_block :: "crc_fun \<Rightarrow> nat \<Rightarrow> u64 \<Rightarrow> u64 list \<Rightarrow> buffer" where
  "desc_block crc bs seq targets =
     (let b = put_bytes (replicate bs 0) 0 JDESC_MAGIC;
          b = put_u64 b 8 seq;
          b = put_u32 b 16 (of_nat (length targets));
          b = put_targets b 0 targets
      in seal crc b)"

definition commit_block :: "crc_fun \<Rightarrow> nat \<Rightarrow> u64 \<Rightarrow> u32 \<Rightarrow> buffer" where
  "commit_block crc bs seq txn_csum =
     (let b = put_bytes (replicate bs 0) 0 JCOMMIT_MAGIC;
          b = put_u64 b 8 seq;
          b = put_u32 b 16 txn_csum
      in seal crc b)"

definition max_targets :: "nat \<Rightarrow> nat" where
  "max_targets bs = (bs - JHDR) div 8"

definition txn_csum :: "crc_fun \<Rightarrow> buffer \<Rightarrow> buffer list \<Rightarrow> u32" where
  "txn_csum crc desc blocks = foldl crc (crc 0 desc) blocks"

subsection \<open>Commit\<close>

definition journal_phys :: "gofs \<Rightarrow> u64 \<Rightarrow> u64 result" where
  "journal_phys g idx =
     (if sb_journal_length (g_sb g) \<le> idx then Inl (Msg ''journal index {idx} out of range'')
      else g_resolve g (sb_journal_start (g_sb g) + idx))"

definition journal_write :: "u64 \<Rightarrow> buffer \<Rightarrow> (gofs, unit) operation" where
  "journal_write idx data =
     bindS (askS (\<lambda>g. journal_phys g idx)) (\<lambda>off. onDev (dv_pwrite data off))"

text \<open>Where the next transaction goes: transactions never split across the end.\<close>

definition txn_pos :: "superblock \<Rightarrow> u64 \<Rightarrow> u64" where
  "txn_pos sb needed =
     (if sb_journal_length sb < sb_journal_head sb + needed then 0 else sb_journal_head sb)"

definition next_head :: "superblock \<Rightarrow> u64 \<Rightarrow> u64" where
  "next_head sb h = (if sb_journal_length sb \<le> h then 0 else h)"

definition journal_txn :: "crc_fun \<Rightarrow> txn \<Rightarrow> u64 \<Rightarrow> (gofs, unit) operation" where
  "journal_txn crc t head =
     bindS (askS (\<lambda>g. Inr (g_bs g, sb_journal_seq (g_sb g)))) (\<lambda>(bs, seq).
     let desc = desc_block crc bs seq (map fst t);
         tc = txn_csum crc desc (map snd t);
         needed = of_nat (length t) + 2
     in bindS (journal_write head desc) (\<lambda>_.
        bindS (forS (\<lambda>(i, data). journal_write (head + 1 + of_nat i) data) (enumerate 0 (map snd t))) (\<lambda>_.
        journal_write (head + needed - 1) (commit_block crc bs seq tc))))"

definition commit :: "crc_fun \<Rightarrow> txn \<Rightarrow> (gofs, unit) operation" where
  "commit crc t =
     (if t = [] then retS ()
      else
        bindS (askS (\<lambda>g. Inr (g_bs g, g_sb g))) (\<lambda>(bs, sb).
        let needed = of_nat (length t) + 2; head = txn_pos sb needed
        in bindS (ensureS (length t \<le> max_targets bs) (Msg ''transaction too large ({} blocks)'')) (\<lambda>_.
           bindS (ensureS (needed \<le> sb_journal_length sb) (Msg ''transaction larger than journal'')) (\<lambda>_.
           bindS (journal_txn crc t head) (\<lambda>_.
           bindS (onDev dv_sync) (\<lambda>_.
           bindS (forS (\<lambda>(blk, data). write_block blk data) t) (\<lambda>_.
           bindS (onDev dv_sync) (\<lambda>_.
           bindS (modS (\<lambda>g. g\<lparr>g_sb := (g_sb g)\<lparr>sb_journal_head := next_head sb (head + needed),
             sb_journal_seq := sb_journal_seq sb + 1\<rparr>\<rparr>)) (\<lambda>_.
           write_superblock crc)))))))))"

subsection \<open>Reading a transaction back\<close>

definition journal_read :: "gofs \<Rightarrow> u64 \<Rightarrow> buffer result" where
  "journal_read g idx = tryR (journal_phys g idx) (\<lambda>off. dv_pread (g_dev g) (g_bs g) off)"

definition jblock_ok :: "crc_fun \<Rightarrow> buffer \<Rightarrow> u64 \<Rightarrow> buffer \<Rightarrow> bool" where
  "jblock_ok crc magic seq b \<longleftrightarrow>
     get_bytes b 0 4 = magic \<and> get_u32 b 4 = csum crc b 4 \<and> get_u64 b 8 = seq"

definition try_read_txn ::
  "crc_fun \<Rightarrow> gofs \<Rightarrow> u64 \<Rightarrow> u64 \<Rightarrow> ((u64 list \<times> buffer list) option) result" where
  "try_read_txn crc g pos seq =
     (if sb_journal_length (g_sb g) < pos + 2 then Inr None
      else
        tryR (journal_read g pos) (\<lambda>desc.
        if \<not> jblock_ok crc JDESC_MAGIC seq desc then Inr None
        else
          let count = ucast (get_u32 desc 16) :: u64
          in if count = 0 \<or> max_targets (g_bs g) < unat count
                \<or> sb_journal_length (g_sb g) < pos + count + 2
             then Inr None
             else
               tryR (journal_read g (pos + count + 1)) (\<lambda>cmt.
               if \<not> jblock_ok crc JCOMMIT_MAGIC seq cmt then Inr None
               else
                 let targets = map (\<lambda>i. get_u64 desc (JHDR + i * 8)) [0..<unat count]
                 in tryR (mapR (\<lambda>i. journal_read g (pos + 1 + of_nat i)) [0..<unat count]) (\<lambda>blocks.
                    if txn_csum crc desc blocks \<noteq> get_u32 cmt 16 then Inr None
                    else Inr (Some (targets, blocks))))))"

text \<open>The next transaction at the head, or at the start when the writer may have wrapped.\<close>

definition next_txn ::
  "crc_fun \<Rightarrow> gofs \<Rightarrow> u64 \<Rightarrow> u64 \<Rightarrow> ((u64 \<times> u64 list \<times> buffer list) option) result" where
  "next_txn crc g head seq =
     tryR (try_read_txn crc g head seq) (\<lambda>r.
     case r of
       Some t \<Rightarrow> Inr (Some (head, t))
     | None \<Rightarrow>
         if head \<noteq> 0
         then tryR (try_read_txn crc g 0 seq) (\<lambda>r. Inr (map_option (Pair 0) r))
         else Inr None)"

subsection \<open>Replay\<close>

text \<open>
  One \<open>loop\<close> of the code per unit of fuel. The result is the number of transactions
  applied with the head and sequence number after them.
\<close>

fun replay_loop ::
  "crc_fun \<Rightarrow> nat \<Rightarrow> u64 \<Rightarrow> u64 \<Rightarrow> u32 \<Rightarrow> (gofs, u64 \<times> u64 \<times> u32) operation" where
  "replay_loop crc 0 head seq applied = failS Diverges"
| "replay_loop crc (Suc fuel) head seq applied =
     bindS (askS (\<lambda>g. next_txn crc g head seq)) (\<lambda>r.
     case r of
       None \<Rightarrow> retS (head, seq, applied)
     | Some (pos, targets, blocks) \<Rightarrow>
         bindS (forS (\<lambda>(blk, data). write_block blk data) (zip targets blocks)) (\<lambda>_.
         bindS (askS (\<lambda>g. Inr (next_head (g_sb g) (pos + of_nat (length targets) + 2)))) (\<lambda>head'.
         replay_loop crc fuel head' (seq + 1) (applied + 1))))"

definition replay :: "crc_fun \<Rightarrow> nat \<Rightarrow> (gofs, u32) operation" where
  "replay crc fuel =
     bindS (askS (\<lambda>g. Inr (g_sb g))) (\<lambda>sb.
     bindS (replay_loop crc fuel (sb_journal_head sb) (sb_journal_seq sb) 0) (\<lambda>(head, seq, applied).
     if 0 < applied
     then
       bindS (onDev dv_sync) (\<lambda>_.
       bindS (modS (\<lambda>g. g\<lparr>g_sb := (g_sb g)\<lparr>sb_journal_head := head, sb_journal_seq := seq\<rparr>\<rparr>)) (\<lambda>_.
       bindS (write_superblock crc) (\<lambda>_. retS applied)))
     else retS applied))"

fun pending_loop :: "crc_fun \<Rightarrow> gofs \<Rightarrow> nat \<Rightarrow> u64 \<Rightarrow> u64 \<Rightarrow> u32 \<Rightarrow> u32 result" where
  "pending_loop crc g 0 head seq n = Inl Diverges"
| "pending_loop crc g (Suc fuel) head seq n =
     tryR (next_txn crc g head seq) (\<lambda>r.
     case r of
       None \<Rightarrow> Inr n
     | Some (pos, targets, _) \<Rightarrow>
         pending_loop crc g fuel (next_head (g_sb g) (pos + of_nat (length targets) + 2)) (seq + 1) (n + 1))"

definition journal_pending :: "crc_fun \<Rightarrow> nat \<Rightarrow> gofs \<Rightarrow> u32 result" where
  "journal_pending crc fuel g =
     pending_loop crc g fuel (sb_journal_head (g_sb g)) (sb_journal_seq (g_sb g)) 0"

subsection \<open>Mounting\<close>

text \<open>\<open>Gofs::open\<close> on the file the operating system found at the path.\<close>

definition open_fs :: "crc_fun \<Rightarrow> nat \<Rightarrow> vfile \<Rightarrow> bool \<Rightarrow> gofs result" where
  "open_fs crc fuel f writable =
     (let d = dv_open f writable
      in tryR (find_superblock crc d) (\<lambda>(sb, from_backup).
         tryR (load_agmap crc d sb) (\<lambda>(m, _).
         let g = \<lparr>g_dev = d, g_sb = sb, g_map = m, g_hints = (\<lambda>_. None)\<rparr>
         in if writable
            then
              case bindS (if from_backup \<or> \<not> backup_superblock_ok crc g then write_superblock crc else retS ())
                     (\<lambda>_. replay crc fuel) g of
                (Inl e, _) \<Rightarrow> Inl e
              | (Inr _, g) \<Rightarrow> Inr g
            else Inr g)))"

end
