(* ===== verification/Recovery.thy ===== *)
theory Recovery
  imports Journal
begin

text \<open>
  Why the journal makes a transaction atomic. The first part gives the blocks a commit writes
  and reads them back; the second the effect of a commit on a healthy filesystem; the third
  the effect of replay on what a power cut can leave behind.
\<close>

unbundle bit_operations_syntax

subsection \<open>Journal blocks read back\<close>

lemma length_JMAGIC [simp]: "length JDESC_MAGIC = 4" "length JCOMMIT_MAGIC = 4"
  by (simp_all add: JDESC_MAGIC_def JCOMMIT_MAGIC_def)

lemma JMAGIC_neq [simp]: "JDESC_MAGIC \<noteq> JCOMMIT_MAGIC" "JCOMMIT_MAGIC \<noteq> JDESC_MAGIC"
  by (simp_all add: JDESC_MAGIC_def JCOMMIT_MAGIC_def)

lemma length_concat_u64s [simp]: "length (concat (map (to_be 8) ts)) = 8 * length ts"
  by (induction ts) auto

lemma put_targets_pad:
  assumes "length P = JHDR + i * 8" and "8 * length ts \<le> k"
  shows "put_targets (pad P k) i ts = pad (P @ concat (map (to_be 8) ts)) (k - 8 * length ts)"
  using assms
proof (induction ts arbitrary: P i k)
  case Nil
  then show ?case by simp
next
  case (Cons t ts)
  have "put_targets (pad P k) i (t # ts) = put_targets (pad (P @ to_be 8 t) (k - 8)) (Suc i) ts"
    using Cons.prems by (simp add: put_u64_def put_pad)
  also have "\<dots> = pad ((P @ to_be 8 t) @ concat (map (to_be 8) ts)) (k - 8 - 8 * length ts)"
    by (rule Cons.IH) (use Cons.prems in simp_all)
  finally show ?case by simp
qed

lemma max_targets_room: "n \<le> max_targets bs \<Longrightarrow> JHDR \<le> bs \<Longrightarrow> JHDR + 8 * n \<le> bs"
proof -
  assume n: "n \<le> max_targets bs" and bs: "JHDR \<le> bs"
  have "8 * n \<le> 8 * ((bs - 24) div 8)" using n unfolding max_targets_def by simp
  also have "\<dots> \<le> bs - 24" by simp
  finally show ?thesis using bs by simp
qed

lemma desc_block_concat:
  fixes seq :: u64
  assumes "length ts \<le> max_targets bs" and "JHDR \<le> bs"
  defines "r \<equiv> to_be 8 seq @ to_be 4 (of_nat (length ts) :: u32) @ replicate 4 0 @
    concat (map (to_be 8) ts) @ replicate (bs - JHDR - 8 * length ts) 0"
  shows "\<exists>c. desc_block crc bs seq ts = JDESC_MAGIC @ to_be 4 (c :: u32) @ r"
proof -
  let ?P = "JDESC_MAGIC @ replicate 4 0 @ to_be 8 seq @ to_be 4 (of_nat (length ts) :: u32) @ replicate 4 0"
  have room: "24 + 8 * length ts \<le> bs" by (rule max_targets_room [OF assms(1,2)])
  have "put_u32 (put_u64 (put_bytes (replicate bs 0) 0 JDESC_MAGIC) 8 seq) 16 (of_nat (length ts))
      = pad (JDESC_MAGIC @ replicate 4 0 @ to_be 8 seq @ to_be 4 (of_nat (length ts) :: u32)) (bs - 20)"
    using assms(2) by (simp add: put_int_defs pad_start [of bs] put_pad)
  also have "\<dots> = pad ?P (bs - 24)"
    using assms(2) by (simp add: pad_def flip: replicate_add)
  finally have "desc_block crc bs seq ts = seal crc (put_targets (pad ?P (bs - 24)) 0 ts)"
    by (simp add: desc_block_def Let_def)
  also have "put_targets (pad ?P (bs - 24)) 0 ts = JDESC_MAGIC @ replicate 4 0 @ r"
    using room by (simp add: put_targets_pad) (simp add: pad_def r_def)
  finally show ?thesis by (auto simp: seal_fields)
qed

lemma length_desc_block:
  "length ts \<le> max_targets bs \<Longrightarrow> JHDR \<le> bs \<Longrightarrow> length (desc_block crc bs seq ts) = bs"
  using desc_block_concat [where ts = ts and bs = bs and seq = seq and crc = crc] max_targets_room [of "length ts" bs] by auto

lemma desc_targets:
  assumes "length ts \<le> max_targets bs" and "JHDR \<le> bs"
  shows "map (\<lambda>i. get_u64 (desc_block crc bs seq ts) (JHDR + i * 8)) [0..<length ts] = ts"
proof -
  have get: "get_u64 (concat (map (to_be 8) ts) @ r) (i * 8) = ts ! i" if "i < length ts" for i r
    using that
  proof (induction ts arbitrary: i)
    case (Cons t ts)
    then show ?case
      by (cases i) (simp_all add: get_u64_def fields)
  qed simp
  obtain c where d: "desc_block crc bs seq ts = JDESC_MAGIC @ to_be 4 (c :: u32) @ to_be 8 seq @
      to_be 4 (of_nat (length ts) :: u32) @ replicate 4 0 @
      concat (map (to_be 8) ts) @ replicate (bs - JHDR - 8 * length ts) 0"
    using desc_block_concat [OF assms] by blast
  have "get_u64 (desc_block crc bs seq ts) (JHDR + i * 8) = ts ! i" if "i < length ts" for i
    unfolding d using get [OF that] by (simp add: get_u64_def get_bytes_skip)
  then show ?thesis by (intro nth_equalityI) simp_all
qed

lemma desc_block_fields:
  assumes "length ts \<le> max_targets bs" and "JHDR \<le> bs" and "bs < 2 ^ 32"
  shows "jblock_ok crc JDESC_MAGIC seq (desc_block crc bs seq ts)"
    and "unat (get_u32 (desc_block crc bs seq ts) 16) = length ts"
proof -
  obtain c where d: "desc_block crc bs seq ts = JDESC_MAGIC @ to_be 4 (c :: u32) @ to_be 8 seq @
      to_be 4 (of_nat (length ts) :: u32) @ replicate 4 0 @
      concat (map (to_be 8) ts) @ replicate (bs - JHDR - 8 * length ts) 0"
    using desc_block_concat [OF assms(1,2)] by blast
  have "length ts < 2 ^ 32" using max_targets_room [OF assms(1,2)] assms(3) by simp
  then show "unat (get_u32 (desc_block crc bs seq ts) 16) = length ts"
    by (simp add: d get_u32_def fields unat_of_nat)
  let ?b = "put_targets (put_u32 (put_u64 (put_bytes (replicate bs 0) 0 JDESC_MAGIC) 8 seq) 16
    (of_nat (length ts))) 0 ts"
  have s: "desc_block crc bs seq ts = seal crc ?b" by (simp add: desc_block_def Let_def)
  have "8 \<le> length ?b"
  proof (rule ccontr)
    assume "\<not> 8 \<le> length ?b"
    then have "length (seal crc ?b) < 24" by (simp add: seal_def put_u32_def put_bytes_def min_def)
    then show False using length_desc_block [OF assms(1,2), of crc seq] assms(2) s by simp
  qed
  then have "get_u32 (desc_block crc bs seq ts) 4 = csum crc (desc_block crc bs seq ts) 4"
    unfolding s by (rule seal_verifies)
  moreover have "get_bytes (desc_block crc bs seq ts) 0 4 = JDESC_MAGIC"
    "get_u64 (desc_block crc bs seq ts) 8 = seq"
    by (simp_all add: d get_u64_def fields)
  ultimately show "jblock_ok crc JDESC_MAGIC seq (desc_block crc bs seq ts)"
    by (simp only: jblock_ok_def simp_thms)
qed

lemma commit_block_fields:
  assumes "JHDR \<le> bs"
  shows "jblock_ok crc JCOMMIT_MAGIC seq (commit_block crc bs seq tc)"
    and "get_u32 (commit_block crc bs seq tc) 16 = tc"
    and "length (commit_block crc bs seq tc) = bs"
proof -
  let ?b = "put_u32 (put_u64 (put_bytes (replicate bs 0) 0 JCOMMIT_MAGIC) 8 seq) 16 tc"
  let ?r = "to_be 8 seq @ to_be 4 tc @ replicate (bs - 20) 0"
  have b: "?b = JCOMMIT_MAGIC @ replicate 4 0 @ ?r"
    using assms by (simp add: put_int_defs pad_start [of bs] put_pad) (simp add: pad_def)
  have s: "commit_block crc bs seq tc = seal crc ?b" by (simp add: commit_block_def Let_def)
  obtain c where c: "commit_block crc bs seq tc = JCOMMIT_MAGIC @ to_be 4 (c :: u32) @ ?r"
    unfolding s b by (auto simp: seal_fields)
  have "get_u32 (commit_block crc bs seq tc) 4 = csum crc (commit_block crc bs seq tc) 4"
    unfolding s by (rule seal_verifies) (simp add: b)
  moreover have "get_bytes (commit_block crc bs seq tc) 0 4 = JCOMMIT_MAGIC"
    "get_u64 (commit_block crc bs seq tc) 8 = seq"
    by (simp_all add: c get_u64_def fields)
  ultimately show "jblock_ok crc JCOMMIT_MAGIC seq (commit_block crc bs seq tc)"
    by (simp only: jblock_ok_def simp_thms)
  show "get_u32 (commit_block crc bs seq tc) 16 = tc" "length (commit_block crc bs seq tc) = bs"
    using assms by (simp_all add: c get_u32_def fields)
qed

subsection \<open>The effect of a commit\<close>

definition jaddr :: "gofs \<Rightarrow> nat \<Rightarrow> u64" where
  "jaddr g i = sb_journal_start (g_sb g) + of_nat i"

definition jlen :: "gofs \<Rightarrow> nat" where
  "jlen g = unat (sb_journal_length (g_sb g))"

definition in_journal :: "gofs \<Rightarrow> u64 \<Rightarrow> bool" where
  "in_journal g a \<longleftrightarrow> (\<exists>i<jlen g. a = jaddr g i)"

text \<open>The journal's blocks are mapped, and hold neither superblock copy.\<close>

definition journal_ok :: "gofs \<Rightarrow> bool" where
  "journal_ok g \<longleftrightarrow> jlen g < 2 ^ 32 \<and> unat (sb_journal_head (g_sb g)) < jlen g \<and>
     (\<forall>i<jlen g. mapped g (jaddr g i) \<and> jaddr g i \<noteq> sb_home \<and> jaddr g i \<noteq> sb_backup g)"

definition target_ok :: "gofs \<Rightarrow> u64 \<Rightarrow> bool" where
  "target_ok g a \<longleftrightarrow> mapped g a \<and> a \<noteq> sb_home \<and> a \<noteq> sb_backup g \<and> \<not> in_journal g a"

text \<open>A transaction that the journal can take.\<close>

definition txn_fits :: "gofs \<Rightarrow> txn \<Rightarrow> bool" where
  "txn_fits g t \<longleftrightarrow> txn_ok t \<and> t \<noteq> [] \<and> length t \<le> max_targets (g_bs g) \<and> length t + 2 \<le> jlen g \<and>
     list_all (\<lambda>(a, b). target_ok g a \<and> length b = g_bs g) t"

lemma jaddr_eq [simp]:
  assumes "i < 2 ^ 63" and "j < 2 ^ 63"
  shows "jaddr g i = jaddr g j \<longleftrightarrow> i = j"
proof
  assume "jaddr g i = jaddr g j"
  then have "(of_nat i :: u64) = of_nat j" by (simp add: jaddr_def)
  then have "unat (of_nat i :: u64) = unat (of_nat j :: u64)" by simp
  with assms show "i = j" by (simp add: unat_of_nat)
qed simp

definition same_layout :: "gofs \<Rightarrow> gofs \<Rightarrow> bool" where
  "same_layout g g' \<longleftrightarrow> g_sb g' = g_sb g \<and> g_map g' = g_map g"

lemma same_layoutD:
  assumes "same_layout g g'"
  shows "jaddr g' = jaddr g" "jlen g' = jlen g" "mapped g' = mapped g" "place g' = place g"
    "g_bs g' = g_bs g" "sb_backup g' = sb_backup g" "journal_phys g' = journal_phys g"
    "in_journal g' = in_journal g" "target_ok g' = target_ok g" "txn_fits g' = txn_fits g"
  using assms
  by (simp_all add: same_layout_def jaddr_def jlen_def mapped_def place_def g_bs_def sb_backup_def
      ag0_length_def journal_phys_def g_resolve_def in_journal_def target_ok_def txn_fits_def fun_eq_iff)

lemma same_layout_blk_wr: "same_layout g (blk_wr a b g)"
  by (simp add: same_layout_def)

definition synced :: "gofs \<Rightarrow> gofs" where
  "synced g = g\<lparr>g_dev := snd (dv_sync (g_dev g))\<rparr>"

lemma synced_simps [simp]:
  "g_sb (synced g) = g_sb g" "g_map (synced g) = g_map g" "g_hints (synced g) = g_hints g"
  "g_bs (synced g) = g_bs g" "mapped (synced g) = mapped g" "place (synced g) = place g"
  "dv_file (g_dev (synced g)) = dv_file (g_dev g)"
  "sb_backup (synced g) = sb_backup g" "read_block (synced g) = read_block g"
  by (simp_all add: synced_def g_bs_def mapped_def place_def sb_backup_def ag0_length_def
      read_block_def g_resolve_def dv_pread_def fun_eq_iff)

lemma fs_ok_synced [simp]: "fs_ok g \<Longrightarrow> fs_ok (synced g)"
  unfolding synced_def by (rule fs_ok_dev) simp_all

lemma sync_run: "onDev dv_sync g = (Inr (), synced g)"
  by (simp add: onDev_def synced_def split: prod.split) (metis dv_sync_file(4) fst_conv snd_conv)

lemma write_blocks_run:
  assumes "fs_ok g" and "\<forall>(a, b)\<in>set ws. mapped g a \<and> length b = g_bs g"
  shows "forS (\<lambda>(blk, data). write_block blk data) ws g = (Inr (), blk.wr_all ws g)"
  using assms
proof (induction ws arbitrary: g)
  case Nil
  then show ?case by simp
next
  case (Cons w ws)
  obtain a b where w: "w = (a, b)" by (cases w)
  with Cons.prems have "write_block a b g = (Inr (), blk_wr a b g)"
    by (intro write_block_mapped) simp_all
  moreover have "forS (\<lambda>(blk, data). write_block blk data) ws (blk_wr a b g)
      = (Inr (), blk.wr_all ws (blk_wr a b g))"
    using Cons.prems w by (intro Cons.IH) auto
  ultimately show ?case by (simp add: w bindS_Inr)
qed

lemma wr_all_layout: "same_layout g (blk.wr_all ws g)"
proof (induction ws arbitrary: g)
  case (Cons w ws)
  obtain a b where w: "w = (a, b)" by (cases w)
  have "same_layout (blk_wr a b g) (blk.wr_all ws (blk_wr a b g))" by (rule Cons.IH)
  then show ?case by (simp add: w same_layout_def)
qed (simp add: same_layout_def)

lemma wr_all_ok:
  assumes "fs_ok g" and "\<forall>(a, b)\<in>set ws. mapped g a \<and> length b = g_bs g"
  shows "fs_ok (blk.wr_all ws g)"
  using assms by (induction ws arbitrary: g) auto

lemma wr_all_read:
  assumes "fs_ok g" and "\<forall>(a, b)\<in>set ws. mapped g a \<and> length b = g_bs g"
    and "distinct (map fst ws)" and "mapped g a"
  shows "read_block (blk.wr_all ws g) a
    = (case map_of ws a of Some b \<Rightarrow> Inr b | None \<Rightarrow> read_block g a)"
  using assms by (intro blk.rd_wr_all_distinct) (auto simp: blk.ok_writes_def)

text \<open>The blocks of a journaled transaction, from its first journal index.\<close>

definition jimage :: "crc_fun \<Rightarrow> gofs \<Rightarrow> txn \<Rightarrow> buffer list" where
  "jimage crc g t =
     (let desc = desc_block crc (g_bs g) (sb_journal_seq (g_sb g)) (map fst t)
      in desc # map snd t @
           [commit_block crc (g_bs g) (sb_journal_seq (g_sb g)) (txn_csum crc desc (map snd t))])"

definition jwrites :: "gofs \<Rightarrow> nat \<Rightarrow> buffer list \<Rightarrow> (u64 \<times> buffer) list" where
  "jwrites g p bs = map (\<lambda>(i, b). (jaddr g (p + i), b)) (enumerate 0 bs)"

lemma length_jimage [simp]: "length (jimage crc g t) = length t + 2"
  by (simp add: jimage_def Let_def)

lemma jimage_len:
  assumes "fs_ok g" and "txn_fits g t" and "b \<in> set (jimage crc g t)"
  shows "length b = g_bs g"
  using assms g_bs_ge [OF assms(1)]
  by (auto simp: jimage_def Let_def txn_fits_def list_all_iff length_desc_block commit_block_fields)

lemma enumerate_shift: "enumerate (Suc n) xs = map (\<lambda>(i, x). (Suc i, x)) (enumerate n xs)"
  by (induction xs arbitrary: n) simp_all

lemma jwrites_Cons: "jwrites g p (b # bs) = (jaddr g p, b) # jwrites g (Suc p) bs"
  by (simp add: jwrites_def enumerate_shift o_def case_prod_unfold)

lemma jwrites_Nil [simp]: "jwrites g p [] = []"
  by (simp add: jwrites_def)

lemma jwrites_append: "jwrites g p (bs @ cs) = jwrites g p bs @ jwrites g (p + length bs) cs"
  by (induction bs arbitrary: p) (simp_all add: jwrites_Cons)

lemma jwrites_keys: "map fst (jwrites g p bs) = map (\<lambda>i. jaddr g (p + i)) [0..<length bs]"
  by (simp add: jwrites_def o_def case_prod_unfold flip: map_map [of "\<lambda>i. jaddr g (p + i)" fst, unfolded o_def])

lemma jwrites_same_layout: "same_layout g g' \<Longrightarrow> jwrites g' p bs = jwrites g p bs"
  by (simp add: jwrites_def same_layoutD)

lemma distinct_jwrites:
  assumes "p + length bs \<le> jlen g" and "jlen g < 2 ^ 63"
  shows "distinct (map fst (jwrites g p bs))"
  using assms unfolding jwrites_keys by (auto simp: distinct_map intro!: inj_onI)

lemma set_jwrites: "set (jwrites g p bs) = {(jaddr g (p + i), bs ! i) | i. i < length bs}"
  by (auto simp: jwrites_def in_set_enumerate_eq image_iff)

lemma map_of_jwrites:
  assumes "p + length bs \<le> jlen g" and "jlen g < 2 ^ 63" and "i < length bs"
  shows "map_of (jwrites g p bs) (jaddr g (p + i)) = Some (bs ! i)"
  using distinct_jwrites [OF assms(1,2)] assms(3) by (intro map_of_is_SomeI) (auto simp: set_jwrites)

lemma map_of_jwrites_other:
  assumes "p + length bs \<le> jlen g" and "\<not> in_journal g a"
  shows "map_of (jwrites g p bs) a = None"
proof -
  have "in_journal g (jaddr g (p + i))" if "i < length bs" for i
    using that assms(1) unfolding in_journal_def by (intro exI [of _ "p + i"]) simp
  with assms(2) show ?thesis
    by (auto simp: map_of_eq_None_iff set_jwrites)
qed

text \<open>Running the journal part of a commit.\<close>

lemma journal_write_run:
  assumes "fs_ok g" and "journal_ok g" and "i < jlen g" and "length b = g_bs g"
  shows "journal_write (of_nat i) b g = (Inr (), blk_wr (jaddr g i) b g)"
proof -
  have "i < 2 ^ 64" using assms(2,3) by (simp add: journal_ok_def)
  then have i: "unat (of_nat i :: u64) = i" by (simp add: unat_of_nat)
  then have "\<not> sb_journal_length (g_sb g) \<le> of_nat i"
    using assms(3) by (simp add: word_le_nat_alt jlen_def)
  then have "journal_phys g (of_nat i) = g_resolve g (jaddr g i)"
    by (simp add: journal_phys_def jaddr_def)
  moreover have "mapped g (jaddr g i)" using assms(2,3) by (simp add: journal_ok_def)
  then have "write_block (jaddr g i) b g = (Inr (), blk_wr (jaddr g i) b g)"
    using assms by (intro write_block_mapped)
  ultimately show ?thesis
    by (simp add: journal_write_def write_block_def)
qed

lemma journal_ok_blk_wr: "journal_ok (blk_wr a b g) = journal_ok g"
  using same_layoutD [OF same_layout_blk_wr [where g = g and a = a and b = b]] by (simp add: journal_ok_def)

lemma journal_writes_run:
  assumes "fs_ok g" and "journal_ok g" and "p + k + length bs \<le> jlen g" and "\<forall>b\<in>set bs. length b = g_bs g"
  shows "forS (\<lambda>(i, data). journal_write (of_nat p + of_nat i) data) (enumerate k bs) g
    = (Inr (), blk.wr_all (jwrites g (p + k) bs) g)"
  using assms
proof (induction bs arbitrary: g k)
  case Nil
  then show ?case by simp
next
  case (Cons b bs)
  let ?g = "blk_wr (jaddr g (p + k)) b g"
  have m: "mapped g (jaddr g (p + k))" using Cons.prems by (simp add: journal_ok_def)
  have "journal_write (of_nat p + of_nat k) b g = (Inr (), ?g)"
    using journal_write_run [of g "p + k" b] Cons.prems by simp
  moreover have "forS (\<lambda>(i, data). journal_write (of_nat p + of_nat i) data) (enumerate (Suc k) bs) ?g
      = (Inr (), blk.wr_all (jwrites ?g (p + Suc k) bs) ?g)"
    using Cons.prems m same_layoutD [OF same_layout_blk_wr [where g = g and a = "jaddr g (p + k)" and b = b]]
    by (intro Cons.IH) (simp_all add: journal_ok_blk_wr)
  ultimately show ?case
    by (simp add: bindS_Inr jwrites_Cons jwrites_same_layout [OF same_layout_blk_wr])
qed

definition txn_at :: "gofs \<Rightarrow> nat \<Rightarrow> nat" where
  "txn_at g n = unat (txn_pos (g_sb g) (of_nat n + 2))"

lemma txn_at_eq:
  assumes "journal_ok g" and "n + 2 \<le> jlen g"
  shows "txn_at g n = (if jlen g < unat (sb_journal_head (g_sb g)) + n + 2 then 0
     else unat (sb_journal_head (g_sb g)))" and "txn_at g n + n + 2 \<le> jlen g"
proof -
  have h: "unat (sb_journal_head (g_sb g)) < jlen g" "jlen g < 2 ^ 32"
    using assms(1) by (simp_all add: journal_ok_def)
  have "unat (sb_journal_head (g_sb g) + (of_nat n + 2)) = unat (sb_journal_head (g_sb g)) + n + 2"
    using h assms(2) by (simp add: unat_word_ariths unat_of_nat)
  then show eq: "txn_at g n = (if jlen g < unat (sb_journal_head (g_sb g)) + n + 2 then 0
     else unat (sb_journal_head (g_sb g)))"
    by (simp add: txn_at_def txn_pos_def word_less_nat_alt jlen_def)
  show "txn_at g n + n + 2 \<le> jlen g"
    using assms(2) unfolding eq by simp
qed

lemma journal_txn_run:
  assumes "fs_ok g" and "journal_ok g" and "txn_fits g t" and "p + length t + 2 \<le> jlen g"
  shows "journal_txn crc t (of_nat p) g = (Inr (), blk.wr_all (jwrites g p (jimage crc g t)) g)"
proof -
  let ?desc = "desc_block crc (g_bs g) (sb_journal_seq (g_sb g)) (map fst t)"
  let ?cmt = "commit_block crc (g_bs g) (sb_journal_seq (g_sb g)) (txn_csum crc ?desc (map snd t))"
  have img: "jimage crc g t = ?desc # map snd t @ [?cmt]" by (simp add: jimage_def Let_def)
  have len: "\<forall>b\<in>set (jimage crc g t). length b = g_bs g"
    using jimage_len [OF assms(1,3)] by blast
  define g1 where "g1 = blk_wr (jaddr g p) ?desc g"
  have m: "mapped g (jaddr g p)" using assms(2,4) by (simp add: journal_ok_def)
  have r1: "journal_write (of_nat p) ?desc g = (Inr (), g1)"
    unfolding g1_def using assms len img by (intro journal_write_run) simp_all
  have l1: "same_layout g g1" by (simp add: g1_def same_layout_blk_wr)
  have ok1: "fs_ok g1" unfolding g1_def using assms(1) m len img by (intro fs_ok_blk_wr) simp_all
  have j1: "journal_ok g1" using assms(2) by (simp add: g1_def journal_ok_blk_wr)
  define g2 where "g2 = blk.wr_all (jwrites g (p + 1) (map snd t)) g1"
  have r2: "forS (\<lambda>(i, data). journal_write (of_nat p + 1 + of_nat i) data) (enumerate 0 (map snd t)) g1
      = (Inr (), g2)"
    using journal_writes_run [OF ok1 j1, of "p + 1" 0 "map snd t"] assms(4) len img
    by (simp add: g2_def same_layoutD [OF l1] jwrites_same_layout [OF l1] add.commute)
  have ws: "\<forall>(a, b)\<in>set (jwrites g (p + 1) (map snd t)). mapped g1 a \<and> length b = g_bs g1"
    using assms(2,4) len img by (auto simp: set_jwrites same_layoutD [OF l1] journal_ok_def)
  have ok2: "fs_ok g2" unfolding g2_def by (rule wr_all_ok [OF ok1 ws])
  have l2: "same_layout g g2"
    using l1 wr_all_layout [of g1] by (simp add: g2_def same_layout_def)
  have j2: "journal_ok g2"
    using assms(2) l2 by (simp add: journal_ok_def same_layoutD [OF l2] same_layout_def)
  have r3: "journal_write (of_nat (p + length t + 1)) ?cmt g2
      = (Inr (), blk_wr (jaddr g (p + length t + 1)) ?cmt g2)"
    using journal_write_run [OF ok2 j2, of "p + length t + 1" ?cmt] assms(4) len img
    by (simp add: same_layoutD [OF l2])
  have "of_nat p + (of_nat (length t) + 2) - 1 = (of_nat (p + length t + 1) :: u64)"
    by simp
  then have "journal_txn crc t (of_nat p) g = (Inr (), blk_wr (jaddr g (p + length t + 1)) ?cmt g2)"
    using r1 r2 r3
    by (simp add: journal_txn_def Let_def bindS_Inr)
  also have "blk_wr (jaddr g (p + length t + 1)) ?cmt g2 = blk.wr_all (jwrites g p (jimage crc g t)) g"
    by (simp add: img jwrites_Cons jwrites_append g2_def g1_def add.commute)
  finally show ?thesis .
qed

text \<open>The states a commit goes through.\<close>

definition journaled :: "crc_fun \<Rightarrow> txn \<Rightarrow> gofs \<Rightarrow> gofs" where
  "journaled crc t g = blk.wr_all (jwrites g (txn_at g (length t)) (jimage crc g t)) g"

definition applied :: "crc_fun \<Rightarrow> txn \<Rightarrow> gofs \<Rightarrow> gofs" where
  "applied crc t g = blk.wr_all t (synced (journaled crc t g))"

definition checkpoint :: "nat \<Rightarrow> superblock \<Rightarrow> superblock" where
  "checkpoint h sb =
     sb\<lparr>sb_journal_head := next_head sb (of_nat h), sb_journal_seq := sb_journal_seq sb + 1\<rparr>"

lemma jimage_writes_ok:
  assumes "fs_ok g" and "journal_ok g" and "txn_fits g t" and "p + length t + 2 \<le> jlen g"
  shows "\<forall>(a, b)\<in>set (jwrites g p (jimage crc g t)). mapped g a \<and> length b = g_bs g"
proof -
  have "length (jimage crc g t ! i) = g_bs g" if "i < length t + 2" for i
    by (rule jimage_len [OF assms(1,3)], rule nth_mem) (use that in simp)
  then show ?thesis
    using assms(2,4) by (auto simp: set_jwrites journal_ok_def)
qed

lemma txn_writes_ok: "txn_fits g t \<Longrightarrow> \<forall>(a, b)\<in>set t. mapped g a \<and> length b = g_bs g"
  by (auto simp: txn_fits_def list_all_iff target_ok_def)

lemma journaled_layout: "same_layout g (journaled crc t g)"
  by (simp add: journaled_def wr_all_layout)

lemma applied_layout: "same_layout g (applied crc t g)"
  using wr_all_layout [of "synced (journaled crc t g)" t] journaled_layout [of g crc t]
  by (simp add: applied_def same_layout_def)

lemma journaled_ok:
  assumes "fs_ok g" and "journal_ok g" and "txn_fits g t"
  shows "fs_ok (journaled crc t g)"
  unfolding journaled_def
  using assms txn_at_eq(2) [OF assms(2), of "length t"]
  by (intro wr_all_ok jimage_writes_ok) (simp_all add: txn_fits_def)

lemma applied_ok:
  assumes "fs_ok g" and "journal_ok g" and "txn_fits g t"
  shows "fs_ok (applied crc t g)"
proof -
  note l = same_layoutD [OF journaled_layout [of g crc t]]
  show ?thesis
    unfolding applied_def using journaled_ok [OF assms] txn_writes_ok [OF assms(3)]
    by (intro wr_all_ok fs_ok_synced) (simp_all add: l)
qed

lemma read_journaled:
  assumes "fs_ok g" and "journal_ok g" and "txn_fits g t" and "mapped g a"
  shows "read_block (journaled crc t g) a
    = (case map_of (jwrites g (txn_at g (length t)) (jimage crc g t)) a of
         Some b \<Rightarrow> Inr b | None \<Rightarrow> read_block g a)"
proof -
  have len: "txn_at g (length t) + length t + 2 \<le> jlen g"
    using assms(2,3) by (intro txn_at_eq(2)) (simp_all add: txn_fits_def)
  have "distinct (map fst (jwrites g (txn_at g (length t)) (jimage crc g t)))"
    by (rule distinct_jwrites) (use len assms(2) in \<open>simp_all add: journal_ok_def\<close>)
  then show ?thesis
    unfolding journaled_def using assms len by (intro wr_all_read jimage_writes_ok)
qed

lemma read_applied:
  assumes "fs_ok g" and "journal_ok g" and "txn_fits g t" and "mapped g a"
  shows "read_block (applied crc t g) a
    = (case map_of t a of Some b \<Rightarrow> Inr b | None \<Rightarrow> read_block (journaled crc t g) a)"
proof -
  note l = same_layoutD [OF journaled_layout [of g crc t]]
  have "distinct (map fst t)" using assms(3) by (simp add: txn_fits_def txn_ok_distinct)
  then show ?thesis
    unfolding applied_def
    using wr_all_read [of "synced (journaled crc t g)" t a] journaled_ok [OF assms(1-3)]
      txn_writes_ok [OF assms(3)] assms(4)
    by (simp add: l split: option.split)
qed

lemma commit_run:
  assumes "fs_ok g" and "journal_ok g" and "txn_fits g t"
  defines "h \<equiv> txn_at g (length t) + length t + 2"
  shows "commit crc t g
    = write_superblock crc ((synced (applied crc t g))\<lparr>g_sb := checkpoint h (g_sb g)\<rparr>)"
proof -
  let ?n = "length t" and ?p = "txn_at g (length t)"
  have t: "t \<noteq> []" "?n \<le> max_targets (g_bs g)" "?n + 2 \<le> jlen g"
    using assms(3) by (simp_all add: txn_fits_def)
  have le: "?p + ?n + 2 \<le> jlen g" by (rule txn_at_eq(2) [OF assms(2) t(3)])
  have "jlen g < 2 ^ 32" using assms(2) by (simp add: journal_ok_def)
  then have "unat (of_nat ?n + 2 :: u64) = ?n + 2"
    using t(3) by (simp add: unat_word_ariths unat_of_nat)
  then have need: "(of_nat ?n + 2 :: u64) \<le> sb_journal_length (g_sb g)"
    using t(3) by (simp add: word_le_nat_alt jlen_def)
  have pos: "txn_pos (g_sb g) (of_nat ?n + 2) = of_nat ?p"
    by (simp add: txn_at_def)
  have r1: "journal_txn crc t (of_nat ?p) g = (Inr (), journaled crc t g)"
    unfolding journaled_def by (rule journal_txn_run [OF assms(1-3) le])
  note l = same_layoutD [OF journaled_layout [of g crc t]]
  have r3: "forS (\<lambda>(blk, data). write_block blk data) t (synced (journaled crc t g)) = (Inr (), applied crc t g)"
    unfolding applied_def using journaled_ok [OF assms(1-3)] txn_writes_ok [OF assms(3)]
    by (intro write_blocks_run) (simp_all add: l)
  have "g_sb (applied crc t g) = g_sb g"
    using applied_layout [of g crc t] by (simp add: same_layout_def)
  moreover have "of_nat ?p + (of_nat ?n + 2) = (of_nat h :: u64)" by (simp add: h_def)
  ultimately show ?thesis
    using t need
    by (simp add: commit_def pos Let_def bindS_Inr r1 sync_run r3 checkpoint_def)
qed

end
