(* ===== verification/Replay.thy ===== *)
theory Replay
  imports Recovery
begin

text \<open>
  What replay does on the states a power cut can leave: a transaction whose journal blocks are
  complete is applied as a whole, whatever part of it had reached its place; a transaction
  without its commit block leaves no trace. The sequence numbers keep older transactions of
  the journal from being applied again.
\<close>

subsection \<open>Stale journal blocks\<close>

definition is_journal_block :: "buffer \<Rightarrow> bool" where
  "is_journal_block b \<longleftrightarrow> get_bytes b 0 4 = JDESC_MAGIC \<or> get_bytes b 0 4 = JCOMMIT_MAGIC"

definition stale :: "u64 \<Rightarrow> buffer \<Rightarrow> bool" where
  "stale seq b \<longleftrightarrow> is_journal_block b \<longrightarrow> get_u64 b 8 < seq"

text \<open>The block a journal index holds.\<close>

definition jblock :: "gofs \<Rightarrow> nat \<Rightarrow> buffer" where
  "jblock g i = fl_read (dv_file (g_dev g)) (unat (place g (jaddr g i))) (g_bs g)"

definition journal_fresh :: "gofs \<Rightarrow> bool" where
  "journal_fresh g \<longleftrightarrow> (\<forall>i<jlen g. stale (sb_journal_seq (g_sb g)) (jblock g i))"

definition txn_plain :: "txn \<Rightarrow> bool" where
  "txn_plain t \<longleftrightarrow> list_all (\<lambda>(a, b). \<not> is_journal_block b) t"

lemma stale_not_ok:
  assumes "stale seq b" and "seq \<le> seq'" and "magic \<in> {JDESC_MAGIC, JCOMMIT_MAGIC}"
  shows "\<not> jblock_ok crc magic seq' b"
  using assms by (auto simp: stale_def is_journal_block_def jblock_ok_def)

lemma plain_stale: "\<not> is_journal_block b \<Longrightarrow> stale seq b"
  by (simp add: stale_def)

lemma uniform_plain:
  assumes "4 \<le> n"
  shows "\<not> is_journal_block (replicate n x)"
proof -
  have "get_bytes (replicate n x) 0 4 = replicate 4 x"
    using assms by (simp add: get_bytes_def)
  moreover have "replicate 4 x ! 0 = x" "replicate 4 x ! 1 = x" by simp_all
  moreover have "JDESC_MAGIC ! 0 \<noteq> JDESC_MAGIC ! 1" "JCOMMIT_MAGIC ! 0 \<noteq> JCOMMIT_MAGIC ! 1"
    by (simp_all add: JDESC_MAGIC_def JCOMMIT_MAGIC_def)
  ultimately show ?thesis unfolding is_journal_block_def by metis
qed

lemma stale_mono: "stale seq b \<Longrightarrow> seq \<le> seq' \<Longrightarrow> stale seq' b"
  by (auto simp: stale_def)

lemma jblock_read:
  assumes "fs_ok g" and "journal_ok g" and "i < jlen g"
  shows "read_block g (jaddr g i) = Inr (jblock g i)"
  using assms by (simp add: read_block_mapped journal_ok_def jblock_def)

lemma journal_read_jblock:
  assumes "fs_ok g" and "journal_ok g" and "i < jlen g"
  shows "journal_read g (of_nat i) = Inr (jblock g i)"
proof -
  have "i < 2 ^ 64" using assms(2,3) by (simp add: journal_ok_def)
  then have "\<not> sb_journal_length (g_sb g) \<le> of_nat i"
    using assms(3) by (simp add: word_le_nat_alt jlen_def unat_of_nat)
  then have "journal_phys g (of_nat i) = g_resolve g (jaddr g i)"
    by (simp add: journal_phys_def jaddr_def)
  then have "journal_read g (of_nat i) = read_block g (jaddr g i)"
    by (simp add: journal_read_def read_block_def)
  then show ?thesis using jblock_read [OF assms] by simp
qed

lemma try_read_bad_desc:
  assumes "fs_ok g" and "journal_ok g" and "p < jlen g"
    and "\<not> jblock_ok crc JDESC_MAGIC seq (jblock g p)"
  shows "try_read_txn crc g (of_nat p) seq = Inr None"
  using journal_read_jblock [OF assms(1-3)] assms(4) by (simp add: try_read_txn_def)

text \<open>With only stale blocks in the journal, no transaction is found anywhere.\<close>

lemma next_txn_stale:
  assumes "fs_ok g" and "journal_ok g" and "\<forall>i<jlen g. stale seq (jblock g i)"
    and "seq \<le> seq'" and "unat head < jlen g"
  shows "next_txn crc g head seq' = Inr None"
proof -
  have none: "try_read_txn crc g (of_nat p) seq' = Inr None" if "p < jlen g" for p
    using assms(3,4) that stale_not_ok by (intro try_read_bad_desc [OF assms(1,2)]) blast+
  have "0 < jlen g" using assms(5) by simp
  then show ?thesis
    using none [OF assms(5)] none [of 0] by (simp add: next_txn_def)
qed

subsection \<open>A complete transaction is found\<close>

lemma txn_counts:
  assumes "journal_ok g" and "p + n + 2 \<le> jlen g"
  shows "\<not> sb_journal_length (g_sb g) < of_nat p + 2"
    and "\<not> sb_journal_length (g_sb g) < of_nat p + of_nat n + 2"
proof -
  have "jlen g < 2 ^ 32" using assms(1) by (simp add: journal_ok_def)
  then have "unat (of_nat p + 2 :: u64) = p + 2" "unat (of_nat p + of_nat n + 2 :: u64) = p + n + 2"
    using assms(2) by (simp_all add: unat_word_ariths unat_of_nat)
  then show "\<not> sb_journal_length (g_sb g) < of_nat p + 2"
    "\<not> sb_journal_length (g_sb g) < of_nat p + of_nat n + 2"
    using assms(2) by (simp_all add: word_less_nat_alt jlen_def)
qed

lemma fs_bs_bounds: "fs_ok g \<Longrightarrow> JHDR \<le> g_bs g \<and> g_bs g < 2 ^ 32"
  using g_bs_ge [of g] unat_bound [of "sb_blocksize (g_sb g)"] by (simp add: g_bs_def)

lemma try_read_complete:
  assumes "fs_ok g" and "journal_ok g" and "txn_fits g t" and "p + length t + 2 \<le> jlen g"
    and "\<And>i. i < length t + 2 \<Longrightarrow> jblock g (p + i) = jimage crc g t ! i"
  shows "try_read_txn crc g (of_nat p) (sb_journal_seq (g_sb g)) = Inr (Some (map fst t, map snd t))"
proof -
  let ?n = "length t" and ?seq = "sb_journal_seq (g_sb g)"
  let ?desc = "desc_block crc (g_bs g) ?seq (map fst t)"
  let ?cmt = "commit_block crc (g_bs g) ?seq (txn_csum crc ?desc (map snd t))"
  have img: "jimage crc g t = ?desc # map snd t @ [?cmt]" by (simp add: jimage_def Let_def)
  have rd: "journal_read g (of_nat (p + i)) = Inr (jimage crc g t ! i)" if "i < ?n + 2" for i
    using journal_read_jblock [OF assms(1,2), of "p + i"] assms(4,5) that by simp
  have rdesc: "journal_read g (of_nat p) = Inr ?desc"
    using rd [of 0] by (simp add: img)
  have rcmt: "journal_read g (of_nat p + of_nat ?n + 1) = Inr ?cmt"
    using rd [of "?n + 1"] by (simp add: img nth_append algebra_simps)
  have rblk: "journal_read g (of_nat p + 1 + of_nat i) = Inr (map snd t ! i)" if "i < ?n" for i
    using rd [of "Suc i"] that by (simp add: img nth_append algebra_simps)
  have blocks: "mapR (\<lambda>i. journal_read g (of_nat p + 1 + of_nat i)) [0..<?n] = Inr (map snd t)"
    by (subst mapR_map [where g = "(!) (map snd t)"])
      (use rblk in \<open>auto simp: map_nth [of "map snd t", simplified]\<close>)
  have n: "?n \<le> max_targets (g_bs g)" "t \<noteq> []" using assms(3) by (simp_all add: txn_fits_def)
  note bs = fs_bs_bounds [OF assms(1)]
  have d: "jblock_ok crc JDESC_MAGIC ?seq ?desc" "unat (get_u32 ?desc 16) = ?n"
    using desc_block_fields [of "map fst t" "g_bs g"] n bs by simp_all
  have c: "jblock_ok crc JCOMMIT_MAGIC ?seq ?cmt" "get_u32 ?cmt 16 = txn_csum crc ?desc (map snd t)"
    using bs by (simp_all add: commit_block_fields)
  have un: "unat (of_nat ?n :: u64) = ?n"
    using n(1) bs max_targets_room [of ?n "g_bs g"] by (simp add: unat_of_nat)
  then have count: "(ucast (get_u32 ?desc 16) :: u64) = of_nat ?n"
    using d(2) by (simp add: word_unat_eq_iff)
  from un have "(of_nat ?n :: u64) \<noteq> 0" using n(2) by (metis length_0_conv unat_0)
  moreover have "map (\<lambda>i. get_u64 ?desc (JHDR + i * 8)) [0..<?n] = map fst t"
    using desc_targets [of "map fst t" "g_bs g" crc ?seq] n bs by simp
  ultimately show ?thesis
    using un txn_counts [OF assms(2,4)] rdesc rcmt blocks d c n(1)
    by (simp add: try_read_txn_def count Let_def add.assoc)
qed

subsection \<open>Replay of a complete transaction\<close>

definition ready :: "gofs \<Rightarrow> txn \<Rightarrow> bool" where
  "ready g t \<longleftrightarrow> fs_ok g \<and> journal_ok g \<and> journal_fresh g \<and> txn_fits g t \<and> txn_plain t \<and>
     sb_journal_seq (g_sb g) \<noteq> -1"

text \<open>
  The journal blocks are complete and everything else but the transaction's own blocks is as
  it was: what a cut during the writes in place leaves.
\<close>

definition half_applied :: "crc_fun \<Rightarrow> txn \<Rightarrow> gofs \<Rightarrow> gofs \<Rightarrow> bool" where
  "half_applied crc t g gc \<longleftrightarrow> same_layout g gc \<and> fs_ok gc \<and>
     (\<forall>a. mapped g a \<longrightarrow> map_of t a = None \<longrightarrow> read_block gc a = read_block (journaled crc t g) a)"

lemma readyD:
  assumes "ready g t"
  shows "fs_ok g" "journal_ok g" "journal_fresh g" "txn_fits g t" "txn_plain t"
    "sb_journal_seq (g_sb g) < sb_journal_seq (g_sb g) + 1"
    "txn_at g (length t) + length t + 2 \<le> jlen g"
proof -
  show r: "fs_ok g" "journal_ok g" "journal_fresh g" "txn_fits g t" "txn_plain t"
    using assms by (simp_all add: ready_def)
  show "sb_journal_seq (g_sb g) < sb_journal_seq (g_sb g) + 1"
    using assms by (simp add: ready_def word_less_Suc)
  show "txn_at g (length t) + length t + 2 \<le> jlen g"
    using r(2,4) by (intro txn_at_eq(2)) (simp_all add: txn_fits_def)
qed

lemma same_layout_journal: "same_layout g g' \<Longrightarrow> journal_ok g' = journal_ok g"
  by (simp add: journal_ok_def same_layoutD) (simp add: same_layout_def)

lemma journal_not_target:
  assumes "txn_fits g t" and "i < jlen g"
  shows "map_of t (jaddr g i) = None"
proof -
  have "\<forall>(a, b)\<in>set t. \<not> in_journal g a"
    using assms(1) by (auto simp: txn_fits_def list_all_iff target_ok_def)
  moreover have "in_journal g (jaddr g i)" using assms(2) by (auto simp: in_journal_def)
  ultimately show ?thesis by (force simp: map_of_eq_None_iff)
qed

lemma jblock_journaled:
  assumes "fs_ok g" and "journal_ok g" and "txn_fits g t" and "i < jlen g"
  defines "p \<equiv> txn_at g (length t)"
  shows "jblock (journaled crc t g) i
    = (if p \<le> i \<and> i < p + length t + 2 then jimage crc g t ! (i - p) else jblock g i)"
proof -
  note l = same_layoutD [OF journaled_layout [of g crc t]]
  have le: "p + length (jimage crc g t) \<le> jlen g"
    unfolding p_def using assms(2,3) txn_at_eq(2) [of g "length t"] by (simp add: txn_fits_def)
  have j: "jlen g < 2 ^ 63" using assms(2) by (simp add: journal_ok_def)
  have m: "mapped g (jaddr g i)" using assms(2,4) by (simp add: journal_ok_def)
  have "read_block (journaled crc t g) (jaddr g i) = Inr (jblock (journaled crc t g) i)"
    using jblock_read [of "journaled crc t g" i] journaled_ok [OF assms(1-3)] assms(2,4)
    by (simp add: l same_layout_journal [OF journaled_layout])
  then have rd: "Inr (jblock (journaled crc t g) i)
      = (case map_of (jwrites g p (jimage crc g t)) (jaddr g i) of
           Some b \<Rightarrow> Inr b | None \<Rightarrow> Inr (jblock g i))"
    using read_journaled [OF assms(1-3) m, of crc] jblock_read [OF assms(1,2,4)]
    by (auto simp: p_def split: option.splits)
  show ?thesis
  proof (cases "p \<le> i \<and> i < p + length t + 2")
    case True
    then have "map_of (jwrites g p (jimage crc g t)) (jaddr g (p + (i - p)))
        = Some (jimage crc g t ! (i - p))"
      using le j by (intro map_of_jwrites) auto
    with True rd show ?thesis by simp
  next
    case False
    have "jaddr g i \<noteq> jaddr g (p + k)" if "k < length (jimage crc g t)" for k
      using that False le j assms(4) by auto
    then have "jaddr g i \<notin> fst ` set (jwrites g p (jimage crc g t))"
      unfolding set_jwrites by fastforce
    then have "map_of (jwrites g p (jimage crc g t)) (jaddr g i) = None"
      by (rule map_of_eq_None_iff [THEN iffD2])
    with False rd show ?thesis by auto
  qed
qed

lemma jblock_half:
  assumes "ready g t" and "half_applied crc t g gc" and "i < jlen g"
  shows "jblock gc i = jblock (journaled crc t g) i"
proof -
  note r = readyD [OF assms(1)]
  have l: "same_layout g gc" and ok: "fs_ok gc" using assms(2) by (simp_all add: half_applied_def)
  have m: "mapped g (jaddr g i)" using r(2) assms(3) by (simp add: journal_ok_def)
  then have "read_block gc (jaddr g i) = read_block (journaled crc t g) (jaddr g i)"
    using assms(2) journal_not_target [OF r(4) assms(3)] by (simp add: half_applied_def)
  moreover have "read_block gc (jaddr g i) = Inr (jblock gc i)"
    using jblock_read [OF ok, of i] r(2) assms(3) by (simp add: same_layoutD [OF l] same_layout_journal [OF l])
  moreover have "read_block (journaled crc t g) (jaddr g i) = Inr (jblock (journaled crc t g) i)"
    using jblock_read [of "journaled crc t g" i] journaled_ok [OF r(1,2,4)] r(2) assms(3)
    by (simp add: same_layoutD [OF journaled_layout] same_layout_journal [OF journaled_layout])
  ultimately show ?thesis by simp
qed

lemma jimage_blocks:
  assumes "ready g t" and "i < length t + 2" and "i \<noteq> 0"
  shows "get_bytes (jimage crc g t ! i) 0 4 \<noteq> JDESC_MAGIC"
proof -
  note r = readyD [OF assms(1)]
  have bs: "JHDR \<le> g_bs g" using fs_bs_bounds [OF r(1)] by simp
  show ?thesis
  proof (cases "i = length t + 1")
    case True
    then show ?thesis
      using commit_block_fields(1) [OF bs]
      by (simp add: jimage_def Let_def nth_append jblock_ok_def)
  next
    case False
    with assms(2,3) obtain k where k: "i = Suc k" "k < length t" by (cases i) auto
    then have "\<not> is_journal_block (snd (t ! k))"
      using r(5) by (auto simp: txn_plain_def list_all_length split_beta)
    with k show ?thesis
      by (simp add: jimage_def Let_def nth_append is_journal_block_def)
  qed
qed

lemma jimage_stale:
  assumes "ready g t" and "i < length t + 2"
  shows "stale (sb_journal_seq (g_sb g) + 1) (jimage crc g t ! i)"
proof -
  note r = readyD [OF assms(1)]
  have bs: "JHDR \<le> g_bs g" "g_bs g < 2 ^ 32" using fs_bs_bounds [OF r(1)] by simp_all
  have n: "length t \<le> max_targets (g_bs g)" using r(4) by (simp add: txn_fits_def)
  consider "i = 0" | "i = length t + 1" | k where "i = Suc k" "k < length t"
    using assms(2) by (cases i) (auto simp: less_Suc_eq)
  then show ?thesis
  proof cases
    case 1
    then show ?thesis
      using desc_block_fields(1) [of "map fst t" "g_bs g" crc] bs n r(6)
      by (simp add: jimage_def Let_def stale_def jblock_ok_def)
  next
    case 2
    then show ?thesis
      using commit_block_fields(1) [OF bs(1), of crc] r(6)
      by (simp add: jimage_def Let_def nth_append stale_def jblock_ok_def)
  next
    case 3
    then have "\<not> is_journal_block (snd (t ! k))"
      using r(5) by (auto simp: txn_plain_def list_all_length split_beta)
    with 3 show ?thesis
      by (simp add: jimage_def Let_def nth_append plain_stale)
  qed
qed

lemma next_txn_half:
  assumes "ready g t" and "half_applied crc t g gc"
  shows "next_txn crc gc (sb_journal_head (g_sb g)) (sb_journal_seq (g_sb g))
    = Inr (Some (of_nat (txn_at g (length t)), map fst t, map snd t))"
proof -
  let ?h = "unat (sb_journal_head (g_sb g))" and ?p = "txn_at g (length t)" and ?n = "length t"
  let ?seq = "sb_journal_seq (g_sb g)"
  note r = readyD [OF assms(1)]
  have l: "same_layout g gc" and ok: "fs_ok gc" using assms(2) by (simp_all add: half_applied_def)
  have sb: "g_sb gc = g_sb g" using l by (simp add: same_layout_def)
  have j: "journal_ok gc" "txn_fits gc t" "jlen gc = jlen g"
    using r l by (simp_all add: same_layout_journal same_layoutD)
  have blk: "jblock gc i
      = (if ?p \<le> i \<and> i < ?p + ?n + 2 then jimage crc g t ! (i - ?p) else jblock g i)" if "i < jlen g" for i
    using jblock_half [OF assms that] jblock_journaled [OF r(1,2,4) that] by simp
  have "jimage crc gc t = jimage crc g t"
    by (simp add: jimage_def same_layoutD [OF l] sb)
  then have found: "try_read_txn crc gc (of_nat ?p) ?seq = Inr (Some (map fst t, map snd t))"
    using try_read_complete [OF ok j(1,2), of ?p crc] r(7) blk sb j(3) by simp
  have h: "?h < jlen g" using r(2) by (simp add: journal_ok_def)
  show ?thesis
  proof (cases "?p = ?h")
    case True
    with found show ?thesis by (simp add: next_txn_def)
  next
    case False
    then have p0: "?p = 0" using r(2,4) txn_at_eq(1) [of g ?n] by (simp add: txn_fits_def split: if_splits)
    have "\<not> jblock_ok crc JDESC_MAGIC ?seq (jblock gc ?h)"
    proof (cases "?h < ?n + 2")
      case True
      then have "get_bytes (jblock gc ?h) 0 4 \<noteq> JDESC_MAGIC"
        using blk [OF h] jimage_blocks [OF assms(1) True] p0 False by simp
      then show ?thesis by (simp add: jblock_ok_def)
    next
      case False
      then have "jblock gc ?h = jblock g ?h" using blk [OF h] p0 by simp
      moreover have "stale ?seq (jblock g ?h)" using r(3) h by (simp add: journal_fresh_def)
      ultimately show ?thesis using stale_not_ok by simp
    qed
    then have "try_read_txn crc gc (of_nat ?h) ?seq = Inr None"
      using h j(3) by (intro try_read_bad_desc [OF ok j(1)]) simp_all
    moreover have "sb_journal_head (g_sb g) \<noteq> 0" using False p0 by auto
    ultimately show ?thesis using found p0 by (simp add: next_txn_def)
  qed
qed

lemma next_head_less:
  assumes "journal_ok g" and "h \<le> jlen g"
  shows "unat (next_head (g_sb g) (of_nat h)) < jlen g"
proof -
  have j: "jlen g < 2 ^ 32" "0 < jlen g" using assms(1) by (auto simp: journal_ok_def)
  then have "unat (of_nat h :: u64) = h" using assms(2) by (simp add: unat_of_nat)
  then show ?thesis using j assms(2) by (auto simp: next_head_def jlen_def word_le_nat_alt)
qed

text \<open>The journal after a transaction: everything in it is stale for the next number.\<close>

lemma journaled_stale:
  assumes "ready g t" and "i < jlen g"
  shows "stale (sb_journal_seq (g_sb g) + 1) (jblock (journaled crc t g) i)"
proof -
  note r = readyD [OF assms(1)]
  have "stale (sb_journal_seq (g_sb g)) (jblock g i)"
    using r(3) assms(2) by (simp add: journal_fresh_def)
  then have "stale (sb_journal_seq (g_sb g) + 1) (jblock g i)"
    by (rule stale_mono) (rule less_imp_le [OF r(6)])
  moreover have "stale (sb_journal_seq (g_sb g) + 1) (jimage crc g t ! (i - txn_at g (length t)))"
    if "txn_at g (length t) \<le> i \<and> i < txn_at g (length t) + length t + 2"
    by (rule jimage_stale [OF assms(1)]) (use that in linarith)
  ultimately show ?thesis
    unfolding jblock_journaled [OF r(1,2,4) assms(2)] by (split if_split) blast
qed

definition reapplied :: "txn \<Rightarrow> gofs \<Rightarrow> gofs" where
  "reapplied t gc = blk.wr_all t gc"

lemma reapplied_facts:
  assumes "ready g t" and "half_applied crc t g gc"
  shows "half_applied crc t g (reapplied t gc)"
    and "mapped g a \<Longrightarrow> read_block (reapplied t gc) a = read_block (applied crc t g) a"
    and "forS (\<lambda>(blk, data). write_block blk data) (zip (map fst t) (map snd t)) gc = (Inr (), reapplied t gc)"
proof -
  note r = readyD [OF assms(1)]
  have l: "same_layout g gc" and ok: "fs_ok gc" using assms(2) by (simp_all add: half_applied_def)
  note lm = same_layoutD [OF l]
  have ws: "\<forall>(a, b)\<in>set t. mapped gc a \<and> length b = g_bs gc"
    using txn_writes_ok [OF r(4)] by (simp add: lm)
  have dist: "distinct (map fst t)" using r(4) by (simp add: txn_fits_def txn_ok_distinct)
  have rd: "read_block (reapplied t gc) a
      = (case map_of t a of Some b \<Rightarrow> Inr b | None \<Rightarrow> read_block gc a)" if "mapped g a" for a
    unfolding reapplied_def using that by (intro wr_all_read [OF ok ws dist]) (simp add: lm)
  have "same_layout g (reapplied t gc)"
    using wr_all_layout [of gc t] l by (simp add: reapplied_def same_layout_def)
  moreover have "fs_ok (reapplied t gc)" unfolding reapplied_def by (rule wr_all_ok [OF ok ws])
  ultimately show "half_applied crc t g (reapplied t gc)"
    using assms(2) rd by (simp add: half_applied_def)
  show "mapped g a \<Longrightarrow> read_block (reapplied t gc) a = read_block (applied crc t g) a"
    using rd read_applied [OF r(1,2,4)] assms(2) by (auto simp: half_applied_def split: option.split)
  show "forS (\<lambda>(blk, data). write_block blk data) (zip (map fst t) (map snd t)) gc = (Inr (), reapplied t gc)"
    unfolding reapplied_def zip_map_fst_snd by (rule write_blocks_run [OF ok ws])
qed

lemma next_txn_done:
  assumes "ready g t" and "half_applied crc t g gc" and "h \<le> jlen g"
  shows "next_txn crc gc (next_head (g_sb g) (of_nat h)) (sb_journal_seq (g_sb g) + 1) = Inr None"
proof -
  note r = readyD [OF assms(1)]
  have l: "same_layout g gc" and ok: "fs_ok gc" using assms(2) by (simp_all add: half_applied_def)
  show ?thesis
  proof (rule next_txn_stale [OF ok])
    show "journal_ok gc" using r(2) by (simp add: same_layout_journal [OF l])
    show "\<forall>i<jlen gc. stale (sb_journal_seq (g_sb g) + 1) (jblock gc i)"
      using jblock_half [OF assms(1,2)] journaled_stale [OF assms(1)] by (simp add: same_layoutD [OF l])
    show "unat (next_head (g_sb g) (of_nat h)) < jlen gc"
      using next_head_less [OF r(2) assms(3)] by (simp add: same_layoutD [OF l])
  qed simp
qed

theorem replay_half_applied:
  assumes "ready g t" and "half_applied crc t g gc"
  obtains g' where "replay crc (Suc (Suc fuel)) gc = (Inr 1, g')" and "fs_ok g'"
    and "g_map g' = g_map g"
    and "\<And>a. mapped g a \<Longrightarrow> a \<noteq> sb_home \<Longrightarrow> a \<noteq> sb_backup g \<Longrightarrow>
           read_block g' a = read_block (applied crc t g) a"
    and "dv_pread (g_dev g') SB_SIZE 0 = Inr (sb_to_bytes crc (g_sb g'))"
    and "g_sb g' = (checkpoint (txn_at g (length t) + length t + 2) (g_sb g))\<lparr>sb_gen := sb_gen (g_sb g) + 1\<rparr>"
proof -
  let ?h = "txn_at g (length t) + length t + 2" and ?g3 = "reapplied t gc"
  note r = readyD [OF assms(1)] and f = reapplied_facts [OF assms]
  have l: "same_layout g gc" "same_layout g ?g3" and ok3: "fs_ok ?g3"
    using assms(2) f(1) by (simp_all add: half_applied_def)
  have sb: "g_sb gc = g_sb g" "g_sb ?g3 = g_sb g" using l by (simp_all add: same_layout_def)
  have head: "next_head (g_sb g) (of_nat (txn_at g (length t)) + of_nat (length t) + 2)
      = next_head (g_sb g) (of_nat ?h)"
    by (simp add: ac_simps)
  have loop: "replay_loop crc (Suc (Suc fuel)) (sb_journal_head (g_sb g)) (sb_journal_seq (g_sb g)) 0 gc
      = (Inr (next_head (g_sb g) (of_nat ?h), sb_journal_seq (g_sb g) + 1, 1), ?g3)"
    using next_txn_half [OF assms] next_txn_done [OF assms(1) f(1) r(7)] sb f(3) head
    by (simp add: bindS_Inr)
  let ?g4 = "(synced ?g3)\<lparr>g_sb := checkpoint ?h (g_sb g)\<rparr>"
  have ok4: "fs_ok ?g4"
    by (rule fs_ok_sb [OF fs_ok_synced [OF ok3]])
      (use ok3 sb in \<open>simp_all add: checkpoint_def fs_ok_def sb_wf_def\<close>)
  obtain g' where w: "write_superblock crc ?g4 = (Inr (), g')" "fs_ok g'"
    "g_sb g' = (g_sb ?g4)\<lparr>sb_gen := sb_gen (g_sb ?g4) + 1\<rparr>" "g_map g' = g_map ?g4"
    "\<And>a. mapped ?g4 a \<Longrightarrow> a \<noteq> sb_home \<Longrightarrow> a \<noteq> sb_backup ?g4 \<Longrightarrow> read_block g' a = read_block ?g4 a"
    "dv_pread (g_dev g') SB_SIZE 0 = Inr (sb_to_bytes crc (g_sb g'))"
    using write_superblock_ok [OF ok4, of crc] by metis
  have "replay crc (Suc (Suc fuel)) gc = (Inr 1, g')"
    unfolding replay_def using loop w(1) sb
    by (simp add: bindS_Inr sync_run checkpoint_def del: replay_loop.simps)
  moreover have "mapped ?g4 = mapped g" "sb_backup ?g4 = sb_backup g" "read_block ?g4 = read_block ?g3"
    using l(2) by (simp_all add: mapped_def sb_backup_def ag0_length_def same_layout_def checkpoint_def
        read_block_def g_resolve_def g_bs_def dv_pread_def fun_eq_iff sb)
  ultimately show ?thesis
    using w f(2) l(2) by (intro that) (simp_all add: checkpoint_def same_layout_def)
qed

end
