(* ===== verification/Crash.thy ===== *)
theory Crash
  imports Replay
begin

text \<open>
  Commit and power cuts together: the write log of a commit, the files that a cut in each of
  its phases can leave, and what the next mount makes of them.
\<close>

subsection \<open>A commit on a healthy filesystem\<close>

text \<open>The superblock in memory is the one on disk, and the journal holds nothing to replay.\<close>

definition healthy :: "crc_fun \<Rightarrow> gofs \<Rightarrow> bool" where
  "healthy crc g \<longleftrightarrow> fs_ok g \<and> journal_ok g \<and> journal_fresh g \<and>
     dv_pread (g_dev g) SB_SIZE 0 = Inr (sb_to_bytes crc (g_sb g))"

lemma jblock_cong:
  assumes "read_block g' (jaddr g' i) = read_block g (jaddr g i)"
    and "fs_ok g" "fs_ok g'" "mapped g (jaddr g i)" "mapped g' (jaddr g' i)"
  shows "jblock g' i = jblock g i"
  using assms by (simp add: read_block_mapped jblock_def)

lemma journal_after:
  assumes "ready g t" and ok: "fs_ok g'" and map: "g_map g' = g_map g"
    and sb': "g_sb g' = (checkpoint (txn_at g (length t) + length t + 2) (g_sb g))\<lparr>sb_gen := sb_gen (g_sb g) + 1\<rparr>"
    and rd: "\<And>a. mapped g a \<Longrightarrow> a \<noteq> sb_home \<Longrightarrow> a \<noteq> sb_backup g \<Longrightarrow>
           read_block g' a = read_block (applied crc t g) a"
  shows "journal_ok g' \<and> journal_fresh g'"
proof -
  note r = readyD [OF assms(1)]
  have same: "jaddr g' = jaddr g" "jlen g' = jlen g" "mapped g' = mapped g" "sb_backup g' = sb_backup g"
    using sb' map by (simp_all add: jaddr_def jlen_def mapped_def sb_backup_def ag0_length_def
        checkpoint_def fun_eq_iff)
  have jok: "journal_ok g'"
    using r(2) next_head_less [OF r(2) r(7)] sb'
    by (simp add: journal_ok_def same checkpoint_def)
  have "jblock g' i = jblock (journaled crc t g) i" if "i < jlen g" for i
  proof -
    have m: "mapped g (jaddr g i)" "jaddr g i \<noteq> sb_home" "jaddr g i \<noteq> sb_backup g"
      using r(2) that by (simp_all add: journal_ok_def)
    have "read_block g' (jaddr g i) = read_block (journaled crc t g) (jaddr g i)"
      using rd [OF m] read_applied [OF r(1,2,4) m(1), of crc] journal_not_target [OF r(4) that] by simp
    then show ?thesis
      using jblock_cong [of g' i "journaled crc t g"] ok journaled_ok [OF r(1,2,4)] m(1)
      by (simp add: same same_layoutD [OF journaled_layout])
  qed
  then have "journal_fresh g'"
    using journaled_stale [OF assms(1)] sb' by (simp add: journal_fresh_def same checkpoint_def)
  with jok show ?thesis by simp
qed

lemma commit_effect:
  assumes "ready g t"
  obtains g' where "commit crc t g = (Inr (), g')" and "healthy crc g'" and "g_map g' = g_map g"
    and "g_sb g' = (checkpoint (txn_at g (length t) + length t + 2) (g_sb g))\<lparr>sb_gen := sb_gen (g_sb g) + 1\<rparr>"
    and "\<And>a. mapped g a \<Longrightarrow> a \<noteq> sb_home \<Longrightarrow> a \<noteq> sb_backup g \<Longrightarrow>
           read_block g' a = read_block (applied crc t g) a"
proof -
  let ?h = "txn_at g (length t) + length t + 2"
  define g4 where "g4 = (synced (applied crc t g))\<lparr>g_sb := checkpoint ?h (g_sb g)\<rparr>"
  note r = readyD [OF assms]
  have ok: "fs_ok (applied crc t g)" by (rule applied_ok [OF r(1,2,4)])
  have l: "same_layout g (applied crc t g)" by (rule applied_layout)
  have sb: "g_sb (applied crc t g) = g_sb g" "g_map (applied crc t g) = g_map g"
    using l by (simp_all add: same_layout_def)
  have ok4: "fs_ok g4"
    unfolding g4_def
    by (rule fs_ok_sb [OF fs_ok_synced [OF ok]])
      (use ok sb in \<open>simp_all add: checkpoint_def fs_ok_def sb_wf_def\<close>)
  obtain g' where w: "write_superblock crc g4 = (Inr (), g')" "fs_ok g'"
    "g_sb g' = (g_sb g4)\<lparr>sb_gen := sb_gen (g_sb g4) + 1\<rparr>" "g_map g' = g_map g4"
    "\<And>a. mapped g4 a \<Longrightarrow> a \<noteq> sb_home \<Longrightarrow> a \<noteq> sb_backup g4 \<Longrightarrow> read_block g' a = read_block g4 a"
    "dv_pread (g_dev g') SB_SIZE 0 = Inr (sb_to_bytes crc (g_sb g'))"
    using write_superblock_ok [OF ok4, of crc] by metis
  have run: "commit crc t g = (Inr (), g')"
    using commit_run [OF r(1,2,4), of crc] w(1) unfolding g4_def by simp
  have g4: "g_sb g4 = checkpoint ?h (g_sb g)" "g_map g4 = g_map g" "mapped g4 = mapped g" "sb_backup g4 = sb_backup g"
    "read_block g4 = read_block (applied crc t g)"
    by (simp_all add: g4_def mapped_def sb_backup_def ag0_length_def checkpoint_def sb
        read_block_def g_resolve_def g_bs_def dv_pread_def fun_eq_iff)
  have map: "g_map g' = g_map g" using w(4) g4 by simp
  have sb': "g_sb g' = (checkpoint ?h (g_sb g))\<lparr>sb_gen := sb_gen (g_sb g) + 1\<rparr>"
    using w(3) by (simp add: g4 checkpoint_def)
  have rd: "read_block g' a = read_block (applied crc t g) a"
    if "mapped g a" "a \<noteq> sb_home" "a \<noteq> sb_backup g" for a
    using w(5) that by (simp add: g4)
  have "journal_ok g'" "journal_fresh g'"
    using journal_after [OF assms w(2) map sb' rd] by blast+
  then have "healthy crc g'" using w(2,6) by (simp add: healthy_def)
  then show ?thesis by (rule that [OF run _ map sb' rd])
qed

subsection \<open>The write log of a commit\<close>

definition phys :: "gofs \<Rightarrow> (u64 \<times> buffer) list \<Rightarrow> (u64 \<times> buffer) list" where
  "phys g ws = map (\<lambda>(a, b). (place g a, b)) ws"

definition tagged :: "u32 \<Rightarrow> (u64 \<times> buffer) list \<Rightarrow> write_log" where
  "tagged e ws = map (Pair e) ws"

lemma epoch_tagged [simp]:
  "epoch_writes e (us @ ws) = epoch_writes e us @ epoch_writes e ws"
  "before_epoch e (us @ ws) = before_epoch e us @ before_epoch e ws"
  "epoch_writes e (tagged e' vs) = (if e' = e then vs else [])"
  "before_epoch e (tagged e' vs) = (if e' < e then vs else [])"
  by (auto simp: epoch_writes_def before_epoch_def tagged_def filter_map o_def)

lemma wr_all_record:
  assumes "fs_ok g" and "\<forall>(a, b)\<in>set ws. mapped g a \<and> length b = g_bs g"
    and "dv_recorder (g_dev g) = Some (e, log)"
  shows "dv_recorder (g_dev (blk.wr_all ws g)) = Some (e, log @ tagged e (phys g ws))"
  using assms
proof (induction ws arbitrary: g log)
  case Nil
  then show ?case by (simp add: phys_def tagged_def)
next
  case (Cons w ws)
  obtain a b where w: "w = (a, b)" by (cases w)
  let ?g = "blk_wr a b g"
  have m: "mapped g a" "length b = g_bs g" using Cons.prems w by simp_all
  have "dv_recorder (g_dev ?g) = Some (e, log @ [(e, place g a, b)])"
    using Cons.prems(3) by (simp add: blk_wr_def dv_pwrite_def dv_record_def Let_def)
  then have "dv_recorder (g_dev (blk.wr_all ws ?g))
      = Some (e, (log @ [(e, place g a, b)]) @ tagged e (phys ?g ws))"
    using Cons.prems m w by (intro Cons.IH) auto
  then show ?case by (simp add: w phys_def tagged_def)
qed

lemma wr_all_file:
  assumes "fs_ok g" and "\<forall>(a, b)\<in>set ws. mapped g a \<and> length b = g_bs g"
  shows "dv_file (g_dev (blk.wr_all ws g)) = apply_writes (dv_file (g_dev g)) (phys g ws)"
  using assms
proof (induction ws arbitrary: g)
  case Nil
  then show ?case by (simp add: phys_def)
next
  case (Cons w ws)
  obtain a b where w: "w = (a, b)" by (cases w)
  have m: "mapped g a" "length b = g_bs g" using Cons.prems w by simp_all
  have "dv_file (g_dev (blk.wr_all ws (blk_wr a b g)))
      = apply_writes (dv_file (g_dev (blk_wr a b g))) (phys (blk_wr a b g) ws)"
    using Cons.prems m w by (intro Cons.IH) auto
  then show ?case
    using blk_wr_file(1) [OF Cons.prems(1) m] by (simp add: w phys_def)
qed

lemma synced_record:
  "dv_recorder (g_dev g) = Some (e, log) \<Longrightarrow> dv_recorder (g_dev (synced g)) = Some (e + 1, log)"
  by (simp add: synced_def dv_sync_def)

lemma write_superblock_record:
  assumes "write_superblock crc g = (r, g')" and "dv_recorder (g_dev g) = Some (e, log)"
  shows "\<exists>ws. dv_recorder (g_dev g') = Some (e, log @ tagged e ws)"
proof -
  have pw: "\<exists>ws. dv_recorder (snd (dv_pwrite b off d)) = Some (e, l @ tagged e ws)"
    if "dv_recorder d = Some (e, l)" for b off d l
    using that by (auto simp: dv_pwrite_def dv_record_def Let_def tagged_def intro!: exI [of _ "[(off, b)]"])
  define g1 where "g1 = bump_gen g"
  let ?b = "sb_to_bytes crc (g_sb g1)"
  obtain r1 d1 where d1: "dv_pwrite ?b 0 (g_dev g1) = (r1, d1)" by fastforce
  have "dv_recorder (g_dev g1) = Some (e, log)" using assms(2) by (simp add: g1_def)
  from pw [OF this, of ?b 0] d1 obtain w1 where w1: "dv_recorder d1 = Some (e, log @ tagged e w1)" by auto
  have ws: "write_superblock crc g = (case r1 of Inl x \<Rightarrow> (Inl x, g1\<lparr>g_dev := d1\<rparr>)
      | Inr _ \<Rightarrow> (case backup_off g1 of None \<Rightarrow> retS () | Some off \<Rightarrow> onDev (dv_pwrite ?b off)) (g1\<lparr>g_dev := d1\<rparr>))"
    using d1 by (simp add: write_superblock_def bump_gen_def g1_def bindS_def onDev_def modS_def askS_def
        split: sum.split option.split)
  show ?thesis
  proof (cases "r1 = Inr () \<and> backup_off g1 \<noteq> None")
    case False
    then have "g_dev g' = d1"
      using ws assms(1) by (auto split: sum.splits option.splits)
    with w1 show ?thesis by blast
  next
    case True
    then obtain off where "backup_off g1 = Some off" "r1 = Inr ()" by auto
    then have "g_dev g' = snd (dv_pwrite ?b off d1)"
      using ws assms(1) by (auto simp: onDev_def split: prod.splits)
    with pw [OF w1, of ?b off] show ?thesis
      by (auto simp: tagged_def simp flip: map_append)
  qed
qed

lemma commit_log:
  assumes "ready g t" and "dv_recorder (g_dev g) = Some (0, [])" and "commit crc t g = (Inr (), g1)"
  obtains ws where "dv_recorder (g_dev g1)
    = Some (2, tagged 0 (phys g (jwrites g (txn_at g (length t)) (jimage crc g t))) @
               tagged 1 (phys g t) @ tagged 2 ws)"
proof -
  note r = readyD [OF assms(1)]
  let ?J = "jwrites g (txn_at g (length t)) (jimage crc g t)"
  have j: "\<forall>(a, b)\<in>set ?J. mapped g a \<and> length b = g_bs g"
    by (rule jimage_writes_ok [OF r(1,2,4,7)])
  have "dv_recorder (g_dev (journaled crc t g)) = Some (0, tagged 0 (phys g ?J))"
    unfolding journaled_def using wr_all_record [OF r(1) j assms(2)] by simp
  then have 1: "dv_recorder (g_dev (synced (journaled crc t g))) = Some (1, tagged 0 (phys g ?J))"
    by (simp add: synced_record)
  note l = same_layoutD [OF journaled_layout [of g crc t]]
  have "dv_recorder (g_dev (applied crc t g))
      = Some (1, tagged 0 (phys g ?J) @ tagged 1 (phys (synced (journaled crc t g)) t))"
    unfolding applied_def using journaled_ok [OF r(1,2,4)] txn_writes_ok [OF r(4)] 1
    by (intro wr_all_record) (simp_all add: l)
  then have "dv_recorder (g_dev (synced (applied crc t g)))
      = Some (2, tagged 0 (phys g ?J) @ tagged 1 (phys g t))"
    using synced_record [of "applied crc t g" 1] by (simp add: phys_def l)
  moreover obtain ws where "dv_recorder (g_dev g1)
      = Some (2, (tagged 0 (phys g ?J) @ tagged 1 (phys g t)) @ tagged 2 ws)"
    using calculation write_superblock_record [of crc _ "Inr ()" g1 2] assms(3)
    unfolding commit_run [OF r(1,2,4)] by fastforce
  ultimately show ?thesis using that by simp
qed

subsection \<open>What a power cut leaves\<close>

text \<open>The next mount: the same superblock and AG map over the file as the cut left it.\<close>

definition remount :: "gofs \<Rightarrow> vfile \<Rightarrow> gofs" where
  "remount g f = g\<lparr>g_dev := dv_open f True, g_hints := (\<lambda>_. None)\<rparr>"

lemma phys_sublist:
  assumes "set ws \<subseteq> set (phys g W)"
  obtains vs where "ws = phys g vs" and "set vs \<subseteq> set W"
  using assms
proof (induction ws arbitrary: thesis)
  case Nil
  show ?case by (rule Nil.prems(1) [of "[]"]) (simp_all add: phys_def)
next
  case (Cons w ws)
  obtain vs where vs: "ws = phys g vs" "set vs \<subseteq> set W" using Cons by auto
  obtain v where v: "v \<in> set W" "w = (\<lambda>(a, b). (place g a, b)) v"
    using Cons.prems(2) by (auto simp: phys_def)
  then show ?case using vs by (intro Cons.prems(1) [of "v # vs"]) (simp_all add: phys_def)
qed

lemma remount_same:
  assumes "same_layout g G" and "fs_ok G" and "f = dv_file (g_dev G)"
  shows "same_layout g (remount g f)" and "fs_ok (remount g f)"
    and "read_block (remount g f) = read_block G"
proof -
  have room: "dv_room (g_dev G)" using assms(2) by (simp add: fs_ok_def)
  show "same_layout g (remount g f)" by (simp add: same_layout_def remount_def)
  show "fs_ok (remount g f)"
    using assms room by (simp add: fs_ok_def remount_def dv_open_def dv_new_def dv_room_def same_layout_def)
  show "read_block (remount g f) = read_block G"
    using assms(1,3) by (simp add: same_layout_def remount_def dv_open_def dv_new_def read_block_def
        g_resolve_def g_bs_def dv_pread_def fun_eq_iff)
qed

text \<open>The superblock is found again as long as its block was not written.\<close>

lemma home_superblock:
  assumes "fs_ok G" and "fs_ok g" and "same_layout g G"
    and "read_block G sb_home = read_block g sb_home"
    and "dv_pread (g_dev g) SB_SIZE 0 = Inr (sb_to_bytes crc (g_sb g))"
  shows "find_superblock crc (g_dev G) = Inr (g_sb g, False)"
proof -
  have front: "dv_pread (g_dev h) SB_SIZE 0 = (case read_block h sb_home of
      Inr b \<Rightarrow> Inr (get_bytes b 0 SB_SIZE) | Inl e \<Rightarrow> Inl e)" if "fs_ok h" for h
    using place_inside [OF that sb_copies(1) [OF that]] sb_copies(1,2) [OF that] g_bs_ge [OF that]
    by (simp add: read_block_mapped [OF that] dv_pread_def fl_read_sub)
  have "sb_wf (g_sb g)" using assms(2) by (simp add: fs_ok_def)
  then have "sb_parse crc (sb_to_bytes crc (g_sb g)) = Inr (g_sb g)"
    using sb_parse_to_bytes [of "g_sb g" crc "[]"] by simp
  moreover have "dv_pread (g_dev G) SB_SIZE 0 = Inr (sb_to_bytes crc (g_sb g))"
    using front [OF assms(1)] front [OF assms(2)] assms(4,5) by simp
  ultimately show ?thesis by (simp add: find_superblock_def)
qed

lemma read_subset_writes:
  assumes "fs_ok g" and "\<forall>(a, b)\<in>set W. mapped g a \<and> length b = g_bs g" and "distinct (map fst W)"
    and "set vs \<subseteq> set W" and "mapped g a"
  shows "read_block (blk.wr_all vs g) a \<in>
      insert (read_block g a) {Inr b | b. (a, b) \<in> set W \<and> (a, b) \<in> set vs}"
    and "(a, b) \<in> set vs \<Longrightarrow> read_block (blk.wr_all vs g) a = Inr b"
    and "a \<notin> fst ` set vs \<Longrightarrow> read_block (blk.wr_all vs g) a = read_block g a"
proof -
  have ok: "blk.ok_writes g vs" using assms(1,2,4) by (auto simp: blk.ok_writes_def)
  have rd: "read_block (blk.wr_all vs g) a
      = (case map_of (rev vs) a of Some b \<Rightarrow> Inr b | None \<Rightarrow> read_block g a)"
    by (rule blk.rd_wr_all [OF ok]) (use assms(1,5) in simp)
  have some: "map_of (rev vs) a = Some b \<Longrightarrow> (a, b) \<in> set vs" for b
    by (metis map_of_SomeD set_rev)
  show "read_block (blk.wr_all vs g) a \<in>
      insert (read_block g a) {Inr b | b. (a, b) \<in> set W \<and> (a, b) \<in> set vs}"
    using rd some assms(4) by (auto split: option.splits)
  show "read_block (blk.wr_all vs g) a = Inr b" if ab: "(a, b) \<in> set vs"
  proof -
    have "a \<in> fst ` set (rev vs)" using ab by force
    then have "map_of (rev vs) a \<noteq> None" by (metis map_of_eq_None_iff)
    then obtain b' where b': "map_of (rev vs) a = Some b'" by blast
    then have "(a, b') \<in> set W" "(a, b) \<in> set W" using some ab assms(4) by auto
    then have "b' = b" using assms(3) by (metis map_of_is_SomeI option.inject)
    then show ?thesis using rd b' by simp
  qed
  show "a \<notin> fst ` set vs \<Longrightarrow> read_block (blk.wr_all vs g) a = read_block g a"
    using rd by (auto simp: map_of_eq_None_iff split: option.split)
      (metis fst_conv image_eqI some)
qed

lemma crash_apply_half:
  fixes crc :: crc_fun
  assumes "ready g t" and "set vs \<subseteq> set t"
  defines "G \<equiv> blk.wr_all vs (synced (journaled crc t g))"
  shows "half_applied crc t g G" and "read_block G sb_home = read_block g sb_home"
proof -
  note r = readyD [OF assms(1)]
  let ?S = "synced (journaled crc t g)"
  note l = same_layoutD [OF journaled_layout [of g crc t]]
  have ok: "fs_ok ?S" by (rule fs_ok_synced [OF journaled_ok [OF r(1,2,4)]])
  have W: "\<forall>(a, b)\<in>set t. mapped ?S a \<and> length b = g_bs ?S"
    using txn_writes_ok [OF r(4)] by (simp add: l)
  have dist: "distinct (map fst t)" using r(4) by (simp add: txn_fits_def txn_ok_distinct)
  have lay: "same_layout g G"
    using wr_all_layout [of ?S vs] journaled_layout [of g crc t] by (simp add: G_def same_layout_def)
  have okG: "fs_ok G" unfolding G_def using W assms(2) by (intro wr_all_ok [OF ok]) auto
  have rd: "read_block G a = read_block (journaled crc t g) a" if "mapped g a" "map_of t a = None" for a
  proof -
    have "a \<notin> fst ` set vs" using that(2) assms(2) by (auto simp: map_of_eq_None_iff)
    then show ?thesis
      using read_subset_writes(3) [OF ok W dist assms(2)] that(1) by (simp add: G_def l)
  qed
  then show "half_applied crc t g G" using lay okG by (simp add: half_applied_def)
  have "map_of t sb_home = None"
    using r(4) by (auto simp: txn_fits_def list_all_iff target_ok_def map_of_eq_None_iff)
  moreover have "\<not> in_journal g sb_home" using r(2) by (auto simp: journal_ok_def in_journal_def)
  then have "map_of (jwrites g (txn_at g (length t)) (jimage crc g t)) sb_home = None"
    using r(7) by (intro map_of_jwrites_other) simp_all
  ultimately show "read_block G sb_home = read_block g sb_home"
    using rd [of sb_home] read_journaled [OF r(1,2,4), of sb_home crc] sb_copies(1) [OF r(1)] by simp
qed

lemma crash_apply_file:
  fixes crc :: crc_fun
  assumes "ready g t" and "set vs \<subseteq> set t"
  shows "dv_file (g_dev (blk.wr_all vs (synced (journaled crc t g))))
    = apply_writes (apply_writes (dv_file (g_dev g))
        (phys g (jwrites g (txn_at g (length t)) (jimage crc g t)))) (phys g vs)"
proof -
  note r = readyD [OF assms(1)]
  let ?S = "synced (journaled crc t g)"
  note l = same_layoutD [OF journaled_layout [of g crc t]]
  have ok: "fs_ok ?S" by (rule fs_ok_synced [OF journaled_ok [OF r(1,2,4)]])
  have W: "\<forall>(a, b)\<in>set vs. mapped ?S a \<and> length b = g_bs ?S"
    using txn_writes_ok [OF r(4)] assms(2) by (auto simp: l)
  have "dv_file (g_dev (journaled crc t g)) = apply_writes (dv_file (g_dev g))
      (phys g (jwrites g (txn_at g (length t)) (jimage crc g t)))"
    unfolding journaled_def by (rule wr_all_file [OF r(1) jimage_writes_ok [OF r(1,2,4,7)]])
  then show ?thesis
    using wr_all_file [OF ok W] by (simp add: phys_def l)
qed

lemma replay_half_healthy:
  assumes "ready g t" and "half_applied crc t g gc"
  obtains g' where "replay crc (Suc (Suc fuel)) gc = (Inr 1, g')" and "healthy crc g'"
    and "\<And>a. target_ok g a \<Longrightarrow> read_block g' a = read_block (applied crc t g) a"
proof -
  obtain g' where g': "replay crc (Suc (Suc fuel)) gc = (Inr 1, g')" "fs_ok g'"
    "g_map g' = g_map g"
    "\<And>a. mapped g a \<Longrightarrow> a \<noteq> sb_home \<Longrightarrow> a \<noteq> sb_backup g \<Longrightarrow>
       read_block g' a = read_block (applied crc t g) a"
    "dv_pread (g_dev g') SB_SIZE 0 = Inr (sb_to_bytes crc (g_sb g'))"
    "g_sb g' = (checkpoint (txn_at g (length t) + length t + 2) (g_sb g))\<lparr>sb_gen := sb_gen (g_sb g) + 1\<rparr>"
    using replay_half_applied [OF assms, of fuel] by metis
  have "healthy crc g'"
    using journal_after [OF assms(1) g'(2,3,6,4)] g'(2,5) by (simp add: healthy_def)
  then show ?thesis by (rule that [OF g'(1)]) (use g'(4) in \<open>simp add: target_ok_def\<close>)
qed

lemma target_read:
  assumes "ready g t" and "target_ok g a"
  shows "read_block (applied crc t g) a
    = (case map_of t a of Some b \<Rightarrow> Inr b | None \<Rightarrow> read_block g a)"
proof -
  note r = readyD [OF assms(1)]
  have m: "mapped g a" "\<not> in_journal g a" using assms(2) by (simp_all add: target_ok_def)
  have "map_of (jwrites g (txn_at g (length t)) (jimage crc g t)) a = None"
    using r(7) m(2) by (intro map_of_jwrites_other) simp_all
  then show ?thesis
    using read_applied [OF r(1,2,4) m(1), of crc] read_journaled [OF r(1,2,4) m(1), of crc]
    by (simp split: option.split)
qed

text \<open>A cut in the epoch of the journal writes that loses the commit block.\<close>

lemma try_read_no_commit:
  assumes "fs_ok g" and "journal_ok g" and "txn_fits g t" and "p + length t + 2 \<le> jlen g"
    and "jblock g p = jimage crc g t ! 0" and "stale (sb_journal_seq (g_sb g)) (jblock g (p + length t + 1))"
  shows "try_read_txn crc g (of_nat p) (sb_journal_seq (g_sb g)) = Inr None"
proof -
  let ?n = "length t" and ?seq = "sb_journal_seq (g_sb g)"
  let ?desc = "desc_block crc (g_bs g) ?seq (map fst t)"
  note bs = fs_bs_bounds [OF assms(1)]
  have n: "?n \<le> max_targets (g_bs g)" using assms(3) by (simp add: txn_fits_def)
  have rdesc: "journal_read g (of_nat p) = Inr ?desc"
    using journal_read_jblock [OF assms(1,2), of p] assms(4,5) by (simp add: jimage_def Let_def)
  have rc: "journal_read g (of_nat p + of_nat ?n + 1) = Inr (jblock g (p + ?n + 1))"
    using journal_read_jblock [OF assms(1,2), of "p + ?n + 1"] assms(4) by (simp add: algebra_simps)
  have "unat (get_u32 ?desc 16) = ?n"
    using desc_block_fields(2) [of "map fst t" "g_bs g"] n bs by simp
  moreover have "unat (of_nat ?n :: u64) = ?n"
    using n bs max_targets_room [of ?n "g_bs g"] by (simp add: unat_of_nat)
  ultimately have "(ucast (get_u32 ?desc 16) :: u64) = of_nat ?n"
    by (simp add: word_unat_eq_iff)
  moreover have "\<not> jblock_ok crc JCOMMIT_MAGIC ?seq (jblock g (p + ?n + 1))"
    using stale_not_ok [OF assms(6)] by simp
  ultimately show ?thesis
    using rdesc rc by (simp add: try_read_txn_def Let_def add.assoc)
qed

lemma replay_nothing:
  assumes "next_txn crc g (sb_journal_head (g_sb g)) (sb_journal_seq (g_sb g)) = Inr None"
  shows "replay crc (Suc fuel) g = (Inr 0, g)"
  using assms by (simp add: replay_def bindS_Inr)

lemma lost_commit_next:
  assumes "ready g t" and "same_layout g gc" and "fs_ok gc"
    and "\<And>i. i < jlen g \<Longrightarrow> jblock gc i = jblock g i \<or>
      (txn_at g (length t) \<le> i \<and> i < txn_at g (length t) + length t + 1 \<and>
       jblock gc i = jimage crc g t ! (i - txn_at g (length t)))"
  shows "next_txn crc gc (sb_journal_head (g_sb g)) (sb_journal_seq (g_sb g)) = Inr None"
proof -
  let ?p = "txn_at g (length t)" and ?n = "length t" and ?seq = "sb_journal_seq (g_sb g)"
  note r = readyD [OF assms(1)] and l = same_layoutD [OF assms(2)]
  have sb: "g_sb gc = g_sb g" using assms(2) by (simp add: same_layout_def)
  have j: "journal_ok gc" "txn_fits gc t"
    using r same_layout_journal [OF assms(2)] by (simp_all add: l)
  have img: "jimage crc gc t = jimage crc g t" by (simp add: jimage_def l sb)
  have fresh: "stale ?seq (jblock g i)" if "i < jlen g" for i
    using r(3) that by (simp add: journal_fresh_def)
  have none: "try_read_txn crc gc (of_nat q) ?seq = Inr None" if q: "q < jlen g" for q
  proof (cases "jblock gc q = jblock g q")
    case True
    then have "\<not> jblock_ok crc JDESC_MAGIC ?seq (jblock gc q)"
      using stale_not_ok [OF fresh [OF q]] by simp
    then show ?thesis using q by (intro try_read_bad_desc [OF assms(3) j(1)]) (simp_all add: l)
  next
    case False
    then have in_txn: "?p \<le> q" "q < ?p + ?n + 1" and b: "jblock gc q = jimage crc g t ! (q - ?p)"
      using assms(4) [OF q] by blast+
    show ?thesis
    proof (cases "q = ?p")
      case True
      have "?p + ?n + 1 < jlen g" using r(7) by simp
      then have "jblock gc (?p + ?n + 1) = jblock g (?p + ?n + 1)" using assms(4) by fastforce
      then have "stale (sb_journal_seq (g_sb gc)) (jblock gc (?p + ?n + 1))"
        using fresh [of "?p + ?n + 1"] r(7) by (simp add: sb)
      then show ?thesis
        using try_read_no_commit [OF assms(3) j, of ?p crc] r(7) b True by (simp add: l img sb)
    next
      case False
      then have "get_bytes (jblock gc q) 0 4 \<noteq> JDESC_MAGIC"
        using jimage_blocks [OF assms(1), of "q - ?p" crc] in_txn b by simp
      then have "\<not> jblock_ok crc JDESC_MAGIC ?seq (jblock gc q)" by (simp add: jblock_ok_def)
      then show ?thesis using q by (intro try_read_bad_desc [OF assms(3) j(1)]) (simp_all add: l)
    qed
  qed
  have h: "unat (sb_journal_head (g_sb g)) < jlen g" "0 < jlen g"
    using r(2) by (auto simp: journal_ok_def)
  show ?thesis
    using none [OF h(1)] none [OF h(2)] by (simp add: next_txn_def)
qed

lemma crash_journal_state:
  fixes crc :: crc_fun
  assumes "ready g t" and "set vs \<subseteq> set (jwrites g (txn_at g (length t)) (jimage crc g t))"
  defines "G \<equiv> blk.wr_all vs g" and "p \<equiv> txn_at g (length t)"
  shows "same_layout g G" and "fs_ok G" and "dv_file (g_dev G) = apply_writes (dv_file (g_dev g)) (phys g vs)"
    and "\<And>a. mapped g a \<Longrightarrow> \<not> in_journal g a \<Longrightarrow> read_block G a = read_block g a"
    and "\<And>i. i < jlen g \<Longrightarrow> (if jaddr g i \<in> fst ` set vs
           then p \<le> i \<and> i < p + length t + 2 \<and> jblock G i = jimage crc g t ! (i - p)
           else jblock G i = jblock g i)"
proof -
  note r = readyD [OF assms(1)]
  let ?J = "jwrites g p (jimage crc g t)"
  have W: "\<forall>(a, b)\<in>set ?J. mapped g a \<and> length b = g_bs g"
    unfolding p_def by (rule jimage_writes_ok [OF r(1,2,4,7)])
  have sub: "set vs \<subseteq> set ?J" using assms(2) by (simp add: p_def)
  then have V: "\<forall>(a, b)\<in>set vs. mapped g a \<and> length b = g_bs g" using W by blast
  have j: "jlen g < 2 ^ 63" using r(2) by (simp add: journal_ok_def)
  have le: "p + length (jimage crc g t) \<le> jlen g" using r(7) by (simp add: p_def)
  have dist: "distinct (map fst ?J)" by (rule distinct_jwrites [OF le j])
  show lay: "same_layout g G" unfolding G_def by (rule wr_all_layout)
  show ok: "fs_ok G" unfolding G_def by (rule wr_all_ok [OF r(1) V])
  show "dv_file (g_dev G) = apply_writes (dv_file (g_dev g)) (phys g vs)"
    unfolding G_def by (rule wr_all_file [OF r(1) V])
  note rd = read_subset_writes [OF r(1) W dist sub]
  have keys: "a \<in> fst ` set vs \<Longrightarrow> \<exists>k<length (jimage crc g t). (a, jimage crc g t ! k) \<in> set vs \<and> a = jaddr g (p + k)" for a
    using sub unfolding set_jwrites by fastforce
  show "read_block G a = read_block g a" if "mapped g a" "\<not> in_journal g a" for a
  proof -
    have "a \<notin> fst ` set vs"
    proof
      assume "a \<in> fst ` set vs"
      then obtain k where "k < length (jimage crc g t)" "a = jaddr g (p + k)" using keys by blast
      then have "in_journal g a" using le unfolding in_journal_def by (intro exI [of _ "p + k"]) simp
      with that(2) show False ..
    qed
    then show ?thesis unfolding G_def by (rule rd(3) [OF that(1)])
  qed
  fix i assume i: "i < jlen g"
  have m: "mapped g (jaddr g i)" using r(2) i by (simp add: journal_ok_def)
  have blk: "read_block G (jaddr g i) = Inr (jblock G i)"
    using jblock_read [OF ok, of i] r(2) i by (simp add: same_layoutD [OF lay] same_layout_journal [OF lay])
  show "if jaddr g i \<in> fst ` set vs
      then p \<le> i \<and> i < p + length t + 2 \<and> jblock G i = jimage crc g t ! (i - p)
      else jblock G i = jblock g i"
  proof (cases "jaddr g i \<in> fst ` set vs")
    case True
    then obtain k where k: "k < length t + 2" "(jaddr g i, jimage crc g t ! k) \<in> set vs"
      "jaddr g i = jaddr g (p + k)"
      using keys by fastforce
    then have "i = p + k" using i j le by simp
    moreover have "jblock G i = jimage crc g t ! k"
      using rd(2) [OF m k(2)] blk by (simp add: G_def)
    ultimately show ?thesis using True k(1) by simp
  next
    case False
    then have "jblock G i = jblock g i"
      using rd(3) [OF m False] blk jblock_read [OF r(1,2) i] by (simp add: G_def)
    with False show ?thesis by simp
  qed
qed

lemma place_inj:
  assumes "fs_ok g" and "mapped g a" and "mapped g a'" and "place g a = place g a'"
  shows "a = a'"
proof (rule ccontr)
  assume "a \<noteq> a'"
  from place_apart [OF assms(1-3) this] assms(4) g_bs_ge [OF assms(1)] show False
    by (auto simp: apart_def)
qed

lemma phys_same:
  assumes "ready g t" and "set vs \<subseteq> set (jwrites g (txn_at g (length t)) (jimage crc g t))"
    and "set (phys g (jwrites g (txn_at g (length t)) (jimage crc g t))) \<subseteq> set (phys g vs)"
  shows "set (jwrites g (txn_at g (length t)) (jimage crc g t)) \<subseteq> set vs"
proof
  note r = readyD [OF assms(1)]
  note W = jimage_writes_ok [OF r(1,2,4,7), of crc]
  fix w assume w: "w \<in> set (jwrites g (txn_at g (length t)) (jimage crc g t))"
  obtain a b where ab: "w = (a, b)" by (cases w)
  have "(place g a, b) \<in> set (phys g vs)" using w assms(3) by (force simp: ab phys_def)
  then obtain a' where a': "(a', b) \<in> set vs" "place g a' = place g a" by (auto simp: phys_def)
  have m: "mapped g a" "mapped g a'" using W w a'(1) assms(2) by (auto simp: ab)
  have "a' = a" by (rule place_inj [OF r(1) m(2,1) a'(2)])
  then show "w \<in> set vs" using a' by (simp add: ab)
qed

lemma crash_journal_complete:
  fixes crc :: crc_fun
  assumes "ready g t" and "set vs \<subseteq> set (jwrites g (txn_at g (length t)) (jimage crc g t))"
    and "set (jwrites g (txn_at g (length t)) (jimage crc g t)) \<subseteq> set vs"
  shows "half_applied crc t g (blk.wr_all vs g)"
proof -
  note r = readyD [OF assms(1)] and st = crash_journal_state [OF assms(1,2)]
  let ?G = "blk.wr_all vs g" and ?J = "jwrites g (txn_at g (length t)) (jimage crc g t)"
  have W: "\<forall>(a, b)\<in>set ?J. mapped g a \<and> length b = g_bs g"
    by (rule jimage_writes_ok [OF r(1,2,4,7)])
  have "distinct (map fst ?J)"
    by (rule distinct_jwrites) (use r(2,7) in \<open>simp_all add: journal_ok_def\<close>)
  note rd = read_subset_writes [OF r(1) W this assms(2)]
  have "read_block ?G a = read_block (journaled crc t g) a" if m: "mapped g a" for a
  proof (cases "map_of ?J a")
    case (Some b)
    then have "(a, b) \<in> set vs" using assms(3) by (auto dest: map_of_SomeD)
    then show ?thesis using rd(2) [OF m] read_journaled [OF r(1,2,4) m, of crc] Some by simp
  next
    case None
    then have "a \<notin> fst ` set vs" using assms(2) by (auto simp: map_of_eq_None_iff)
    then show ?thesis using rd(3) [OF m] read_journaled [OF r(1,2,4) m, of crc] None by simp
  qed
  then show ?thesis using st(1,2) by (simp add: half_applied_def)
qed

subsection \<open>The read-only scan ends\<close>

text \<open>
  \<open>journal_pending\<close> walks an arbitrary, possibly corrupt journal. Every transaction it finds
  starts at a descriptor with the expected number, so no journal block starts two of them and
  as many rounds as the journal has blocks are enough.
\<close>

definition desc_seq :: "gofs \<Rightarrow> nat \<Rightarrow> u64" where
  "desc_seq g i = (case journal_read g (of_nat i) of Inr b \<Rightarrow> get_u64 b 8 | Inl _ \<Rightarrow> 0)"

definition ahead :: "gofs \<Rightarrow> u64 \<Rightarrow> nat \<Rightarrow> nat set" where
  "ahead g seq m = {i. i < jlen g \<and> unat (desc_seq g i - seq) < m}"

lemma journal_read_not_diverges: "journal_read g i \<noteq> Inl Diverges"
  by (auto simp: journal_read_def journal_phys_def g_resolve_def dv_pread_def guardR_def
      split: if_splits option.splits)

lemma mapR_not_diverges: "(\<And>x. f x \<noteq> Inl e) \<Longrightarrow> mapR f xs \<noteq> Inl e"
proof (induction xs)
  case (Cons x xs)
  then show ?case by (cases "f x"; cases "mapR f xs") auto
qed simp

lemma try_read_not_diverges: "try_read_txn crc g pos seq \<noteq> Inl Diverges"
  unfolding try_read_txn_def Let_def
  by (intro if_neq tryR_neq journal_read_not_diverges mapR_not_diverges) simp_all

lemma try_read_found:
  assumes "try_read_txn crc g pos seq = Inr (Some t)"
  shows "unat pos < jlen g" and "desc_seq g (unat pos) = seq"
proof -
  obtain desc where d: "journal_read g pos = Inr desc" "jblock_ok crc JDESC_MAGIC seq desc"
    using assms by (auto simp: try_read_txn_def tryR_Inr_iff Let_def split: if_splits)
  then show "desc_seq g (unat pos) = seq" by (simp add: desc_seq_def jblock_ok_def)
  from d(1) have "\<not> sb_journal_length (g_sb g) \<le> pos"
    by (auto simp: journal_read_def journal_phys_def)
  then show "unat pos < jlen g" by (simp add: jlen_def word_le_nat_alt)
qed

lemma next_txn_found:
  assumes "next_txn crc g head seq = Inr (Some (pos, t))"
  shows "unat pos < jlen g" and "desc_seq g (unat pos) = seq"
proof -
  have "try_read_txn crc g pos seq = Inr (Some t)"
    using assms by (auto simp: next_txn_def tryR_Inr_iff split: option.splits if_splits)
  then show "unat pos < jlen g" "desc_seq g (unat pos) = seq" by (rule try_read_found)+
qed

lemma next_txn_not_diverges: "next_txn crc g head seq \<noteq> Inl Diverges"
  using try_read_not_diverges [of crc g head seq] try_read_not_diverges [of crc g 0 seq]
  by (cases "try_read_txn crc g head seq"; cases "try_read_txn crc g 0 seq")
    (auto simp: next_txn_def split: option.splits)

lemma finite_ahead [simp]: "finite (ahead g seq m)"
  by (simp add: ahead_def)

lemma ahead_step:
  assumes "i < jlen g" and "desc_seq g i = seq" and "0 < m" and "m \<le> 2 ^ 64"
  shows "card (ahead g (seq + 1) (m - 1)) < card (ahead g seq m)"
proof (rule psubset_card_mono)
  have step: "unat (x - seq) < m \<and> x \<noteq> seq" if "unat (x - (seq + 1)) < m - 1" for x :: u64
  proof (cases "x = seq")
    case True
    then have "unat (x - (seq + 1)) = 2 ^ 64 - 1"
      by (simp add: unsigned_minus_1_eq_mask mask_eq_exp_minus_1)
    with that assms(4) show ?thesis by simp
  next
    case False
    define d where "d = x - seq"
    have "d \<noteq> 0" using False by (simp add: d_def)
    then have "unat (d - 1) = unat d - 1" "0 < unat d"
      by (simp_all add: unat_minus_one unat_gt_0)
    moreover have "d - 1 = x - (seq + 1)" by (simp add: d_def)
    then have "unat (d - 1) < m - 1" using that by (simp only:)
    ultimately show ?thesis using False by (simp flip: d_def)
  qed
  show "ahead g (seq + 1) (m - 1) \<subset> ahead g seq m"
  proof
    show "ahead g (seq + 1) (m - 1) \<subseteq> ahead g seq m" using step by (auto simp: ahead_def)
    have "i \<in> ahead g seq m" using assms by (simp add: ahead_def)
    moreover have "i \<notin> ahead g (seq + 1) (m - 1)" using step [of "desc_seq g i"] assms(2) unfolding ahead_def by blast
    ultimately show "ahead g (seq + 1) (m - 1) \<noteq> ahead g seq m" by blast
  qed
qed simp

lemma pending_loop_ends:
  assumes "card (ahead g seq m) < fuel" and "fuel \<le> m" and "m \<le> 2 ^ 64"
  shows "pending_loop crc g fuel head seq n \<noteq> Inl Diverges"
  using assms
proof (induction fuel arbitrary: head seq n m)
  case 0
  then show ?case by simp
next
  case (Suc fuel)
  show ?case
  proof (cases "next_txn crc g head seq")
    case (Inl e)
    then show ?thesis using next_txn_not_diverges [of crc g head seq] by simp
  next
    case (Inr r)
    show ?thesis
    proof (cases r)
      case None
      with Inr show ?thesis by simp
    next
      case (Some x)
      obtain pos ts bs where x: "x = (pos, ts, bs)" by (cases x)
      note found = next_txn_found [of crc g head seq pos "(ts, bs)"]
      have "card (ahead g (seq + 1) (m - 1)) < card (ahead g seq m)"
        using found Inr Some x Suc.prems by (intro ahead_step [of "unat pos"]) simp_all
      then have "card (ahead g (seq + 1) (m - 1)) < fuel" "fuel \<le> m - 1" "m - 1 \<le> 2 ^ 64"
        using Suc.prems by simp_all
      then have "pending_loop crc g fuel h (seq + 1) k \<noteq> Inl Diverges" for h k
        by (rule Suc.IH)
      then show ?thesis using Inr Some x by simp
    qed
  qed
qed

lemma card_ahead: "card (ahead g seq m) \<le> jlen g"
proof -
  have "card (ahead g seq m) \<le> card {i. i < jlen g}"
    by (rule card_mono) (auto simp: ahead_def)
  then show ?thesis by simp
qed

end
