(* ===== verification/Alloc.thy ===== *)
theory Alloc
  imports Store
begin

text \<open>
  \<open>src/alloc.rs\<close>: the refinement-tree allocator. The states of the 256-block cells of an AG
  are in its root table, the states of the 16-block and single-block cells in 128-byte records
  of table blocks, each reached by a reference stored beside a REFINED state. A function that
  takes \<open>&mut AgHeader\<close> takes the header and returns it changed; the callers drop it when
  there is an error, as the code does. Cell numbers are naturals: they stay below \<open>2 ^ 24\<close>.
\<close>

unbundle bit_operations_syntax

definition ALLOC_MAGIC :: buffer where "ALLOC_MAGIC = [0x35, 0x46, 0x53, 0x41]"

abbreviation REC_SIZE :: nat where "REC_SIZE \<equiv> 128"

type_synonym tref = "u32 \<times> u16"

subsection \<open>Records\<close>

text \<open>
  The number of records of a table block, as a 16-bit value: \<open>(bs / REC_SIZE - 1) as u16\<close>.
\<close>

definition recs_per_block :: "u32 \<Rightarrow> u16" where
  "recs_per_block bs = of_nat (unat bs div REC_SIZE - 1)"

text \<open>The callers keep the child index below 16, except for inode slots, which they test.\<close>

definition rec_state :: "buffer \<Rightarrow> nat \<Rightarrow> u8" where
  "rec_state r i = cell_get r i"

definition rec_state_set :: "buffer \<Rightarrow> nat \<Rightarrow> u8 \<Rightarrow> buffer" where
  "rec_state_set r i st = cell_set r i st"

definition rec_ref :: "buffer \<Rightarrow> nat \<Rightarrow> tref" where
  "rec_ref r i = (let off = 4 + i * 6 in (get_u32 r off, get_u16 r (off + 4)))"

definition rec_ref_set :: "buffer \<Rightarrow> nat \<Rightarrow> tref \<Rightarrow> buffer" where
  "rec_ref_set r i x = (let off = 4 + i * 6 in put_u16 (put_u32 r off (fst x)) (off + 4) (snd x))"

definition rec_all :: "buffer \<Rightarrow> u8 \<Rightarrow> bool" where
  "rec_all r st \<longleftrightarrow> list_all (\<lambda>i. rec_state r i = st) [0..<ALLOC_FANOUT]"

definition rec_off :: "u16 \<Rightarrow> nat" where
  "rec_off idx = REC_SIZE * (1 + unat idx)"

text \<open>A run of cells of a record set to one state.\<close>

definition rec_fill :: "nat \<Rightarrow> nat \<Rightarrow> u8 \<Rightarrow> buffer \<Rightarrow> buffer" where
  "rec_fill lo hi st r = fold (\<lambda>i r. rec_state_set r i st) [lo..<hi] r"

fun find_run_from :: "buffer \<Rightarrow> nat \<Rightarrow> nat list \<Rightarrow> nat \<Rightarrow> nat option" where
  "find_run_from r m [] run = None"
| "find_run_from r m (i # is) run =
     (if rec_state r i = CELL_FREE
      then if run + 1 = m then Some (i + 1 - m) else find_run_from r m is (run + 1)
      else find_run_from r m is 0)"

definition find_run :: "buffer \<Rightarrow> nat \<Rightarrow> nat option" where
  "find_run r m = find_run_from r m [0..<ALLOC_FANOUT] 0"

definition wrap_range :: "nat \<Rightarrow> nat \<Rightarrow> nat list" where
  "wrap_range start len =
     (let start = (if len = 0 then 0 else start mod len) in [start..<len] @ [0..<start])"

subsection \<open>Root table access\<close>

definition rt_cells :: "gofs \<Rightarrow> ag_header \<Rightarrow> nat" where
  "rt_cells g hdr = fst (rt_geometry (ah_length hdr) (sb_blocksize (g_sb g)))"

definition rt_byte :: "gofs \<Rightarrow> txn \<Rightarrow> ag_header \<Rightarrow> nat \<Rightarrow> (u64 \<times> nat \<times> buffer) result" where
  "rt_byte g t hdr byte_off =
     (let blk = blk_addr (ah_num hdr) (ah_alloc_root hdr + of_nat (byte_off div g_bs g))
      in tryR (txn_read g t blk) (\<lambda>buf. Inr (blk, byte_off mod g_bs g, buf)))"

definition rt_state :: "gofs \<Rightarrow> txn \<Rightarrow> ag_header \<Rightarrow> nat \<Rightarrow> u8 result" where
  "rt_state g t hdr c =
     tryR (rt_byte g t hdr (c div 4)) (\<lambda>(_, off, buf).
       Inr (drop_bit ((c mod 4) * 2) (buf ! off) AND 3))"

definition rt_state_set :: "ag_header \<Rightarrow> nat \<Rightarrow> u8 \<Rightarrow> unit fsop" where
  "rt_state_set hdr c st =
     bindS (askF (\<lambda>g t. rt_byte g t hdr (c div 4))) (\<lambda>(blk, off, buf).
     let sh = (c mod 4) * 2
     in writeF blk (buf[off := (buf ! off AND NOT (push_bit sh 3)) OR push_bit sh (st AND 3)]))"

text \<open>The reference is read from one block; a slice past the block's end panics.\<close>

definition rt_ref :: "gofs \<Rightarrow> txn \<Rightarrow> ag_header \<Rightarrow> nat \<Rightarrow> tref result" where
  "rt_ref g t hdr c =
     tryR (rt_byte g t hdr (rt_ref_off (rt_cells g hdr) c)) (\<lambda>(_, off, buf).
       guardR (off + 6 \<le> length buf) Panic (Inr (get_u32 buf off, get_u16 buf (off + 4))))"

definition rt_ref_set :: "ag_header \<Rightarrow> nat \<Rightarrow> tref \<Rightarrow> unit fsop" where
  "rt_ref_set hdr c r =
     bindS (askF (\<lambda>g t. Inr (rt_cells g hdr))) (\<lambda>cells.
     let six = to_be 4 (fst r) @ to_be 2 (snd r)
     in forS (\<lambda>(i, byte).
          bindS (askF (\<lambda>g t. rt_byte g t hdr (rt_ref_off cells c + i))) (\<lambda>(blk, off, buf).
          writeF blk (buf[off := byte]))) (enumerate 0 six))"

subsection \<open>Table blocks\<close>

definition tbl_read :: "crc_fun \<Rightarrow> gofs \<Rightarrow> txn \<Rightarrow> u32 \<Rightarrow> u32 \<Rightarrow> buffer result" where
  "tbl_read crc g t ag local =
     tryR (txn_read g t (blk_addr ag local)) (\<lambda>buf.
       if get_bytes buf 0 4 \<noteq> ALLOC_MAGIC then Inl (Msg ''AG {ag} block {local}: not a table block'')
       else if get_u32 buf 4 \<noteq> csum crc buf 4
       then Inl (Msg ''AG {ag} block {local}: table block checksum mismatch'')
       else Inr buf)"

definition tbl_seal :: "crc_fun \<Rightarrow> buffer \<Rightarrow> buffer" where
  "tbl_seal crc buf = seal crc (put_u64 buf 8 (get_u64 buf 8 + 1))"

definition tbl_write :: "crc_fun \<Rightarrow> u32 \<Rightarrow> u32 \<Rightarrow> buffer \<Rightarrow> unit fsop" where
  "tbl_write crc ag local buf = writeF (blk_addr ag local) (tbl_seal crc buf)"

definition rec_read :: "crc_fun \<Rightarrow> gofs \<Rightarrow> txn \<Rightarrow> u32 \<Rightarrow> tref \<Rightarrow> buffer result" where
  "rec_read crc g t ag r =
     tryR (tbl_read crc g t ag (fst r)) (\<lambda>buf.
       guardR (rec_off (snd r) + REC_SIZE \<le> length buf) Panic
         (Inr (get_bytes buf (rec_off (snd r)) REC_SIZE)))"

definition rec_write :: "crc_fun \<Rightarrow> u32 \<Rightarrow> tref \<Rightarrow> buffer \<Rightarrow> unit fsop" where
  "rec_write crc ag r rc =
     bindS (askF (\<lambda>g t. tbl_read crc g t ag (fst r))) (\<lambda>buf.
     bindS (ensureS (rec_off (snd r) + REC_SIZE \<le> length buf) Panic) (\<lambda>_.
     tbl_write crc ag (fst r) (put_bytes buf (rec_off (snd r)) rc)))"

definition hint_of :: "gofs \<Rightarrow> u32 \<Rightarrow> u32 \<times> u64" where
  "hint_of g ag = (case g_hints g ag of None \<Rightarrow> (0, 0) | Some h \<Rightarrow> h)"

definition set_arena_hint :: "u32 \<Rightarrow> u32 \<Rightarrow> unit fsop" where
  "set_arena_hint ag b =
     modS (\<lambda>(g, t). (g\<lparr>g_hints := (g_hints g)(ag := Some (b, snd (hint_of g ag)))\<rparr>, t))"

definition set_cell_hint :: "u32 \<Rightarrow> nat \<Rightarrow> unit fsop" where
  "set_cell_hint ag c =
     modS (\<lambda>(g, t). (g\<lparr>g_hints := (g_hints g)(ag := Some (fst (hint_of g ag), of_nat c))\<rparr>, t))"

text \<open>An empty table block: the magic and \<open>used\<close>.\<close>

definition fresh_table :: "nat \<Rightarrow> buffer" where
  "fresh_table bs = put_bytes (replicate bs 0) 0 ALLOC_MAGIC"

text \<open>\<open>1 << i\<close> on a u32: the shift distance wraps at 32.\<close>

definition used_bit :: "u16 \<Rightarrow> u32" where
  "used_bit i = push_bit (unat i mod 32) 1"

definition count_ones :: "u32 \<Rightarrow> nat" where
  "count_ones w = length (filter (bit w) [0..<32])"

text \<open>The arena block where a new record goes: its number, contents and a free record index.\<close>

definition arena_probe ::
  "crc_fun \<Rightarrow> gofs \<Rightarrow> txn \<Rightarrow> ag_header \<Rightarrow> u32 \<Rightarrow> (u32 \<times> buffer \<times> u16) option result" where
  "arena_probe crc g t hdr b =
     (let nrec = recs_per_block (sb_blocksize (g_sb g))
      in tryR (txn_read g t (blk_addr (ah_num hdr) b)) (\<lambda>raw.
         tryR (if get_bytes raw 0 4 = ALLOC_MAGIC then tbl_read crc g t (ah_num hdr) b
               else Inr (fresh_table (g_bs g))) (\<lambda>buf.
         let used = get_u32 buf 16 in
         if nrec \<le> of_nat (count_ones used) then Inr None
         else
           case find (\<lambda>i. used AND used_bit (of_nat i) = 0) [0..<unat nrec] of
             None \<Rightarrow> Inl Panic
           | Some i \<Rightarrow> Inr (Some (b, buf, of_nat i)))))"

definition arena_start :: "gofs \<Rightarrow> ag_header \<Rightarrow> u32" where
  "arena_start g hdr =
     (case g_hints g (ah_num hdr) of
        None \<Rightarrow> ah_tbl_arena hdr
      | Some (h, _) \<Rightarrow>
          if ah_tbl_arena hdr \<le> h \<and> h < ah_tbl_arena hdr + 256 then h else ah_tbl_arena hdr)"

definition first_free_cell :: "gofs \<Rightarrow> txn \<Rightarrow> ag_header \<Rightarrow> nat option" where
  "first_free_cell g t hdr = find (\<lambda>c. rt_state g t hdr c = Inr CELL_FREE) [0..<rt_cells g hdr]"

definition first_free_or :: "error \<Rightarrow> gofs \<Rightarrow> txn \<Rightarrow> ag_header \<Rightarrow> nat result" where
  "first_free_or e g t hdr = (case first_free_cell g t hdr of None \<Rightarrow> Inl e | Some c \<Rightarrow> Inr c)"

text \<open>Claim a FREE cell as a new arena.\<close>

definition new_arena :: "crc_fun \<Rightarrow> ag_header \<Rightarrow> (tref \<times> ag_header) fsop" where
  "new_arena crc hdr =
     bindS (askF (\<lambda>g t. first_free_or (Msg ''AG {}: no free cell for table arena'') g t hdr)) (\<lambda>c.
     bindS (rt_state_set hdr c CELL_RSVD) (\<lambda>_.
     let arena = of_nat (c * CELL_BLOCKS) :: u32;
         hdr = hdr\<lparr>ah_tbl_arena := arena, ah_free_blocks := ah_free_blocks hdr - 256,
           ah_rsvd_blocks := ah_rsvd_blocks hdr + 256\<rparr>
     in bindS (set_arena_hint (ah_num hdr) arena) (\<lambda>_.
        bindS (modS (\<lambda>(g, t). (g\<lparr>g_sb := (g_sb g)\<lparr>sb_free_blocks := sb_free_blocks (g_sb g) - 256,
          sb_rsvd_blocks := sb_rsvd_blocks (g_sb g) + 256\<rparr>\<rparr>, t))) (\<lambda>_.
        bindS (askF (\<lambda>g t. Inr (put_u32 (fresh_table (g_bs g)) 16 1))) (\<lambda>buf.
        bindS (tbl_write crc (ah_num hdr) arena buf) (\<lambda>_.
        retS ((arena, 0), hdr)))))))"

definition tbl_alloc_rec :: "crc_fun \<Rightarrow> ag_header \<Rightarrow> (tref \<times> ag_header) fsop" where
  "tbl_alloc_rec crc hdr =
     bindS (askF (\<lambda>g t.
       if ah_tbl_arena hdr = 0 then Inr None
       else first_some (\<lambda>k. arena_probe crc g t hdr (ah_tbl_arena hdr + of_nat k))
              (wrap_range (unat (arena_start g hdr - ah_tbl_arena hdr)) CELL_BLOCKS))) (\<lambda>found.
     case found of
       Some (b, buf, idx) \<Rightarrow>
         let buf = put_u32 buf 16 (get_u32 buf 16 OR used_bit idx);
             buf = put_bytes buf (rec_off idx) (replicate REC_SIZE 0)
         in bindS (tbl_write crc (ah_num hdr) b buf) (\<lambda>_.
            bindS (set_arena_hint (ah_num hdr) b) (\<lambda>_. retS ((b, idx), hdr)))
     | None \<Rightarrow> new_arena crc hdr)"

definition tbl_free_rec :: "crc_fun \<Rightarrow> u32 \<Rightarrow> tref \<Rightarrow> unit fsop" where
  "tbl_free_rec crc ag r =
     bindS (askF (\<lambda>g t. tbl_read crc g t ag (fst r))) (\<lambda>buf.
     let buf = put_u32 buf 16 (get_u32 buf 16 AND NOT (used_bit (snd r)))
     in bindS (ensureS (rec_off (snd r) + REC_SIZE \<le> length buf) Panic) (\<lambda>_.
        tbl_write crc ag (fst r) (put_bytes buf (rec_off (snd r)) (replicate REC_SIZE 0))))"

definition put_ag_header :: "crc_fun \<Rightarrow> ag_header \<Rightarrow> unit fsop" where
  "put_ag_header crc hdr =
     bindS (askF (\<lambda>g t. Inr (replicate (g_bs g) 0))) (\<lambda>buf.
     let hdr = hdr\<lparr>ah_gen := ah_gen hdr + 1\<rparr>
     in writeF (blk_addr (ah_num hdr) (ag_header_block (ah_num hdr))) (put_bytes buf 0 (ah_to_bytes crc hdr)))"

definition read_ag_header_txn :: "crc_fun \<Rightarrow> gofs \<Rightarrow> txn \<Rightarrow> u32 \<Rightarrow> ag_header result" where
  "read_ag_header_txn crc g t ag =
     tryR (txn_read g t (blk_addr ag (ag_header_block ag))) (\<lambda>buf.
       prefixR ''AG {ag}: '' (ah_parse crc buf))"

subsection \<open>Refinement\<close>

definition refine_l0 :: "crc_fun \<Rightarrow> ag_header \<Rightarrow> nat \<Rightarrow> (tref \<times> ag_header) fsop" where
  "refine_l0 crc hdr c =
     bindS (rt_state_set hdr c CELL_REFINED) (\<lambda>_.
     bindS (tbl_alloc_rec crc hdr) (\<lambda>(r, hdr).
     bindS (rt_ref_set hdr c r) (\<lambda>_. retS (r, hdr))))"

definition refine_l1 :: "crc_fun \<Rightarrow> ag_header \<Rightarrow> tref \<Rightarrow> nat \<Rightarrow> (tref \<times> ag_header) fsop" where
  "refine_l1 crc hdr l0 i =
     bindS (tbl_alloc_rec crc hdr) (\<lambda>(r, hdr).
     bindS (askF (\<lambda>g t. rec_read crc g t (ah_num hdr) l0)) (\<lambda>rc.
     bindS (rec_write crc (ah_num hdr) l0 (rec_ref_set (rec_state_set rc i CELL_REFINED) i r)) (\<lambda>_.
     retS (r, hdr))))"

subsection \<open>Allocation\<close>

definition account_alloc :: "ag_header \<Rightarrow> u32 \<Rightarrow> ag_header fsop" where
  "account_alloc hdr blocks =
     bindS (modS (\<lambda>(g, t). (g\<lparr>g_sb := (g_sb g)\<lparr>sb_free_blocks := sb_free_blocks (g_sb g) - ucast blocks,
       sb_full_blocks := sb_full_blocks (g_sb g) + ucast blocks\<rparr>\<rparr>, t))) (\<lambda>_.
     retS (hdr\<lparr>ah_free_blocks := ah_free_blocks hdr - blocks, ah_full_blocks := ah_full_blocks hdr + blocks\<rparr>))"

definition account_free :: "ag_header \<Rightarrow> u32 \<Rightarrow> ag_header fsop" where
  "account_free hdr blocks =
     bindS (modS (\<lambda>(g, t). (g\<lparr>g_sb := (g_sb g)\<lparr>sb_free_blocks := sb_free_blocks (g_sb g) + ucast blocks,
       sb_full_blocks := sb_full_blocks (g_sb g) - ucast blocks\<rparr>\<rparr>, t))) (\<lambda>_.
     retS (hdr\<lparr>ah_free_blocks := ah_free_blocks hdr + blocks, ah_full_blocks := ah_full_blocks hdr - blocks\<rparr>))"

text \<open>The first \<open>k\<close> consecutive FREE cells, scanning upwards; an unreadable state is an error.\<close>

fun l0_scan :: "(nat \<Rightarrow> u8 result) \<Rightarrow> nat \<Rightarrow> nat list \<Rightarrow> nat \<Rightarrow> nat \<Rightarrow> nat option result" where
  "l0_scan st k [] run start = Inr None"
| "l0_scan st k (c # cs) run start =
     tryR (st c) (\<lambda>s.
       if s = CELL_FREE then
         let start = (if run = 0 then c else start)
         in if run + 1 = k then Inr (Some start) else l0_scan st k cs (run + 1) start
       else l0_scan st k cs 0 start)"

definition alloc_l0 :: "ag_header \<Rightarrow> nat \<Rightarrow> (u64 \<times> ag_header) fsop" where
  "alloc_l0 hdr k =
     bindS (askF (\<lambda>g t. l0_scan (rt_state g t hdr) k [0..<rt_cells g hdr] 0 0)) (\<lambda>found.
     case found of
       None \<Rightarrow> failS (Msg ''AG {}: no room for {k} cells'')
     | Some start \<Rightarrow>
         bindS (forS (\<lambda>cc. rt_state_set hdr cc CELL_FULL) [start..<start + k]) (\<lambda>_.
         bindS (account_alloc hdr (of_nat (k * CELL_BLOCKS))) (\<lambda>hdr.
         retS (blk_addr (ah_num hdr) (of_nat (start * CELL_BLOCKS)), hdr))))"

definition cell_hint :: "gofs \<Rightarrow> ag_header \<Rightarrow> nat" where
  "cell_hint g hdr = unat (snd (hint_of g (ah_num hdr)))"

text \<open>A refined cell with \<open>m\<close> consecutive FREE children: its record and the first of them.\<close>

definition l1_probe ::
  "crc_fun \<Rightarrow> gofs \<Rightarrow> txn \<Rightarrow> ag_header \<Rightarrow> nat \<Rightarrow> nat \<Rightarrow> (nat \<times> tref \<times> buffer \<times> nat) option result" where
  "l1_probe crc g t hdr m c =
     tryR (rt_state g t hdr c) (\<lambda>s.
     if s \<noteq> CELL_REFINED then Inr None
     else
       tryR (rt_ref g t hdr c) (\<lambda>r.
       tryR (rec_read crc g t (ah_num hdr) r) (\<lambda>rc.
       Inr (map_option (\<lambda>start. (c, r, rc, start)) (find_run rc m)))))"

definition alloc_l1 :: "crc_fun \<Rightarrow> ag_header \<Rightarrow> nat \<Rightarrow> (u64 \<times> ag_header) fsop" where
  "alloc_l1 crc hdr m =
     bindS (askF (\<lambda>g t. first_some (l1_probe crc g t hdr m) (wrap_range (cell_hint g hdr) (rt_cells g hdr)))) (\<lambda>found.
     case found of
       Some (c, r, rc, start) \<Rightarrow>
         bindS (rec_write crc (ah_num hdr) r (rec_fill start (start + m) CELL_FULL rc)) (\<lambda>_.
         bindS (account_alloc hdr (of_nat (m * ALLOC_FANOUT))) (\<lambda>hdr.
         bindS (set_cell_hint (ah_num hdr) c) (\<lambda>_.
         retS (blk_addr (ah_num hdr) (of_nat (c * CELL_BLOCKS + start * ALLOC_FANOUT)), hdr))))
     | None \<Rightarrow>
         bindS (askF (\<lambda>g t. first_free_or (Msg ''AG {}: out of space'') g t hdr)) (\<lambda>c.
         bindS (refine_l0 crc hdr c) (\<lambda>(r, hdr).
         bindS (askF (\<lambda>g t. rec_read crc g t (ah_num hdr) r)) (\<lambda>rc.
         bindS (rec_write crc (ah_num hdr) r (rec_fill 0 m CELL_FULL rc)) (\<lambda>_.
         bindS (account_alloc hdr (of_nat (m * ALLOC_FANOUT))) (\<lambda>hdr.
         retS (blk_addr (ah_num hdr) (of_nat (c * CELL_BLOCKS)), hdr)))))))"

text \<open>Pass 1: an existing single-block record with \<open>n\<close> consecutive FREE blocks.\<close>

definition l2_probe ::
  "crc_fun \<Rightarrow> gofs \<Rightarrow> txn \<Rightarrow> ag_header \<Rightarrow> nat \<Rightarrow> nat \<Rightarrow> (nat \<times> nat \<times> tref \<times> buffer \<times> nat) option result" where
  "l2_probe crc g t hdr n c =
     tryR (rt_state g t hdr c) (\<lambda>s.
     if s \<noteq> CELL_REFINED then Inr None
     else
       tryR (rt_ref g t hdr c) (\<lambda>l0.
       tryR (rec_read crc g t (ah_num hdr) l0) (\<lambda>l0rec.
       first_some (\<lambda>i.
         if rec_state l0rec i \<noteq> CELL_REFINED then Inr None
         else
           tryR (rec_read crc g t (ah_num hdr) (rec_ref l0rec i)) (\<lambda>l1rec.
           Inr (map_option (\<lambda>start. (c, i, rec_ref l0rec i, l1rec, start)) (find_run l1rec n))))
         [0..<ALLOC_FANOUT])))"

text \<open>Pass 2: a FREE child inside a refined cell.\<close>

definition l1_free_probe ::
  "crc_fun \<Rightarrow> gofs \<Rightarrow> txn \<Rightarrow> ag_header \<Rightarrow> nat \<Rightarrow> (nat \<times> tref \<times> nat) option result" where
  "l1_free_probe crc g t hdr c =
     tryR (rt_state g t hdr c) (\<lambda>s.
     if s \<noteq> CELL_REFINED then Inr None
     else
       tryR (rt_ref g t hdr c) (\<lambda>l0.
       tryR (rec_read crc g t (ah_num hdr) l0) (\<lambda>l0rec.
       Inr (map_option (\<lambda>i. (c, l0, i)) (find (\<lambda>i. rec_state l0rec i = CELL_FREE) [0..<ALLOC_FANOUT])))))"

text \<open>The last steps of passes 2 and 3: refine a FREE child and take its first \<open>n\<close> blocks.\<close>

definition take_fresh_l1 :: "crc_fun \<Rightarrow> ag_header \<Rightarrow> tref \<Rightarrow> nat \<Rightarrow> nat \<Rightarrow> ag_header fsop" where
  "take_fresh_l1 crc hdr l0 i n =
     bindS (refine_l1 crc hdr l0 i) (\<lambda>(l1, hdr).
     bindS (askF (\<lambda>g t. rec_read crc g t (ah_num hdr) l1)) (\<lambda>l1rec.
     bindS (rec_write crc (ah_num hdr) l1 (rec_fill 0 n CELL_FULL l1rec)) (\<lambda>_.
     account_alloc hdr (of_nat n))))"

definition alloc_l2 :: "crc_fun \<Rightarrow> ag_header \<Rightarrow> nat \<Rightarrow> (u64 \<times> ag_header) fsop" where
  "alloc_l2 crc hdr n =
     bindS (askF (\<lambda>g t. Inr (wrap_range (cell_hint g hdr) (rt_cells g hdr)))) (\<lambda>order.
     bindS (askF (\<lambda>g t. first_some (l2_probe crc g t hdr n) order)) (\<lambda>found.
     case found of
       Some (c, i, l1, l1rec, start) \<Rightarrow>
         bindS (rec_write crc (ah_num hdr) l1 (rec_fill start (start + n) CELL_FULL l1rec)) (\<lambda>_.
         bindS (account_alloc hdr (of_nat n)) (\<lambda>hdr.
         bindS (set_cell_hint (ah_num hdr) c) (\<lambda>_.
         retS (blk_addr (ah_num hdr) (of_nat (c * CELL_BLOCKS + i * ALLOC_FANOUT + start)), hdr))))
     | None \<Rightarrow>
         bindS (askF (\<lambda>g t. first_some (l1_free_probe crc g t hdr) order)) (\<lambda>found.
         case found of
           Some (c, l0, i) \<Rightarrow>
             bindS (take_fresh_l1 crc hdr l0 i n) (\<lambda>hdr.
             bindS (set_cell_hint (ah_num hdr) c) (\<lambda>_.
             retS (blk_addr (ah_num hdr) (of_nat (c * CELL_BLOCKS + i * ALLOC_FANOUT)), hdr)))
         | None \<Rightarrow>
             bindS (askF (\<lambda>g t. first_free_or (Msg ''AG {}: out of space'') g t hdr)) (\<lambda>c.
             bindS (refine_l0 crc hdr c) (\<lambda>(l0, hdr).
             bindS (take_fresh_l1 crc hdr l0 0 n) (\<lambda>hdr.
             retS (blk_addr (ah_num hdr) (of_nat (c * CELL_BLOCKS)), hdr)))))))"

definition alloc_extent :: "crc_fun \<Rightarrow> u32 \<Rightarrow> nat \<Rightarrow> u64 fsop" where
  "alloc_extent crc ag n =
     bindS (askF (\<lambda>g t. read_ag_header_txn crc g t ag)) (\<lambda>hdr.
     bindS (if CELL_BLOCKS \<le> n then alloc_l0 hdr (div_ceil n CELL_BLOCKS)
            else if ALLOC_FANOUT < n then alloc_l1 crc hdr (div_ceil n ALLOC_FANOUT)
            else alloc_l2 crc hdr n) (\<lambda>(blk, hdr).
     bindS (put_ag_header crc hdr) (\<lambda>_. retS blk)))"

definition alloc_block :: "crc_fun \<Rightarrow> u32 \<Rightarrow> u64 fsop" where
  "alloc_block crc ag = alloc_extent crc ag 1"

subsection \<open>Free and coarsen\<close>

text \<open>Inside a refined cell: free a 16-block cell or one block; the number of blocks freed.\<close>

definition free_child_cell ::
  "crc_fun \<Rightarrow> u32 \<Rightarrow> ag_header \<Rightarrow> tref \<Rightarrow> nat \<Rightarrow> (ag_header \<times> nat) fsop" where
  "free_child_cell crc ag hdr l0 l =
     (let i = l mod CELL_BLOCKS div ALLOC_FANOUT
      in bindS (askF (\<lambda>g t. rec_read crc g t ag l0)) (\<lambda>l0rec.
         if rec_state l0rec i = CELL_FULL then
           bindS (ensureS (l mod ALLOC_FANOUT = 0) (Msg ''free_extent: misaligned free inside FULL L1 cell'')) (\<lambda>_.
           bindS (rec_write crc ag l0 (rec_state_set l0rec i CELL_FREE)) (\<lambda>_.
           bindS (account_free hdr 16) (\<lambda>hdr. retS (hdr, ALLOC_FANOUT))))
         else if rec_state l0rec i = CELL_REFINED then
           let l1 = rec_ref l0rec i; j = l mod ALLOC_FANOUT
           in bindS (askF (\<lambda>g t. rec_read crc g t ag l1)) (\<lambda>l1rec.
              bindS (ensureS (rec_state l1rec j = CELL_FULL)
                (Msg ''free_extent: block {local} in AG {ag} not allocated'')) (\<lambda>_.
              let l1rec = rec_state_set l1rec j CELL_FREE
              in bindS (account_free hdr 1) (\<lambda>hdr.
                 bindS (if rec_all l1rec CELL_FREE then
                          bindS (tbl_free_rec crc ag l1) (\<lambda>_.
                          rec_write crc ag l0 (rec_ref_set (rec_state_set l0rec i CELL_FREE) i (0, 0)))
                        else rec_write crc ag l1 l1rec) (\<lambda>_.
                 retS (hdr, 1)))))
         else failS (Msg ''free_extent: L1 cell in state {s}'')))"

text \<open>One round of the loop: the header and the number of blocks freed.\<close>

definition free_step :: "crc_fun \<Rightarrow> u32 \<Rightarrow> ag_header \<Rightarrow> u32 \<Rightarrow> (ag_header \<times> nat) fsop" where
  "free_step crc ag hdr local =
     (let l = unat local; c = l div CELL_BLOCKS
      in bindS (askF (\<lambda>g t. rt_state g t hdr c)) (\<lambda>s.
         if s = CELL_FULL then
           bindS (ensureS (l mod CELL_BLOCKS = 0) (Msg ''free_extent: misaligned free inside FULL cell'')) (\<lambda>_.
           bindS (rt_state_set hdr c CELL_FREE) (\<lambda>_.
           bindS (account_free hdr 256) (\<lambda>hdr. retS (hdr, CELL_BLOCKS))))
         else if s = CELL_REFINED then
           bindS (askF (\<lambda>g t. rt_ref g t hdr c)) (\<lambda>l0.
           bindS (free_child_cell crc ag hdr l0 l) (\<lambda>(hdr, k).
           bindS (askF (\<lambda>g t. rec_read crc g t ag l0)) (\<lambda>l0rec.
           bindS (if rec_all l0rec CELL_FREE then
                    bindS (tbl_free_rec crc ag l0) (\<lambda>_.
                    bindS (rt_state_set hdr c CELL_FREE) (\<lambda>_.
                    rt_ref_set hdr c (0, 0)))
                  else retS ()) (\<lambda>_.
           retS (hdr, k)))))
         else failS (Msg ''free_extent: AG {ag} cell {c} in state {s}'')))"

text \<open>Every round frees at least one block, so \<open>n\<close> rounds are enough.\<close>

fun free_loop :: "crc_fun \<Rightarrow> u32 \<Rightarrow> nat \<Rightarrow> ag_header \<Rightarrow> u32 \<Rightarrow> nat \<Rightarrow> nat \<Rightarrow> ag_header fsop" where
  "free_loop crc ag 0 hdr local0 cur n = (if cur < n then failS Diverges else retS hdr)"
| "free_loop crc ag (Suc fuel) hdr local0 cur n =
     (if cur < n then
        bindS (free_step crc ag hdr (local0 + of_nat cur)) (\<lambda>(hdr, k).
        free_loop crc ag fuel hdr local0 (cur + k) n)
      else retS hdr)"

definition free_extent :: "crc_fun \<Rightarrow> u64 \<Rightarrow> nat \<Rightarrow> unit fsop" where
  "free_extent crc blk n =
     (let (ag, local0) = blk_split blk
      in bindS (askF (\<lambda>g t. read_ag_header_txn crc g t ag)) (\<lambda>hdr.
         bindS (free_loop crc ag n hdr local0 0 n) (\<lambda>hdr.
         put_ag_header crc hdr)))"

definition granule_at :: "crc_fun \<Rightarrow> gofs \<Rightarrow> txn \<Rightarrow> u64 \<Rightarrow> nat result" where
  "granule_at crc g t blk =
     (let (ag, local) = blk_split blk; l = unat local; c = l div CELL_BLOCKS
      in tryR (read_ag_header_txn crc g t ag) (\<lambda>hdr.
         tryR (rt_state g t hdr c) (\<lambda>s.
         if s = CELL_FULL then Inr CELL_BLOCKS
         else if s = CELL_REFINED then
           tryR (rt_ref g t hdr c) (\<lambda>l0.
           tryR (rec_read crc g t ag l0) (\<lambda>l0rec.
           let s1 = rec_state l0rec (l mod CELL_BLOCKS div ALLOC_FANOUT)
           in if s1 = CELL_FULL then Inr ALLOC_FANOUT
              else if s1 = CELL_REFINED then Inr 1
              else Inl (Msg ''granule_at: block {blk:#x} in L1 state {s}'')))
         else Inl (Msg ''granule_at: block {blk:#x} in cell state {s}''))))"

subsection \<open>Inode slots\<close>

text \<open>
  The record of the 16-block cell a local block lies in, with the record of its 256-block cell
  and the block's index; none unless both cells are REFINED.
\<close>

definition slot_l1_of ::
  "crc_fun \<Rightarrow> gofs \<Rightarrow> txn \<Rightarrow> ag_header \<Rightarrow> u32 \<Rightarrow> (tref \<times> tref \<times> nat) option result" where
  "slot_l1_of crc g t hdr local =
     (let l = unat local; c = l div CELL_BLOCKS
      in tryR (rt_state g t hdr c) (\<lambda>s.
         if s \<noteq> CELL_REFINED then Inr None
         else
           tryR (rt_ref g t hdr c) (\<lambda>l0.
           tryR (rec_read crc g t (ah_num hdr) l0) (\<lambda>l0rec.
           let i = l mod CELL_BLOCKS div ALLOC_FANOUT
           in if rec_state l0rec i \<noteq> CELL_REFINED then Inr None
              else Inr (Some (l0, rec_ref l0rec i, l mod ALLOC_FANOUT))))))"

definition slot_rec_at ::
  "crc_fun \<Rightarrow> gofs \<Rightarrow> txn \<Rightarrow> ag_header \<Rightarrow> u32 \<Rightarrow> (tref \<times> tref \<times> nat) option result" where
  "slot_rec_at crc g t hdr local =
     tryR (slot_l1_of crc g t hdr local) (\<lambda>r.
     case r of
       None \<Rightarrow> Inr None
     | Some (l0, l1, j) \<Rightarrow>
         tryR (rec_read crc g t (ah_num hdr) l1) (\<lambda>l1rec.
         if rec_state l1rec j \<noteq> CELL_REFINED then Inr None
         else Inr (Some (rec_ref l1rec j, l1, j))))"

text \<open>
  A slot record has 16 states, a block may have more slots: looking at a slot past the 16th
  indexes past the four state bytes and panics.
\<close>

definition slots_per_block :: "superblock \<Rightarrow> u32 result" where
  "slots_per_block sb =
     guardR (sb_inodesize sb \<noteq> 0) Panic (Inr (sb_blocksize sb div ucast (sb_inodesize sb)))"

definition find_free_slot :: "buffer \<Rightarrow> u32 \<Rightarrow> nat option result" where
  "find_free_slot r slots =
     (case find (\<lambda>s. rec_state r s = CELL_FREE) [0..<min (unat slots) 16] of
        Some s \<Rightarrow> Inr (Some s)
      | None \<Rightarrow> if 16 < unat slots then Inl Panic else Inr None)"

definition alloc_slot_block :: "crc_fun \<Rightarrow> u32 \<Rightarrow> u32 \<Rightarrow> u64 fsop" where
  "alloc_slot_block crc ag slots =
     bindS (alloc_extent crc ag 1) (\<lambda>blk.
     let local = snd (blk_split blk)
     in bindS (askF (\<lambda>g t. Inr (replicate (g_bs g) 0))) (\<lambda>zeros.
        bindS (writeF blk zeros) (\<lambda>_.
        bindS (askF (\<lambda>g t. read_ag_header_txn crc g t ag)) (\<lambda>hdr.
        bindS (tbl_alloc_rec crc hdr) (\<lambda>(l3, hdr).
        bindS (askF (\<lambda>g t. slot_l1_of crc g t hdr local)) (\<lambda>r.
        case r of
          None \<Rightarrow> failS (Msg ''AG {ag}: freshly allocated block has no L1 record'')
        | Some (_, l1, j) \<Rightarrow>
            bindS (askF (\<lambda>g t. rec_read crc g t ag l1)) (\<lambda>l1rec.
            bindS (rec_write crc ag l1 (rec_ref_set (rec_state_set l1rec j CELL_REFINED) j l3)) (\<lambda>_.
            bindS (rec_write crc ag l3 (rec_state_set (replicate REC_SIZE 0) 0 CELL_FULL)) (\<lambda>_.
            bindS (put_ag_header crc (hdr\<lparr>ah_ino_hint := local\<rparr>)) (\<lambda>_.
            retS (ino_addr ag (local * slots))))))))))))"

text \<open>A free slot in the hinted slot block, if there is one.\<close>

definition hinted_slot ::
  "crc_fun \<Rightarrow> gofs \<Rightarrow> txn \<Rightarrow> u32 \<Rightarrow> ag_header \<Rightarrow> u32 \<Rightarrow> (tref \<times> buffer \<times> nat) option result" where
  "hinted_slot crc g t ag hdr slots =
     (if ah_ino_hint hdr = 0 then Inr None
      else
        tryR (slot_rec_at crc g t hdr (ah_ino_hint hdr)) (\<lambda>r.
        case r of
          None \<Rightarrow> Inr None
        | Some (l3, _, _) \<Rightarrow>
            tryR (rec_read crc g t ag l3) (\<lambda>l3rec.
            tryR (find_free_slot l3rec slots) (\<lambda>s. Inr (map_option (\<lambda>s. (l3, l3rec, s)) s)))))"

definition alloc_inode :: "crc_fun \<Rightarrow> u32 \<Rightarrow> u64 fsop" where
  "alloc_inode crc ag =
     bindS (askF (\<lambda>g t. read_ag_header_txn crc g t ag)) (\<lambda>hdr.
     bindS (askF (\<lambda>g t. slots_per_block (g_sb g))) (\<lambda>slots.
     bindS (askF (\<lambda>g t. hinted_slot crc g t ag hdr slots)) (\<lambda>found.
     case found of
       Some (l3, l3rec, s) \<Rightarrow>
         bindS (rec_write crc ag l3 (rec_state_set l3rec s CELL_FULL)) (\<lambda>_.
         retS (ino_addr ag (ah_ino_hint hdr * slots + of_nat s)))
     | None \<Rightarrow> alloc_slot_block crc ag slots)))"

definition set_ino_hint :: "crc_fun \<Rightarrow> ag_header \<Rightarrow> u32 \<Rightarrow> unit fsop" where
  "set_ino_hint crc hdr h = put_ag_header crc (hdr\<lparr>ah_ino_hint := h\<rparr>)"

definition free_inode :: "crc_fun \<Rightarrow> u64 \<Rightarrow> unit fsop" where
  "free_inode crc ino =
     (let (ag, slot) = blk_split ino
      in bindS (askF (\<lambda>g t. Inr (ucast (sb_inodesize (g_sb g)) :: u32))) (\<lambda>isz.
         bindS (askF (\<lambda>g t. slots_per_block (g_sb g))) (\<lambda>slots.
         bindS (ensureS (slots \<noteq> 0) Panic) (\<lambda>_.
         let local = slot div slots; blk = blk_addr ag local;
             off = unat ((slot mod slots) * isz); s = unat (slot mod slots)
         in bindS (readF blk) (\<lambda>buf.
            bindS (ensureS (off + unat isz \<le> length buf) Panic) (\<lambda>_.
            bindS (writeF blk (put_bytes buf off (replicate (unat isz) 0))) (\<lambda>_.
            bindS (askF (\<lambda>g t. read_ag_header_txn crc g t ag)) (\<lambda>hdr.
            bindS (askF (\<lambda>g t. slot_rec_at crc g t hdr local)) (\<lambda>r.
            case r of
              None \<Rightarrow> failS (Msg ''inode {ino:#x}: containing block is not slot-refined'')
            | Some (l3, l1, j) \<Rightarrow>
                bindS (askF (\<lambda>g t. rec_read crc g t ag l3)) (\<lambda>l3rec.
                bindS (ensureS (s < 16) Panic) (\<lambda>_.
                let l3rec = rec_state_set l3rec s CELL_FREE
                in if rec_all l3rec CELL_FREE then
                     bindS (tbl_free_rec crc ag l3) (\<lambda>_.
                     bindS (askF (\<lambda>g t. rec_read crc g t ag l1)) (\<lambda>l1rec.
                     bindS (rec_write crc ag l1 (rec_ref_set (rec_state_set l1rec j CELL_FULL) j (0, 0))) (\<lambda>_.
                     bindS (free_extent crc blk 1) (\<lambda>_.
                     bindS (askF (\<lambda>g t. read_ag_header_txn crc g t ag)) (\<lambda>hdr.
                     if ah_ino_hint hdr = local then set_ino_hint crc hdr 0 else retS ())))))
                   else
                     bindS (rec_write crc ag l3 l3rec) (\<lambda>_.
                     if ah_ino_hint hdr \<noteq> local then set_ino_hint crc hdr local else retS ()))))))))))))"

end
