(* ===== verification/AllocFacts.thy ===== *)
theory AllocFacts
  imports Alloc
begin

text \<open>
  Facts about the allocator: the run searches, the laws of records, of the root table and of
  table blocks under writes, and what one allocation and one release change.
\<close>

unbundle bit_operations_syntax

subsection \<open>Running code on a filesystem and its transaction\<close>

lemma bindS_askF [simp]:
  "bindS (askF f) k s = (case f (fst s) (snd s) of Inl e \<Rightarrow> (Inl e, s) | Inr x \<Rightarrow> k x s)"
  by (simp add: askF_def split_beta)

lemma bindS_readF [simp]:
  "bindS (readF a) k s = (case txn_read (fst s) (snd s) a of Inl e \<Rightarrow> (Inl e, s) | Inr x \<Rightarrow> k x s)"
  by (simp add: readF_def)

lemma bindS_writeF [simp]: "bindS (writeF a b) k s = k () (fst s, txn_write a b (snd s))"
  by (simp add: writeF_def split_beta)

lemma writeF_run [simp]: "writeF a b s = (Inr (), (fst s, txn_write a b (snd s)))"
  by (simp add: writeF_def split_beta)

text \<open>The standing invariant of an open transaction.\<close>

definition st_ok :: "gofs \<Rightarrow> txn \<Rightarrow> bool" where
  "st_ok g t \<longleftrightarrow> txn_ok t \<and> blocks_full g t"

lemma st_ok_write [simp]: "st_ok g t \<Longrightarrow> length b = g_bs g \<Longrightarrow> st_ok g (txn_write a b t)"
  by (simp add: st_ok_def txn_write_def blocks_full_write [unfolded txn_write_def])

lemma st_ok_read: "st_ok g t \<Longrightarrow> txn_read g t a = Inr b \<Longrightarrow> length b = g_bs g"
  unfolding st_ok_def by (blast intro: txn_read_length)

lemma st_ok_read_write:
  "st_ok g t \<Longrightarrow> txn_read g (txn_write a b t) a' = (if a = a' then Inr b else txn_read g t a')"
  by (simp add: st_ok_def txn_read_write)

subsection \<open>Run searches\<close>

text \<open>
  \<open>run_at P m s\<close>: the \<open>m\<close> indices from \<open>s\<close> satisfy \<open>P\<close>. Both scans of the allocator return
  the first run and miss none.
\<close>

definition run_at :: "(nat \<Rightarrow> bool) \<Rightarrow> nat \<Rightarrow> nat \<Rightarrow> bool" where
  "run_at P m s \<longleftrightarrow> (\<forall>i. s \<le> i \<and> i < s + m \<longrightarrow> P i)"

fun first_run :: "(nat \<Rightarrow> bool) \<Rightarrow> nat \<Rightarrow> nat list \<Rightarrow> nat \<Rightarrow> nat option" where
  "first_run P m [] run = None"
| "first_run P m (i # is) run =
     (if P i then if run + 1 = m then Some (i + 1 - m) else first_run P m is (run + 1)
      else first_run P m is 0)"

lemma first_run_sound:
  assumes "first_run P m [k..<n] run = Some s" and "run < m" and "run \<le> k"
    and "\<forall>i. k - run \<le> i \<and> i < k \<longrightarrow> P i"
  shows "s + m \<le> n \<and> run_at P m s"
  using assms
proof (induction "n - k" arbitrary: k run)
  case 0
  then show ?case by simp
next
  case (Suc d)
  then have upt: "[k..<n] = k # [Suc k..<n]" and d: "d = n - Suc k" by (simp_all add: upt_conv_Cons)
  show ?case
  proof (cases "P k")
    case P: True
    have all: "\<forall>i. Suc k - Suc run \<le> i \<and> i < Suc k \<longrightarrow> P i"
      using Suc.prems(4) P by (auto simp: less_Suc_eq)
    show ?thesis
    proof (cases "run + 1 = m")
      case True
      then have "s = k - run" using Suc.prems(1,3) P upt by simp
      then show ?thesis
        using all True Suc.hyps(2) Suc.prems(3) by (auto simp: run_at_def)
    next
      case False
      then have "first_run P m [Suc k..<n] (Suc run) = Some s"
        using Suc.prems(1) P upt by simp
      then show ?thesis
        using False Suc.prems(2,3) all by (intro Suc.hyps(1) [OF d, of "Suc run"]) simp_all
    qed
  next
    case False
    then have "first_run P m [Suc k..<n] 0 = Some s" using Suc.prems(1) upt by simp
    then show ?thesis using Suc.prems(2) by (intro Suc.hyps(1) [OF d, of 0]) auto
  qed
qed

lemma first_run_complete:
  assumes "first_run P m [k..<n] run = None" and "run < m" and "run \<le> k"
    and "k - run \<le> s" and "s + m \<le> n"
  shows "\<not> run_at P m s"
  using assms
proof (induction "n - k" arbitrary: k run)
  case 0
  then show ?case by simp
next
  case (Suc d)
  then have upt: "[k..<n] = k # [Suc k..<n]" and d: "d = n - Suc k" by (simp_all add: upt_conv_Cons)
  show ?case
  proof (cases "P k")
    case True
    then have "first_run P m [Suc k..<n] (Suc run) = None" "Suc run < m"
      using Suc.prems(1,2) upt by (auto split: if_splits)
    then show ?thesis using Suc.prems by (intro Suc.hyps(1) [OF d, of "Suc run"]) simp_all
  next
    case False
    show ?thesis
    proof
      assume at: "run_at P m s"
      have "k < s"
      proof (rule ccontr)
        assume "\<not> k < s"
        then have "s \<le> k \<and> k < s + m" using Suc.prems(2-4) by simp
        with at False show False by (auto simp: run_at_def)
      qed
      moreover have "first_run P m [Suc k..<n] 0 = None" using Suc.prems(1) False upt by simp
      ultimately show False using Suc.hyps(1) [OF d, of 0] Suc.prems at by simp
    qed
  qed
qed

lemma find_run_first: "find_run r m = first_run (\<lambda>i. rec_state r i = CELL_FREE) m [0..<ALLOC_FANOUT] 0"
proof -
  have "find_run_from r m is run = first_run (\<lambda>i. rec_state r i = CELL_FREE) m is run" for "is" run
    by (induction "is" arbitrary: run) auto
  then show ?thesis by (simp add: find_run_def)
qed

lemma find_run_sound:
  assumes "find_run r m = Some s" and "0 < m"
  shows "s + m \<le> ALLOC_FANOUT \<and> run_at (\<lambda>i. rec_state r i = CELL_FREE) m s"
  using first_run_sound [of _ m 0 ALLOC_FANOUT 0 s] assms by (simp add: find_run_first)

lemma find_run_complete:
  assumes "find_run r m = None" and "0 < m" and "s + m \<le> ALLOC_FANOUT"
  shows "\<not> run_at (\<lambda>i. rec_state r i = CELL_FREE) m s"
  using first_run_complete [of _ m 0 ALLOC_FANOUT 0 s] assms by (simp add: find_run_first)

lemma l0_scan_first:
  assumes "l0_scan st m [k..<n] run start = Inr found" and "0 < run \<Longrightarrow> start = k - run" and "run < m"
    and "run \<le> k"
  shows "found = first_run (\<lambda>c. st c = Inr CELL_FREE) m [k..<n] run"
  using assms
proof (induction "n - k" arbitrary: k run start)
  case 0
  then show ?case by simp
next
  case (Suc d)
  then have upt: "[k..<n] = k # [Suc k..<n]" and d: "d = n - Suc k" by (simp_all add: upt_conv_Cons)
  from Suc.prems(1) upt obtain x where x: "st k = Inr x" by (auto simp: tryR_Inr_iff)
  show ?case
  proof (cases "x = CELL_FREE")
    case True
    then show ?thesis
      using Suc.prems upt x Suc.hyps(1) [OF d, of "Suc run" "if run = 0 then k else start"]
      by (auto split: if_splits)
  next
    case False
    then show ?thesis
      using Suc.prems upt x Suc.hyps(1) [OF d, of 0 start] by simp
  qed
qed

lemma wrap_range_perm:
  "distinct (wrap_range start len)" "set (wrap_range start len) = {..<len}"
proof -
  define s where "s = (if len = 0 then 0 else start mod len)"
  have "s \<le> len" by (auto simp: s_def intro: less_imp_le)
  then show "distinct (wrap_range start len)" "set (wrap_range start len) = {..<len}"
    by (auto simp: wrap_range_def Let_def simp flip: s_def)
qed

subsection \<open>Records\<close>

interpretation recs: cell_array rec_state rec_state_set "\<lambda>r. min ALLOC_FANOUT (4 * length r)"
  by unfold_locales (auto simp: rec_state_def rec_state_set_def cell_get_set_same cell_get_set_other)

lemma length_rec_state_set [simp]: "length (rec_state_set r i st) = length r"
  by (simp add: rec_state_set_def)

lemma length_rec_fill [simp]: "length (rec_fill lo hi st r) = length r"
  by (induction hi) (auto simp: rec_fill_def)

lemma rec_fill_state:
  assumes "length r = REC_SIZE" and "hi \<le> ALLOC_FANOUT" and "st < 4" and "j < ALLOC_FANOUT"
  shows "rec_state (rec_fill lo hi st r) j = (if lo \<le> j \<and> j < hi then st else rec_state r j)"
  using recs.get_fold_set [of hi r st j lo] assms by (simp add: rec_fill_def)

lemma rec_ref_state_set:
  assumes "i < ALLOC_FANOUT"
  shows "rec_ref (rec_state_set r i st) j = rec_ref r j"
proof -
  have "i div 4 < 4" using assms by auto
  then have "i div 4 < 4 + j * 6" "i div 4 < 4 + j * 6 + 4" by simp_all
  then show ?thesis
    by (simp only: rec_ref_def rec_state_set_def cell_set_def Let_def get_int_defs
        get_bytes_list_update_other simp_thms)
qed

lemma rec_ref_fill: "hi \<le> ALLOC_FANOUT \<Longrightarrow> rec_ref (rec_fill lo hi st r) j = rec_ref r j"
  by (induction hi) (auto simp: rec_fill_def rec_ref_state_set)

lemma length_rec_ref_set:
  "length r = REC_SIZE \<Longrightarrow> i < ALLOC_FANOUT \<Longrightarrow> length (rec_ref_set r i x) = REC_SIZE"
  by (simp add: rec_ref_set_def Let_def put_int_defs length_put_bytes)

lemma rec_ref_set_same:
  "length r = REC_SIZE \<Longrightarrow> i < ALLOC_FANOUT \<Longrightarrow> rec_ref (rec_ref_set r i x) i = x"
  by (simp add: rec_ref_set_def rec_ref_def Let_def put_int_defs get_int_defs layout)

lemma rec_ref_set_other:
  assumes "length r = REC_SIZE" and "i < ALLOC_FANOUT" and "i \<noteq> j"
  shows "rec_ref (rec_ref_set r i x) j = rec_ref r j"
proof -
  have "i * 6 + 6 \<le> j * 6 \<or> j * 6 + 6 \<le> i * 6" using assms(3) by linarith
  then show ?thesis
    using assms(1,2) by (auto simp: rec_ref_set_def rec_ref_def Let_def put_int_defs get_int_defs layout)
qed

lemma rec_state_ref_set:
  assumes "length r = REC_SIZE" and "i < ALLOC_FANOUT" and "j < ALLOC_FANOUT"
  shows "rec_state (rec_ref_set r i x) j = rec_state r j"
proof -
  have "j div 4 < 4" using assms(3) by auto
  then show ?thesis
    using assms(1,2)
    by (simp add: rec_state_def cell_get_def rec_ref_set_def Let_def put_int_defs nth_put_other
        length_put_bytes)
qed

subsection \<open>The root table\<close>

definition rt_blk :: "gofs \<Rightarrow> ag_header \<Rightarrow> nat \<Rightarrow> u64" where
  "rt_blk g hdr off = blk_addr (ah_num hdr) (ah_alloc_root hdr + of_nat (off div g_bs g))"

text \<open>A cell's place in its block, as an index of the block's 2-bit states.\<close>

definition rt_slot :: "gofs \<Rightarrow> nat \<Rightarrow> nat" where
  "rt_slot g c = 4 * (c div 4 mod g_bs g) + c mod 4"

lemma rt_state_cell:
  "rt_state g t hdr c = tryR (txn_read g t (rt_blk g hdr (c div 4))) (\<lambda>buf. Inr (cell_get buf (rt_slot g c)))"
  by (cases "txn_read g t (rt_blk g hdr (c div 4))")
    (simp_all add: rt_state_def rt_byte_def rt_blk_def rt_slot_def cell_get_def Let_def mult.commute)

lemma rt_state_set_run:
  assumes "txn_read g t (rt_blk g hdr (c div 4)) = Inr buf"
  shows "rt_state_set hdr c st (g, t)
    = (Inr (), (g, txn_write (rt_blk g hdr (c div 4)) (cell_set buf (rt_slot g c) st) t))"
proof -
  have "rt_slot g c div 4 = c div 4 mod g_bs g" "rt_slot g c mod 4 = c mod 4"
    by (simp_all add: rt_slot_def)
  then show ?thesis
    using assms
    by (simp add: rt_state_set_def rt_byte_def rt_blk_def cell_set_def Let_def mult.commute)
qed

lemma rt_blk_eq:
  assumes "o1 div g_bs g < 2 ^ 32" and "o2 div g_bs g < 2 ^ 32"
  shows "rt_blk g hdr o1 = rt_blk g hdr o2 \<longleftrightarrow> o1 div g_bs g = o2 div g_bs g"
proof -
  have "(of_nat (o1 div g_bs g) :: u32) = of_nat (o2 div g_bs g) \<longleftrightarrow> o1 div g_bs g = o2 div g_bs g"
    by (rule of_nat_u32_eq [OF assms])
  then show ?thesis by (simp add: rt_blk_def)
qed

lemma rt_slot_eq:
  assumes "c div 4 div g_bs g = c' div 4 div g_bs g"
  shows "rt_slot g c = rt_slot g c' \<longleftrightarrow> c = c'"
proof
  assume eq: "rt_slot g c = rt_slot g c'"
  have "rt_slot g c div 4 = c div 4 mod g_bs g" "rt_slot g c mod 4 = c mod 4"
    "rt_slot g c' div 4 = c' div 4 mod g_bs g" "rt_slot g c' mod 4 = c' mod 4"
    by (simp_all add: rt_slot_def)
  with eq assms have "c div 4 = c' div 4" "c mod 4 = c' mod 4"
    by (metis div_mult_mod_eq)+
  then show "c = c'" by (metis div_mult_mod_eq)
qed simp

lemma rt_slot_bound: "0 < g_bs g \<Longrightarrow> rt_slot g c < 4 * g_bs g"
proof -
  assume "0 < g_bs g"
  then have "c div 4 mod g_bs g < g_bs g" by simp
  moreover have "c mod 4 < 4" by simp
  ultimately show ?thesis unfolding rt_slot_def by linarith
qed

lemma div_small: "c < 2 ^ 32 \<Longrightarrow> c div 4 div b < (2::nat) ^ 32"
  by (meson div_le_dividend le_less_trans)

text \<open>A state that was set is read back; every other cell, and every block but the one the
  state lies in, reads as before.\<close>

lemma rt_state_set_effect:
  assumes ok: "st_ok g t" and bs: "0 < g_bs g" and c: "c < 2 ^ 32" and "st < 4"
    and old: "rt_state g t hdr c = Inr x"
  obtains t' where "rt_state_set hdr c st (g, t) = (Inr (), (g, t'))" and "st_ok g t'"
    and "\<And>c'. c' < 2 ^ 32 \<Longrightarrow> rt_state g t' hdr c' = (if c' = c then Inr st else rt_state g t hdr c')"
    and "\<And>a. a \<noteq> rt_blk g hdr (c div 4) \<Longrightarrow> txn_read g t' a = txn_read g t a"
proof -
  let ?a = "rt_blk g hdr (c div 4)"
  obtain buf where buf: "txn_read g t ?a = Inr buf"
    using old by (auto simp: rt_state_cell tryR_Inr_iff)
  define b where "b = cell_set buf (rt_slot g c) st"
  define t' where "t' = txn_write ?a b t"
  have len: "length buf = g_bs g" by (rule st_ok_read [OF ok buf])
  have ok': "st_ok g t'" using ok len by (simp add: t'_def b_def)
  have rd: "txn_read g t' a = (if ?a = a then Inr b else txn_read g t a)" for a
    unfolding t'_def by (rule st_ok_read_write [OF ok])
  have "rt_state g t' hdr c' = (if c' = c then Inr st else rt_state g t hdr c')" if c': "c' < 2 ^ 32" for c'
  proof (cases "rt_blk g hdr (c' div 4) = ?a")
    case True
    then have "c div 4 div g_bs g = c' div 4 div g_bs g"
      using rt_blk_eq [OF div_small [OF c'] div_small [OF c]] by simp
    then have "rt_slot g c = rt_slot g c' \<longleftrightarrow> c = c'" by (rule rt_slot_eq)
    then have "cell_get b (rt_slot g c') = (if c' = c then st else cell_get buf (rt_slot g c'))"
      using rt_slot_bound [OF bs] len \<open>st < 4\<close> cells.get_set [of "rt_slot g c" buf "rt_slot g c'" st]
      by (auto simp: b_def)
    then show ?thesis using True rd buf by (simp add: rt_state_cell)
  next
    case False
    then show ?thesis using rd by (auto simp: rt_state_cell)
  qed
  moreover have "rt_state_set hdr c st (g, t) = (Inr (), (g, t'))"
    unfolding t'_def b_def by (rule rt_state_set_run [OF buf])
  ultimately show ?thesis using ok' rd by (intro that [of t']) auto
qed

lemma rt_state_fill:
  assumes "st_ok g t" and "0 < g_bs g" and "hi \<le> 2 ^ 32" and "st < 4"
    and "\<And>c. lo \<le> c \<Longrightarrow> c < hi \<Longrightarrow> \<exists>x. rt_state g t hdr c = Inr x"
  obtains t' where "forS (\<lambda>c. rt_state_set hdr c st) [lo..<hi] (g, t) = (Inr (), (g, t'))" and "st_ok g t'"
    and "\<And>c. c < 2 ^ 32 \<Longrightarrow> rt_state g t' hdr c = (if lo \<le> c \<and> c < hi then Inr st else rt_state g t hdr c)"
    and "\<And>a. (\<And>c. lo \<le> c \<Longrightarrow> c < hi \<Longrightarrow> a \<noteq> rt_blk g hdr (c div 4)) \<Longrightarrow> txn_read g t' a = txn_read g t a"
  using assms
proof (induction "hi - lo" arbitrary: lo t thesis)
  case 0
  then show ?case by (intro "0.prems"(1) [of t]) auto
next
  case (Suc d)
  then have upt: "[lo..<hi] = lo # [Suc lo..<hi]" and d: "d = hi - Suc lo" and lt: "lo < hi"
    by (simp_all add: upt_conv_Cons)
  obtain x where x: "rt_state g t hdr lo = Inr x" using Suc.prems(6) [of lo] lt by auto
  have lo: "lo < 2 ^ 32" using lt Suc.prems(4) by simp
  obtain t1 where t1: "rt_state_set hdr lo st (g, t) = (Inr (), (g, t1))" "st_ok g t1"
    "\<And>c'. c' < 2 ^ 32 \<Longrightarrow> rt_state g t1 hdr c' = (if c' = lo then Inr st else rt_state g t hdr c')"
    "\<And>a. a \<noteq> rt_blk g hdr (lo div 4) \<Longrightarrow> txn_read g t1 a = txn_read g t a"
    using rt_state_set_effect [OF Suc.prems(2,3) lo Suc.prems(5) x] by blast
  have rd: "\<exists>x. rt_state g t1 hdr c = Inr x" if "Suc lo \<le> c" "c < hi" for c
    using t1(3) [of c] Suc.prems(4,6) that by auto
  obtain t' where t': "forS (\<lambda>c. rt_state_set hdr c st) [Suc lo..<hi] (g, t1) = (Inr (), (g, t'))" "st_ok g t'"
    "\<And>c. c < 2 ^ 32 \<Longrightarrow> rt_state g t' hdr c = (if Suc lo \<le> c \<and> c < hi then Inr st else rt_state g t1 hdr c)"
    "\<And>a. (\<And>c. Suc lo \<le> c \<Longrightarrow> c < hi \<Longrightarrow> a \<noteq> rt_blk g hdr (c div 4)) \<Longrightarrow> txn_read g t' a = txn_read g t1 a"
    using Suc.hyps(1) [OF d _ t1(2) Suc.prems(3-5) rd] by blast
  show ?case
  proof (rule Suc.prems(1) [of t'])
    show "forS (\<lambda>c. rt_state_set hdr c st) [lo..<hi] (g, t) = (Inr (), (g, t'))"
      using t1(1) t'(1) by (simp add: upt bindS_Inr)
    show "rt_state g t' hdr c = (if lo \<le> c \<and> c < hi then Inr st else rt_state g t hdr c)"
      if "c < 2 ^ 32" for c
      using t'(3) [OF that] t1(3) [OF that] lt by auto
    show "txn_read g t' a = txn_read g t a" if "\<And>c. lo \<le> c \<Longrightarrow> c < hi \<Longrightarrow> a \<noteq> rt_blk g hdr (c div 4)" for a
      using t'(4) [of a] t1(4) [of a] that lt by auto
  qed (rule t'(2))
qed

subsection \<open>Counters and hints do not move blocks\<close>

definition same_store :: "gofs \<Rightarrow> gofs \<Rightarrow> bool" where
  "same_store g g' \<longleftrightarrow> g_dev g' = g_dev g \<and> g_map g' = g_map g \<and>
     sb_blocksize (g_sb g') = sb_blocksize (g_sb g)"

lemma same_store_refl [simp]: "same_store g g"
  by (simp add: same_store_def)

lemma same_store_trans: "same_store g g' \<Longrightarrow> same_store g' g'' \<Longrightarrow> same_store g g''"
  by (simp add: same_store_def)

lemma same_storeD:
  assumes "same_store g g'"
  shows "g_bs g' = g_bs g" "read_block g' = read_block g" "txn_read g' = txn_read g"
    "st_ok g' = st_ok g" "rt_cells g' = rt_cells g" "rt_state g' = rt_state g"
    "rt_ref g' = rt_ref g" "rec_read crc g' = rec_read crc g" "rt_blk g' = rt_blk g"
proof -
  show bs: "g_bs g' = g_bs g" using assms by (simp add: same_store_def g_bs_def)
  show "read_block g' = read_block g"
    using assms bs by (simp add: same_store_def read_block_def g_resolve_def fun_eq_iff)
  then show rd: "txn_read g' = txn_read g" by (simp add: txn_read_def fun_eq_iff split: option.split)
  show "st_ok g' = st_ok g" by (simp add: st_ok_def blocks_full_def bs fun_eq_iff)
  show cells: "rt_cells g' = rt_cells g" using assms by (simp add: same_store_def rt_cells_def fun_eq_iff)
  have byte: "rt_byte g' = rt_byte g" by (simp add: rt_byte_def bs rd fun_eq_iff)
  then show "rt_state g' = rt_state g" by (simp add: rt_state_def fun_eq_iff)
  show "rt_ref g' = rt_ref g" by (simp add: rt_ref_def byte cells fun_eq_iff)
  have "tbl_read crc g' = tbl_read crc g" by (simp add: tbl_read_def rd fun_eq_iff)
  then show "rec_read crc g' = rec_read crc g" by (simp add: rec_read_def fun_eq_iff)
  show "rt_blk g' = rt_blk g" by (simp add: rt_blk_def bs fun_eq_iff)
qed

text \<open>The counters after \<open>n\<close> blocks were allocated.\<close>

definition charged :: "u32 \<Rightarrow> gofs \<Rightarrow> gofs" where
  "charged n g = g\<lparr>g_sb := (g_sb g)\<lparr>sb_free_blocks := sb_free_blocks (g_sb g) - ucast n,
     sb_full_blocks := sb_full_blocks (g_sb g) + ucast n\<rparr>\<rparr>"

definition charged_hdr :: "u32 \<Rightarrow> ag_header \<Rightarrow> ag_header" where
  "charged_hdr n hdr = hdr\<lparr>ah_free_blocks := ah_free_blocks hdr - n, ah_full_blocks := ah_full_blocks hdr + n\<rparr>"

lemma account_alloc_run: "account_alloc hdr n (g, t) = (Inr (charged_hdr n hdr), (charged n g, t))"
  by (simp add: account_alloc_def charged_def charged_hdr_def)

lemma account_free_run: "account_free hdr n (g, t) = (Inr (charged_hdr (- n) hdr), (g\<lparr>g_sb := (g_sb g)
    \<lparr>sb_free_blocks := sb_free_blocks (g_sb g) + ucast n, sb_full_blocks := sb_full_blocks (g_sb g) - ucast n\<rparr>\<rparr>, t))"
  by (simp add: account_free_def charged_hdr_def)

lemma same_store_charged [simp]: "same_store g (charged n g)"
  by (simp add: same_store_def charged_def)

lemma same_table:
  assumes "ah_num hdr' = ah_num hdr" and "ah_alloc_root hdr' = ah_alloc_root hdr"
  shows "rt_state g t hdr' = rt_state g t hdr"
  using assms by (simp add: rt_state_def rt_byte_def fun_eq_iff)

lemma charged_hdr_simps [simp]:
  "ah_num (charged_hdr n hdr) = ah_num hdr" "ah_alloc_root (charged_hdr n hdr) = ah_alloc_root hdr"
  "ah_length (charged_hdr n hdr) = ah_length hdr" "ah_tbl_arena (charged_hdr n hdr) = ah_tbl_arena hdr"
  by (simp_all add: charged_hdr_def)

lemma rt_state_charged_hdr [simp]: "rt_state g t (charged_hdr n hdr) = rt_state g t hdr"
  by (rule same_table) simp_all

lemma rt_cells_bound: "rt_cells g hdr \<le> 2 ^ 24"
proof -
  have "unat (ah_length hdr) < 2 ^ 32" using unat_bound [of "ah_length hdr"] by simp
  then have "div_ceil (unat (ah_length hdr)) CELL_BLOCKS \<le> 2 ^ 24"
    by (intro div_ceil_least) simp_all
  then show ?thesis by (simp add: rt_cells_def rt_geometry_def Let_def)
qed

subsection \<open>Whole cells\<close>

lemma alloc_l0_effect:
  assumes ok: "st_ok g t" and bs: "0 < g_bs g" and k: "0 < k"
    and run: "alloc_l0 hdr k (g, t) = (Inr (blk, hdr'), (g', t'))"
  obtains start where "start + k \<le> rt_cells g hdr"
    and "blk = blk_addr (ah_num hdr) (of_nat (start * CELL_BLOCKS))"
    and "run_at (\<lambda>c. rt_state g t hdr c = Inr CELL_FREE) k start"
    and "\<And>c. c < rt_cells g hdr \<Longrightarrow> rt_state g' t' hdr' c
          = (if start \<le> c \<and> c < start + k then Inr CELL_FULL else rt_state g t hdr c)"
    and "hdr' = charged_hdr (of_nat (k * CELL_BLOCKS)) hdr"
    and "g' = charged (of_nat (k * CELL_BLOCKS)) g" and "st_ok g' t'"
    and "\<And>a. (\<And>c. start \<le> c \<Longrightarrow> c < start + k \<Longrightarrow> a \<noteq> rt_blk g hdr (c div 4)) \<Longrightarrow> txn_read g' t' a = txn_read g t a"
proof -
  from run obtain start where scan: "l0_scan (rt_state g t hdr) k [0..<rt_cells g hdr] 0 0 = Inr (Some start)"
    by (auto simp: alloc_l0_def split: sum.splits option.splits)
  then have "Some start = first_run (\<lambda>c. rt_state g t hdr c = Inr CELL_FREE) k [0..<rt_cells g hdr] 0"
    by (rule l0_scan_first) (use k in simp_all)
  then have first: "start + k \<le> rt_cells g hdr" "run_at (\<lambda>c. rt_state g t hdr c = Inr CELL_FREE) k start"
    using first_run_sound [of _ k 0 "rt_cells g hdr" 0 start] k by simp_all
  have hi: "start + k \<le> 2 ^ 32" using first(1) rt_cells_bound [of g hdr] by simp
  obtain t1 where t1: "forS (\<lambda>c. rt_state_set hdr c CELL_FULL) [start..<start + k] (g, t) = (Inr (), (g, t1))"
    "st_ok g t1"
    "\<And>c. c < 2 ^ 32 \<Longrightarrow> rt_state g t1 hdr c = (if start \<le> c \<and> c < start + k then Inr CELL_FULL else rt_state g t hdr c)"
    "\<And>a. (\<And>c. start \<le> c \<Longrightarrow> c < start + k \<Longrightarrow> a \<noteq> rt_blk g hdr (c div 4)) \<Longrightarrow> txn_read g t1 a = txn_read g t a"
    using rt_state_fill [OF ok bs hi, of CELL_FULL start hdr] first(2) unfolding run_at_def by auto
  have res: "hdr' = charged_hdr (of_nat (k * CELL_BLOCKS)) hdr" "g' = charged (of_nat (k * CELL_BLOCKS)) g"
    "t' = t1" "blk = blk_addr (ah_num hdr) (of_nat (start * CELL_BLOCKS))"
    using run scan t1(1) account_alloc_run [of hdr "of_nat (k * CELL_BLOCKS)" g t1]
    by (simp_all add: alloc_l0_def bindS_Inr)
  note same = same_storeD [OF same_store_charged]
  show ?thesis
  proof (rule that [OF first(1) res(4) first(2) _ res(1,2)])
    fix c assume "c < rt_cells g hdr"
    then have "c < 2 ^ 32" using rt_cells_bound [of g hdr] by simp
    then show "rt_state g' t' hdr' c
        = (if start \<le> c \<and> c < start + k then Inr CELL_FULL else rt_state g t hdr c)"
      using t1(3) [of c] by (simp add: res same)
  qed (use t1(2,4) in \<open>simp_all add: res same\<close>)
qed

lemma cell_full_small: "CELL_FULL < 4"
  by simp

lemma alloc_l0_complete:
  assumes "alloc_l0 hdr k (g, t) = (Inl e, s)" and "0 < k"
    and "\<And>c. c < rt_cells g hdr \<Longrightarrow> \<exists>x. rt_state g t hdr c = Inr x"
    and "st_ok g t" and "0 < g_bs g"
  shows "s = (g, t)" and "start + k \<le> rt_cells g hdr \<Longrightarrow>
    \<not> run_at (\<lambda>c. rt_state g t hdr c = Inr CELL_FREE) k start"
proof -
  have total: "\<exists>found. l0_scan (rt_state g t hdr) k cs run st = Inr found" if "set cs \<subseteq> {..<rt_cells g hdr}" for cs run st
    using that
  proof (induction cs arbitrary: run st)
    case (Cons c cs)
    then obtain x where "rt_state g t hdr c = Inr x" using assms(3) [of c] by auto
    with Cons show ?case by auto
  qed simp
  obtain found where f: "l0_scan (rt_state g t hdr) k [0..<rt_cells g hdr] 0 0 = Inr found"
    using total [of "[0..<rt_cells g hdr]" 0 0] by (auto simp: atLeast0LessThan)
  then have first: "found = first_run (\<lambda>c. rt_state g t hdr c = Inr CELL_FREE) k [0..<rt_cells g hdr] 0"
    by (rule l0_scan_first) (use assms(2) in simp_all)
  have "found = None"
  proof (rule ccontr)
    assume "found \<noteq> None"
    then obtain start where start: "found = Some start" by blast
    then have "start + k \<le> rt_cells g hdr" "run_at (\<lambda>c. rt_state g t hdr c = Inr CELL_FREE) k start"
      using first_run_sound [of _ k 0 "rt_cells g hdr" 0 start] first assms(2) by simp_all
    then have "start + k \<le> 2 ^ 32" "\<And>c. start \<le> c \<Longrightarrow> c < start + k \<Longrightarrow> \<exists>x. rt_state g t hdr c = Inr x"
      using rt_cells_bound [of g hdr] by (auto simp: run_at_def)
    then obtain t1 where "forS (\<lambda>c. rt_state_set hdr c CELL_FULL) [start..<start + k] (g, t) = (Inr (), (g, t1))"
      using rt_state_fill [OF assms(4,5), of "start + k" CELL_FULL start hdr] by (metis cell_full_small)
    then show False using assms(1) f start account_alloc_run [of hdr "of_nat (k * CELL_BLOCKS)" g t1]
      by (simp add: alloc_l0_def bindS_Inr)
  qed
  with f assms(1) show "s = (g, t)" by (simp add: alloc_l0_def)
  show "start + k \<le> rt_cells g hdr \<Longrightarrow> \<not> run_at (\<lambda>c. rt_state g t hdr c = Inr CELL_FREE) k start"
    using first_run_complete [of _ k 0 "rt_cells g hdr" 0 start] first \<open>found = None\<close> assms(2) by simp
qed

subsection \<open>References of the root table\<close>

definition rt_tbl :: "gofs \<Rightarrow> txn \<Rightarrow> ag_header \<Rightarrow> nat \<Rightarrow> u8 result" where
  "rt_tbl g t hdr o1 = tryR (rt_byte g t hdr o1) (\<lambda>(_, off, buf). Inr (buf ! off))"

lemma mod_eqI_nat: "(x::nat) mod b + i < b \<Longrightarrow> (x + i) mod b = x mod b + i"
  by (metis mod_add_left_eq mod_less)

lemma div_eqI_nat: "(x::nat) mod b + i < b \<Longrightarrow> (x + i) div b = x div b"
proof -
  assume lt: "x mod b + i < b"
  have "x + i = (x mod b + i) + x div b * b" using div_mult_mod_eq [of x b] by simp
  then have "(x + i) div b = (x mod b + i) div b + x div b" using lt by (metis add.commute div_mult_self1 less_zeroE)
  then show ?thesis using lt by simp
qed

lemma rt_byte_run:
  "rt_byte g t hdr o1 = tryR (txn_read g t (rt_blk g hdr o1)) (\<lambda>buf. Inr (rt_blk g hdr o1, o1 mod g_bs g, buf))"
  by (simp add: rt_byte_def rt_blk_def Let_def)

lemma rt_tbl_block:
  "rt_tbl g t hdr o1 = tryR (txn_read g t (rt_blk g hdr o1)) (\<lambda>buf. Inr (buf ! (o1 mod g_bs g)))"
  by (cases "txn_read g t (rt_blk g hdr o1)") (simp_all add: rt_tbl_def rt_byte_run)

definition rt_poke :: "ag_header \<Rightarrow> nat \<Rightarrow> u8 \<Rightarrow> unit fsop" where
  "rt_poke hdr o1 x =
     bindS (askF (\<lambda>g t. rt_byte g t hdr o1)) (\<lambda>(blk, off, buf). writeF blk (buf[off := x]))"

lemma rt_poke_effect:
  assumes ok: "st_ok g t" and bs: "0 < g_bs g" and o1: "o1 < 2 ^ 32" and old: "rt_tbl g t hdr o1 = Inr y"
  obtains t' where "rt_poke hdr o1 x (g, t) = (Inr (), (g, t'))" and "st_ok g t'"
    and "\<And>o2. o2 < 2 ^ 32 \<Longrightarrow> rt_tbl g t' hdr o2 = (if o2 = o1 then Inr x else rt_tbl g t hdr o2)"
    and "\<And>a. a \<noteq> rt_blk g hdr o1 \<Longrightarrow> txn_read g t' a = txn_read g t a"
proof -
  let ?a = "rt_blk g hdr o1"
  obtain buf where buf: "txn_read g t ?a = Inr buf"
    using old by (auto simp: rt_tbl_block tryR_Inr_iff)
  define b where "b = buf[o1 mod g_bs g := x]"
  define t' where "t' = txn_write ?a b t"
  have len: "length buf = g_bs g" by (rule st_ok_read [OF ok buf])
  have ok': "st_ok g t'" using ok len by (simp add: t'_def b_def)
  have rd: "txn_read g t' a = (if ?a = a then Inr b else txn_read g t a)" for a
    unfolding t'_def by (rule st_ok_read_write [OF ok])
  have "rt_tbl g t' hdr o2 = (if o2 = o1 then Inr x else rt_tbl g t hdr o2)" if o2: "o2 < 2 ^ 32" for o2
  proof (cases "rt_blk g hdr o2 = ?a")
    case True
    have small: "o2 div g_bs g < 2 ^ 32" "o1 div g_bs g < 2 ^ 32"
      using o1 o2 by (meson div_le_dividend le_less_trans)+
    have "o2 div g_bs g = o1 div g_bs g" using rt_blk_eq [OF small] True by simp
    then have "o1 mod g_bs g = o2 mod g_bs g \<longleftrightarrow> o2 = o1" by (metis div_mult_mod_eq)
    then show ?thesis using True rd buf bs len by (auto simp: rt_tbl_block b_def)
  next
    case False
    then show ?thesis using rd by (auto simp: rt_tbl_block)
  qed
  moreover have "rt_poke hdr o1 x (g, t) = (Inr (), (g, t'))"
    using buf by (simp add: rt_poke_def rt_byte_run t'_def b_def)
  ultimately show ?thesis using ok' rd by (intro that [of t']) auto
qed

lemma rt_pokes_effect:
  assumes "st_ok g t" and "0 < g_bs g" and "base + k + length xs \<le> 2 ^ 32"
    and "\<And>i. i < k + length xs \<Longrightarrow> \<exists>y. rt_tbl g t hdr (base + i) = Inr y"
  obtains t' where "forS (\<lambda>(i, x). rt_poke hdr (base + i) x) (enumerate k xs) (g, t) = (Inr (), (g, t'))"
    and "st_ok g t'"
    and "\<And>o2. o2 < 2 ^ 32 \<Longrightarrow> rt_tbl g t' hdr o2
          = (if base + k \<le> o2 \<and> o2 < base + k + length xs then Inr (xs ! (o2 - base - k)) else rt_tbl g t hdr o2)"
    and "\<And>a. (\<And>i. k \<le> i \<Longrightarrow> i < k + length xs \<Longrightarrow> a \<noteq> rt_blk g hdr (base + i)) \<Longrightarrow> txn_read g t' a = txn_read g t a"
  using assms
proof (induction xs arbitrary: k t thesis)
  case Nil
  then show ?case by (intro Nil.prems(1) [of t]) auto
next
  case (Cons x xs)
  obtain y where y: "rt_tbl g t hdr (base + k) = Inr y" using Cons.prems(5) [of k] by auto
  have "base + k < 2 ^ 32" using Cons.prems(4) by simp
  then obtain t1 where t1: "rt_poke hdr (base + k) x (g, t) = (Inr (), (g, t1))" "st_ok g t1"
    "\<And>o2. o2 < 2 ^ 32 \<Longrightarrow> rt_tbl g t1 hdr o2 = (if o2 = base + k then Inr x else rt_tbl g t hdr o2)"
    "\<And>a. a \<noteq> rt_blk g hdr (base + k) \<Longrightarrow> txn_read g t1 a = txn_read g t a"
    using rt_poke_effect [OF Cons.prems(2,3) _ y, of x] by blast
  have rd: "\<exists>y. rt_tbl g t1 hdr (base + i) = Inr y" if "i < Suc k + length xs" for i
  proof -
    have "base + i < 2 ^ 32" using that Cons.prems(4) by simp
    then show ?thesis using t1(3) [of "base + i"] Cons.prems(5) [of i] that by auto
  qed
  have fits: "base + Suc k + length xs \<le> 2 ^ 32" using Cons.prems(4) by simp
  obtain t' where t': "forS (\<lambda>(i, x). rt_poke hdr (base + i) x) (enumerate (Suc k) xs) (g, t1) = (Inr (), (g, t'))"
    "st_ok g t'"
    "\<And>o2. o2 < 2 ^ 32 \<Longrightarrow> rt_tbl g t' hdr o2
      = (if base + Suc k \<le> o2 \<and> o2 < base + Suc k + length xs then Inr (xs ! (o2 - base - Suc k)) else rt_tbl g t1 hdr o2)"
    "\<And>a. (\<And>i. Suc k \<le> i \<Longrightarrow> i < Suc k + length xs \<Longrightarrow> a \<noteq> rt_blk g hdr (base + i)) \<Longrightarrow> txn_read g t' a = txn_read g t1 a"
    using Cons.IH [OF _ t1(2) Cons.prems(3) fits rd] by blast
  show ?case
  proof (rule Cons.prems(1) [of t'])
    show "forS (\<lambda>(i, x). rt_poke hdr (base + i) x) (enumerate k (x # xs)) (g, t) = (Inr (), (g, t'))"
      using t1(1) t'(1) by (simp add: bindS_Inr)
    show "rt_tbl g t' hdr o2 = (if base + k \<le> o2 \<and> o2 < base + k + length (x # xs)
        then Inr ((x # xs) ! (o2 - base - k)) else rt_tbl g t hdr o2)" if "o2 < 2 ^ 32" for o2
    proof -
      consider "o2 = base + k" | "o2 < base + k" | "base + Suc k \<le> o2" by linarith
      then show ?thesis
      proof cases
        case 3
        then have "o2 - base - k = Suc (o2 - base - Suc k)" by simp
        then show ?thesis using t'(3) [OF that] t1(3) [OF that] 3 by simp
      qed (use t'(3) [OF that] t1(3) [OF that] in simp_all)
    qed
    show "txn_read g t' a = txn_read g t a"
      if "\<And>i. k \<le> i \<Longrightarrow> i < k + length (x # xs) \<Longrightarrow> a \<noteq> rt_blk g hdr (base + i)" for a
      using t'(4) [of a] t1(4) [of a] that [of k] that by simp
  qed (rule t'(2))
qed

lemma rt_ref_set_pokes:
  "rt_ref_set hdr c r (g, t) = forS (\<lambda>(i, x). rt_poke hdr (rt_ref_off (rt_cells g hdr) c + i) x)
     (enumerate 0 (to_be 4 (fst r) @ to_be 2 (snd r))) (g, t)"
  by (simp add: rt_ref_set_def rt_poke_def)

lemma get_bytes_nth: "off + n \<le> length b \<Longrightarrow> get_bytes b off n = map (\<lambda>i. b ! (off + i)) [0..<n]"
  by (rule nth_equalityI) (simp_all add: get_bytes_def)

lemma bytes_eqI: "length xs = n \<Longrightarrow> (\<And>i. i < n \<Longrightarrow> f i = xs ! i) \<Longrightarrow> map f [0..<n] = xs"
  by (rule nth_equalityI) simp_all

text \<open>A reference that was set is read back, unless it crosses the end of a block.\<close>

lemma rt_ref_read_write:
  assumes ok: "st_ok g t" and bs: "0 < g_bs g" and fits: "rt_ref_off (rt_cells g hdr) c + 6 \<le> 2 ^ 32"
    and rd: "\<And>i. i < 6 \<Longrightarrow> \<exists>y. rt_tbl g t hdr (rt_ref_off (rt_cells g hdr) c + i) = Inr y"
  obtains t' where "rt_ref_set hdr c r (g, t) = (Inr (), (g, t'))" and "st_ok g t'"
    and "rt_ref g t' hdr c
      = (if rt_ref_off (rt_cells g hdr) c mod g_bs g + 6 \<le> g_bs g then Inr r else Inl Panic)"
    and "\<And>a. (\<And>i. i < 6 \<Longrightarrow> a \<noteq> rt_blk g hdr (rt_ref_off (rt_cells g hdr) c + i)) \<Longrightarrow> txn_read g t' a = txn_read g t a"
proof -
  define off where "off = rt_ref_off (rt_cells g hdr) c"
  define six where "six = to_be 4 (fst r) @ to_be 2 (snd r)"
  have len6: "length six = 6" by (simp add: six_def)
  obtain t' where t': "forS (\<lambda>(i, x). rt_poke hdr (off + i) x) (enumerate 0 six) (g, t) = (Inr (), (g, t'))"
    "st_ok g t'"
    "\<And>o2. o2 < 2 ^ 32 \<Longrightarrow> rt_tbl g t' hdr o2
      = (if off + 0 \<le> o2 \<and> o2 < off + 0 + length six then Inr (six ! (o2 - off - 0)) else rt_tbl g t hdr o2)"
    "\<And>a. (\<And>i. 0 \<le> i \<Longrightarrow> i < 0 + length six \<Longrightarrow> a \<noteq> rt_blk g hdr (off + i)) \<Longrightarrow> txn_read g t' a = txn_read g t a"
    by (rule rt_pokes_effect [OF ok bs, of off 0 six hdr]) (use fits rd len6 in \<open>auto simp: off_def\<close>)
  have tbl: "rt_tbl g t' hdr (off + i) = Inr (six ! i)" if "i < 6" for i
    using t'(3) [of "off + i"] that fits len6 by (simp add: off_def)
  obtain buf where buf: "txn_read g t' (rt_blk g hdr off) = Inr buf"
    using tbl [of 0] by (auto simp: rt_tbl_block tryR_Inr_iff)
  have lenb: "length buf = g_bs g" by (rule st_ok_read [OF t'(2) buf])
  have ref: "rt_ref g t' hdr c = Inr r" if inside: "off mod g_bs g + 6 \<le> g_bs g"
  proof -
    have nth: "buf ! (off mod g_bs g + i) = six ! i" if i: "i < 6" for i
    proof -
      have "(off + i) mod g_bs g = off mod g_bs g + i" "(off + i) div g_bs g = off div g_bs g"
        using inside i mod_eqI_nat [of off "g_bs g" i] div_eqI_nat [of off "g_bs g" i] by simp_all
      then show ?thesis using tbl [OF i] buf by (simp add: rt_tbl_block rt_blk_def)
    qed
    have "get_u32 buf (off mod g_bs g) = fst r"
    proof -
      have "map (\<lambda>i. buf ! (off mod g_bs g + i)) [0..<4] = to_be 4 (fst r)"
        by (rule bytes_eqI) (simp_all add: nth six_def nth_append)
      then show ?thesis using inside lenb by (simp add: get_u32_def get_bytes_nth)
    qed
    moreover have "get_u16 buf (off mod g_bs g + 4) = snd r"
    proof -
      have "map (\<lambda>i. buf ! (off mod g_bs g + 4 + i)) [0..<2] = to_be 2 (snd r)"
        using nth [of "4 + i" for i] by (intro bytes_eqI) (simp_all add: six_def nth_append add.assoc)
      then show ?thesis using inside lenb by (simp add: get_u16_def get_bytes_nth)
    qed
    ultimately show ?thesis
      using buf inside lenb by (simp add: rt_ref_def rt_byte_run flip: off_def)
  qed
  show ?thesis
  proof (rule that [OF _ t'(2)])
    show "rt_ref_set hdr c r (g, t) = (Inr (), (g, t'))"
      using t'(1) by (simp add: rt_ref_set_pokes off_def six_def)
    show "rt_ref g t' hdr c = (if rt_ref_off (rt_cells g hdr) c mod g_bs g + 6 \<le> g_bs g then Inr r else Inl Panic)"
      using ref buf lenb by (auto simp: rt_ref_def rt_byte_run guardR_def simp flip: off_def)
  qed (use t'(4) len6 in \<open>auto simp: off_def\<close>)
qed

end
