(* ===== verification/Example.thy ===== *)
theory Example
  imports Crash AllocFacts
begin

text \<open>
  A concrete filesystem for the witnesses: one AG of 64 blocks of 512 bytes at offset 0, its
  journal in blocks 2 to 9, everything but the primary superblock zero. The checksum and hash
  functions of the third-party crates are instantiated by small concrete functions.
\<close>

definition ex_crc :: crc_fun where
  "ex_crc c d = foldl (\<lambda>a b. a * 31 + ucast b + 1) c d"

definition ex_sip :: "u64 \<Rightarrow> u64 \<Rightarrow> buffer list \<Rightarrow> u64" where
  "ex_sip k0 k1 ws = push_bit 62 (of_nat (length ws))"

definition ex_sb :: superblock where
  "ex_sb =
     \<lparr>sb_compat = 0, sb_ro_compat = 0, sb_incompat = 0, sb_blocksize = 512, sb_inodesize = 256,
      sb_uuid = replicate 16 7, sb_disk_name = replicate 16 0, sb_root_ino = blk_addr 0 40,
      sb_next_ag = 1, sb_agmap_offset = 5120, sb_agmap_length = 1024, sb_journal_start = blk_addr 0 2,
      sb_journal_length = 8, sb_kernel_offset = 0, sb_kernel_end = 0, sb_free_blocks = 0,
      sb_rsvd_blocks = 64, sb_full_blocks = 0, sb_gen = 1, sb_journal_seq = 1, sb_journal_head = 5\<rparr>"

definition ex_map :: agmap where
  "ex_map = \<lparr>am_gen = 1, am_entries =
     [\<lparr>ae_flags = 3, ae_length = 64, ae_segs = [\<lparr>sg_block = 0, sg_blocks = 64, sg_dev_offset = 0\<rparr>]\<rparr>]\<rparr>"

definition ex_file :: vfile where
  "ex_file =
     \<lparr>fl_bytes = (\<lambda>i. if i < 512 then sb_to_bytes ex_crc ex_sb ! i else 0), fl_len = 32768\<rparr>"

definition ex_fs :: gofs where
  "ex_fs =
     \<lparr>g_dev = \<lparr>dv_file = ex_file, dv_size = 32768, dv_writable = True, dv_nosync = False,
        dv_recorder = Some (0, [])\<rparr>,
      g_sb = ex_sb, g_map = ex_map, g_hints = (\<lambda>_. None)\<rparr>"

definition ex_txn :: txn where
  "ex_txn = [(blk_addr 0 20, replicate 512 9), (blk_addr 0 21, replicate 512 8)]"

lemma ex_sb_wf: "sb_wf ex_sb"
  by (simp add: sb_wf_def ex_sb_def is_power_of_two_def)

lemma ex_bs [simp]: "sb_blocksize (g_sb ex_fs) = 512" "g_bs ex_fs = 512" "sb_blocksize ex_sb = 512"
  by (simp_all add: ex_fs_def ex_sb_def g_bs_def)

lemma ex_fs_ok: "fs_ok ex_fs"
  using ex_sb_wf
  by (simp add: fs_ok_def ex_fs_def am_layout_ok_def am_segs_def ex_map_def sg_ok_def sg_range_def
      ex_file_def dv_room_def MAX_OFF_def ag0_ok_def)

lemma ex_resolve:
  "l < 64 \<Longrightarrow> am_resolve ex_map (blk_addr 0 l) 512 = Some (ucast l * 512)"
  using am_resolve_one_segment [of 0 ex_map 3 64 0 l 512] by (simp add: ex_map_def)

lemma ex_mapped: "l < 64 \<Longrightarrow> mapped ex_fs (blk_addr 0 l)"
  "l < 64 \<Longrightarrow> place ex_fs (blk_addr 0 l) = ucast l * 512"
  by (simp_all add: mapped_def place_def ex_resolve ex_fs_def ex_sb_def)

lemma ex_backup: "sb_backup ex_fs = blk_addr 0 63"
  by (simp add: sb_backup_def ag0_length_def ex_fs_def ex_map_def)

lemma ex_jaddr:
  assumes "i < 8"
  shows "jaddr ex_fs i = blk_addr 0 (2 + of_nat i)" "jlen ex_fs = 8"
proof -
  have "i \<in> {0, 1, 2, 3, 4, 5, 6, 7}" using assms by auto
  then show "jaddr ex_fs i = blk_addr 0 (2 + of_nat i)"
    by (auto simp: jaddr_def ex_fs_def ex_sb_def blk_addr_def)
  show "jlen ex_fs = 8" by (simp add: jlen_def ex_fs_def ex_sb_def)
qed

lemma ex_journal_range:
  assumes "i < 8"
  shows "(2 + of_nat i :: u32) < 64" "(2 + of_nat i :: u32) \<noteq> 0" "(2 + of_nat i :: u32) \<noteq> 63"
    "unat (2 + of_nat i :: u32) = 2 + i"
proof -
  have "i \<in> {0, 1, 2, 3, 4, 5, 6, 7}" using assms by auto
  then show "(2 + of_nat i :: u32) < 64" "(2 + of_nat i :: u32) \<noteq> 0" "(2 + of_nat i :: u32) \<noteq> 63"
    "unat (2 + of_nat i :: u32) = 2 + i"
    by auto
qed

lemma ex_journal_ok: "journal_ok ex_fs"
proof -
  have "mapped ex_fs (jaddr ex_fs i) \<and> jaddr ex_fs i \<noteq> sb_home \<and> jaddr ex_fs i \<noteq> sb_backup ex_fs"
    if "i < jlen ex_fs" for i
  proof -
    have i: "i < 8" using that ex_jaddr(2) [of 0] by simp
    then show ?thesis
      using ex_journal_range [OF i] ex_mapped(1) by (simp add: ex_jaddr(1) ex_backup sb_home_def)
  qed
  then show ?thesis
    using ex_jaddr(2) [of 0] by (simp add: journal_ok_def ex_fs_def ex_sb_def)
qed

lemma ex_jblock:
  assumes "i < 8"
  shows "jblock ex_fs i = replicate 512 0"
proof -
  note r = ex_journal_range [OF assms]
  have "place ex_fs (jaddr ex_fs i) = ucast (2 + of_nat i :: u32) * 512"
    using ex_jaddr(1) [OF assms] ex_mapped(2) r by simp
  then have "unat (place ex_fs (jaddr ex_fs i)) = (2 + i) * 512"
    using r assms by (simp add: unat_word_ariths)
  then show ?thesis
    by (intro nth_equalityI) (simp_all add: jblock_def fl_read_def ex_fs_def ex_file_def g_bs_def ex_sb_def)
qed

lemma ex_journal_fresh: "journal_fresh ex_fs"
  using ex_jaddr(2) [of 0] ex_jblock uniform_plain [of 512] by (simp add: journal_fresh_def plain_stale)

lemma ex_super_on_disk: "dv_pread (g_dev ex_fs) SB_SIZE 0 = Inr (sb_to_bytes ex_crc (g_sb ex_fs))"
proof -
  have "length (sb_to_bytes ex_crc ex_sb) = 512" by (rule length_sb_to_bytes [OF ex_sb_wf])
  then have "map (\<lambda>i. if i < 512 then sb_to_bytes ex_crc ex_sb ! i else 0) [0..<512] = sb_to_bytes ex_crc ex_sb"
    by (intro nth_equalityI) simp_all
  then show ?thesis by (simp add: dv_pread_def fl_read_def ex_fs_def ex_file_def)
qed

lemma ex_healthy: "healthy ex_crc ex_fs"
  by (simp add: healthy_def ex_fs_ok ex_journal_ok ex_journal_fresh ex_super_on_disk)

lemma ex_target_ok: "target_ok ex_fs (blk_addr 0 20)" "target_ok ex_fs (blk_addr 0 21)"
proof -
  have "2 + of_nat i \<noteq> (20 :: u32) \<and> 2 + of_nat i \<noteq> (21 :: u32)" if "i < 8" for i
  proof -
    have "i \<in> {0, 1, 2, 3, 4, 5, 6, 7}" using that by auto
    then show ?thesis by auto
  qed
  then have "\<not> in_journal ex_fs (blk_addr 0 20)" "\<not> in_journal ex_fs (blk_addr 0 21)"
    using ex_jaddr(2) [of 0] ex_jaddr(1) by (auto simp: in_journal_def)
  then show "target_ok ex_fs (blk_addr 0 20)" "target_ok ex_fs (blk_addr 0 21)"
    by (simp_all add: target_ok_def ex_mapped ex_backup sb_home_def)
qed

lemma ex_txn_fits: "txn_fits ex_fs ex_txn"
  using ex_target_ok ex_jaddr(2) [of 0]
  by (simp add: txn_fits_def ex_txn_def max_targets_def) (simp add: blk_addr_def)

lemma ex_txn_plain: "txn_plain ex_txn"
  by (simp add: txn_plain_def ex_txn_def uniform_plain)

lemma ex_seq: "sb_journal_seq (g_sb ex_fs) = 1"
  by (simp add: ex_fs_def ex_sb_def)

lemma ex_ready: "ready ex_fs ex_txn"
  by (simp add: ready_def ex_fs_ok ex_journal_ok ex_journal_fresh ex_txn_fits ex_txn_plain ex_seq)

lemma ex_recorder: "dv_recorder (g_dev ex_fs) = Some (0, [])"
  by (simp add: ex_fs_def)

subsection \<open>Allocation tables\<close>

text \<open>
  An AG of four cells, the first reserved, and an AG of 100 cells whose root table takes two
  blocks of which the reference of cell 81 crosses the boundary.
\<close>

definition ex_hdr :: ag_header where
  "ex_hdr = \<lparr>ah_num = 7, ah_gen = 1, ah_length = 1024, ah_free_blocks = 768, ah_rsvd_blocks = 256,
     ah_full_blocks = 0, ah_alloc_root = 1, ah_ino_hint = 0, ah_data_hint = 256, ah_tbl_arena = 0\<rparr>"

definition ex_big_hdr :: ag_header where
  "ex_big_hdr = ex_hdr\<lparr>ah_length := 25600\<rparr>"

definition ex_tbl_txn :: txn where
  "ex_tbl_txn = [(blk_addr 7 1, CELL_RSVD # replicate 511 0), (blk_addr 7 2, replicate 512 0)]"

lemma ex_st_ok: "st_ok ex_fs ex_tbl_txn"
  by (simp add: st_ok_def blocks_full_def ex_tbl_txn_def) (simp add: blk_addr_def)

lemma ex_rt_cells: "rt_cells ex_fs ex_hdr = 4" "rt_cells ex_fs ex_big_hdr = 100"
  by (simp_all add: rt_cells_def rt_geometry_def ex_hdr_def ex_big_hdr_def div_ceil_def Let_def)

lemma ex_rt_read: "txn_read ex_fs ex_tbl_txn (rt_blk ex_fs ex_hdr 0) = Inr (CELL_RSVD # replicate 511 0)"
  by (simp add: txn_read_def ex_tbl_txn_def rt_blk_def ex_hdr_def)

lemma ex_rt_state:
  assumes "c < 4"
  shows "rt_state ex_fs ex_tbl_txn ex_hdr c = Inr (if c = 0 then CELL_RSVD else CELL_FREE)"
proof -
  have "c \<in> {0, 1, 2, 3}" using assms by auto
  then show ?thesis
    by (auto simp: rt_state_cell ex_rt_read rt_slot_def cell_get_def)
qed

lemma ex_big_readable:
  assumes "o1 < 1024"
  shows "\<exists>b. txn_read ex_fs ex_tbl_txn (rt_blk ex_fs ex_big_hdr o1) = Inr b"
proof -
  have "o1 div 512 < 2" using assms by simp
  then have "o1 div 512 = 0 \<or> o1 div 512 = 1" by linarith
  then have "rt_blk ex_fs ex_big_hdr o1 = blk_addr 7 1 \<or> rt_blk ex_fs ex_big_hdr o1 = blk_addr 7 2"
    by (auto simp: rt_blk_def ex_big_hdr_def ex_hdr_def)
  then show ?thesis by (auto simp: txn_read_def ex_tbl_txn_def)
qed

end
