(* ===== verification/Extent.thy ===== *)
theory Extent
  imports AllocFacts
begin

text \<open>
  \<open>src/extent.rs\<close>: how file blocks map to device blocks, with inline extents or with an extent
  tree whose root (6 children) is the inode payload and whose nodes (64 children) are blocks.
  A function that takes \<open>&mut Inode\<close> takes the inode and returns it changed; a
  \<open>&mut RootOrNode\<close> argument is returned the same way.

  The recursions follow child pointers on disk. \<open>TREE_FUEL\<close> bounds their depth: levels are
  bytes, so a chain of nodes whose levels fall is shorter than that, and \<open>Diverges\<close> is the
  result for a deeper chain (a cycle of the pointers, where the code overflows its stack).
  File positions stay below \<open>2 ^ 60\<close>, so that position sums do not wrap around.
\<close>

unbundle bit_operations_syntax

definition TREE_MAGIC :: buffer where "TREE_MAGIC = [0x35, 0x46, 0x53, 0x54]"

abbreviation NODE_FANOUT :: nat where "NODE_FANOUT \<equiv> 64"
abbreviation ROOT_FANOUT :: nat where "ROOT_FANOUT \<equiv> 6"
abbreviation NODE_STATES :: nat where "NODE_STATES \<equiv> 24"
abbreviation NODE_CHILDREN :: nat where "NODE_CHILDREN \<equiv> 40"
abbreviation CHILD_REC :: nat where "CHILD_REC \<equiv> 16"
abbreviation TREE_FUEL :: nat where "TREE_FUEL \<equiv> 257"

text \<open>\<open>64 ^ level\<close>, zero from level 11 on (\<open>pow\<close> wraps around).\<close>

definition cov :: "u8 \<Rightarrow> u64" where
  "cov level = 64 ^ unat level"

datatype mapping = Hole u64 | Run u64 u64

type_synonym child = "u32 \<times> u64"

subsection \<open>Root and nodes\<close>

definition root_level :: "buffer \<Rightarrow> u8" where
  "root_level p = p ! 0"

definition root_state :: "buffer \<Rightarrow> nat \<Rightarrow> u8" where
  "root_state p i = cell_get (get_bytes p 2 2) i"

definition root_child :: "buffer \<Rightarrow> nat \<Rightarrow> child" where
  "root_child p i = (get_u32 p (8 + 16 * i), get_u64 p (8 + 16 * i + 8))"

definition root_state_set :: "buffer \<Rightarrow> nat \<Rightarrow> u8 \<Rightarrow> buffer" where
  "root_state_set p i st = put_bytes p 2 (cell_set (get_bytes p 2 2) i st)"

definition root_child_set :: "buffer \<Rightarrow> nat \<Rightarrow> u32 \<Rightarrow> u64 \<Rightarrow> buffer" where
  "root_child_set p i blocks addr = put_u64 (put_u32 p (8 + 16 * i) blocks) (8 + 16 * i + 8) addr"

definition root_init :: "u8 \<Rightarrow> buffer" where
  "root_init level = (replicate INODE_PAYLOAD 0)[0 := level]"

definition node_level :: "buffer \<Rightarrow> u8" where
  "node_level b = b ! 16"

definition node_state :: "buffer \<Rightarrow> nat \<Rightarrow> u8" where
  "node_state b i = cell_get (get_bytes b NODE_STATES 16) i"

definition node_child :: "buffer \<Rightarrow> nat \<Rightarrow> child" where
  "node_child b i = (let off = NODE_CHILDREN + CHILD_REC * i in (get_u32 b off, get_u64 b (off + 8)))"

definition node_state_set :: "buffer \<Rightarrow> nat \<Rightarrow> u8 \<Rightarrow> buffer" where
  "node_state_set b i st = put_bytes b NODE_STATES (cell_set (get_bytes b NODE_STATES 16) i st)"

definition node_child_set :: "buffer \<Rightarrow> nat \<Rightarrow> u32 \<Rightarrow> u64 \<Rightarrow> buffer" where
  "node_child_set b i blocks addr =
     (let off = NODE_CHILDREN + CHILD_REC * i in put_u64 (put_u32 b off blocks) (off + 8) addr)"

text \<open>Slices past the 64 states or past the end of a small block panic.\<close>

definition node_at :: "buffer \<Rightarrow> nat \<Rightarrow> (u8 \<times> child) result" where
  "node_at b i = guardR (i < NODE_FANOUT \<and> NODE_CHILDREN + CHILD_REC * i + CHILD_REC \<le> length b) Panic
     (Inr (node_state b i, node_child b i))"

definition node_put :: "nat \<Rightarrow> u8 \<Rightarrow> u32 \<Rightarrow> u64 \<Rightarrow> buffer \<Rightarrow> buffer result" where
  "node_put i st blocks addr b =
     guardR (i < NODE_FANOUT \<and> NODE_CHILDREN + CHILD_REC * i + CHILD_REC \<le> length b) Panic
       (Inr (node_child_set (node_state_set b i st) i blocks addr))"

definition node_read :: "crc_fun \<Rightarrow> gofs \<Rightarrow> txn \<Rightarrow> u64 \<Rightarrow> buffer result" where
  "node_read crc g t addr =
     tryR (txn_read g t addr) (\<lambda>buf.
       if get_bytes buf 0 4 \<noteq> TREE_MAGIC then Inl (Msg ''block {addr:#x}: not an extent tree node'')
       else if get_u32 buf 4 \<noteq> csum crc buf 4
       then Inl (Msg ''block {addr:#x}: tree node checksum mismatch'')
       else Inr buf)"

definition node_write :: "crc_fun \<Rightarrow> u64 \<Rightarrow> buffer \<Rightarrow> unit fsop" where
  "node_write crc addr buf = writeF addr (seal crc (put_u64 buf 8 (get_u64 buf 8 + 1)))"

definition node_alloc :: "crc_fun \<Rightarrow> u32 \<Rightarrow> u8 \<Rightarrow> u64 fsop" where
  "node_alloc crc ag level =
     bindS (alloc_block crc ag) (\<lambda>addr.
     bindS (askF (\<lambda>g t. Inr (replicate (g_bs g) 0))) (\<lambda>zeros.
     bindS (node_write crc addr ((put_bytes zeros 0 TREE_MAGIC)[16 := level])) (\<lambda>_.
     retS addr)))"

subsection \<open>Lookup\<close>

definition run_in_child :: "u64 \<Rightarrow> u64 \<Rightarrow> u64 \<Rightarrow> u64 \<Rightarrow> mapping" where
  "run_in_child blocks addr rel c =
     (if rel < blocks then Run (addr + rel) (blocks - rel) else Hole (c - rel))"

primrec node_lookup :: "nat \<Rightarrow> crc_fun \<Rightarrow> gofs \<Rightarrow> txn \<Rightarrow> u64 \<Rightarrow> u64 \<Rightarrow> mapping result" where
  "node_lookup 0 = (\<lambda>crc g t addr rel. Inl Diverges)"
| "node_lookup (Suc fuel) = (\<lambda>crc g t addr rel.
     tryR (node_read crc g t addr) (\<lambda>buf.
     let c = cov (node_level buf) in
     guardR (c \<noteq> 0) Panic
       (tryR (node_at buf (unat (rel div c))) (\<lambda>(st, blocks, a).
        let sub = rel mod c in
        if st = CELL_FREE then Inr (Hole (c - sub))
        else if st = CELL_FULL then Inr (run_in_child (ucast blocks) a sub c)
        else if st = CELL_REFINED then node_lookup fuel crc g t a sub
        else Inl (Msg ''bad node child state {s}'')))))"

definition covers :: "u64 \<Rightarrow> extent \<Rightarrow> bool" where
  "covers fblock e \<longleftrightarrow> ex_file_block e \<le> fblock \<and> fblock < ex_file_block e + ucast (ex_blocks e)"

definition extent_lookup :: "extent list \<Rightarrow> u64 \<Rightarrow> mapping" where
  "extent_lookup es fblock =
     (case find (covers fblock) es of
        Some e \<Rightarrow> let off = fblock - ex_file_block e in Run (ex_blk e + off) (ucast (ex_blocks e) - off)
      | None \<Rightarrow> Hole (fold min (filter (\<lambda>b. fblock < b) (map ex_file_block es)) (- 1) - fblock))"

definition map_lookup :: "crc_fun \<Rightarrow> gofs \<Rightarrow> txn \<Rightarrow> inode \<Rightarrow> u64 \<Rightarrow> mapping result" where
  "map_lookup crc g t ino fblock =
     (let f = in_format ino; p = in_payload ino in
      if f = FMT_EMPTY \<or> f = FMT_EMBED then Inr (Hole (- 1))
      else if f = FMT_EXTENT then Inr (extent_lookup (extents_parse p) fblock)
      else if f = FMT_TREE then
        let c = cov (root_level p) in
        guardR (c \<noteq> 0) Panic
          (let i = unat (fblock div c); rel = fblock mod c in
           if ROOT_FANOUT \<le> i then Inr (Hole (- 1))
           else
             let st = root_state p i; (blocks, addr) = root_child p i in
             if st = CELL_FREE then Inr (Hole (c - rel))
             else if st = CELL_FULL then Inr (run_in_child (ucast blocks) addr rel c)
             else if st = CELL_REFINED then node_lookup TREE_FUEL crc g t addr rel
             else Inl (Msg ''bad root child state {s}''))
      else Inl (Msg ''format {f}: no block mapping''))"

subsection \<open>The children a range of file blocks falls into\<close>

text \<open>
  The rounds of the loops \<open>while pos < end\<close> over the children of one node at \<open>base\<close>, whose
  children cover \<open>c\<close> blocks: child index, start of the child, and the part of the range in it.
\<close>

function split_range :: "u64 \<Rightarrow> u64 \<Rightarrow> u64 \<Rightarrow> u64 \<Rightarrow> (nat \<times> u64 \<times> u64 \<times> u64) list" where
  "split_range c base from to =
     (if from < to then
        let i = (from - base) div c;
            child_start = base + i * c;
            want_end = min to (child_start + c)
        in if from < want_end
           then (unat i, child_start, from, want_end) # split_range c base want_end to
           else []
      else [])"
  by pat_completeness auto
termination
  by (relation "measure (\<lambda>(c, base, from, to). unat to - unat from)")
    (auto simp: word_less_nat_alt min_def split: if_splits)

declare split_range.simps [simp del]

subsection \<open>Releasing\<close>

text \<open>The number of data blocks freed; the node blocks themselves are not counted.\<close>

primrec free_child :: "nat \<Rightarrow> crc_fun \<Rightarrow> u8 \<Rightarrow> u64 \<Rightarrow> u64 \<Rightarrow> u64 fsop" where
  "free_child 0 = (\<lambda>crc st blocks addr. failS Diverges)"
| "free_child (Suc fuel) = (\<lambda>crc st blocks addr.
     if st = CELL_FREE then retS 0
     else if st = CELL_FULL then bindS (free_extent crc addr (unat blocks)) (\<lambda>_. retS blocks)
     else if st = CELL_REFINED then
       bindS (askF (\<lambda>g t. node_read crc g t addr)) (\<lambda>buf.
       bindS (foldS (\<lambda>i freed.
         bindS (askF (\<lambda>g t. node_at buf i)) (\<lambda>(s, b, a).
         bindS (free_child fuel crc s (ucast b) a) (\<lambda>k. retS (freed + k)))) [0..<NODE_FANOUT] 0) (\<lambda>freed.
       bindS (free_extent crc addr 1) (\<lambda>_. retS freed)))
     else failS (Msg ''bad child state {s}''))"

definition map_free_all :: "crc_fun \<Rightarrow> inode \<Rightarrow> inode fsop" where
  "map_free_all crc ino =
     (let f = in_format ino; p = in_payload ino in
      bindS (if f = FMT_EMPTY \<or> f = FMT_EMBED then retS ()
             else if f = FMT_EXTENT
             then forS (\<lambda>e. free_extent crc (ex_blk e) (unat (ex_blocks e))) (extents_parse p)
             else if f = FMT_TREE then
               forS (\<lambda>i. let (blocks, addr) = root_child p i in
                 bindS (free_child TREE_FUEL crc (root_state p i) (ucast blocks) addr) (\<lambda>_. retS ())) [0..<ROOT_FANOUT]
             else failS (Msg ''format {f}: cannot free'')) (\<lambda>_.
      retS (ino\<lparr>in_format := FMT_EMPTY, in_payload := replicate INODE_PAYLOAD 0,
        in_nblocks := 0, in_size := 0\<rparr>)))"

subsection \<open>Truncation\<close>

text \<open>\<open>keep.div_ceil(g) * g\<close> cut to \<open>blocks\<close>; with the kept length comes the running total freed.\<close>

definition trim_run :: "crc_fun \<Rightarrow> u64 \<Rightarrow> u64 \<Rightarrow> u64 \<Rightarrow> u64 \<Rightarrow> (u64 \<times> u64) fsop" where
  "trim_run crc addr blocks keep freed =
     (if blocks \<le> keep then retS (blocks, freed)
      else
        bindS (askF (\<lambda>g t. granule_at crc g t addr)) (\<lambda>gr.
        let keep_r = min (of_nat (div_ceil (unat keep) gr * gr)) blocks in
        if keep_r < blocks
        then bindS (free_extent crc (addr + keep_r) (unat (blocks - keep_r))) (\<lambda>_.
             retS (keep_r, freed + (blocks - keep_r)))
        else retS (keep_r, freed)))"

text \<open>A changed child, if it changed, and the total freed.\<close>

primrec trim_child :: "nat \<Rightarrow> crc_fun \<Rightarrow> u8 \<Rightarrow> u64 \<Rightarrow> u64 \<Rightarrow> u8 \<Rightarrow> u64 \<Rightarrow> u64 \<Rightarrow> u64
    \<Rightarrow> ((u8 \<times> u64 \<times> u64) option \<times> u64) fsop" where
  "trim_child 0 = (\<lambda>crc st blocks addr level child_start cutoff freed. failS Diverges)"
| "trim_child (Suc fuel) = (\<lambda>crc st blocks addr level child_start cutoff freed.
     let c = cov level in
     if cutoff \<le> child_start then
       if st = CELL_FREE then retS (None, freed)
       else bindS (free_child TREE_FUEL crc st blocks addr) (\<lambda>k. retS (Some (CELL_FREE, 0, 0), freed + k))
     else if child_start + c \<le> cutoff then retS (None, freed)
     else if st = CELL_FREE then retS (None, freed)
     else if st = CELL_FULL then
       bindS (trim_run crc addr blocks (cutoff - child_start) freed) (\<lambda>(kept, freed).
       retS (if kept \<noteq> blocks then Some (CELL_FULL, kept, addr) else None, freed))
     else if st = CELL_REFINED then
       bindS (askF (\<lambda>g t. node_read crc g t addr)) (\<lambda>buf.
       let nl = node_level buf; nc = cov nl in
       bindS (foldS (\<lambda>i (buf, changed, freed).
         bindS (askF (\<lambda>g t. node_at buf i)) (\<lambda>(s, b, a).
         bindS (trim_child fuel crc s (ucast b) a nl (child_start + of_nat i * nc) cutoff freed) (\<lambda>(r, freed).
         case r of
           None \<Rightarrow> retS (buf, changed, freed)
         | Some (nst, nb, na) \<Rightarrow>
             bindS (askF (\<lambda>g t. node_put i nst (ucast nb) na buf)) (\<lambda>buf. retS (buf, True, freed)))))
         [0..<NODE_FANOUT] (buf, False, freed)) (\<lambda>(buf, changed, freed).
       if list_all (\<lambda>i. node_state buf i = CELL_FREE) [0..<NODE_FANOUT]
       then bindS (free_extent crc addr 1) (\<lambda>_. retS (Some (CELL_FREE, 0, 0), freed))
       else if changed then bindS (node_write crc addr buf) (\<lambda>_. retS (None, freed))
       else retS (None, freed)))
     else failS (Msg ''bad child state {s}''))"

definition trim_extent :: "crc_fun \<Rightarrow> u64 \<Rightarrow> extent \<Rightarrow> extent list \<times> u64 \<Rightarrow> (extent list \<times> u64) fsop" where
  "trim_extent crc cutoff e = (\<lambda>(keep, freed).
     if cutoff \<le> ex_file_block e then
       bindS (free_extent crc (ex_blk e) (unat (ex_blocks e))) (\<lambda>_.
       retS (keep, freed + ucast (ex_blocks e)))
     else if cutoff < ex_file_block e + ucast (ex_blocks e) then
       bindS (trim_run crc (ex_blk e) (ucast (ex_blocks e)) (cutoff - ex_file_block e) freed) (\<lambda>(kept, freed).
       retS (keep @ [e\<lparr>ex_blocks := ucast kept\<rparr>], freed))
     else retS (keep @ [e], freed))"

definition map_truncate :: "crc_fun \<Rightarrow> inode \<Rightarrow> u64 \<Rightarrow> (inode \<times> u64) fsop" where
  "map_truncate crc ino cutoff =
     (let f = in_format ino; p = in_payload ino in
      if f = FMT_EMPTY \<or> f = FMT_EMBED then retS (ino, 0)
      else if f = FMT_EXTENT then
        bindS (foldS (trim_extent crc cutoff) (extents_parse p) ([], 0)) (\<lambda>(keep, freed).
        bindS (askF (\<lambda>g t. extents_store keep)) (\<lambda>p. retS (ino\<lparr>in_payload := p\<rparr>, freed)))
      else if f = FMT_TREE then
        let level = root_level p; c = cov level in
        bindS (foldS (\<lambda>i (p, freed).
          let st = root_state p i; (blocks, addr) = root_child p i in
          bindS (trim_child TREE_FUEL crc st (ucast blocks) addr level (of_nat i * c) cutoff freed) (\<lambda>(r, freed).
          case r of
            None \<Rightarrow> retS (p, freed)
          | Some (nst, nb, na) \<Rightarrow> retS (root_child_set (root_state_set p i nst) i (ucast nb) na, freed)))
          [0..<ROOT_FANOUT] (p, 0)) (\<lambda>(p, freed). retS (ino\<lparr>in_payload := p\<rparr>, freed))
      else failS (Msg ''format {f}: cannot truncate''))"

subsection \<open>Growing a mapping\<close>

text \<open>The accessor over the root and a node. Writing a root returns the payload changed.\<close>

datatype root_or_node = Root buffer | Node u64

text \<open>The payload has room for a seventh child; \<open>root_child\<close> of the next one panics.\<close>

fun rn_get :: "crc_fun \<Rightarrow> gofs \<Rightarrow> txn \<Rightarrow> root_or_node \<Rightarrow> nat \<Rightarrow> (u8 \<times> child) result" where
  "rn_get crc g t (Root p) i = guardR (i < 7) Panic (Inr (root_state p i, root_child p i))"
| "rn_get crc g t (Node addr) i = tryR (node_read crc g t addr) (\<lambda>buf. node_at buf i)"

fun rn_set :: "crc_fun \<Rightarrow> root_or_node \<Rightarrow> nat \<Rightarrow> u8 \<Rightarrow> u32 \<Rightarrow> u64 \<Rightarrow> root_or_node fsop" where
  "rn_set crc (Root p) i st blocks addr =
     retS (Root (root_child_set (root_state_set p i st) i blocks addr))"
| "rn_set crc (Node n) i st blocks addr =
     bindS (askF (\<lambda>g t. node_read crc g t n)) (\<lambda>buf.
     bindS (askF (\<lambda>g t. node_put i st blocks addr buf)) (\<lambda>buf.
     bindS (node_write crc n buf) (\<lambda>_. retS (Node n))))"

text \<open>A run spread over the children of a fresh node; the 65th child panics.\<close>

fun spread :: "u64 \<Rightarrow> u64 \<Rightarrow> u64 \<Rightarrow> nat list \<Rightarrow> u64 \<Rightarrow> buffer \<Rightarrow> buffer result" where
  "spread c blocks addr [] done buf = (if done < blocks then Inl Panic else Inr buf)"
| "spread c blocks addr (i # is) done buf =
     (if done < blocks then
        let take = min c (blocks - done) in
        tryR (node_put i CELL_FULL (ucast take) (addr + done) buf) (spread c blocks addr is (done + take))
      else Inr buf)"

definition redistribute :: "crc_fun \<Rightarrow> u64 \<Rightarrow> u64 \<Rightarrow> u64 \<Rightarrow> unit fsop" where
  "redistribute crc node blocks addr =
     bindS (askF (\<lambda>g t. node_read crc g t node)) (\<lambda>buf.
     bindS (askF (\<lambda>g t. spread (cov (node_level buf)) blocks addr [0..<NODE_FANOUT] 0 buf)) (\<lambda>buf.
     node_write crc node buf))"

type_synonym fresh_runs = "(u64 \<times> u64) list"

text \<open>
  The loop over the children of a node, given what to do with one child. The level is read
  once; a level past 10 has coverage 0 and the division panics.
\<close>

definition descend ::
  "crc_fun \<Rightarrow> (root_or_node \<Rightarrow> nat \<Rightarrow> u8 \<Rightarrow> u64 \<Rightarrow> u64 \<Rightarrow> u64 \<Rightarrow> 'b \<Rightarrow> (root_or_node \<times> 'b) fsop)
    \<Rightarrow> u64 \<Rightarrow> u64 \<Rightarrow> u64 \<Rightarrow> u64 \<Rightarrow> 'b \<Rightarrow> 'b fsop" where
  "descend crc child node node_start from to b =
     bindS (askF (\<lambda>g t. node_read crc g t node)) (\<lambda>buf.
     let level = node_level buf; c = cov level in
     bindS (ensureS (from < to \<longrightarrow> c \<noteq> 0) Panic) (\<lambda>_.
     foldS (\<lambda>(i, child_start, pos, want_end) b.
       bindS (child (Node node) i level child_start pos want_end b) (\<lambda>(_, b). retS b))
       (split_range c node_start from to) b))"

primrec child_ensure :: "nat \<Rightarrow> crc_fun \<Rightarrow> u32 \<Rightarrow> root_or_node \<Rightarrow> nat \<Rightarrow> u8 \<Rightarrow> u64 \<Rightarrow> u64 \<Rightarrow> u64
    \<Rightarrow> fresh_runs \<Rightarrow> (root_or_node \<times> fresh_runs) fsop" where
  "child_ensure 0 = (\<lambda>crc ag parent i level child_start from to fresh. failS Diverges)"
| "child_ensure (Suc fuel) = (\<lambda>crc ag parent i level child_start from to fresh.
     bindS (askF (\<lambda>g t. rn_get crc g t parent i)) (\<lambda>(state, blocks, addr).
     let below = (\<lambda>parent node.
       bindS (descend crc (child_ensure fuel crc ag) node child_start from to fresh) (\<lambda>fresh.
       retS (parent, fresh))) in
     if state = CELL_FULL \<and> to - child_start \<le> ucast blocks then retS (parent, fresh)
     else if state = CELL_FREE \<and> from = child_start then
       let want = to - child_start in
       matchS (alloc_extent crc ag (unat want))
         (\<lambda>blk. bindS (rn_set crc parent i CELL_FULL (ucast want) blk) (\<lambda>parent.
            retS (parent, fresh @ [(child_start, want)])))
         (\<lambda>e. if 0 < level then
              bindS (node_alloc crc ag (level - 1)) (\<lambda>node.
              bindS (rn_set crc parent i CELL_REFINED 0 node) (\<lambda>parent. below parent node))
            else failS e)
     else if state = CELL_FREE \<or> state = CELL_FULL then
       bindS (ensureS (level \<noteq> 0) (Msg ''level-0 child cannot be refined'')) (\<lambda>_.
       bindS (node_alloc crc ag (level - 1)) (\<lambda>node.
       bindS (if state = CELL_FULL then redistribute crc node (ucast blocks) addr else retS ()) (\<lambda>_.
       bindS (rn_set crc parent i CELL_REFINED 0 node) (\<lambda>parent. below parent node))))
     else if state = CELL_REFINED then below parent addr
     else failS (Msg ''bad child state {s}'')))"

text \<open>The root payload the root accessor gives back.\<close>

fun root_payload :: "root_or_node \<Rightarrow> buffer \<Rightarrow> buffer" where
  "root_payload (Root p) q = p"
| "root_payload (Node n) q = q"

subsection \<open>Recording runs that are already allocated\<close>

primrec insert_in_child :: "nat \<Rightarrow> crc_fun \<Rightarrow> u32 \<Rightarrow> u64 \<Rightarrow> u64 \<Rightarrow> root_or_node \<Rightarrow> nat \<Rightarrow> u8 \<Rightarrow> u64 \<Rightarrow> u64 \<Rightarrow> u64
    \<Rightarrow> unit \<Rightarrow> (root_or_node \<times> unit) fsop" where
  "insert_in_child 0 = (\<lambda>crc ag fblock blk0 parent i level child_start f to u. failS Diverges)"
| "insert_in_child (Suc fuel) = (\<lambda>crc ag fblock blk0 parent i level child_start f to u.
     let blk = blk0 + (f - fblock); len = to - f in
     bindS (askF (\<lambda>g t. rn_get crc g t parent i)) (\<lambda>(state, blocks, addr).
     let below = (\<lambda>parent node.
       bindS (descend crc (insert_in_child fuel crc ag fblock blk0) node child_start f to ()) (\<lambda>u.
       retS (parent, u))) in
     if state = CELL_FREE \<and> f = child_start then
       bindS (rn_set crc parent i CELL_FULL (ucast len) blk) (\<lambda>parent. retS (parent, ()))
     else if state = CELL_FULL \<and> f = child_start + ucast blocks \<and> blk = addr + ucast blocks then
       bindS (rn_set crc parent i CELL_FULL (blocks + ucast len) addr) (\<lambda>parent. retS (parent, ()))
     else if state = CELL_FREE \<or> state = CELL_FULL then
       bindS (ensureS (level \<noteq> 0) (Msg ''insert_run: level-0 collision'')) (\<lambda>_.
       bindS (node_alloc crc ag (level - 1)) (\<lambda>node.
       bindS (if state = CELL_FULL then redistribute crc node (ucast blocks) addr else retS ()) (\<lambda>_.
       bindS (rn_set crc parent i CELL_REFINED 0 node) (\<lambda>parent. below parent node))))
     else if state = CELL_REFINED then below parent addr
     else failS (Msg ''bad child state {s}'')))"

definition insert_run :: "crc_fun \<Rightarrow> u32 \<Rightarrow> inode \<Rightarrow> u64 \<Rightarrow> u64 \<Rightarrow> u64 \<Rightarrow> inode fsop" where
  "insert_run crc ag ino fblock blk len =
     (let level = root_level (in_payload ino); c = cov level in
      bindS (ensureS (len \<noteq> 0 \<longrightarrow> c \<noteq> 0) Panic) (\<lambda>_.
      bindS (foldS (\<lambda>(i, child_start, f, to) payload.
        bindS (insert_in_child TREE_FUEL crc ag fblock blk (Root payload) i level child_start f to ()) (\<lambda>(r, _).
        retS (root_payload r payload)))
        (split_range c 0 fblock (fblock + len)) (in_payload ino)) (\<lambda>payload.
      retS (ino\<lparr>in_payload := payload\<rparr>))))"

text \<open>The lowest root level that covers the extents; past level 10 the search never ends.\<close>

definition tree_level :: "u64 \<Rightarrow> u8 result" where
  "tree_level needed =
     (case find (\<lambda>l. needed \<le> of_nat ROOT_FANOUT * cov (of_nat l)) [0..<11] of
        None \<Rightarrow> Inl Diverges
      | Some l \<Rightarrow> Inr (of_nat l))"

definition extents_end :: "extent list \<Rightarrow> u64" where
  "extents_end es =
     (if es = [] then 1 else fold max (map (\<lambda>e. ex_file_block e + ucast (ex_blocks e)) es) 0)"

definition to_tree :: "crc_fun \<Rightarrow> u32 \<Rightarrow> inode \<Rightarrow> extent list \<Rightarrow> inode fsop" where
  "to_tree crc ag ino es =
     bindS (askF (\<lambda>g t. tree_level (extents_end es))) (\<lambda>level.
     foldS (\<lambda>e ino. insert_run crc ag ino (ex_file_block e) (ex_blk e) (ucast (ex_blocks e))) es
       (ino\<lparr>in_format := FMT_TREE, in_payload := root_init level\<rparr>))"

subsection \<open>Inline extents\<close>

text \<open>The first extent that ends where the new run begins, in the file and on the device, grows.\<close>

fun merge_run :: "u64 \<Rightarrow> u64 \<Rightarrow> u64 \<Rightarrow> extent list \<Rightarrow> extent list" where
  "merge_run pos blk want [] = [\<lparr>ex_file_block = pos, ex_blk = blk, ex_blocks = ucast want\<rparr>]"
| "merge_run pos blk want (e # es) =
     (if ex_file_block e + ucast (ex_blocks e) = pos \<and> ex_blk e + ucast (ex_blocks e) = blk
      then e\<lparr>ex_blocks := ex_blocks e + ucast want\<rparr> # es
      else e # merge_run pos blk want es)"

definition next_extent :: "extent list \<Rightarrow> u64 \<Rightarrow> u64 \<Rightarrow> u64" where
  "next_extent es pos to =
     (case filter (\<lambda>b. pos < b) (map ex_file_block es) of [] \<Rightarrow> to | b # bs \<Rightarrow> fold min bs b)"

text \<open>
  The loop fills the gaps of the range, one allocation a gap. The value is the extents, the
  fresh runs, and whether the loop got to its end (the early return is after a failed
  allocation). Every round moves on, so the length of the range is enough fuel.
\<close>

fun ensure_loop :: "crc_fun \<Rightarrow> u32 \<Rightarrow> nat \<Rightarrow> extent list \<Rightarrow> u64 \<Rightarrow> u64 \<Rightarrow> fresh_runs
    \<Rightarrow> (extent list \<times> fresh_runs \<times> bool) fsop" where
  "ensure_loop crc ag 0 es pos to fresh = (if pos < to then failS Diverges else retS (es, fresh, True))"
| "ensure_loop crc ag (Suc fuel) es pos to fresh =
     (if pos < to then
        case find (covers pos) es of
          Some e \<Rightarrow> ensure_loop crc ag fuel es (ex_file_block e + ucast (ex_blocks e)) to fresh
        | None \<Rightarrow>
            let stop = min (next_extent es pos to) to; want = stop - pos in
            matchS (alloc_extent crc ag (unat want))
              (\<lambda>blk. ensure_loop crc ag fuel (merge_run pos blk want es) stop to (fresh @ [(pos, want)]))
              (\<lambda>e. if es = [] then failS e else retS (es, fresh, False))
      else retS (es, fresh, True))"

definition extent_ensure :: "crc_fun \<Rightarrow> u32 \<Rightarrow> inode \<Rightarrow> u64 \<Rightarrow> u64 \<Rightarrow> (inode \<times> fresh_runs) fsop" where
  "extent_ensure crc ag ino fblock n =
     bindS (ensure_loop crc ag (unat n) (extents_parse (in_payload ino)) fblock (fblock + n) []) (\<lambda>(es, fresh, through).
     if \<not> through \<or> MAX_INLINE_EXTENTS < length es
     then bindS (to_tree crc ag ino es) (\<lambda>ino. retS (ino, fresh))
     else bindS (askF (\<lambda>g t. extents_store (sort_key ex_file_block es))) (\<lambda>p.
          retS (ino\<lparr>in_payload := p\<rparr>, fresh)))"

subsection \<open>Ensuring a range\<close>

definition root_grow :: "crc_fun \<Rightarrow> u32 \<Rightarrow> inode \<Rightarrow> inode fsop" where
  "root_grow crc ag ino =
     (let p = in_payload ino; level = root_level p;
          used = filter (\<lambda>i. root_state p i \<noteq> CELL_FREE) [0..<ROOT_FANOUT]
      in bindS (node_alloc crc ag level) (\<lambda>node.
         bindS (askF (\<lambda>g t. node_read crc g t node)) (\<lambda>buf.
         bindS (foldS (\<lambda>i buf. askF (\<lambda>g t.
           node_put i (root_state p i) (fst (root_child p i)) (snd (root_child p i)) buf)) used buf) (\<lambda>buf.
         bindS (node_write crc node buf) (\<lambda>_.
         if used \<noteq> []
         then retS (ino\<lparr>in_payload := root_child_set (root_state_set (root_init (level + 1)) 0 CELL_REFINED) 0 0 node\<rparr>)
         else bindS (free_extent crc node 1) (\<lambda>_. retS (ino\<lparr>in_payload := root_init (level + 1)\<rparr>)))))))"

text \<open>Eleven levels cover every file; a longer range would raise the root for ever.\<close>

fun grow_root :: "crc_fun \<Rightarrow> u32 \<Rightarrow> nat \<Rightarrow> u64 \<Rightarrow> inode \<Rightarrow> inode fsop" where
  "grow_root crc ag 0 need ino = failS Diverges"
| "grow_root crc ag (Suc fuel) need ino =
     (if of_nat ROOT_FANOUT * cov (root_level (in_payload ino)) < need
      then bindS (root_grow crc ag ino) (grow_root crc ag fuel need)
      else retS ino)"

text \<open>A covering run: file block, device block, length, newly allocated.\<close>

type_synonym run = "u64 \<times> u64 \<times> u64 \<times> bool"

fun collect_loop :: "crc_fun \<Rightarrow> gofs \<Rightarrow> txn \<Rightarrow> inode \<Rightarrow> fresh_runs \<Rightarrow> nat \<Rightarrow> u64 \<Rightarrow> u64 \<Rightarrow> run list result" where
  "collect_loop crc g t ino fresh 0 pos to = (if pos < to then Inl Diverges else Inr [])"
| "collect_loop crc g t ino fresh (Suc fuel) pos to =
     (if pos < to then
        tryR (map_lookup crc g t ino pos) (\<lambda>m. case m of
          Hole _ \<Rightarrow> Inl (Msg ''collect_runs: hole at {pos} after ensure'')
        | Run blk len \<Rightarrow>
            let take = min len (to - pos);
                is_fresh = list_ex (\<lambda>(fs, fl). fs \<le> pos \<and> pos < fs + fl) fresh
            in tryR (collect_loop crc g t ino fresh fuel (pos + take) to) (\<lambda>rest.
               Inr ((pos, blk, take, is_fresh) # rest)))
      else Inr [])"

definition collect_runs :: "crc_fun \<Rightarrow> gofs \<Rightarrow> txn \<Rightarrow> inode \<Rightarrow> u64 \<Rightarrow> u64 \<Rightarrow> fresh_runs \<Rightarrow> run list result" where
  "collect_runs crc g t ino fblock n fresh = collect_loop crc g t ino fresh (unat n) fblock (fblock + n)"

definition tree_ensure :: "crc_fun \<Rightarrow> u32 \<Rightarrow> inode \<Rightarrow> u64 \<Rightarrow> u64 \<Rightarrow> fresh_runs \<Rightarrow> (inode \<times> run list) fsop" where
  "tree_ensure crc ag ino fblock n fresh =
     bindS (grow_root crc ag 12 (fblock + n) ino) (\<lambda>ino.
     let level = root_level (in_payload ino); c = cov level in
     bindS (ensureS (n \<noteq> 0 \<longrightarrow> c \<noteq> 0) Panic) (\<lambda>_.
     bindS (foldS (\<lambda>(i, child_start, pos, want_end) (payload, fresh).
       bindS (child_ensure TREE_FUEL crc ag (Root payload) i level child_start pos want_end fresh) (\<lambda>(r, fresh).
       retS (root_payload r payload, fresh)))
       (split_range c 0 fblock (fblock + n)) (in_payload ino, fresh)) (\<lambda>(payload, fresh).
     let ino = ino\<lparr>in_payload := payload\<rparr> in
     bindS (askF (\<lambda>g t. collect_runs crc g t ino fblock n fresh)) (\<lambda>runs. retS (ino, runs)))))"

definition mapped_ensure :: "crc_fun \<Rightarrow> u32 \<Rightarrow> inode \<Rightarrow> u64 \<Rightarrow> u64 \<Rightarrow> (inode \<times> run list) fsop" where
  "mapped_ensure crc ag ino fblock n =
     bindS (if in_format ino = FMT_EXTENT then extent_ensure crc ag ino fblock n else retS (ino, [])) (\<lambda>(ino, fresh).
     if in_format ino = FMT_EXTENT
     then bindS (askF (\<lambda>g t. collect_runs crc g t ino fblock n fresh)) (\<lambda>runs. retS (ino, runs))
     else tree_ensure crc ag ino fblock n fresh)"

text \<open>Every other format starts over as an empty list of inline extents.\<close>

definition map_ensure :: "crc_fun \<Rightarrow> u32 \<Rightarrow> inode \<Rightarrow> u64 \<Rightarrow> u64 \<Rightarrow> (inode \<times> run list) fsop" where
  "map_ensure crc ag ino fblock n =
     (if in_format ino = FMT_EXTENT \<or> in_format ino = FMT_TREE then mapped_ensure crc ag ino fblock n
      else bindS (askF (\<lambda>g t. extents_store [])) (\<lambda>p.
           mapped_ensure crc ag (ino\<lparr>in_format := FMT_EXTENT, in_payload := p\<rparr>) fblock n))"

end
