(* ===== verification/Dir.thy ===== *)
theory Dir
  imports Extent "HOL-Library.List_Lexorder"
begin

text \<open>
  \<open>src/dir.rs\<close>: directories. Small ones are entries in the inode payload; on overflow they
  become extendible hash tables, a header block (file block 0) and buckets (file block 1 + n).
  The SipHash-2-4 of the siphasher crate is a parameter, a function of the two keys and the
  slices written. Shift distances are taken modulo the width, as the code's shifts are.
\<close>

unbundle bit_operations_syntax

definition DIRH_MAGIC :: buffer where "DIRH_MAGIC = [0x35, 0x46, 0x53, 0x44]"
definition BUCKET_MAGIC :: buffer where "BUCKET_MAGIC = [0x35, 0x46, 0x53, 0x62]"

abbreviation MAX_DEPTH :: u8 where "MAX_DEPTH \<equiv> 9"
abbreviation DH_HDR :: nat where "DH_HDR \<equiv> 24"
abbreviation BK_HDR :: nat where "BK_HDR \<equiv> 24"

type_synonym hash_fun = "u64 \<Rightarrow> u64 \<Rightarrow> buffer list \<Rightarrow> u64"

definition hash_name :: "hash_fun \<Rightarrow> buffer \<Rightarrow> rstring \<Rightarrow> u64" where
  "hash_name sip uuid name =
     sip (from_be (rev (get_bytes uuid 0 8))) (from_be (rev (get_bytes uuid 8 8)))
       (map (to_be 2) (encode_utf16 name))"

definition bucket_index :: "u64 \<Rightarrow> u8 \<Rightarrow> nat" where
  "bucket_index hash depth =
     (if depth = 0 then 0 else unat (drop_bit (unat (64 - depth) mod 64) hash))"

definition entry_size :: "nat \<Rightarrow> nat" where
  "entry_size name_units = (20 + 2 * name_units + 3) div 4 * 4"

record hentry =
  he_ino :: u64
  he_hash :: u64
  he_ftype :: u8
  he_name :: rstring

definition he_size :: "hentry \<Rightarrow> nat" where
  "he_size e = entry_size (length (encode_utf16 (he_name e)))"

fun bucket_entries_from :: "buffer \<Rightarrow> nat \<Rightarrow> nat \<Rightarrow> hentry list result" where
  "bucket_entries_from buf off 0 = Inr []"
| "bucket_entries_from buf off (Suc n) =
     (let nlen = unat (get_u16 buf (off + 18)) in
      guardR (off + 20 \<le> length buf \<and> off + 20 + 2 * nlen \<le> length buf) Panic
        (tryR (bucket_entries_from buf (off + entry_size nlen) n) (\<lambda>es.
         Inr (\<lparr>he_ino = get_u64 buf off, he_hash = get_u64 buf (off + 8), he_ftype = buf ! (off + 16),
               he_name = from_utf16_lossy (get_u16s buf (off + 20) nlen)\<rparr> # es))))"

definition bucket_entries :: "buffer \<Rightarrow> hentry list result" where
  "bucket_entries buf = bucket_entries_from buf BK_HDR (unat (get_u16 buf 18))"

definition put_hentry :: "nat \<Rightarrow> hentry \<Rightarrow> buffer \<Rightarrow> buffer" where
  "put_hentry off e buf =
     (let units = encode_utf16 (he_name e);
          buf = put_u64 buf off (he_ino e);
          buf = put_u64 buf (off + 8) (he_hash e);
          buf = buf[off + 16 := he_ftype e];
          buf = put_u16 buf (off + 18) (of_nat (length units))
      in put_u16s buf (off + 20) units)"

fun put_hentries :: "nat \<Rightarrow> nat \<Rightarrow> hentry list \<Rightarrow> buffer \<Rightarrow> buffer result" where
  "put_hentries bs off [] buf = Inr buf"
| "put_hentries bs off (e # es) buf =
     (if off + he_size e > bs then Inl (Msg ''bucket overflow'')
      else put_hentries bs (off + he_size e) es (put_hentry off e buf))"

definition bucket_build :: "nat \<Rightarrow> u8 \<Rightarrow> hentry list \<Rightarrow> buffer result" where
  "bucket_build bs local_depth es =
     put_hentries bs BK_HDR es
       (put_u16 ((put_bytes (replicate bs 0) 0 BUCKET_MAGIC)[16 := local_depth]) 18 (of_nat (length es)))"

definition bucket_fits :: "nat \<Rightarrow> hentry list \<Rightarrow> hentry \<Rightarrow> bool" where
  "bucket_fits bs es add \<longleftrightarrow> BK_HDR + sum_list (map he_size es) + he_size add \<le> bs"

subsection \<open>Blocks of a directory\<close>

definition dir_block_addr :: "crc_fun \<Rightarrow> gofs \<Rightarrow> txn \<Rightarrow> inode \<Rightarrow> u64 \<Rightarrow> u64 result" where
  "dir_block_addr crc g t ino fb =
     tryR (map_lookup crc g t ino fb) (\<lambda>m. case m of
       Run blk len \<Rightarrow> Inr blk
     | Hole _ \<Rightarrow> Inl (Msg ''directory block {fb} is a hole''))"

definition dir_block_read :: "crc_fun \<Rightarrow> gofs \<Rightarrow> txn \<Rightarrow> inode \<Rightarrow> u64 \<Rightarrow> buffer result" where
  "dir_block_read crc g t ino fb =
     tryR (map_lookup crc g t ino fb) (\<lambda>m. case m of
       Run blk len \<Rightarrow> txn_read g t blk
     | Hole _ \<Rightarrow> Inl (Msg ''directory block {fb} is a hole''))"

definition dir_block_ensure :: "crc_fun \<Rightarrow> u32 \<Rightarrow> inode \<Rightarrow> u64 \<Rightarrow> (u64 \<times> inode) fsop" where
  "dir_block_ensure crc ag ino fb =
     bindS (map_ensure crc ag ino fb 1) (\<lambda>(ino, runs).
     case runs of [] \<Rightarrow> failS Panic | (f, blk, len, fresh) # _ \<Rightarrow> retS (blk, ino))"

record dhdr =
  dh_depth :: u8
  dh_nbuckets :: u32
  dh_table :: "u32 list"
  dh_blk :: u64
  dh_free :: "u32 list"

definition dhdr_parse :: "u64 \<Rightarrow> buffer \<Rightarrow> dhdr result" where
  "dhdr_parse blk buf =
     (let depth = buf ! 16; slots = 2 ^ (unat depth mod 64); nfree = unat (get_u16 buf 18); bs = length buf
      in guardR (DH_HDR + 4 * slots \<le> bs \<and> 4 * nfree \<le> bs) Panic
           (Inr \<lparr>dh_depth = depth, dh_nbuckets = get_u32 buf 20,
                 dh_table = map (\<lambda>i. get_u32 buf (DH_HDR + i * 4)) [0..<slots], dh_blk = blk,
                 dh_free = map (\<lambda>k. get_u32 buf (bs - 4 * (k + 1))) [0..<nfree]\<rparr>))"

definition dhdr_read :: "crc_fun \<Rightarrow> gofs \<Rightarrow> txn \<Rightarrow> inode \<Rightarrow> dhdr result" where
  "dhdr_read crc g t ino =
     tryR (dir_block_addr crc g t ino 0) (\<lambda>blk.
     tryR (dir_block_read crc g t ino 0) (\<lambda>buf.
     if get_bytes buf 0 4 \<noteq> DIRH_MAGIC then Inl (Msg ''bad directory header magic'')
     else if get_u32 buf 4 \<noteq> csum crc buf 4 then Inl (Msg ''directory header checksum mismatch'')
     else dhdr_parse blk buf))"

text \<open>The generation of the block as it is now; 0 when it cannot be read.\<close>

definition old_gen :: "gofs \<Rightarrow> txn \<Rightarrow> u64 \<Rightarrow> u64" where
  "old_gen g t blk = (case txn_read g t blk of Inl _ \<Rightarrow> 0 | Inr b \<Rightarrow> get_u64 b 8)"

definition put_table :: "u32 list \<Rightarrow> u32 list \<Rightarrow> buffer \<Rightarrow> buffer" where
  "put_table table freelist buf =
     fold (\<lambda>(k, b) buf. put_u32 buf (length buf - 4 * (k + 1)) b) (enumerate 0 freelist)
       (fold (\<lambda>(i, b) buf. put_u32 buf (DH_HDR + i * 4) b) (enumerate 0 table) buf)"

definition dhdr_image :: "nat \<Rightarrow> u64 \<Rightarrow> u8 \<Rightarrow> u32 \<Rightarrow> u32 list \<Rightarrow> u32 list \<Rightarrow> buffer" where
  "dhdr_image bs gen depth nbuckets table freelist =
     (let buf = put_u64 (put_bytes (replicate bs 0) 0 DIRH_MAGIC) 8 gen;
          buf = put_u16 (buf[16 := depth]) 18 (of_nat (length freelist))
      in put_table table freelist (put_u32 buf 20 nbuckets))"

definition dhdr_write :: "crc_fun \<Rightarrow> u64 \<Rightarrow> u8 \<Rightarrow> u32 \<Rightarrow> u32 list \<Rightarrow> u32 list \<Rightarrow> unit fsop" where
  "dhdr_write crc blk depth nbuckets table freelist =
     bindS (askF (\<lambda>g t. Inr (g_bs g, old_gen g t blk))) (\<lambda>(bs, old).
     bindS (ensureS (DH_HDR + length table * 4 + length freelist * 4 \<le> bs)
       (Msg ''directory table exceeds header block'')) (\<lambda>_.
     writeF blk (seal crc (dhdr_image bs (old + 1) depth nbuckets table freelist))))"

text \<open>A bucket: its entries, local depth and block.\<close>

definition bucket_read :: "crc_fun \<Rightarrow> gofs \<Rightarrow> txn \<Rightarrow> inode \<Rightarrow> u32 \<Rightarrow> (hentry list \<times> u8 \<times> u64) result" where
  "bucket_read crc g t ino bno =
     tryR (dir_block_addr crc g t ino (1 + ucast bno)) (\<lambda>blk.
     tryR (dir_block_read crc g t ino (1 + ucast bno)) (\<lambda>buf.
     if get_bytes buf 0 4 \<noteq> BUCKET_MAGIC then Inl (Msg ''bucket {bno}: bad magic'')
     else if get_u32 buf 4 \<noteq> csum crc buf 4 then Inl (Msg ''bucket {bno}: checksum mismatch'')
     else tryR (bucket_entries buf) (\<lambda>es. Inr (es, buf ! 16, blk))))"

definition bucket_write :: "crc_fun \<Rightarrow> u64 \<Rightarrow> u8 \<Rightarrow> hentry list \<Rightarrow> unit fsop" where
  "bucket_write crc blk local_depth es =
     bindS (askF (\<lambda>g t. bucket_build (g_bs g) local_depth es)) (\<lambda>buf.
     bindS (askF (\<lambda>g t. Inr (old_gen g t blk))) (\<lambda>old.
     writeF blk (seal crc (put_u64 buf 8 (old + 1)))))"

subsection \<open>Listing and finding\<close>

definition he_entry :: "hentry \<Rightarrow> dir_entry" where
  "he_entry e = \<lparr>de_ino = he_ino e, de_ftype = he_ftype e, de_name = he_name e\<rparr>"

text \<open>The bucket numbers in use, in order.\<close>

definition live_buckets :: "dhdr \<Rightarrow> u32 list" where
  "live_buckets h = filter (\<lambda>b. b \<notin> set (dh_free h)) (map of_nat [0..<unat (dh_nbuckets h)])"

definition hashed_list :: "crc_fun \<Rightarrow> gofs \<Rightarrow> txn \<Rightarrow> inode \<Rightarrow> dir_entry list result" where
  "hashed_list crc g t ino =
     tryR (dhdr_read crc g t ino) (\<lambda>h.
     tryR (mapR (bucket_read crc g t ino) (live_buckets h)) (\<lambda>bs.
     Inr (sort_key de_name (concat (map (\<lambda>(es, _). map he_entry es) bs)))))"

definition dir_list :: "crc_fun \<Rightarrow> gofs \<Rightarrow> txn \<Rightarrow> inode \<Rightarrow> dir_entry list result" where
  "dir_list crc g t ino =
     (let f = in_format ino in
      if \<not> is_dir ino then Inl (Msg ''not a directory'')
      else if f = FMT_EMPTY then Inr []
      else if f = FMT_EMBED then Inr (dir_parse (in_payload ino))
      else if f = FMT_EXTENT \<or> f = FMT_TREE then hashed_list crc g t ino
      else Inl (Msg ''directory format {f} unsupported''))"

text \<open>The table slot of a hash; a slot past the table panics.\<close>

definition dh_slot :: "dhdr \<Rightarrow> u64 \<Rightarrow> u32 result" where
  "dh_slot h hash =
     (let i = bucket_index hash (dh_depth h)
      in guardR (i < length (dh_table h)) Panic (Inr (dh_table h ! i)))"

definition he_match :: "u64 \<Rightarrow> rstring \<Rightarrow> hentry \<Rightarrow> bool" where
  "he_match h name e \<longleftrightarrow> he_hash e = h \<and> he_name e = name"

definition hashed_find :: "hash_fun \<Rightarrow> crc_fun \<Rightarrow> gofs \<Rightarrow> txn \<Rightarrow> inode \<Rightarrow> rstring \<Rightarrow> dir_entry option result" where
  "hashed_find sip crc g t ino name =
     (let hash = hash_name sip (sb_uuid (g_sb g)) name in
      tryR (dhdr_read crc g t ino) (\<lambda>h.
      tryR (dh_slot h hash) (\<lambda>bno.
      tryR (bucket_read crc g t ino bno) (\<lambda>(es, _).
      Inr (map_option he_entry (find (he_match hash name) es))))))"

definition dir_find :: "hash_fun \<Rightarrow> crc_fun \<Rightarrow> gofs \<Rightarrow> txn \<Rightarrow> inode \<Rightarrow> rstring \<Rightarrow> dir_entry option result" where
  "dir_find sip crc g t ino name =
     (let f = in_format ino in
      if \<not> is_dir ino then Inl (Msg ''not a directory'')
      else if f = FMT_EMPTY then Inr None
      else if f = FMT_EMBED then Inr (find (\<lambda>e. de_name e = name) (dir_parse (in_payload ino)))
      else if f = FMT_EXTENT \<or> f = FMT_TREE then hashed_find sip crc g t ino name
      else Inl (Msg ''directory format {f} unsupported''))"

definition dir_count :: "crc_fun \<Rightarrow> gofs \<Rightarrow> txn \<Rightarrow> inode \<Rightarrow> nat result" where
  "dir_count crc g t ino = tryR (dir_list crc g t ino) (\<lambda>es. Inr (length es))"

subsection \<open>Inserting\<close>

text \<open>
  The arithmetic of a bucket split: the table doubled, the hash bit that tells the two halves
  apart, and the table with the upper half's slots redirected.
\<close>

definition double_table :: "u32 list \<Rightarrow> u32 list" where
  "double_table table = concat (map (\<lambda>b. [b, b]) table)"

definition goes_up :: "u8 \<Rightarrow> hentry \<Rightarrow> bool" where
  "goes_up ld e \<longleftrightarrow> he_hash e AND push_bit (unat (63 - ld) mod 64) 1 \<noteq> 0"

definition redirect :: "u8 \<Rightarrow> u8 \<Rightarrow> u32 \<Rightarrow> u32 \<Rightarrow> u32 list \<Rightarrow> u32 list" where
  "redirect depth ld bno new_bno table =
     map (\<lambda>(idx, b). if b = bno \<and> odd (idx div 2 ^ (unat (depth - 1 - ld) mod 64)) then new_bno else b)
       (enumerate 0 table)"

text \<open>\<open>freelist.pop()\<close>, or a new bucket number.\<close>

definition pop_bucket :: "dhdr \<Rightarrow> u32 \<times> u32 \<times> u32 list" where
  "pop_bucket h =
     (if dh_free h = [] then (dh_nbuckets h, dh_nbuckets h + 1, [])
      else (last (dh_free h), dh_nbuckets h, butlast (dh_free h)))"

definition split_bucket ::
  "crc_fun \<Rightarrow> u32 \<Rightarrow> inode \<Rightarrow> dhdr \<Rightarrow> u32 \<Rightarrow> hentry list \<Rightarrow> u8 \<Rightarrow> u64 \<Rightarrow> inode fsop" where
  "split_bucket crc ag ino h bno es ld bblk =
     bindS (ensureS (ld = dh_depth h \<longrightarrow> dh_depth h < MAX_DEPTH)
       (Msg ''directory exceeds maximum depth (v1 limit)'')) (\<lambda>_.
     let (depth, table) = (if ld = dh_depth h then (dh_depth h + 1, double_table (dh_table h))
                           else (dh_depth h, dh_table h));
         (new_bno, new_nbuckets, freelist) = pop_bucket h
     in bindS (dir_block_ensure crc ag ino (1 + ucast new_bno)) (\<lambda>(nblk, ino).
        bindS (askF (\<lambda>g t. Inr (ucast (sb_blocksize (g_sb g))))) (\<lambda>bs.
        let ino = ino\<lparr>in_size := max (in_size ino) ((2 + ucast new_bno) * bs)\<rparr> in
        bindS (bucket_write crc bblk (ld + 1) (filter (\<lambda>e. \<not> goes_up ld e) es)) (\<lambda>_.
        bindS (bucket_write crc nblk (ld + 1) (filter (goes_up ld) es)) (\<lambda>_.
        bindS (dhdr_write crc (dh_blk h) depth new_nbuckets (redirect depth ld bno new_bno table) freelist) (\<lambda>_.
        retS ino))))))"

text \<open>
  Every round that does not end raises the local depth of the bucket the new entry belongs to,
  and depth 9 is the limit: ten rounds are enough for a directory whose depths are in order.
\<close>

fun insert_loop :: "crc_fun \<Rightarrow> nat \<Rightarrow> u32 \<Rightarrow> inode \<Rightarrow> hentry \<Rightarrow> inode fsop" where
  "insert_loop crc 0 ag ino new = failS Diverges"
| "insert_loop crc (Suc fuel) ag ino new =
     bindS (askF (\<lambda>g t. dhdr_read crc g t ino)) (\<lambda>h.
     bindS (askF (\<lambda>g t. dh_slot h (he_hash new))) (\<lambda>bno.
     bindS (askF (\<lambda>g t. bucket_read crc g t ino bno)) (\<lambda>(es, ld, bblk).
     bindS (askF (\<lambda>g t. Inr (g_bs g))) (\<lambda>bs.
     if bucket_fits bs es new then bindS (bucket_write crc bblk ld (es @ [new])) (\<lambda>_. retS ino)
     else bindS (split_bucket crc ag ino h bno es ld bblk) (\<lambda>ino. insert_loop crc fuel ag ino new)))))"

abbreviation DIR_FUEL :: nat where "DIR_FUEL \<equiv> 512"

definition hashed_insert :: "hash_fun \<Rightarrow> crc_fun \<Rightarrow> u64 \<Rightarrow> inode \<Rightarrow> dir_entry \<Rightarrow> inode fsop" where
  "hashed_insert sip crc dir_ino ino entry =
     bindS (askF (\<lambda>g t. Inr (hash_name sip (sb_uuid (g_sb g)) (de_name entry)))) (\<lambda>h.
     insert_loop crc DIR_FUEL (fst (blk_split dir_ino)) ino
       \<lparr>he_ino = de_ino entry, he_hash = h, he_ftype = de_ftype entry, he_name = de_name entry\<rparr>)"

definition dir_to_hashed :: "hash_fun \<Rightarrow> crc_fun \<Rightarrow> u64 \<Rightarrow> inode \<Rightarrow> inode fsop" where
  "dir_to_hashed sip crc dir_ino ino =
     (let old = dir_parse (in_payload ino); ag = fst (blk_split dir_ino);
          ino = ino\<lparr>in_format := FMT_EMPTY, in_payload := replicate INODE_PAYLOAD 0\<rparr>
      in bindS (dir_block_ensure crc ag ino 0) (\<lambda>(hblk, ino).
         bindS (dir_block_ensure crc ag ino 1) (\<lambda>(bblk, ino).
         bindS (dhdr_write crc hblk 0 1 [0] []) (\<lambda>_.
         bindS (bucket_write crc bblk 0 []) (\<lambda>_.
         bindS (askF (\<lambda>g t. Inr (ucast (sb_blocksize (g_sb g))))) (\<lambda>bs.
         foldS (\<lambda>e ino. hashed_insert sip crc dir_ino ino e) old (ino\<lparr>in_size := 2 * bs\<rparr>)))))))"

text \<open>The call after the conversion meets a hashed directory, so two rounds are enough.\<close>

fun dir_insert_from :: "hash_fun \<Rightarrow> crc_fun \<Rightarrow> nat \<Rightarrow> u64 \<Rightarrow> inode \<Rightarrow> dir_entry \<Rightarrow> inode fsop" where
  "dir_insert_from sip crc 0 dir_ino ino entry = failS Diverges"
| "dir_insert_from sip crc (Suc fuel) dir_ino ino entry =
     bindS (askF (\<lambda>g t. dir_find sip crc g t ino (de_name entry))) (\<lambda>found.
     bindS (ensureS (found = None) (NameMsg (de_name entry) '': already exists'')) (\<lambda>_.
     let f = in_format ino in
     if f = FMT_EMPTY \<or> f = FMT_EMBED then
       let ino = (if f = FMT_EMPTY
                  then ino\<lparr>in_format := FMT_EMBED, in_payload := replicate INODE_PAYLOAD 0\<rparr> else ino)
       in case dir_append (in_payload ino) entry of
            Inr p \<Rightarrow> retS (ino\<lparr>in_payload := p\<rparr>)
          | Inl _ \<Rightarrow>
              bindS (dir_to_hashed sip crc dir_ino ino) (\<lambda>ino.
              dir_insert_from sip crc fuel dir_ino ino entry)
     else if f = FMT_EXTENT \<or> f = FMT_TREE then hashed_insert sip crc dir_ino ino entry
     else failS (Msg ''directory format {f} unsupported'')))"

definition dir_insert :: "hash_fun \<Rightarrow> crc_fun \<Rightarrow> u64 \<Rightarrow> inode \<Rightarrow> dir_entry \<Rightarrow> inode fsop" where
  "dir_insert sip crc = dir_insert_from sip crc 2"

subsection \<open>Merging and removing\<close>

text \<open>The first slot whose bucket can take in its buddy: both buckets, and the merged entries.\<close>

definition merge_probe ::
  "crc_fun \<Rightarrow> gofs \<Rightarrow> txn \<Rightarrow> inode \<Rightarrow> dhdr \<Rightarrow> nat
    \<Rightarrow> (u32 \<times> u64 \<times> u8 \<times> hentry list \<times> u32 \<times> u64) option result" where
  "merge_probe crc g t ino h idx =
     (let bno = dh_table h ! idx in
      tryR (bucket_read crc g t ino bno) (\<lambda>(es, ld, bblk).
      if ld = 0 then Inr None
      else
        let buddy = idx XOR 2 ^ (unat (dh_depth h - ld) mod 64) in
        guardR (buddy < length (dh_table h)) Panic
          (let bno2 = dh_table h ! buddy in
           if bno2 = bno then Inr None
           else
             tryR (bucket_read crc g t ino bno2) (\<lambda>(es2, ld2, bblk2).
             if ld2 \<noteq> ld \<or> g_bs g < BK_HDR + sum_list (map he_size (es @ es2)) then Inr None
             else Inr (Some (bno, bblk, ld, es @ es2, bno2, bblk2))))))"

definition merge_into :: "crc_fun \<Rightarrow> dhdr \<Rightarrow> u32 \<times> u64 \<times> u8 \<times> hentry list \<times> u32 \<times> u64 \<Rightarrow> unit fsop" where
  "merge_into crc h = (\<lambda>(bno, bblk, ld, all, bno2, bblk2).
     bindS (bucket_write crc bblk (ld - 1) all) (\<lambda>_.
     bindS (bucket_write crc bblk2 0 []) (\<lambda>_.
     dhdr_write crc (dh_blk h) (dh_depth h) (dh_nbuckets h)
       (map (\<lambda>b. if b = bno2 then bno else b) (dh_table h)) (dh_free h @ [bno2]))))"

text \<open>The table in pairs; a last slot without a partner panics.\<close>

fun halve_table :: "u32 list \<Rightarrow> u32 list option result" where
  "halve_table [] = Inr (Some [])"
| "halve_table [b] = Inl Panic"
| "halve_table (b # b' # bs) =
     (if b \<noteq> b' then Inr None else tryR (halve_table bs) (\<lambda>r. Inr (map_option ((#) b) r)))"

text \<open>A merge takes a bucket out of the table and halving keeps the buckets: the loop ends.\<close>

fun merge_loop :: "crc_fun \<Rightarrow> nat \<Rightarrow> inode \<Rightarrow> unit fsop" where
  "merge_loop crc 0 ino = failS Diverges"
| "merge_loop crc (Suc fuel) ino =
     bindS (askF (\<lambda>g t. dhdr_read crc g t ino)) (\<lambda>h.
     if dh_depth h = 0 then retS ()
     else
       bindS (askF (\<lambda>g t. first_some (merge_probe crc g t ino h) [0..<length (dh_table h)])) (\<lambda>found.
       case found of
         Some m \<Rightarrow> bindS (merge_into crc h m) (\<lambda>_. merge_loop crc fuel ino)
       | None \<Rightarrow>
           bindS (askF (\<lambda>g t. halve_table (dh_table h))) (\<lambda>halved.
           case halved of
             Some table \<Rightarrow>
               bindS (dhdr_write crc (dh_blk h) (dh_depth h - 1) (dh_nbuckets h) table (dh_free h)) (\<lambda>_.
               merge_loop crc fuel ino)
           | None \<Rightarrow> retS ())))"

definition try_merge :: "crc_fun \<Rightarrow> inode \<Rightarrow> unit fsop" where
  "try_merge crc ino = bindS (askF (\<lambda>g t. Inr (g_bs g + 256))) (\<lambda>fuel. merge_loop crc fuel ino)"

text \<open>The first element that matches, and the list without it.\<close>

fun take_out :: "('a \<Rightarrow> bool) \<Rightarrow> 'a list \<Rightarrow> ('a \<times> 'a list) option" where
  "take_out P [] = None"
| "take_out P (x # xs) = (if P x then Some (x, xs) else map_option (\<lambda>(y, ys). (y, x # ys)) (take_out P xs))"

fun append_all :: "dir_entry list \<Rightarrow> buffer \<Rightarrow> buffer result" where
  "append_all [] p = Inr p"
| "append_all (e # es) p = tryR (dir_append p e) (append_all es)"

definition hashed_remove :: "hash_fun \<Rightarrow> crc_fun \<Rightarrow> inode \<Rightarrow> rstring \<Rightarrow> (dir_entry \<times> inode) fsop" where
  "hashed_remove sip crc ino name =
     bindS (askF (\<lambda>g t. Inr (hash_name sip (sb_uuid (g_sb g)) name))) (\<lambda>hash.
     bindS (askF (\<lambda>g t. dhdr_read crc g t ino)) (\<lambda>h.
     bindS (askF (\<lambda>g t. dh_slot h hash)) (\<lambda>bno.
     bindS (askF (\<lambda>g t. bucket_read crc g t ino bno)) (\<lambda>(es, ld, bblk).
     case take_out (he_match hash name) es of
       None \<Rightarrow> failS (NameMsg name '': not found'')
     | Some (removed, es) \<Rightarrow>
         bindS (bucket_write crc bblk ld es) (\<lambda>_.
         bindS (try_merge crc ino) (\<lambda>_.
         bindS (askF (\<lambda>g t. dir_count crc g t ino)) (\<lambda>n.
         bindS (if n = 0 then map_free_all crc ino else retS ino) (\<lambda>ino.
         retS (he_entry removed, ino)))))))))"

definition dir_remove :: "hash_fun \<Rightarrow> crc_fun \<Rightarrow> inode \<Rightarrow> rstring \<Rightarrow> (dir_entry \<times> inode) fsop" where
  "dir_remove sip crc ino name =
     (let f = in_format ino in
      if f = FMT_EMBED then
        (case take_out (\<lambda>e. de_name e = name) (dir_parse (in_payload ino)) of
           None \<Rightarrow> failS (NameMsg name '': not found'')
         | Some (removed, es) \<Rightarrow>
             bindS (askF (\<lambda>g t. append_all es (replicate INODE_PAYLOAD 0))) (\<lambda>p.
             retS (removed, ino\<lparr>in_payload := p, in_format := (if es = [] then FMT_EMPTY else FMT_EMBED)\<rparr>)))
      else if f = FMT_EXTENT \<or> f = FMT_TREE then hashed_remove sip crc ino name
      else if f = FMT_EMPTY then failS (NameMsg name '': not found'')
      else failS (Msg ''directory format {f} unsupported''))"

subsection \<open>Structural check\<close>

definition table_problems :: "dhdr \<Rightarrow> string list" where
  "table_problems h =
     concat (map (\<lambda>b.
       (if dh_nbuckets h \<le> b then [''table[{idx}] points at bucket {b} >= {nbuckets}''] else []) @
       (if b \<in> set (dh_free h) then [''table[{idx}] points at freed bucket {b}''] else [])) (dh_table h)) @
     concat (map (\<lambda>b. if dh_nbuckets h \<le> b then [''freelist entry {b} >= {nbuckets}''] else []) (dh_free h))"

definition entry_problems :: "hash_fun \<Rightarrow> gofs \<Rightarrow> dhdr \<Rightarrow> u32 \<Rightarrow> hentry \<Rightarrow> string list result" where
  "entry_problems sip g h b e =
     (let hash = hash_name sip (sb_uuid (g_sb g)) (he_name e) in
      tryR (dh_slot h hash) (\<lambda>bno.
      Inr ((if hash \<noteq> he_hash e then [''{name}: stored hash mismatch''] else []) @
           (if bno \<noteq> b then [''{name}: entry in wrong bucket {b}''] else []))))"

definition bucket_problems :: "hash_fun \<Rightarrow> crc_fun \<Rightarrow> gofs \<Rightarrow> txn \<Rightarrow> inode \<Rightarrow> dhdr \<Rightarrow> u32 \<Rightarrow> string list result" where
  "bucket_problems sip crc g t ino h b =
     (case bucket_read crc g t ino b of
        Inl e \<Rightarrow> if is_err e then Inr [''bucket {b}: {e}''] else Inl e
      | Inr (es, ld, _) \<Rightarrow>
          tryR (mapR (entry_problems sip g h b) es) (\<lambda>ps.
          Inr ((if dh_depth h < ld then [''bucket {b}: local depth {ld} > global {depth}''] else []) @ concat ps)))"

definition dir_check :: "hash_fun \<Rightarrow> crc_fun \<Rightarrow> gofs \<Rightarrow> txn \<Rightarrow> inode \<Rightarrow> string list result" where
  "dir_check sip crc g t ino =
     (if in_format ino \<noteq> FMT_EXTENT \<and> in_format ino \<noteq> FMT_TREE then Inr []
      else
        tryR (dhdr_read crc g t ino) (\<lambda>h.
        tryR (mapR (bucket_problems sip crc g t ino h) (live_buckets h)) (\<lambda>ps.
        Inr (table_problems h @ concat ps))))"

end
