(* ===== verification/Utf8.thy ===== *)
theory Utf8
  imports Text
begin

text \<open>
  UTF-8, which symbolic links are stored in: \<open>str::as_bytes\<close> and the strict
  \<open>String::from_utf8\<close> of the standard library (no overlong forms, no surrogates, nothing past
  U+10FFFF), and that the second undoes the first.
\<close>

unbundle bit_operations_syntax

definition utf8_tail :: "nat \<Rightarrow> u32 \<Rightarrow> u8" where
  "utf8_tail k c = 0x80 OR ucast (drop_bit k c AND 0x3F)"

definition utf8_char :: "u32 \<Rightarrow> u8 list" where
  "utf8_char c =
     (if c < 0x80 then [ucast c]
      else if c < 0x800 then [0xC0 OR ucast (drop_bit 6 c), utf8_tail 0 c]
      else if c < 0x10000 then [0xE0 OR ucast (drop_bit 12 c), utf8_tail 6 c, utf8_tail 0 c]
      else [0xF0 OR ucast (drop_bit 18 c), utf8_tail 12 c, utf8_tail 6 c, utf8_tail 0 c])"

definition utf8_bytes :: "rstring \<Rightarrow> u8 list" where
  "utf8_bytes s = concat (map utf8_char s)"

definition is_tail :: "u8 \<Rightarrow> bool" where
  "is_tail b \<longleftrightarrow> b AND 0xC0 = 0x80"

definition tail_bits :: "u8 \<Rightarrow> u32" where
  "tail_bits b = ucast (b AND 0x3F)"

text \<open>The scalar value at the front and the bytes after it, if the front is well formed.\<close>

fun utf8_front :: "u8 list \<Rightarrow> (u32 \<times> u8 list) option" where
  "utf8_front [] = None"
| "utf8_front (b # bs) =
     (if b < 0x80 then Some (ucast b, bs)
      else if b AND 0xE0 = 0xC0 then
        (case bs of b1 # r \<Rightarrow>
           let c = push_bit 6 (ucast (b AND 0x1F)) OR tail_bits b1
           in if is_tail b1 \<and> 0x80 \<le> c then Some (c, r) else None
         | _ \<Rightarrow> None)
      else if b AND 0xF0 = 0xE0 then
        (case bs of b1 # b2 # r \<Rightarrow>
           let c = push_bit 12 (ucast (b AND 0x0F)) OR push_bit 6 (tail_bits b1) OR tail_bits b2
           in if is_tail b1 \<and> is_tail b2 \<and> 0x800 \<le> c \<and> scalar c then Some (c, r) else None
         | _ \<Rightarrow> None)
      else if b AND 0xF8 = 0xF0 then
        (case bs of b1 # b2 # b3 # r \<Rightarrow>
           let c = push_bit 18 (ucast (b AND 0x07)) OR push_bit 12 (tail_bits b1) OR
                   push_bit 6 (tail_bits b2) OR tail_bits b3
           in if is_tail b1 \<and> is_tail b2 \<and> is_tail b3 \<and> 0x10000 \<le> c \<and> scalar c then Some (c, r) else None
         | _ \<Rightarrow> None)
      else None)"

lemma utf8_front_shorter: "utf8_front bs = Some (c, r) \<Longrightarrow> length r < length bs"
  by (induction bs rule: utf8_front.induct) (auto simp: Let_def split: if_splits list.splits)

function from_utf8 :: "u8 list \<Rightarrow> rstring option" where
  "from_utf8 bs =
     (if bs = [] then Some []
      else case utf8_front bs of
             None \<Rightarrow> None
           | Some (c, r) \<Rightarrow> map_option ((#) c) (from_utf8 r))"
  by pat_completeness auto
termination
  by (relation "measure length") (auto dest: utf8_front_shorter)

declare from_utf8.simps [simp del]

subsection \<open>Decoding an encoded string\<close>

text \<open>A lead byte: marker bits above, payload bits below.\<close>

lemma lead_byte:
  fixes P x :: u8
  assumes "x < 2 ^ m" and "P AND mask m = 0"
  shows "(P OR x) AND mask m = x" and "(P OR x) AND NOT (mask m) = P"
proof -
  have x: "x AND mask m = x" using assms(1) by (rule less_mask_eq)
  then show "(P OR x) AND mask m = x" using assms(2) by (simp add: bit.conj_disj_distrib2)
  have "x AND NOT (mask m) = 0" by (subst x [symmetric]) (simp add: ac_simps)
  moreover have "P = P AND mask m OR P AND NOT (mask m)" by (simp flip: bit.conj_disj_distrib)
  ultimately show "(P OR x) AND NOT (mask m) = P" using assms(2) by (simp add: bit.conj_disj_distrib2)
qed

lemma byte_masks:
  "(0x3F :: u8) = mask 6" "(0x1F :: u8) = mask 5" "(0x0F :: u8) = mask 4" "(0x07 :: u8) = mask 3"
  "(0xC0 :: u8) = NOT (mask 6)" "(0xE0 :: u8) = NOT (mask 5)" "(0xF0 :: u8) = NOT (mask 4)" "(0xF8 :: u8) = NOT (mask 3)"
  "(0x3F :: u32) = mask 6"
  by (simp_all add: mask_eq_exp_minus_1)

lemma unat_drop_bit: "unat (drop_bit k c :: u32) = unat c div 2 ^ k"
proof -
  have "take_bit 32 (unat c) = unat c" using unat_bound [of c] by (intro take_bit_nat_eq_self) simp
  then show ?thesis by (subst unsigned_drop_bit_eq) (simp add: drop_bit_eq_div)
qed

lemma drop_bit_less: "unat c < 2 ^ (k + m) \<Longrightarrow> unat (drop_bit k c :: u32) < 2 ^ m"
  by (simp add: unat_drop_bit less_mult_imp_div_less power_add mult.commute)

lemma ucast_byte: "unat (w :: u32) < 2 ^ 8 \<Longrightarrow> unat (ucast w :: u8) = unat w \<and> ucast (ucast w :: u8) = w"
  by (simp add: unat_ucast_small word_unat_eq_iff)

lemma six_bits: "unat (w AND 0x3F :: u32) < 2 ^ 6"
proof -
  have "w AND 0x3F = take_bit 6 w" by (simp add: byte_masks(9) take_bit_eq_mask)
  then show ?thesis using take_bit_nat_less_exp [of 6 "unat w"] by (simp add: unsigned_take_bit_eq)
qed

lemma tail_byte: "is_tail (utf8_tail k c)" "tail_bits (utf8_tail k c) = take_bit 6 (drop_bit k c)"
proof -
  let ?w = "drop_bit k c AND 0x3F :: u32"
  have w: "unat ?w < 2 ^ 6" by (rule six_bits)
  then have u: "unat (ucast ?w :: u8) = unat ?w" "ucast (ucast ?w :: u8) = ?w" using ucast_byte [of ?w] by simp_all
  then have "(ucast ?w :: u8) < 2 ^ 6" using w by (simp add: word_less_nat_alt)
  then have b: "(0x80 OR ucast ?w) AND mask 6 = (ucast ?w :: u8)" "(0x80 OR ucast ?w :: u8) AND NOT (mask 6) = 0x80"
    by (intro lead_byte; simp add: mask_eq_exp_minus_1)+
  show "is_tail (utf8_tail k c)" unfolding is_tail_def utf8_tail_def byte_masks(5) by (rule b(2))
  have "ucast ((0x80 OR ucast ?w) AND (mask 6 :: u8)) = ?w" unfolding b(1) by (rule u(2))
  then show "tail_bits (utf8_tail k c) = take_bit 6 (drop_bit k c)"
    by (simp only: tail_bits_def utf8_tail_def byte_masks take_bit_eq_mask)
qed

lemma lead_of:
  fixes c :: u32
  assumes "unat c < 2 ^ (k + m)" and "m \<le> 5" and "P AND mask m = 0"
  shows "ucast ((P OR ucast (drop_bit k c) :: u8) AND mask m) = drop_bit k c"
    and "(P OR ucast (drop_bit k c) :: u8) AND NOT (mask m) = P"
proof -
  let ?x = "ucast (drop_bit k c) :: u8"
  have d: "unat (drop_bit k c) < 2 ^ m" by (rule drop_bit_less [OF assms(1)])
  also have le: "(2::nat) ^ m \<le> 2 ^ 5" using assms(2) by (intro power_increasing) simp_all
  finally have "unat (drop_bit k c) < 2 ^ 8" by simp
  then have u: "unat ?x = unat (drop_bit k c)" "ucast ?x = drop_bit k c" using ucast_byte by simp_all
  have "m \<in> {0, 1, 2, 3, 4, 5}" using assms(2) by auto
  then have "unat (2 ^ m :: u8) = 2 ^ m" by auto
  then have "?x < 2 ^ m" using d u(1) by (simp add: word_less_nat_alt)
  from lead_byte [OF this assms(3)] u(2)
  show "ucast ((P OR ?x) AND mask m) = drop_bit k c" "(P OR ?x) AND NOT (mask m) = P" by simp_all
qed

lemma rebuild:
  fixes c :: u32
  shows "push_bit 6 (drop_bit 6 c) OR take_bit 6 c = c"
    and "push_bit 12 (drop_bit 12 c) OR push_bit 6 (take_bit 6 (drop_bit 6 c)) OR take_bit 6 c = c"
    and "push_bit 18 (drop_bit 18 c) OR push_bit 12 (take_bit 6 (drop_bit 12 c)) OR
      push_bit 6 (take_bit 6 (drop_bit 6 c)) OR take_bit 6 c = c"
proof -
  have split: "(\<exists>k. n = 18 + k) \<or> (\<exists>k<6. n = 12 + k) \<or> (\<exists>k<6. n = 6 + k) \<or> n < 6" for n :: nat by presburger
  show "push_bit 6 (drop_bit 6 c) OR take_bit 6 c = c"
    by (rule bit_eqI) (auto simp: bit_simps)
  show "push_bit 12 (drop_bit 12 c) OR push_bit 6 (take_bit 6 (drop_bit 6 c)) OR take_bit 6 c = c"
  proof (rule bit_eqI)
    fix n assume "possible_bit TYPE(u32) n"
    then show "bit (push_bit 12 (drop_bit 12 c) OR push_bit 6 (take_bit 6 (drop_bit 6 c)) OR take_bit 6 c) n = bit c n"
      using split [of n] by (auto simp: bit_simps)
  qed
  show "push_bit 18 (drop_bit 18 c) OR push_bit 12 (take_bit 6 (drop_bit 12 c)) OR
      push_bit 6 (take_bit 6 (drop_bit 6 c)) OR take_bit 6 c = c"
  proof (rule bit_eqI)
    fix n assume "possible_bit TYPE(u32) n"
    then show "bit (push_bit 18 (drop_bit 18 c) OR push_bit 12 (take_bit 6 (drop_bit 12 c)) OR
      push_bit 6 (take_bit 6 (drop_bit 6 c)) OR take_bit 6 c) n = bit c n"
      using split [of n] by (auto simp: bit_simps)
  qed
qed

lemma lead_high:
  fixes b :: u8
  assumes "bit b 7"
  shows "\<not> b < 0x80"
proof
  assume "b < 0x80"
  then have "b AND mask 7 = b" by (intro less_mask_eq) simp
  then have "bit (b AND mask 7) 7" using assms by simp
  then show False by (simp add: bit_simps)
qed

lemma and_masks:
  fixes b :: u8
  shows "n \<le> m \<Longrightarrow> b AND NOT (mask n) = P \<Longrightarrow> b AND NOT (mask m) = P AND NOT (mask m)"
  by (rule bit_eqI) (auto simp: bit_simps)

lemma high_bit:
  fixes b :: u8
  assumes "b AND NOT (mask n) = P" and "bit P 7"
  shows "bit b 7"
  using assms by (metis bit_and_iff)

lemma utf8_front_char:
  assumes "scalar c"
  shows "utf8_front (utf8_char c @ rest) = Some (c, rest)"
proof -
  consider (1) "c < 0x80" | (2) "0x80 \<le> c" "c < 0x800" | (3) "0x800 \<le> c" "c < 0x10000" | (4) "0x10000 \<le> c"
    by (meson not_le)
  then show ?thesis
  proof cases
    case 1
    then have "unat c < 128" by (simp add: word_less_nat_alt)
    then have "unat (ucast c :: u8) = unat c" "ucast (ucast c :: u8) = c" using ucast_byte [of c] by simp_all
    then show ?thesis using 1 by (simp add: utf8_char_def word_less_nat_alt)
  next
    case 2
    let ?b = "0xC0 OR ucast (drop_bit 6 c) :: u8"
    have "unat c < 2 ^ (6 + 5)" using 2(2) by (simp add: word_less_nat_alt)
    note lead = lead_of [OF this, of "0xC0"]
    have b: "ucast (?b AND 0x1F) = drop_bit 6 c" unfolding byte_masks(2) by (rule lead(1)) (simp_all add: mask_eq_exp_minus_1)
    have m: "?b AND NOT (mask 5) = 0xC0" by (rule lead(2)) (simp_all add: mask_eq_exp_minus_1)
    have b2: "?b AND 0xE0 = 0xC0" unfolding byte_masks(6) by (rule m)
    have "\<not> ?b < 0x80" by (rule lead_high, rule high_bit [OF m]) (simp add: bit_numeral_rec)
    moreover have "\<not> c < 0x80" using 2(1) by simp
    ultimately show ?thesis
      using 2 b b2 rebuild(1) [of c] tail_byte [of 0 c] by (simp add: utf8_char_def Let_def)
  next
    case 3
    let ?b = "0xE0 OR ucast (drop_bit 12 c) :: u8"
    have "unat c < 2 ^ (12 + 4)" using 3(2) by (simp add: word_less_nat_alt)
    note lead = lead_of [OF this, of "0xE0"]
    have b: "ucast (?b AND 0x0F) = drop_bit 12 c" unfolding byte_masks(3) by (rule lead(1)) (simp_all add: mask_eq_exp_minus_1)
    have m: "?b AND NOT (mask 4) = 0xE0" by (rule lead(2)) (simp_all add: mask_eq_exp_minus_1)
    have b2: "?b AND 0xF0 = 0xE0" unfolding byte_masks(7) by (rule m)
    have "\<not> ?b < 0x80" by (rule lead_high, rule high_bit [OF m]) (simp add: bit_numeral_rec)
    moreover have "?b AND 0xE0 \<noteq> 0xC0"
      unfolding byte_masks(6) using and_masks [OF _ m, of 5] by (simp add: mask_eq_exp_minus_1)
    moreover have "\<not> c < 0x80" "\<not> c < 0x800"
      using 3(1) by (auto simp: not_less elim: order_trans [rotated])
    ultimately show ?thesis
      using 3 b b2 rebuild(2) [of c] tail_byte [of 0 c] tail_byte [of 6 c] assms by (simp add: utf8_char_def Let_def)
  next
    case 4
    let ?b = "0xF0 OR ucast (drop_bit 18 c) :: u8"
    have "unat c < 2 ^ (18 + 3)" using assms 4 by (auto simp: scalar_def word_less_nat_alt word_le_nat_alt)
    note lead = lead_of [OF this, of "0xF0"]
    have b: "ucast (?b AND 0x07) = drop_bit 18 c" unfolding byte_masks(4) by (rule lead(1)) (simp_all add: mask_eq_exp_minus_1)
    have m: "?b AND NOT (mask 3) = 0xF0" by (rule lead(2)) (simp_all add: mask_eq_exp_minus_1)
    have b2: "?b AND 0xF8 = 0xF0" unfolding byte_masks(8) by (rule m)
    have "\<not> ?b < 0x80" by (rule lead_high, rule high_bit [OF m]) (simp add: bit_numeral_rec)
    moreover have "?b AND 0xE0 \<noteq> 0xC0"
      unfolding byte_masks(6) using and_masks [OF _ m, of 5] by (simp add: mask_eq_exp_minus_1)
    moreover have "?b AND NOT (mask 4) \<noteq> 0xE0"
      using and_masks [OF _ m, of 4] by (simp add: mask_eq_exp_minus_1)
    then have "?b AND 0xF0 \<noteq> 0xE0" by (simp add: mask_eq_exp_minus_1)
    moreover have "\<not> c < 0x80" "\<not> c < 0x800" "\<not> c < 0x10000"
      using 4 by (auto simp: not_less elim: order_trans [rotated])
    ultimately show ?thesis
      using 4 b b2 rebuild(3) [of c] tail_byte [of 0 c] tail_byte [of 6 c] tail_byte [of 12 c] assms
      by (simp add: utf8_char_def Let_def)
  qed
qed

lemma utf8_char_not_empty: "utf8_char c \<noteq> []"
  by (simp add: utf8_char_def)

lemma from_utf8_bytes: "rstring_ok s \<Longrightarrow> from_utf8 (utf8_bytes s) = Some s"
proof (induction s)
  case Nil
  then show ?case by (simp add: utf8_bytes_def from_utf8.simps)
next
  case (Cons c s)
  have "utf8_front (utf8_char c @ utf8_bytes s) = Some (c, utf8_bytes s)"
    by (rule utf8_front_char) (use Cons.prems in \<open>simp add: rstring_ok_def\<close>)
  then show ?case
    using Cons utf8_char_not_empty by (subst from_utf8.simps) (auto simp: utf8_bytes_def rstring_ok_def)
qed

end
