(* ===== verification/Files.thy ===== *)
theory Files
  imports Dir Utf8 Journal
begin

text \<open>
  \<open>src/fs.rs\<close> from line 227: path lookup, reading, writing and truncating files, and the
  namespace operations, each one transaction. \<open>nw i\<close> is the \<open>i\<close>-th reading of the clock
  (\<open>Ts::now\<close>) of an operation. An operation that fails drops its transaction and keeps the
  changes it made to the counters and hints in memory, as the code does.
\<close>

unbundle bit_operations_syntax

type_synonym clock = "nat \<Rightarrow> ts"

text \<open>Code run in a transaction that is then committed.\<close>

definition in_txn :: "'a fsop \<Rightarrow> (gofs, 'a \<times> txn) operation" where
  "in_txn m g = (case m (g, []) of (Inl e, g', _) \<Rightarrow> (Inl e, g') | (Inr x, g', t) \<Rightarrow> (Inr (x, t), g'))"

definition commit_txn :: "crc_fun \<Rightarrow> 'a fsop \<Rightarrow> (gofs, 'a) operation" where
  "commit_txn crc m = bindS (in_txn m) (\<lambda>(x, t). bindS (commit crc t) (\<lambda>_. retS x))"

definition on_dev :: "(device, 'a) operation \<Rightarrow> 'a fsop" where
  "on_dev m = onFs (onDev m)"

definition touch :: "ts \<Rightarrow> bool \<Rightarrow> inode \<Rightarrow> inode" where
  "touch now ctime_only ino =
     (let ino = ino\<lparr>in_ctime := now\<rparr> in if ctime_only then ino else ino\<lparr>in_mtime := now\<rparr>)"

definition immutable :: "inode \<Rightarrow> bool" where
  "immutable ino \<longleftrightarrow> in_flags ino AND INODE_FLAG_IMMUTABLE \<noteq> 0"

text \<open>\<open>saturating_mul\<close>, \<open>saturating_add\<close> and \<open>saturating_sub\<close>\<close>

definition sat_mul64 :: "u64 \<Rightarrow> u64 \<Rightarrow> u64" where
  "sat_mul64 a b = (if unat a * unat b < 2 ^ 64 then a * b else - 1)"

definition sat_add64 :: "u64 \<Rightarrow> u64 \<Rightarrow> u64" where
  "sat_add64 a b = (if unat a + unat b < 2 ^ 64 then a + b else - 1)"

definition sat_sub64 :: "u64 \<Rightarrow> u64 \<Rightarrow> u64" where
  "sat_sub64 a b = (if b \<le> a then a - b else 0)"

text \<open>\<open>div_ceil\<close> on 64-bit values.\<close>

definition div_up :: "u64 \<Rightarrow> u64 \<Rightarrow> u64" where
  "div_up a b = of_nat (div_ceil (unat a) (unat b))"

definition bs_of :: "gofs \<Rightarrow> u64" where
  "bs_of g = ucast (sb_blocksize (g_sb g))"

subsection \<open>Paths\<close>

abbreviation SLASH :: u32 where "SLASH \<equiv> 0x2F"
abbreviation DOT :: u32 where "DOT \<equiv> 0x2E"

text \<open>\<open>split('/')\<close> and its filter.\<close>

fun split_slash :: "rstring \<Rightarrow> rstring list" where
  "split_slash [] = [[]]"
| "split_slash (c # cs) =
     (if c = SLASH then [] # split_slash cs
      else case split_slash cs of [] \<Rightarrow> [[c]] | w # ws \<Rightarrow> (c # w) # ws)"

definition path_comps :: "rstring \<Rightarrow> rstring list" where
  "path_comps path = filter (\<lambda>c. c \<noteq> [] \<and> c \<noteq> [DOT]) (split_slash path)"

definition dir_entries :: "crc_fun \<Rightarrow> gofs \<Rightarrow> u64 \<Rightarrow> dir_entry list result" where
  "dir_entries crc g ino = tryR (read_inode crc g ino) (dir_list crc g [])"

definition dir_lookup :: "hash_fun \<Rightarrow> crc_fun \<Rightarrow> gofs \<Rightarrow> u64 \<Rightarrow> rstring \<Rightarrow> u64 option result" where
  "dir_lookup sip crc g dir name =
     tryR (read_inode crc g dir) (\<lambda>ino.
     tryR (dir_find sip crc g [] ino name) (\<lambda>r. Inr (map_option de_ino r)))"

fun walk :: "hash_fun \<Rightarrow> crc_fun \<Rightarrow> gofs \<Rightarrow> rstring list \<Rightarrow> u64 \<Rightarrow> u64 result" where
  "walk sip crc g [] ino = Inr ino"
| "walk sip crc g (name # names) ino =
     tryR (dir_lookup sip crc g ino name) (\<lambda>r.
     case r of
       None \<Rightarrow> Inl (NameMsg name '': no such file or directory'')
     | Some ino \<Rightarrow> walk sip crc g names ino)"

definition lookup_path :: "hash_fun \<Rightarrow> crc_fun \<Rightarrow> gofs \<Rightarrow> rstring \<Rightarrow> u64 result" where
  "lookup_path sip crc g path = walk sip crc g (path_comps path) (sb_root_ino (g_sb g))"

definition resolve_parent :: "hash_fun \<Rightarrow> crc_fun \<Rightarrow> gofs \<Rightarrow> rstring \<Rightarrow> (u64 \<times> rstring) result" where
  "resolve_parent sip crc g path =
     (let comps = path_comps path in
      if comps = [] then Inl (Msg ''cannot operate on the root directory'')
      else tryR (walk sip crc g (butlast comps) (sb_root_ino (g_sb g))) (\<lambda>ino. Inr (ino, last comps)))"

definition check_name :: "rstring \<Rightarrow> unit result" where
  "check_name name =
     (if name = [] \<or> SLASH \<in> set name \<or> name = [DOT] \<or> name = [DOT, DOT]
      then Inl (Msg ''invalid name {name:?}'')
      else if 255 < length (encode_utf16 name) then Inl (Msg ''name too long'')
      else Inr ())"

subsection \<open>Reading\<close>

text \<open>Every round of the loop reads or skips at least a byte.\<close>

fun read_loop :: "crc_fun \<Rightarrow> gofs \<Rightarrow> inode \<Rightarrow> nat \<Rightarrow> u64 \<Rightarrow> u64 \<Rightarrow> buffer result" where
  "read_loop crc g ino 0 pos to = (if pos < to then Inl Diverges else Inr [])"
| "read_loop crc g ino (Suc fuel) pos to =
     (if pos < to then
        let bs = bs_of g; in_blk = pos mod bs in
        guardR (bs \<noteq> 0) Panic
          (tryR (map_lookup crc g [] ino (pos div bs)) (\<lambda>m. case m of
             Run blk rl \<Rightarrow>
               let take = min (rl * bs - in_blk) (to - pos) in
               tryR (g_resolve g blk) (\<lambda>off.
               tryR (dv_pread (g_dev g) (unat take) (off + in_blk)) (\<lambda>part.
               tryR (read_loop crc g ino fuel (pos + take) to) (\<lambda>rest. Inr (part @ rest))))
           | Hole hl \<Rightarrow>
               let skip = max 1 (min (sat_sub64 (sat_mul64 hl bs) in_blk) (to - pos)) in
               tryR (read_loop crc g ino fuel (pos + skip) to) (\<lambda>rest.
               Inr (replicate (unat skip) 0 @ rest))))
      else Inr [])"

definition read_inode_data :: "crc_fun \<Rightarrow> gofs \<Rightarrow> inode \<Rightarrow> u64 \<Rightarrow> u64 \<Rightarrow> buffer result" where
  "read_inode_data crc g ino offset len =
     (if in_size ino \<le> offset then Inr []
      else
        let len = min len (in_size ino - offset); f = in_format ino in
        if f = FMT_EMPTY then Inr (replicate (unat len) 0)
        else if f = FMT_EMBED then
          guardR (unat offset + unat len \<le> length (in_payload ino)) Panic
            (Inr (get_bytes (in_payload ino) (unat offset) (unat len)))
        else if f = FMT_EXTENT \<or> f = FMT_TREE
        then read_loop crc g ino (unat len) offset (offset + len)
        else Inl (Msg ''file format {f} unsupported''))"

definition read_at :: "crc_fun \<Rightarrow> gofs \<Rightarrow> u64 \<Rightarrow> u64 \<Rightarrow> u64 \<Rightarrow> buffer result" where
  "read_at crc g ino offset len = tryR (read_inode crc g ino) (\<lambda>i. read_inode_data crc g i offset len)"

definition read_file :: "crc_fun \<Rightarrow> gofs \<Rightarrow> u64 \<Rightarrow> buffer result" where
  "read_file crc g ino = tryR (read_inode crc g ino) (\<lambda>i. read_inode_data crc g i 0 (in_size i))"

subsection \<open>Writing\<close>

definition lift_embed :: "crc_fun \<Rightarrow> u64 \<Rightarrow> inode \<Rightarrow> inode fsop" where
  "lift_embed crc ino i =
     (let sz = unat (in_size i); data = get_bytes (in_payload i) 0 sz;
          i' = i\<lparr>in_format := FMT_EMPTY, in_payload := replicate INODE_PAYLOAD 0\<rparr>
      in bindS (ensureS (sz \<le> length (in_payload i)) Panic) (\<lambda>_.
         if sz = 0 then retS i'
         else
           bindS (map_ensure crc (fst (blk_split ino)) i' 0 1) (\<lambda>(i', runs).
           bindS (ensureS (runs \<noteq> []) Panic) (\<lambda>_.
           bindS (askF (\<lambda>g t. tryR (g_resolve g (fst (snd (hd runs)))) (\<lambda>off. Inr (off, g_bs g)))) (\<lambda>(off, bs).
           bindS (on_dev (dv_pwrite (put_bytes (replicate bs 0) 0 data) off)) (\<lambda>_.
           retS (i'\<lparr>in_nblocks := in_nblocks i' + 1\<rparr>)))))))"

text \<open>One block of a run: the whole block, or its old contents (zeros if fresh) with the data put in.\<close>

definition write_piece :: "u64 \<Rightarrow> buffer \<Rightarrow> run \<Rightarrow> nat \<Rightarrow> u64 \<Rightarrow> u64 fsop" where
  "write_piece offset data = (\<lambda>(rfb, rblk, rlen, fresh) b nblocks.
     bindS (askF (\<lambda>g t. Inr (bs_of g))) (\<lambda>bs.
     let to = offset + of_nat (length data); blk_start = (rfb + of_nat b) * bs;
         a = max offset blk_start; z = min to (blk_start + bs);
         part = get_bytes data (unat (a - offset)) (unat (z - a))
     in if z \<le> a then retS nblocks
        else
          bindS (askF (\<lambda>g t. g_resolve g (rblk + of_nat b))) (\<lambda>phys.
          bindS (if a = blk_start \<and> z = blk_start + bs then on_dev (dv_pwrite part phys)
                 else
                   bindS (askF (\<lambda>g t. if fresh then Inr (replicate (unat bs) 0)
                                      else dv_pread (g_dev g) (unat bs) phys)) (\<lambda>buf.
                   on_dev (dv_pwrite (put_bytes buf (unat (a - blk_start)) part) phys))) (\<lambda>_.
          retS (if fresh then nblocks + 1 else nblocks)))))"

definition write_run :: "u64 \<Rightarrow> buffer \<Rightarrow> run \<Rightarrow> u64 \<Rightarrow> u64 fsop" where
  "write_run offset data r nblocks =
     foldS (write_piece offset data r) [0..<unat (fst (snd (snd r)))] nblocks"

text \<open>The part of \<open>write\<close> for data that does not stay in the inode.\<close>

definition write_blocks :: "crc_fun \<Rightarrow> u64 \<Rightarrow> inode \<Rightarrow> u64 \<Rightarrow> buffer \<Rightarrow> inode fsop" where
  "write_blocks crc ino i offset data =
     (let to = offset + of_nat (length data) in
      bindS (if in_format i = FMT_EMBED then lift_embed crc ino i else retS i) (\<lambda>i.
      bindS (askF (\<lambda>g t. guardR (bs_of g \<noteq> 0) Panic (Inr (bs_of g)))) (\<lambda>bs.
      let fb0 = offset div bs in
      bindS (map_ensure crc (fst (blk_split ino)) i fb0 (div_up to bs - fb0)) (\<lambda>(i, runs).
      bindS (foldS (write_run offset data) runs (in_nblocks i)) (\<lambda>nblocks.
      retS (i\<lparr>in_nblocks := nblocks\<rparr>))))))"

definition write_at :: "crc_fun \<Rightarrow> clock \<Rightarrow> u64 \<Rightarrow> u64 \<Rightarrow> buffer \<Rightarrow> (gofs, nat) operation" where
  "write_at crc nw ino offset data =
     (if data = [] then retS 0
      else
        commit_txn crc
          (bindS (askF (\<lambda>g t. read_inode_txn crc g t ino)) (\<lambda>i.
           bindS (ensureS (\<not> is_dir i) (Msg ''is a directory'')) (\<lambda>_.
           bindS (ensureS (\<not> immutable i) (Msg ''immutable file'')) (\<lambda>_.
           let to = offset + of_nat (length data) in
           bindS (if (in_format i = FMT_EMPTY \<or> in_format i = FMT_EMBED) \<and> unat to \<le> INODE_PAYLOAD
                  then bindS (ensureS (offset \<le> to) Panic) (\<lambda>_.
                       retS (i\<lparr>in_format := FMT_EMBED, in_payload := put_bytes (in_payload i) (unat offset) data\<rparr>))
                  else write_blocks crc ino i offset data) (\<lambda>i.
           bindS (write_inode_txn crc ino (touch (nw 0) False (i\<lparr>in_size := max (in_size i) to\<rparr>))) (\<lambda>_.
           retS (length data))))))))"

end
