(* ===== verification/Namespace.thy ===== *)
theory Namespace
  imports Files
begin

text \<open>
  \<open>src/fs.rs\<close>, truncation, the namespace operations, attributes, the path wrappers and the
  kernel update.
\<close>

unbundle bit_operations_syntax

subsection \<open>Truncation\<close>

fun zero_loop :: "crc_fun \<Rightarrow> inode \<Rightarrow> nat \<Rightarrow> u64 \<Rightarrow> u64 \<Rightarrow> unit fsop" where
  "zero_loop crc i 0 pos to = (if pos < to then failS Diverges else retS ())"
| "zero_loop crc i (Suc fuel) pos to =
     (if pos < to then
        bindS (askF (\<lambda>g t. guardR (bs_of g \<noteq> 0) Panic (Inr (bs_of g)))) (\<lambda>bs.
        let in_blk = pos mod bs in
        bindS (askF (\<lambda>g t. map_lookup crc g t i (pos div bs))) (\<lambda>m. case m of
          Run blk len \<Rightarrow>
            bindS (askF (\<lambda>g t. g_resolve g blk)) (\<lambda>off.
            let n = min (bs - in_blk) (to - pos) in
            bindS (on_dev (dv_pwrite (replicate (unat n) 0) (off + in_blk))) (\<lambda>_.
            zero_loop crc i fuel (pos + n) to))
        | Hole hl \<Rightarrow>
            zero_loop crc i fuel (sat_add64 pos (max 1 (sat_sub64 (sat_mul64 hl bs) in_blk))) to))
      else retS ())"

definition zero_tail :: "crc_fun \<Rightarrow> inode \<Rightarrow> u64 \<Rightarrow> u64 \<Rightarrow> unit fsop" where
  "zero_tail crc i from to = zero_loop crc i (unat to - unat from) from to"

text \<open>What shrinking from \<open>old\<close> to \<open>size\<close> bytes does to the mapping.\<close>

definition shrink_mapping :: "crc_fun \<Rightarrow> inode \<Rightarrow> u64 \<Rightarrow> inode fsop" where
  "shrink_mapping crc i sz =
     (let f = in_format i in
      if f = FMT_EMPTY then retS i
      else if f = FMT_EMBED then
        bindS (ensureS (unat sz \<le> length (in_payload i)) Panic) (\<lambda>_.
        retS (i\<lparr>in_payload := take (unat sz) (in_payload i) @ replicate (length (in_payload i) - unat sz) 0\<rparr>))
      else if f = FMT_EXTENT \<or> f = FMT_TREE then
        if sz = 0 then map_free_all crc i
        else
          bindS (askF (\<lambda>g t. guardR (bs_of g \<noteq> 0) Panic (Inr (bs_of g)))) (\<lambda>bs.
          bindS (map_truncate crc i (div_up sz bs)) (\<lambda>(i', freed).
          let i'' = i'\<lparr>in_nblocks := sat_sub64 (in_nblocks i') freed\<rparr> in
          bindS (zero_tail crc i'' sz (in_size i)) (\<lambda>_. retS i'')))
      else failS (Msg ''file format {f} unsupported''))"

definition truncate :: "crc_fun \<Rightarrow> clock \<Rightarrow> u64 \<Rightarrow> u64 \<Rightarrow> (gofs, unit) operation" where
  "truncate crc nw ino sz =
     commit_txn crc
       (bindS (askF (\<lambda>g t. read_inode_txn crc g t ino)) (\<lambda>i.
        bindS (ensureS (\<not> is_dir i) (Msg ''is a directory'')) (\<lambda>_.
        bindS (ensureS (\<not> immutable i) (Msg ''immutable file'')) (\<lambda>_.
        if sz = in_size i then retS ()
        else
          bindS (if sz < in_size i then shrink_mapping crc i sz else retS i) (\<lambda>i.
          write_inode_txn crc ino (touch (nw 0) False (i\<lparr>in_size := sz\<rparr>)))))))"

subsection \<open>Creating and linking\<close>

definition new_inode :: "ts \<Rightarrow> u16 \<Rightarrow> u32 \<Rightarrow> inode" where
  "new_inode now mode nlink =
     inode_default\<lparr>in_format := FMT_EMPTY, in_mode := mode, in_nlink := nlink,
       in_atime := now, in_mtime := now, in_ctime := now, in_btime := now\<rparr>"

text \<open>The transaction of each operation, and the operation as one transaction that is committed.\<close>

definition mknod_txn :: "hash_fun \<Rightarrow> crc_fun \<Rightarrow> clock \<Rightarrow> u64 \<Rightarrow> rstring \<Rightarrow> u16 \<Rightarrow> u8 \<Rightarrow> u32 \<Rightarrow> buffer option
    \<Rightarrow> u64 fsop" where
  "mknod_txn sip crc nw parent name mode ftype nlink data =
       bindS (askF (\<lambda>g t. check_name name)) (\<lambda>_.
        bindS (askF (\<lambda>g t. read_inode_txn crc g t parent)) (\<lambda>pinode.
        bindS (ensureS (is_dir pinode) (Msg ''parent is not a directory'')) (\<lambda>_.
        bindS (askF (\<lambda>g t. dir_find sip crc g t pinode name)) (\<lambda>found.
        bindS (ensureS (found = None) (NameMsg name '': already exists'')) (\<lambda>_.
        bindS (alloc_inode crc (fst (blk_split parent))) (\<lambda>ino.
        let i = new_inode (nw 0) mode nlink in
        bindS (case data of
                 None \<Rightarrow> retS i
               | Some d \<Rightarrow>
                   bindS (ensureS (length d \<le> INODE_PAYLOAD) (Msg ''symlink target too long (v1 limit {INODE_PAYLOAD})'')) (\<lambda>_.
                   retS (i\<lparr>in_format := FMT_EMBED, in_payload := put_bytes (in_payload i) 0 d,
                     in_size := of_nat (length d)\<rparr>))) (\<lambda>i.
        bindS (write_inode_txn crc ino i) (\<lambda>_.
        bindS (dir_insert sip crc parent pinode \<lparr>de_ino = ino, de_ftype = ftype, de_name = name\<rparr>) (\<lambda>pinode.
        let pinode = (if ftype = DT_DIR then pinode\<lparr>in_nlink := in_nlink pinode + 1\<rparr> else pinode) in
        bindS (write_inode_txn crc parent (touch (nw 1) False pinode)) (\<lambda>_.
        retS ino))))))))))"

definition mknod :: "hash_fun \<Rightarrow> crc_fun \<Rightarrow> clock \<Rightarrow> u64 \<Rightarrow> rstring \<Rightarrow> u16 \<Rightarrow> u8 \<Rightarrow> u32 \<Rightarrow> buffer option
    \<Rightarrow> (gofs, u64) operation" where
  "mknod sip crc nw parent name mode ftype nlink data =
     commit_txn crc (mknod_txn sip crc nw parent name mode ftype nlink data)"

definition create_at :: "hash_fun \<Rightarrow> crc_fun \<Rightarrow> clock \<Rightarrow> u64 \<Rightarrow> rstring \<Rightarrow> u16 \<Rightarrow> (gofs, u64) operation" where
  "create_at sip crc nw parent name mode =
     mknod sip crc nw parent name (0x8000 OR (mode AND 0xFFF)) DT_FILE 1 None"

definition mkdir_at :: "hash_fun \<Rightarrow> crc_fun \<Rightarrow> clock \<Rightarrow> u64 \<Rightarrow> rstring \<Rightarrow> u16 \<Rightarrow> (gofs, u64) operation" where
  "mkdir_at sip crc nw parent name mode =
     mknod sip crc nw parent name (0x4000 OR (mode AND 0xFFF)) DT_DIR 2 None"

definition symlink_at :: "hash_fun \<Rightarrow> crc_fun \<Rightarrow> clock \<Rightarrow> u64 \<Rightarrow> rstring \<Rightarrow> rstring \<Rightarrow> (gofs, u64) operation" where
  "symlink_at sip crc nw parent name target =
     mknod sip crc nw parent name 0xA1FF DT_FILE 1 (Some (utf8_bytes target))"

definition link_txn :: "hash_fun \<Rightarrow> crc_fun \<Rightarrow> clock \<Rightarrow> u64 \<Rightarrow> u64 \<Rightarrow> rstring \<Rightarrow> unit fsop" where
  "link_txn sip crc nw ino parent name =
       bindS (askF (\<lambda>g t. check_name name)) (\<lambda>_.
        bindS (askF (\<lambda>g t. read_inode_txn crc g t ino)) (\<lambda>i.
        bindS (ensureS (\<not> is_dir i) (Msg ''hard links to directories are not allowed'')) (\<lambda>_.
        bindS (askF (\<lambda>g t. read_inode_txn crc g t parent)) (\<lambda>pinode.
        bindS (dir_insert sip crc parent pinode \<lparr>de_ino = ino, de_ftype = DT_FILE, de_name = name\<rparr>) (\<lambda>pinode.
        bindS (write_inode_txn crc ino (touch (nw 0) True (i\<lparr>in_nlink := in_nlink i + 1\<rparr>))) (\<lambda>_.
        write_inode_txn crc parent (touch (nw 1) False pinode)))))))"

definition link_at :: "hash_fun \<Rightarrow> crc_fun \<Rightarrow> clock \<Rightarrow> u64 \<Rightarrow> u64 \<Rightarrow> rstring \<Rightarrow> (gofs, unit) operation" where
  "link_at sip crc nw ino parent name =
     commit_txn crc (link_txn sip crc nw ino parent name)"

subsection \<open>Removing and renaming\<close>

text \<open>\<open>saturating_sub(1)\<close> of a link count.\<close>

definition drop_link :: "inode \<Rightarrow> inode" where
  "drop_link i = i\<lparr>in_nlink := (if in_nlink i = 0 then 0 else in_nlink i - 1)\<rparr>"

definition free_file :: "crc_fun \<Rightarrow> u64 \<Rightarrow> inode \<Rightarrow> unit fsop" where
  "free_file crc ino i = bindS (map_free_all crc i) (\<lambda>_. free_inode crc ino)"

definition remove_txn :: "hash_fun \<Rightarrow> crc_fun \<Rightarrow> clock \<Rightarrow> u64 \<Rightarrow> rstring \<Rightarrow> bool \<Rightarrow> unit fsop" where
  "remove_txn sip crc nw parent name want_dir =
       bindS (askF (\<lambda>g t. read_inode_txn crc g t parent)) (\<lambda>pinode.
        bindS (askF (\<lambda>g t. dir_find sip crc g t pinode name)) (\<lambda>found.
        case found of
          None \<Rightarrow> failS (NameMsg name '': no such file or directory'')
        | Some ent \<Rightarrow>
            bindS (askF (\<lambda>g t. read_inode_txn crc g t (de_ino ent))) (\<lambda>i.
            bindS (ensureS (want_dir = is_dir i)
              (NameMsg name (if want_dir then '': not a directory'' else '': is a directory''))) (\<lambda>_.
            bindS (ensureS (\<not> immutable i) (NameMsg name '': immutable file'')) (\<lambda>_.
            bindS (if want_dir then
                     bindS (askF (\<lambda>g t. dir_count crc g t i)) (\<lambda>n.
                     bindS (ensureS (n = 0) (NameMsg name '': directory not empty'')) (\<lambda>_.
                     bindS (free_file crc (de_ino ent) i) (\<lambda>_. retS (drop_link pinode))))
                   else if in_nlink (drop_link i) = 0 then
                     bindS (free_file crc (de_ino ent) (drop_link i)) (\<lambda>_. retS pinode)
                   else
                     bindS (write_inode_txn crc (de_ino ent) (touch (nw 0) True (drop_link i))) (\<lambda>_.
                     retS pinode)) (\<lambda>pinode.
            bindS (dir_remove sip crc pinode name) (\<lambda>(_, pinode).
            write_inode_txn crc parent (touch (nw 1) False pinode))))))))"

definition remove_common :: "hash_fun \<Rightarrow> crc_fun \<Rightarrow> clock \<Rightarrow> u64 \<Rightarrow> rstring \<Rightarrow> bool \<Rightarrow> (gofs, unit) operation" where
  "remove_common sip crc nw parent name want_dir =
     commit_txn crc (remove_txn sip crc nw parent name want_dir)"

definition unlink_at :: "hash_fun \<Rightarrow> crc_fun \<Rightarrow> clock \<Rightarrow> u64 \<Rightarrow> rstring \<Rightarrow> (gofs, unit) operation" where
  "unlink_at sip crc nw parent name = remove_common sip crc nw parent name False"

definition rmdir_at :: "hash_fun \<Rightarrow> crc_fun \<Rightarrow> clock \<Rightarrow> u64 \<Rightarrow> rstring \<Rightarrow> (gofs, unit) operation" where
  "rmdir_at sip crc nw parent name = remove_common sip crc nw parent name True"

text \<open>The target of a rename that exists already and is another file goes away.\<close>

definition replace_target ::
  "hash_fun \<Rightarrow> crc_fun \<Rightarrow> inode \<Rightarrow> rstring \<Rightarrow> dir_entry \<Rightarrow> dir_entry \<Rightarrow> inode fsop" where
  "replace_target sip crc dst n2 ent existing =
     bindS (askF (\<lambda>g t. read_inode_txn crc g t (de_ino existing))) (\<lambda>ei.
     bindS (ensureS (\<not> immutable ei) (NameMsg n2 '': immutable file'')) (\<lambda>_.
     bindS (ensureS (is_dir ei = (de_ftype ent = DT_DIR))
       (NameMsg n2 (if is_dir ei then '': is a directory'' else '': not a directory''))) (\<lambda>_.
     bindS (if is_dir ei then
              bindS (askF (\<lambda>g t. dir_count crc g t ei)) (\<lambda>n.
              bindS (ensureS (n = 0) (NameMsg n2 '': directory not empty'')) (\<lambda>_.
              bindS (free_file crc (de_ino existing) ei) (\<lambda>_. retS (drop_link dst))))
            else if in_nlink (drop_link ei) = 0 then
              bindS (free_file crc (de_ino existing) (drop_link ei)) (\<lambda>_. retS dst)
            else
              bindS (write_inode_txn crc (de_ino existing) (drop_link ei)) (\<lambda>_. retS dst)) (\<lambda>dst.
     bindS (dir_remove sip crc dst n2) (\<lambda>(_, dst). retS dst)))))"

text \<open>Move the entry, within one directory or between two.\<close>

definition move_entry ::
  "hash_fun \<Rightarrow> crc_fun \<Rightarrow> clock \<Rightarrow> u64 \<Rightarrow> rstring \<Rightarrow> u64 \<Rightarrow> rstring \<Rightarrow> dir_entry \<Rightarrow> inode \<Rightarrow> inode \<Rightarrow> unit fsop" where
  "move_entry sip crc nw p1 n1 p2 n2 ent src dst =
     (let new = \<lparr>de_ino = de_ino ent, de_ftype = de_ftype ent, de_name = n2\<rparr> in
      if p1 = p2 then
        bindS (dir_remove sip crc dst n1) (\<lambda>(_, dst).
        bindS (dir_insert sip crc p2 dst new) (\<lambda>dst.
        write_inode_txn crc p2 (touch (nw 0) False dst)))
      else
        bindS (dir_remove sip crc src n1) (\<lambda>(_, src).
        bindS (dir_insert sip crc p2 dst new) (\<lambda>dst.
        let (src, dst) = (if de_ftype ent = DT_DIR then (drop_link src, dst\<lparr>in_nlink := in_nlink dst + 1\<rparr>)
                          else (src, dst))
        in bindS (write_inode_txn crc p1 (touch (nw 0) False src)) (\<lambda>_.
           write_inode_txn crc p2 (touch (nw 1) False dst)))))"

definition rename_txn :: "hash_fun \<Rightarrow> crc_fun \<Rightarrow> clock \<Rightarrow> u64 \<Rightarrow> rstring \<Rightarrow> u64 \<Rightarrow> rstring \<Rightarrow> unit fsop" where
  "rename_txn sip crc nw p1 n1 p2 n2 =
       bindS (askF (\<lambda>g t. check_name n2)) (\<lambda>_.
        bindS (askF (\<lambda>g t. read_inode_txn crc g t p1)) (\<lambda>src.
        bindS (askF (\<lambda>g t. dir_find sip crc g t src n1)) (\<lambda>found.
        case found of
          None \<Rightarrow> failS (NameMsg n1 '': no such file or directory'')
        | Some ent \<Rightarrow>
            bindS (if p1 = p2 then retS src else askF (\<lambda>g t. read_inode_txn crc g t p2)) (\<lambda>dst.
            bindS (askF (\<lambda>g t. dir_find sip crc g t dst n2)) (\<lambda>target.
            case target of
              None \<Rightarrow> move_entry sip crc nw p1 n1 p2 n2 ent src dst
            | Some existing \<Rightarrow>
                if de_ino existing = de_ino ent then retS ()
                else
                  bindS (replace_target sip crc dst n2 ent existing) (\<lambda>dst.
                  move_entry sip crc nw p1 n1 p2 n2 ent src dst))))))"

definition rename_at :: "hash_fun \<Rightarrow> crc_fun \<Rightarrow> clock \<Rightarrow> u64 \<Rightarrow> rstring \<Rightarrow> u64 \<Rightarrow> rstring \<Rightarrow> (gofs, unit) operation" where
  "rename_at sip crc nw p1 n1 p2 n2 =
     commit_txn crc (rename_txn sip crc nw p1 n1 p2 n2)"

subsection \<open>Links and attributes\<close>

definition readlink :: "crc_fun \<Rightarrow> gofs \<Rightarrow> u64 \<Rightarrow> rstring result" where
  "readlink crc g ino =
     tryR (read_inode crc g ino) (\<lambda>i.
     if in_mode i AND 0xF000 \<noteq> 0xA000 then Inl (Msg ''not a symlink'')
     else
       tryR (read_inode_data crc g i 0 (in_size i)) (\<lambda>data.
       case from_utf8 data of None \<Rightarrow> Inl (Msg ''invalid symlink target'') | Some s \<Rightarrow> Inr s))"

definition upd_opt :: "('a \<Rightarrow> inode \<Rightarrow> inode) \<Rightarrow> 'a option \<Rightarrow> inode \<Rightarrow> inode" where
  "upd_opt f v i = (case v of None \<Rightarrow> i | Some x \<Rightarrow> f x i)"

definition setattr :: "crc_fun \<Rightarrow> clock \<Rightarrow> u64 \<Rightarrow> u16 option \<Rightarrow> u32 option \<Rightarrow> u32 option \<Rightarrow> u64 option
    \<Rightarrow> ts option \<Rightarrow> ts option \<Rightarrow> (gofs, inode) operation" where
  "setattr crc nw ino mode uid gid sz atime mtime =
     bindS (case sz of
              None \<Rightarrow> retS ()
            | Some s \<Rightarrow>
                bindS (askS (\<lambda>g. read_inode crc g ino)) (\<lambda>i.
                if \<not> is_dir i \<and> in_size i \<noteq> s then truncate crc nw ino s else retS ())) (\<lambda>_.
     commit_txn crc
       (bindS (askF (\<lambda>g t. read_inode_txn crc g t ino)) (\<lambda>i.
        let i = upd_opt (\<lambda>m i. i\<lparr>in_mode := (in_mode i AND 0xF000) OR (m AND 0xFFF)\<rparr>) mode i;
            i = upd_opt (\<lambda>u i. i\<lparr>in_uid := u\<rparr>) uid i;
            i = upd_opt (\<lambda>v i. i\<lparr>in_gid := v\<rparr>) gid i;
            i = upd_opt (\<lambda>a i. i\<lparr>in_atime := a\<rparr>) atime i;
            i = upd_opt (\<lambda>m i. i\<lparr>in_mtime := m\<rparr>) mtime i;
            i = i\<lparr>in_ctime := nw 1\<rparr>
        in bindS (write_inode_txn crc ino i) (\<lambda>_. retS i))))"

subsection \<open>Path wrappers\<close>

definition at_parent ::
  "hash_fun \<Rightarrow> crc_fun \<Rightarrow> rstring \<Rightarrow> (u64 \<Rightarrow> rstring \<Rightarrow> (gofs, 'a) operation) \<Rightarrow> (gofs, 'a) operation" where
  "at_parent sip crc path f = bindS (askS (\<lambda>g. resolve_parent sip crc g path)) (\<lambda>(p, n). f p n)"

definition create :: "hash_fun \<Rightarrow> crc_fun \<Rightarrow> clock \<Rightarrow> rstring \<Rightarrow> u16 \<Rightarrow> (gofs, u64) operation" where
  "create sip crc nw path mode = at_parent sip crc path (\<lambda>p n. create_at sip crc nw p n mode)"

definition mkdir :: "hash_fun \<Rightarrow> crc_fun \<Rightarrow> clock \<Rightarrow> rstring \<Rightarrow> u16 \<Rightarrow> (gofs, u64) operation" where
  "mkdir sip crc nw path mode = at_parent sip crc path (\<lambda>p n. mkdir_at sip crc nw p n mode)"

definition unlink :: "hash_fun \<Rightarrow> crc_fun \<Rightarrow> clock \<Rightarrow> rstring \<Rightarrow> (gofs, unit) operation" where
  "unlink sip crc nw path = at_parent sip crc path (unlink_at sip crc nw)"

definition rmdir :: "hash_fun \<Rightarrow> crc_fun \<Rightarrow> clock \<Rightarrow> rstring \<Rightarrow> (gofs, unit) operation" where
  "rmdir sip crc nw path = at_parent sip crc path (rmdir_at sip crc nw)"

text \<open>\<open>trim_matches('/')\<close>\<close>

definition trim_slashes :: "rstring \<Rightarrow> rstring" where
  "trim_slashes s = rev (dropWhile ((=) SLASH) (rev (dropWhile ((=) SLASH) s)))"

definition into_itself :: "rstring \<Rightarrow> rstring \<Rightarrow> bool" where
  "into_itself from to =
     (let f = trim_slashes from; t = trim_slashes to
      in t = f \<or> take (length f + 1) t = f @ [SLASH])"

definition rename :: "hash_fun \<Rightarrow> crc_fun \<Rightarrow> clock \<Rightarrow> rstring \<Rightarrow> rstring \<Rightarrow> (gofs, unit) operation" where
  "rename sip crc nw from to =
     bindS (ensureS (\<not> into_itself from to) (Msg ''cannot move a directory into itself'')) (\<lambda>_.
     at_parent sip crc from (\<lambda>p1 n1. at_parent sip crc to (\<lambda>p2 n2. rename_at sip crc nw p1 n1 p2 n2)))"

definition import_file :: "hash_fun \<Rightarrow> crc_fun \<Rightarrow> clock \<Rightarrow> rstring \<Rightarrow> buffer \<Rightarrow> u16 \<Rightarrow> (gofs, u64) operation" where
  "import_file sip crc nw path data mode =
     bindS (create sip crc nw path mode) (\<lambda>ino.
     bindS (write_at crc (\<lambda>i. nw (2 + i)) ino 0 data) (\<lambda>_. retS ino))"

subsection \<open>The boot kernel\<close>

definition KERNEL_BIN :: rstring where
  "KERNEL_BIN = [0x6b, 0x65, 0x72, 0x6e, 0x65, 0x6c, 0x2e, 0x62, 0x69, 0x6e]"

definition kernel_capacity :: "gofs \<Rightarrow> inode \<Rightarrow> u64" where
  "kernel_capacity g i =
     (case extents_parse (in_payload i) of [] \<Rightarrow> 0 | e # _ \<Rightarrow> ucast (ex_blocks e)) * bs_of g"

definition kernel_update :: "hash_fun \<Rightarrow> crc_fun \<Rightarrow> clock \<Rightarrow> buffer \<Rightarrow> (gofs, unit) operation" where
  "kernel_update sip crc nw data =
     bindS (askS (\<lambda>g. guardR (sb_kernel_offset (g_sb g) \<noteq> 0)
       (Msg ''no kernel region (create one with mkfs --kernel)'')
       (dir_lookup sip crc g (sb_root_ino (g_sb g)) KERNEL_BIN))) (\<lambda>found.
     case found of
       None \<Rightarrow> failS (Msg ''kernel.bin missing from the root directory'')
     | Some ino \<Rightarrow>
         commit_txn crc
           (bindS (askF (\<lambda>g t. read_inode_txn crc g t ino)) (\<lambda>i.
            bindS (askF (\<lambda>g t. Inr (kernel_capacity g i, sb_kernel_offset (g_sb g)))) (\<lambda>(capacity, off).
            bindS (ensureS (of_nat (length data) \<le> capacity)
              (Msg ''kernel ({} bytes) exceeds the reserved region ({capacity} bytes)'')) (\<lambda>_.
            bindS (on_dev (dv_pwrite (data @ replicate (unat capacity - length data) 0) off)) (\<lambda>_.
            bindS (on_dev dv_sync) (\<lambda>_.
            bindS (write_inode_txn crc ino (touch (nw 0) False (i\<lparr>in_size := of_nat (length data)\<rparr>))) (\<lambda>_.
            modS (\<lambda>(g, t). (g\<lparr>g_sb := (g_sb g)\<lparr>sb_kernel_end := off + of_nat (length data)\<rparr>\<rparr>, t))))))))))"

end
