(* ===== verification/Frame.thy ===== *)
theory Frame
  imports Namespace
begin

text \<open>
  What code inside a transaction leaves alone: the device, the AG map and the identity of the
  filesystem. Allocation, mapping, directory and namespace code changes the transaction, the
  free-space counters and the allocator hints, and nothing else; the device is written by
  \<open>commit\<close> alone, and for file data by \<open>write\<close> and \<open>truncate\<close>.
\<close>

definition sb_ident :: "superblock \<Rightarrow> superblock" where
  "sb_ident sb = sb\<lparr>sb_free_blocks := 0, sb_rsvd_blocks := 0, sb_full_blocks := 0\<rparr>"

definition framed :: "gofs \<Rightarrow> gofs \<times> txn \<Rightarrow> bool" where
  "framed g0 s \<longleftrightarrow> g_dev (fst s) = g_dev g0 \<and> g_map (fst s) = g_map g0 \<and>
     sb_ident (g_sb (fst s)) = sb_ident (g_sb g0)"

lemma framed_start: "framed g (g, t)"
  by (simp add: framed_def)

lemma framed_counters:
  "framed g0 (g, t) \<Longrightarrow>
     framed g0 (g\<lparr>g_sb := (g_sb g)\<lparr>sb_free_blocks := a, sb_full_blocks := c\<rparr>\<rparr>, t')"
  "framed g0 (g, t) \<Longrightarrow>
     framed g0 (g\<lparr>g_sb := (g_sb g)\<lparr>sb_free_blocks := a, sb_rsvd_blocks := b\<rparr>\<rparr>, t')"
  by (simp_all add: framed_def sb_ident_def)

lemma framed_hints: "framed g0 (g, t) \<Longrightarrow> framed g0 (g\<lparr>g_hints := h\<rparr>, t')"
  by (simp add: framed_def)

subsection \<open>Structural rules\<close>

lemma keeps_case_mapping [keeps_intros]:
  "(\<And>n. keeps P (h n)) \<Longrightarrow> (\<And>b n. keeps P (f b n)) \<Longrightarrow> keeps P (case m of Hole n \<Rightarrow> h n | Run b n \<Rightarrow> f b n)"
  by (cases m) simp_all

lemma keeps_askF [keeps_intros]: "keeps P (askF f)"
  unfolding askF_def by (rule keeps_askS)

lemma keeps_readF [keeps_intros]: "keeps P (readF a)"
  unfolding readF_def by (rule keeps_askF)

lemma framed_writeF [keeps_intros]: "keeps (framed g0) (writeF a b)"
  by (rule keepsI) (auto simp: framed_def)

subsection \<open>Allocation\<close>

lemma framed_modS_counters [keeps_intros]:
  "keeps (framed g0) (modS (\<lambda>(g, t). (g\<lparr>g_sb := (g_sb g)\<lparr>sb_free_blocks := a g, sb_full_blocks := c g\<rparr>\<rparr>, t)))"
  "keeps (framed g0) (modS (\<lambda>(g, t). (g\<lparr>g_sb := (g_sb g)\<lparr>sb_free_blocks := a g, sb_rsvd_blocks := b g\<rparr>\<rparr>, t)))"
  "keeps (framed g0) (modS (\<lambda>(g, t). (g\<lparr>g_hints := h g\<rparr>, t)))"
  by (auto intro!: keeps_modS framed_counters framed_hints)

lemmas alloc_leaf_defs = set_arena_hint_def set_cell_hint_def rt_state_set_def rt_ref_set_def
  tbl_write_def rec_write_def tbl_free_rec_def put_ag_header_def account_alloc_def account_free_def

lemma framed_alloc_leaves [keeps_intros]:
  "keeps (framed g0) (set_arena_hint ag b)"
  "keeps (framed g0) (set_cell_hint ag c)"
  "keeps (framed g0) (rt_state_set hdr c st)"
  "keeps (framed g0) (rt_ref_set hdr c r)"
  "keeps (framed g0) (tbl_write crc ag local buf)"
  "keeps (framed g0) (rec_write crc ag r buf)"
  "keeps (framed g0) (tbl_free_rec crc ag r)"
  "keeps (framed g0) (put_ag_header crc hdr)"
  "keeps (framed g0) (account_alloc hdr n)"
  "keeps (framed g0) (account_free hdr n)"
  unfolding alloc_leaf_defs by (intro keeps_intros)+

lemma framed_new_arena [keeps_intros]: "keeps (framed g0) (new_arena crc hdr)"
  unfolding new_arena_def by (intro keeps_intros)+

lemma framed_tbl_alloc_rec [keeps_intros]: "keeps (framed g0) (tbl_alloc_rec crc hdr)"
  unfolding tbl_alloc_rec_def by (intro keeps_intros)+

lemma framed_refine [keeps_intros]:
  "keeps (framed g0) (refine_l0 crc hdr c)"
  "keeps (framed g0) (refine_l1 crc hdr l0 i)"
  unfolding refine_l0_def refine_l1_def by (intro keeps_intros)+

lemma framed_take_fresh [keeps_intros]: "keeps (framed g0) (take_fresh_l1 crc hdr l0 i n)"
  unfolding take_fresh_l1_def by (intro keeps_intros)+

lemma framed_alloc_levels [keeps_intros]:
  "keeps (framed g0) (alloc_l0 hdr k)"
  "keeps (framed g0) (alloc_l1 crc hdr m)"
  "keeps (framed g0) (alloc_l2 crc hdr n)"
  unfolding alloc_l0_def alloc_l1_def alloc_l2_def by (intro keeps_intros)+

lemma framed_alloc_extent [keeps_intros]:
  "keeps (framed g0) (alloc_extent crc ag n)"
  "keeps (framed g0) (alloc_block crc ag)"
  unfolding alloc_block_def alloc_extent_def by (intro keeps_intros)+

lemma framed_free_child_cell [keeps_intros]: "keeps (framed g0) (free_child_cell crc ag hdr l0 l)"
  unfolding free_child_cell_def by (intro keeps_intros)+

lemma framed_free_step [keeps_intros]: "keeps (framed g0) (free_step crc ag hdr local)"
  unfolding free_step_def by (intro keeps_intros)+

lemma framed_free_loop [keeps_intros]: "keeps (framed g0) (free_loop crc ag fuel hdr local0 cur n)"
  by (induction fuel arbitrary: hdr cur) (auto intro!: keeps_intros)

lemma framed_free_extent [keeps_intros]: "keeps (framed g0) (free_extent crc blk n)"
  unfolding free_extent_def by (intro keeps_intros)+

lemma framed_alloc_slot_block [keeps_intros]: "keeps (framed g0) (alloc_slot_block crc ag slots)"
  unfolding alloc_slot_block_def by (intro keeps_intros)+

lemma framed_inode_slots [keeps_intros]:
  "keeps (framed g0) (alloc_inode crc ag)"
  "keeps (framed g0) (set_ino_hint crc hdr h)"
  unfolding alloc_inode_def set_ino_hint_def by (intro keeps_intros)+

lemma framed_free_inode [keeps_intros]: "keeps (framed g0) (free_inode crc ino)"
  unfolding free_inode_def by (intro keeps_intros)+

lemma framed_write_inode [keeps_intros]: "keeps (framed g0) (write_inode_txn crc ino i)"
  unfolding write_inode_txn_def by (intro keeps_intros)+

subsection \<open>Mappings\<close>

lemma framed_node [keeps_intros]:
  "keeps (framed g0) (node_write crc a b)"
  "keeps (framed g0) (node_alloc crc ag level)"
  unfolding node_alloc_def node_write_def by (intro keeps_intros)+

lemma framed_rn_set [keeps_intros]: "keeps (framed g0) (rn_set crc r i st b a)"
  by (cases r) (auto intro!: keeps_intros)

lemma framed_redistribute [keeps_intros]: "keeps (framed g0) (redistribute crc node b a)"
  unfolding redistribute_def by (intro keeps_intros)+

lemma framed_free_child [keeps_intros]: "keeps (framed g0) (free_child fuel crc st b a)"
proof (induction fuel arbitrary: st b a)
  case (Suc fuel)
  then show ?case unfolding free_child.simps by (intro keeps_intros)+
qed (simp add: keeps_failS)

lemma framed_map_free_all [keeps_intros]: "keeps (framed g0) (map_free_all crc i)"
  unfolding map_free_all_def by (intro keeps_intros)+

lemma framed_trim_run [keeps_intros]: "keeps (framed g0) (trim_run crc a b k f)"
  unfolding trim_run_def by (intro keeps_intros)+

lemma framed_trim_child [keeps_intros]: "keeps (framed g0) (trim_child fuel crc st b a l cs co f)"
proof (induction fuel arbitrary: st b a l cs f)
  case (Suc fuel)
  then show ?case unfolding trim_child.simps Let_def by (intro keeps_intros)+
qed (simp add: keeps_failS)

lemma framed_map_truncate [keeps_intros]: "keeps (framed g0) (map_truncate crc i co)"
  unfolding map_truncate_def trim_extent_def by (intro keeps_intros)+

lemma framed_descend [keeps_intros]:
  "(\<And>p i l a f t b. keeps (framed g0) (child p i l a f t b)) \<Longrightarrow>
     keeps (framed g0) (descend crc child node ns from to b)"
  unfolding descend_def by (intro keeps_intros)+

lemma framed_child_ensure [keeps_intros]:
  "keeps (framed g0) (child_ensure fuel crc ag p i l cs fr to fresh)"
proof (induction fuel arbitrary: p i l cs fr to fresh)
  case (Suc fuel)
  then show ?case unfolding child_ensure.simps Let_def by (intro keeps_intros)+
qed (simp add: keeps_failS)

lemma framed_insert_in_child [keeps_intros]:
  "keeps (framed g0) (insert_in_child fuel crc ag fb b0 p i l cs f to u)"
proof (induction fuel arbitrary: p i l cs f to u)
  case (Suc fuel)
  then show ?case unfolding insert_in_child.simps Let_def by (intro keeps_intros)+
qed (simp add: keeps_failS)

lemma framed_insert_run [keeps_intros]: "keeps (framed g0) (insert_run crc ag i fb b n)"
  unfolding insert_run_def by (intro keeps_intros)+

lemma framed_to_tree [keeps_intros]: "keeps (framed g0) (to_tree crc ag i es)"
  unfolding to_tree_def by (intro keeps_intros)+

lemma framed_ensure_loop [keeps_intros]: "keeps (framed g0) (ensure_loop crc ag fuel es pos to fresh)"
  by (induction fuel arbitrary: es pos fresh) (auto intro!: keeps_intros simp: Let_def)

lemma framed_extent_ensure [keeps_intros]: "keeps (framed g0) (extent_ensure crc ag i fb n)"
  unfolding extent_ensure_def by (intro keeps_intros)+

lemma framed_root_grow [keeps_intros]: "keeps (framed g0) (root_grow crc ag i)"
  unfolding root_grow_def by (intro keeps_intros)+

lemma framed_grow_root [keeps_intros]: "keeps (framed g0) (grow_root crc ag fuel need i)"
  by (induction fuel arbitrary: i) (auto intro!: keeps_intros)

lemma framed_tree_ensure [keeps_intros]: "keeps (framed g0) (tree_ensure crc ag i fb n fresh)"
  unfolding tree_ensure_def by (intro keeps_intros)+

lemma framed_map_ensure [keeps_intros]: "keeps (framed g0) (map_ensure crc ag i fb n)"
  unfolding map_ensure_def mapped_ensure_def by (intro keeps_intros)+

subsection \<open>Directories\<close>

lemma framed_dir_block_ensure [keeps_intros]: "keeps (framed g0) (dir_block_ensure crc ag i fb)"
  unfolding dir_block_ensure_def by (intro keeps_intros)+

lemma framed_dir_writes [keeps_intros]:
  "keeps (framed g0) (dhdr_write crc blk d n tb fl)"
  "keeps (framed g0) (bucket_write crc blk ld es)"
  unfolding dhdr_write_def bucket_write_def by (intro keeps_intros)+

lemma framed_split_bucket [keeps_intros]: "keeps (framed g0) (split_bucket crc ag i h bno es ld bblk)"
  unfolding split_bucket_def by (intro keeps_intros)+

lemma framed_insert_loop [keeps_intros]: "keeps (framed g0) (insert_loop crc fuel ag i new)"
  by (induction fuel arbitrary: i) (auto intro!: keeps_intros)

lemma framed_hashed_insert [keeps_intros]: "keeps (framed g0) (hashed_insert sip crc d i e)"
  unfolding hashed_insert_def by (intro keeps_intros)+

lemma framed_dir_to_hashed [keeps_intros]: "keeps (framed g0) (dir_to_hashed sip crc d i)"
  unfolding dir_to_hashed_def by (intro keeps_intros)+

lemma framed_dir_insert_from [keeps_intros]: "keeps (framed g0) (dir_insert_from sip crc fuel d i e)"
  by (induction fuel arbitrary: i) (auto intro!: keeps_intros simp: Let_def)

lemma framed_dir_insert [keeps_intros]: "keeps (framed g0) (dir_insert sip crc d i e)"
  unfolding dir_insert_def by (rule framed_dir_insert_from)

lemma framed_merge_into [keeps_intros]: "keeps (framed g0) (merge_into crc h m)"
  unfolding merge_into_def by (intro keeps_intros)+

lemma framed_merge_loop [keeps_intros]: "keeps (framed g0) (merge_loop crc fuel i)"
proof (induction fuel)
  case (Suc fuel)
  then show ?case unfolding merge_loop.simps by (intro keeps_intros)+
qed (unfold merge_loop.simps, rule keeps_failS)

lemma framed_try_merge [keeps_intros]: "keeps (framed g0) (try_merge crc i)"
  unfolding try_merge_def by (intro keeps_intros)+

lemma framed_dir_remove [keeps_intros]: "keeps (framed g0) (dir_remove sip crc i name)"
  unfolding dir_remove_def hashed_remove_def by (intro keeps_intros)+

subsection \<open>Namespace operations\<close>

lemma framed_free_file [keeps_intros]: "keeps (framed g0) (free_file crc ino i)"
  unfolding free_file_def by (intro keeps_intros)+

lemma framed_replace_target [keeps_intros]: "keeps (framed g0) (replace_target sip crc d n e x)"
  unfolding replace_target_def by (intro keeps_intros)+

lemma framed_move_entry [keeps_intros]: "keeps (framed g0) (move_entry sip crc nw p1 n1 p2 n2 e s d)"
  unfolding move_entry_def by (intro keeps_intros)+

lemma framed_mknod_txn [keeps_intros]: "keeps (framed g0) (mknod_txn sip crc nw p n m ft nl d)"
  unfolding mknod_txn_def Let_def by (intro keeps_intros)+

lemma framed_link_txn [keeps_intros]: "keeps (framed g0) (link_txn sip crc nw ino p n)"
  unfolding link_txn_def by (intro keeps_intros)+

lemma framed_remove_txn [keeps_intros]: "keeps (framed g0) (remove_txn sip crc nw p n w)"
  unfolding remove_txn_def by (intro keeps_intros)+

lemma framed_rename_txn [keeps_intros]: "keeps (framed g0) (rename_txn sip crc nw p1 n1 p2 n2)"
  unfolding rename_txn_def by (intro keeps_intros)+

text \<open>
  An operation of this shape either commits its whole transaction or leaves the device as it
  was: a failure before the commit leaves no trace on disk.
\<close>

lemma commit_txn_cases:
  assumes "\<And>g0. keeps (framed g0) m" and "commit_txn crc m g = (r, g')"
  obtains (dropped) e where "r = Inl e" "framed g (g', [])"
    | (committed) x t g1 r' where "m (g, []) = (Inr x, (g1, t))" "framed g (g1, t)"
        "commit crc t g1 = (r', g')" "r = (case r' of Inl e \<Rightarrow> Inl e | Inr _ \<Rightarrow> Inr x)"
proof (cases "m (g, [])")
  case (fields r1 g1 t)
  have fr: "framed g (g1, t)"
    using keepsD [OF assms(1) framed_start fields] by simp
  show thesis
  proof (cases r1)
    case (Inl e)
    then have "in_txn m g = (Inl e, g1)" using fields by (simp add: in_txn_def)
    then have "r = Inl e" "g' = g1" using assms(2) by (simp_all add: commit_txn_def bindS_def)
    then show thesis using dropped fr by (simp add: framed_def)
  next
    case (Inr x)
    then have run: "in_txn m g = (Inr (x, t), g1)" using fields by (simp add: in_txn_def)
    obtain r' g2 where c: "commit crc t g1 = (r', g2)" by (metis surj_pair)
    have "r = (case r' of Inl e \<Rightarrow> Inl e | Inr _ \<Rightarrow> Inr x)" "g' = g2"
      using assms(2) run c by (auto simp: commit_txn_def bindS_def split: sum.splits)
    then show thesis using committed [of x g1 t r'] fields Inr fr c by simp
  qed
qed

end
