(* ===== verification/Resize.thy ===== *)
theory Resize
  imports Store
begin

text \<open>
  \<open>src/resize.rs\<close>: online resize. Adding an AG, growing, moving an AG wholesale, retiring an
  empty AG and shrinking change the AG map, the superblock and the device, never file metadata.
\<close>

unbundle bit_operations_syntax

definition bs64 :: "gofs \<Rightarrow> u64" where
  "bs64 g = ucast (sb_blocksize (g_sb g))"

text \<open>The end of a segment on the device, in the code's 64-bit arithmetic.\<close>

definition seg_end :: "gofs \<Rightarrow> ag_segment \<Rightarrow> u64" where
  "seg_end g s = sg_dev_offset s + ucast (sg_blocks s) * bs64 g"

definition mapped_end :: "gofs \<Rightarrow> u64" where
  "mapped_end g = fold (\<lambda>s m. max m (seg_end g s)) (am_segs (g_map g)) 0"

text \<open>AG numbers in the map are its indices; \<open>i as u32\<close> cuts them to 32 bits.\<close>

definition overlaps_excluding :: "gofs \<Rightarrow> u64 \<Rightarrow> u64 \<Rightarrow> u32 \<Rightarrow> bool" where
  "overlaps_excluding g off len skip \<longleftrightarrow>
     list_ex (\<lambda>(i, e). of_nat i \<noteq> skip \<and>
       list_ex (\<lambda>s. off < seg_end g s \<and> sg_dev_offset s < off + len) (ae_segs e))
       (enumerate 0 (am_entries (g_map g)))"

definition overlaps :: "gofs \<Rightarrow> u64 \<Rightarrow> u64 \<Rightarrow> bool" where
  "overlaps g off len = overlaps_excluding g off len (- 1)"

text \<open>\<open>saturating_sub\<close>\<close>

definition sat_sub :: "u64 \<Rightarrow> u64 \<Rightarrow> u64" where
  "sat_sub a b = (if b \<le> a then a - b else 0)"

fun gap_scan :: "u64 \<Rightarrow> u64 \<Rightarrow> u64 \<Rightarrow> (u64 \<times> u64) list \<Rightarrow> u64 option" where
  "gap_scan bytes limit cursor [] = (if bytes \<le> sat_sub limit cursor then Some cursor else None)"
| "gap_scan bytes limit cursor ((s0, s1) # rest) =
     (if cursor < s0 \<and> bytes \<le> sat_sub (min s0 limit) cursor then Some cursor
      else gap_scan bytes limit (max cursor s1) rest)"

text \<open>The tuples are sorted by their offset, then by their end.\<close>

definition seg_spans :: "gofs \<Rightarrow> (u64 \<times> u64) list" where
  "seg_spans g = map (\<lambda>s. (sg_dev_offset s, seg_end g s)) (am_segs (g_map g))"

definition sort_spans :: "(u64 \<times> u64) list \<Rightarrow> (u64 \<times> u64) list" where
  "sort_spans xs = sort_key fst (sort_key snd xs)"

definition find_gap :: "gofs \<Rightarrow> u64 \<Rightarrow> u64 \<Rightarrow> u64 option" where
  "find_gap g bytes limit = gap_scan bytes limit 0 (sort_spans (seg_spans g))"

subsection \<open>Adding an AG\<close>

definition commit_map :: "crc_fun \<Rightarrow> (gofs, unit) operation" where
  "commit_map crc =
     bindS (write_agmap crc) (\<lambda>_.
     bindS (write_superblock crc) (\<lambda>_.
     onDev dv_sync))"

text \<open>
  The root table of a new AG: the cells that hold the header and the table, and a partial last
  cell, are reserved. With the table comes the number of reserved cells.
\<close>

definition new_table :: "u32 \<Rightarrow> nat \<Rightarrow> nat \<Rightarrow> nat \<Rightarrow> nat \<Rightarrow> buffer \<times> nat" where
  "new_table ag_len bs cells rt_blocks head_cells =
     (let table = fold (\<lambda>c t. cell_set t c CELL_RSVD) [0..<head_cells] (replicate (rt_blocks * bs) 0)
      in if unat ag_len mod CELL_BLOCKS \<noteq> 0 \<and> cell_get table (cells - 1) = CELL_FREE
         then (cell_set table (cells - 1) CELL_RSVD, head_cells + 1)
         else (table, head_cells))"

definition new_ag_header :: "u32 \<Rightarrow> u32 \<Rightarrow> u64 \<Rightarrow> nat \<Rightarrow> ag_header" where
  "new_ag_header ag ag_len free_blocks head_cells =
     \<lparr>ah_num = ag, ah_gen = 1, ah_length = ag_len, ah_free_blocks = ucast free_blocks,
      ah_rsvd_blocks = ag_len - ucast free_blocks, ah_full_blocks = 0, ah_alloc_root = 1,
      ah_ino_hint = 0, ah_data_hint = of_nat (head_cells * CELL_BLOCKS), ah_tbl_arena = 0\<rparr>"

definition add_ag :: "crc_fun \<Rightarrow> u64 \<Rightarrow> u64 \<Rightarrow> (gofs, u32) operation" where
  "add_ag crc dev_offset bytes =
     bindS (askS (\<lambda>g. guardR (bs64 g \<noteq> 0) Panic (Inr (bs64 g)))) (\<lambda>bs.
     bindS (ensureS (dev_offset mod bs = 0) (Msg ''AG offset must be block aligned'')) (\<lambda>_.
     let ag_len = ucast (bytes div bs) :: u32 in
     bindS (ensureS (1024 \<le> ag_len) (Msg ''AG too small ({ag_len} blocks; minimum 1024)'')) (\<lambda>_.
     bindS (askS (\<lambda>g. guardR (\<not> overlaps g dev_offset bytes) (Msg ''region overlaps an existing AG'') (Inr (g_sb g)))) (\<lambda>sb.
     let ag = sb_next_ag sb;
         (cells, rt_blocks) = rt_geometry ag_len (sb_blocksize sb);
         head_cells = div_ceil (1 + rt_blocks) CELL_BLOCKS;
         (table, rsvd_cells) = new_table ag_len (unat bs) cells rt_blocks head_cells;
         free_blocks = (of_nat cells - of_nat rsvd_cells) * of_nat CELL_BLOCKS :: u64;
         hdrblk = put_bytes (replicate (unat bs) 0) 0 (ah_to_bytes crc (new_ag_header ag ag_len free_blocks head_cells))
     in bindS (onDev (dv_pwrite hdrblk dev_offset)) (\<lambda>_.
        bindS (onDev (dv_pwrite table (dev_offset + bs))) (\<lambda>_.
        bindS (onDev dv_sync) (\<lambda>_.
        bindS (modS (\<lambda>g. g\<lparr>
          g_map := (g_map g)\<lparr>am_entries := am_entries (g_map g) @
            [\<lparr>ae_flags = AGF_PRESENT, ae_length = ag_len,
              ae_segs = [\<lparr>sg_block = 0, sg_blocks = ag_len, sg_dev_offset = dev_offset\<rparr>]\<rparr>]\<rparr>,
          g_sb := (g_sb g)\<lparr>sb_next_ag := ag + 1,
            sb_free_blocks := sb_free_blocks (g_sb g) + free_blocks,
            sb_rsvd_blocks := sb_rsvd_blocks (g_sb g) + (ucast ag_len - free_blocks)\<rparr>\<rparr>)) (\<lambda>_.
        bindS (commit_map crc) (\<lambda>_.
        retS ag)))))))))"

definition grow :: "crc_fun \<Rightarrow> u64 \<Rightarrow> (gofs, u32) operation" where
  "grow crc new_size =
     bindS (askS (\<lambda>g. guardR (mapped_end g < new_size)
       (Msg ''new size {new_size} does not extend past current end {end}'') (Inr (mapped_end g, dv_size (g_dev g))))) (\<lambda>(e, sz).
     bindS (if sz < new_size then onDev (dv_set_len new_size) else retS ()) (\<lambda>_.
     add_ag crc e (new_size - e)))"

subsection \<open>Moving an AG\<close>

text \<open>One segment, in pieces of \<open>chunk\<close> bytes (\<open>CELL_BLOCKS * bs\<close>).\<close>

definition copy_piece :: "u64 \<Rightarrow> u64 \<Rightarrow> nat \<Rightarrow> (gofs, unit) operation" where
  "copy_piece from to n =
     bindS (askS (\<lambda>g. dv_pread (g_dev g) n from)) (\<lambda>buf. onDev (dv_pwrite buf to))"

definition copy_seg :: "nat \<Rightarrow> u64 \<Rightarrow> u64 \<Rightarrow> ag_segment \<Rightarrow> (gofs, unit) operation" where
  "copy_seg chunk bs dest s =
     (let total = unat (sg_blocks s) * unat bs
      in forS (\<lambda>i. copy_piece (sg_dev_offset s + of_nat (i * chunk))
                     (dest + ucast (sg_block s) * bs + of_nat (i * chunk))
                     (min chunk (total - i * chunk)))
           [0..<div_ceil total chunk])"

definition set_entry :: "u32 \<Rightarrow> (ag_entry \<Rightarrow> ag_entry) \<Rightarrow> gofs \<Rightarrow> gofs" where
  "set_entry ag f g =
     g\<lparr>g_map := (g_map g)\<lparr>am_entries :=
        (am_entries (g_map g))[unat ag := f (am_entries (g_map g) ! unat ag)]\<rparr>\<rparr>"

definition relocate :: "crc_fun \<Rightarrow> u32 \<Rightarrow> u64 \<Rightarrow> (gofs, unit) operation" where
  "relocate crc ag dest =
     bindS (askS (\<lambda>g. guardR (bs64 g \<noteq> 0) Panic (Inr (bs64 g)))) (\<lambda>bs.
     bindS (ensureS (dest mod bs = 0) (Msg ''destination must be block aligned'')) (\<lambda>_.
     bindS (askS (\<lambda>g. guardR (unat ag < length (am_entries (g_map g))) (Msg ''no such AG'')
       (Inr (am_entries (g_map g) ! unat ag)))) (\<lambda>e.
     bindS (ensureS (ae_flags e AND AGF_PRESENT \<noteq> 0) (Msg ''AG {ag} is not present'')) (\<lambda>_.
     bindS (ensureS (ae_flags e AND AGF_IMMOVABLE = 0) (Msg ''AG {ag} is immovable'')) (\<lambda>_.
     let bytes = ucast (ae_length e) * bs in
     bindS (askS (\<lambda>g. guardR (dest + bytes \<le> dv_size (g_dev g)) (Msg ''destination past end of device'')
       (guardR (\<not> overlaps_excluding g dest bytes ag) (Msg ''destination overlaps a mapped region'') (Inr ())))) (\<lambda>_.
     bindS (forS (copy_seg (CELL_BLOCKS * unat bs) bs dest) (ae_segs e)) (\<lambda>_.
     bindS (onDev dv_sync) (\<lambda>_.
     bindS (modS (set_entry ag (\<lambda>e'. e'\<lparr>ae_segs :=
       [\<lparr>sg_block = 0, sg_blocks = ae_length e, sg_dev_offset = dest\<rparr>]\<rparr>))) (\<lambda>_.
     commit_map crc)))))))))"

subsection \<open>Retiring and shrinking\<close>

definition retire :: "crc_fun \<Rightarrow> u32 \<Rightarrow> (gofs, unit) operation" where
  "retire crc ag =
     bindS (ensureS (ag \<noteq> 0) (Msg ''AG 0 cannot be retired'')) (\<lambda>_.
     bindS (askS (\<lambda>g. read_ag_header crc g ag)) (\<lambda>hdr.
     bindS (ensureS (ah_full_blocks hdr = 0) (Msg ''AG {ag} still has {} allocated blocks'')) (\<lambda>_.
     bindS (askS (\<lambda>g. guardR (unat ag < length (am_entries (g_map g))) Panic
       (guardR (ae_flags (am_entries (g_map g) ! unat ag) AND AGF_PRESENT \<noteq> 0) (Msg ''AG {ag} is not present'')
         (Inr ())))) (\<lambda>_.
     bindS (modS (set_entry ag (\<lambda>e. e\<lparr>ae_flags := AGF_RETIRED, ae_segs := []\<rparr>))) (\<lambda>_.
     bindS (modS (\<lambda>g. g\<lparr>g_sb := (g_sb g)\<lparr>sb_free_blocks := sb_free_blocks (g_sb g) - ucast (ah_free_blocks hdr),
       sb_rsvd_blocks := sb_rsvd_blocks (g_sb g) - ucast (ah_rsvd_blocks hdr)\<rparr>\<rparr>)) (\<lambda>_.
     commit_map crc))))))"

definition is_beyond :: "gofs \<Rightarrow> u64 \<Rightarrow> ag_entry \<Rightarrow> bool" where
  "is_beyond g new_size e \<longleftrightarrow> ae_flags e AND AGF_PRESENT \<noteq> 0 \<and>
     list_ex (\<lambda>s. new_size < seg_end g s) (ae_segs e)"

definition first_beyond :: "gofs \<Rightarrow> u64 \<Rightarrow> nat option" where
  "first_beyond g new_size =
     find (\<lambda>i. is_beyond g new_size (am_entries (g_map g) ! i)) [0..<length (am_entries (g_map g))]"

definition shrink_step :: "crc_fun \<Rightarrow> u64 \<Rightarrow> nat \<Rightarrow> (gofs, unit) operation" where
  "shrink_step crc new_size i =
     (let ag = of_nat i :: u32 in
      bindS (ensureS (ag \<noteq> 0) (Msg ''cannot shrink into AG 0'')) (\<lambda>_.
      bindS (askS (\<lambda>g. read_ag_header crc g ag)) (\<lambda>hdr.
      if ah_full_blocks hdr = 0 then retire crc ag
      else
        bindS (askS (\<lambda>g. case find_gap g (ucast (ae_length (am_entries (g_map g) ! i)) * bs64 g) new_size of
            None \<Rightarrow> Inl (Msg ''no room below {new_size} for AG {ag}'')
          | Some dest \<Rightarrow> Inr dest)) (\<lambda>dest.
        relocate crc ag dest))))"

text \<open>One round per AG past the new end; \<open>fuel\<close> bounds the rounds.\<close>

fun shrink_loop :: "crc_fun \<Rightarrow> u64 \<Rightarrow> nat \<Rightarrow> (gofs, unit) operation" where
  "shrink_loop crc new_size 0 = failS Diverges"
| "shrink_loop crc new_size (Suc fuel) =
     bindS (askS (\<lambda>g. Inr (first_beyond g new_size))) (\<lambda>r.
     case r of
       None \<Rightarrow> retS ()
     | Some i \<Rightarrow> bindS (shrink_step crc new_size i) (\<lambda>_. shrink_loop crc new_size fuel))"

definition shrink :: "crc_fun \<Rightarrow> u64 \<Rightarrow> (gofs, unit) operation" where
  "shrink crc new_size =
     bindS (askS (\<lambda>g. Inr (length (am_entries (g_map g)) + 1))) (\<lambda>fuel.
     bindS (shrink_loop crc new_size fuel) (\<lambda>_.
     onDev (dv_set_len new_size)))"

end
