(* ===== verification/ResizeFacts.thy ===== *)
theory ResizeFacts
  imports Resize
begin

text \<open>
  Facts about resizing: the device ranges of the map without wrap-around, the gap search, what
  a change of the map makes durable, moving an AG and shrinking.
\<close>

subsection \<open>Device ranges\<close>

definition span_of :: "gofs \<Rightarrow> ag_segment \<Rightarrow> nat \<times> nat" where
  "span_of g s = sg_range (sb_blocksize (g_sb g)) s"

lemma span_in_file:
  assumes "fs_ok g" and "s \<in> set (am_segs (g_map g))"
  shows "snd (span_of g s) \<le> fl_len (dv_file (g_dev g))" "snd (span_of g s) < 2 ^ 63"
  using assms by (auto simp: fs_ok_def list_all_iff span_of_def dv_room_def MAX_OFF_def)

lemma seg_end_exact:
  assumes "fs_ok g" and "s \<in> set (am_segs (g_map g))"
  shows "unat (sg_dev_offset s) = fst (span_of g s)" and "unat (seg_end g s) = snd (span_of g s)"
    and "fst (span_of g s) \<le> snd (span_of g s)"
  using span_in_file(2) [OF assms]
  by (auto simp: span_of_def sg_range_def seg_end_def bs64_def unat_word_ariths)

subsection \<open>The gap search\<close>

lemma unat_sat_sub [simp]: "unat (sat_sub a b) = unat a - unat b"
  by (auto simp: sat_sub_def unat_sub word_le_nat_alt)

definition clear_of :: "nat \<Rightarrow> nat \<Rightarrow> u64 \<times> u64 \<Rightarrow> bool" where
  "clear_of d n x \<longleftrightarrow> unat (snd x) \<le> d \<or> d + n \<le> unat (fst x)"

lemma gap_scan_sound:
  assumes "gap_scan bytes limit cursor xs = Some d" and "0 < bytes"
    and "sorted_wrt (\<lambda>x y. fst x \<le> fst y) xs"
  shows "cursor \<le> d \<and> unat d + unat bytes \<le> unat limit \<and> (\<forall>x\<in>set xs. clear_of (unat d) (unat bytes) x)"
  using assms
proof (induction xs arbitrary: cursor)
  case Nil
  then show ?case by (auto simp: word_le_nat_alt word_less_nat_alt split: if_splits)
next
  case (Cons x xs)
  obtain s0 s1 where x: "x = (s0, s1)" by (cases x)
  show ?case
  proof (cases "cursor < s0 \<and> bytes \<le> sat_sub (min s0 limit) cursor")
    case True
    then have d: "d = cursor" using Cons.prems(1) x by simp
    have "unat bytes \<le> unat (min s0 limit) - unat cursor" "0 < unat bytes"
      using True Cons.prems(2) by (simp_all add: word_le_nat_alt word_less_nat_alt)
    then have fit: "unat cursor + unat bytes \<le> unat (min s0 limit)" by arith
    then have "unat cursor + unat bytes \<le> unat s0" "unat cursor + unat bytes \<le> unat limit"
      by (auto simp: min_def word_le_nat_alt split: if_splits)
    then show ?thesis
      using d x Cons.prems(3) by (force simp: clear_of_def word_le_nat_alt)
  next
    case False
    then have "gap_scan bytes limit (max cursor s1) xs = Some d" using Cons.prems(1) x by auto
    from Cons.IH [OF this Cons.prems(2)] Cons.prems(3) show ?thesis
      using x by (auto simp: clear_of_def word_le_nat_alt max_def split: if_splits)
  qed
qed

lemma gap_scan_complete:
  assumes "gap_scan bytes limit cursor xs = None" and "0 < bytes"
    and "unat cursor \<le> d" and "d + unat bytes \<le> unat limit"
  shows "\<exists>x\<in>set xs. \<not> clear_of d (unat bytes) x"
  using assms
proof (induction xs arbitrary: cursor)
  case Nil
  then show ?case by (auto simp: word_le_nat_alt split: if_splits)
next
  case (Cons x xs)
  obtain s0 s1 where x: "x = (s0, s1)" by (cases x)
  show ?case
  proof (cases "clear_of d (unat bytes) x")
    case True
    have "unat s1 \<le> d"
    proof (rule ccontr)
      assume "\<not> unat s1 \<le> d"
      then have before: "d + unat bytes \<le> unat s0" using True x by (simp add: clear_of_def)
      have "0 < unat bytes" using Cons.prems(2) by (simp add: word_less_nat_alt)
      then have "cursor < s0" "bytes \<le> sat_sub (min s0 limit) cursor"
        using before Cons.prems(3,4) by (auto simp: word_less_nat_alt word_le_nat_alt min_def)
      then show False using Cons.prems(1) x by simp
    qed
    then have "unat (max cursor s1) \<le> d" using Cons.prems(3) by (simp add: max_def)
    moreover have "gap_scan bytes limit (max cursor s1) xs = None"
      using Cons.prems(1) x by (auto split: if_splits)
    ultimately show ?thesis using Cons.IH [OF _ Cons.prems(2)] Cons.prems(4) by auto
  qed auto
qed

lemma sort_spans_facts [simp]:
  "set (sort_spans xs) = set xs" "sorted_wrt (\<lambda>x y. fst x \<le> fst y) (sort_spans xs)"
proof -
  show "set (sort_spans xs) = set xs" by (simp add: sort_spans_def)
  have "sorted (map fst (sort_spans xs))" by (simp add: sort_spans_def)
  then show "sorted_wrt (\<lambda>x y. fst x \<le> fst y) (sort_spans xs)" by (simp add: sorted_map)
qed

lemma clear_of_span:
  assumes "fs_ok g" and "s \<in> set (am_segs (g_map g))"
  shows "clear_of d n (sg_dev_offset s, seg_end g s) \<longleftrightarrow> apart (d, d + n) (span_of g s)"
  using seg_end_exact [OF assms] by (auto simp: clear_of_def apart_def)

lemma find_gap_sound:
  assumes "fs_ok g" and "0 < bytes" and "find_gap g bytes limit = Some d"
  shows "unat d + unat bytes \<le> unat limit"
    and "s \<in> set (am_segs (g_map g)) \<Longrightarrow> apart (unat d, unat d + unat bytes) (span_of g s)"
  using gap_scan_sound [OF assms(3) [unfolded find_gap_def] assms(2)] clear_of_span [OF assms(1)]
  by (auto simp: seg_spans_def)

lemma find_gap_complete:
  assumes "fs_ok g" and "0 < bytes" and "find_gap g bytes limit = None" and "d + unat bytes \<le> unat limit"
  shows "\<exists>s\<in>set (am_segs (g_map g)). \<not> apart (d, d + unat bytes) (span_of g s)"
  using gap_scan_complete [OF assms(3) [unfolded find_gap_def] assms(2) _ assms(4)] clear_of_span [OF assms(1)]
  by (auto simp: seg_spans_def)

lemma list_ex_enumerate: "list_ex P (enumerate 0 xs) \<longleftrightarrow> (\<exists>i<length xs. P (i, xs ! i))"
  by (auto simp: list_ex_iff in_set_enumerate_eq)

lemma overlaps_excluding_iff:
  assumes "fs_ok g" and "length (am_entries (g_map g)) < 2 ^ 32" and "unat off + unat len < 2 ^ 64"
  shows "overlaps_excluding g off len skip \<longleftrightarrow>
    (\<exists>i<length (am_entries (g_map g)). i \<noteq> unat skip \<and>
       (\<exists>s\<in>set (ae_segs (am_entries (g_map g) ! i)). unat off < snd (span_of g s) \<and> fst (span_of g s) < unat off + unat len))"
proof -
  have sum: "unat (off + len) = unat off + unat len" using assms(3) by (simp add: unat_word_ariths)
  have seg: "off < seg_end g s \<and> sg_dev_offset s < off + len \<longleftrightarrow>
      unat off < snd (span_of g s) \<and> fst (span_of g s) < unat off + unat len"
    if "i < length (am_entries (g_map g))" "s \<in> set (ae_segs (am_entries (g_map g) ! i))" for i s
  proof -
    have "s \<in> set (am_segs (g_map g))" using that by (auto simp: am_segs_def)
    from seg_end_exact [OF assms(1) this] show ?thesis by (simp add: word_less_nat_alt sum)
  qed
  have num: "(of_nat i :: u32) \<noteq> skip \<longleftrightarrow> i \<noteq> unat skip" if "i < length (am_entries (g_map g))" for i
  proof -
    have "unat (of_nat i :: u32) = i" using that assms(2) by (simp add: unat_of_nat)
    then show ?thesis by (metis word_unat_eq_iff)
  qed
  show ?thesis
    unfolding overlaps_excluding_def list_ex_enumerate prod.case
    unfolding list_ex_iff
    by (intro ex_cong1 conj_cong bex_cong refl num seg)
qed

subsection \<open>Writing the map back\<close>

lemma fs_ok_gen [simp]: "fs_ok (g\<lparr>g_map := (g_map g)\<lparr>am_gen := n\<rparr>\<rparr>) = fs_ok g"
  by (simp add: fs_ok_def am_layout_ok_def am_segs_def ag0_ok_def)

lemma resolve_gen [simp]: "am_resolve (m\<lparr>am_gen := n\<rparr>) = am_resolve m"
  by (simp add: am_resolve_def fun_eq_iff Let_def split: prod.split)

lemma pwrite_inside:
  assumes ok: "fs_ok g" and inside: "unat off + length b \<le> fl_len (dv_file (g_dev g))"
  obtains d where "dv_pwrite b off (g_dev g) = (Inr (), d)" and "fs_ok (g\<lparr>g_dev := d\<rparr>)"
    and "dv_file d = fl_write (dv_file (g_dev g)) (unat off) b"
    and "fl_len (dv_file d) = fl_len (dv_file (g_dev g))" and "dv_size d = dv_size (g_dev g)"
proof -
  let ?d = "(dv_record off b (g_dev g))\<lparr>dv_file := fl_write (dv_file (g_dev g)) (unat off) b\<rparr>"
  have "dv_room (g_dev g)" using ok by (simp add: fs_ok_def)
  from dv_pwrite_inside [OF this inside]
  have pw: "dv_pwrite b off (g_dev g) = (Inr (), ?d)" .
  have ok': "fs_ok (g\<lparr>g_dev := ?d\<rparr>)"
    by (rule fs_ok_dev [OF ok]) (simp_all add: fl_len_write [OF inside])
  show ?thesis
    by (rule that [OF pw ok']) (simp_all add: fl_len_write [OF inside])
qed

text \<open>The bytes of a block on the device, and the two copies of the AG map.\<close>

definition blk_span :: "gofs \<Rightarrow> u64 \<Rightarrow> nat \<times> nat" where
  "blk_span g a = (unat (place g a), unat (place g a) + g_bs g)"

definition agmap_span :: "gofs \<Rightarrow> nat \<times> nat" where
  "agmap_span g = (unat (sb_agmap_offset (g_sb g)),
     unat (sb_agmap_offset (g_sb g)) + 2 * unat (sb_agmap_length (g_sb g)))"

definition agmap_room :: "gofs \<Rightarrow> bool" where
  "agmap_room g \<longleftrightarrow> snd (agmap_span g) \<le> fl_len (dv_file (g_dev g)) \<and>
     apart (agmap_span g) (0, SB_SIZE) \<and>
     apart (agmap_span g) (unat (place g (sb_backup g)), unat (place g (sb_backup g)) + SB_SIZE)"

text \<open>A block that holds neither superblock copy nor part of the AG map.\<close>

definition data_block :: "gofs \<Rightarrow> u64 \<Rightarrow> bool" where
  "data_block g a \<longleftrightarrow> mapped g a \<and> a \<noteq> sb_home \<and> a \<noteq> sb_backup g \<and> apart (blk_span g a) (agmap_span g)"

lemma read_block_file_eq:
  assumes "fs_ok g" and "fs_ok g'" and "mapped g a" and "mapped g' a" and "g_bs g' = g_bs g"
    and "fl_read (dv_file (g_dev g')) (unat (place g' a)) (g_bs g) = fl_read (dv_file (g_dev g)) (unat (place g a)) (g_bs g)"
  shows "read_block g' a = read_block g a"
  using assms by (simp add: read_block_mapped)

lemma fl_read_after_write:
  assumes "apart (o2, o2 + n) (unat off, unat off + length b)" and "o2 + n \<le> fl_len f"
  shows "fl_read (fl_write f (unat off) b) o2 n = fl_read f o2 n"
  by (rule fl_read_write_apart [OF assms])

lemma write_agmap_ok:
  assumes ok: "fs_ok g" and room: "agmap_room g" and run: "write_agmap crc g = (Inr (), g')"
  shows "fs_ok g'" and "g_map g' = (g_map g)\<lparr>am_gen := am_gen (g_map g) + 1\<rparr>" and "g_sb g' = g_sb g"
    and "g_hints g' = g_hints g" and "fl_len (dv_file (g_dev g')) = fl_len (dv_file (g_dev g))"
    and "dv_size (g_dev g') = dv_size (g_dev g)"
    and "\<And>o1 n. apart (o1, o1 + n) (agmap_span g) \<Longrightarrow> o1 + n \<le> fl_len (dv_file (g_dev g)) \<Longrightarrow>
           fl_read (dv_file (g_dev g')) o1 n = fl_read (dv_file (g_dev g)) o1 n"
    and "am_wf (g_map g') \<Longrightarrow> (\<And>c. c \<in> {0, 1} \<Longrightarrow> read_agmap_copy crc (g_dev g') (g_sb g) c = Inr (g_map g'))"
proof -
  define m where "m = (g_map g)\<lparr>am_gen := am_gen (g_map g) + 1\<rparr>"
  define g1 where "g1 = g\<lparr>g_map := m\<rparr>"
  define off where "off = sb_agmap_offset (g_sb g)"
  define cap where "cap = sb_agmap_length (g_sb g)"
  have ok1: "fs_ok g1" using ok by (simp add: g1_def m_def)
  from run obtain b where b: "am_to_bytes crc m (unat cap) = Inr b"
    by (auto simp: write_agmap_def m_def cap_def split: sum.splits)
  note len = am_to_bytes_length(1) [OF b]
  have span: "unat off + 2 * unat cap \<le> fl_len (dv_file (g_dev g))"
    using room by (simp add: agmap_room_def agmap_span_def off_def cap_def)
  have small: "fl_len (dv_file (g_dev g)) < 2 ^ 63" using ok by (simp add: fs_ok_def dv_room_def MAX_OFF_def)
  have off2: "unat (off + cap) = unat off + unat cap"
    using span small by (simp add: unat_word_ariths)
  have "unat off + length b \<le> fl_len (dv_file (g_dev g1))" using span len by (simp add: g1_def)
  then obtain d where d: "dv_pwrite b off (g_dev g1) = (Inr (), d)" "fs_ok (g1\<lparr>g_dev := d\<rparr>)"
    "dv_file d = fl_write (dv_file (g_dev g1)) (unat off) b" "fl_len (dv_file d) = fl_len (dv_file (g_dev g1))"
    "dv_size d = dv_size (g_dev g1)"
    using pwrite_inside [OF ok1] by blast
  have "unat (off + cap) + length b \<le> fl_len (dv_file (g_dev (g1\<lparr>g_dev := d\<rparr>)))"
    using span len d(4) off2 by (simp add: g1_def)
  then obtain e where e: "dv_pwrite b (off + cap) d = (Inr (), e)" "fs_ok (g1\<lparr>g_dev := e\<rparr>)"
    "dv_file e = fl_write (dv_file d) (unat (off + cap)) b" "fl_len (dv_file e) = fl_len (dv_file d)"
    "dv_size e = dv_size d"
    using pwrite_inside [OF d(2)] by auto
  have g': "g' = g1\<lparr>g_dev := e\<rparr>"
    using run b d(1) e(1)
    by (simp add: write_agmap_def g1_def m_def off_def cap_def bindS_def modS_def askS_def onDev_def)
  have flen: "fl_len (dv_file e) = fl_len (dv_file (g_dev g))"
    using d(4) e(4) by (simp add: g1_def)
  have copies: "fl_read (dv_file e) (unat off) (unat cap) = b" "fl_read (dv_file e) (unat (off + cap)) (unat cap) = b"
  proof -
    show "fl_read (dv_file e) (unat (off + cap)) (unat cap) = b" using e(3) len by simp
    have "fl_read (dv_file e) (unat off) (unat cap) = fl_read (dv_file d) (unat off) (unat cap)"
      unfolding e(3) by (rule fl_read_after_write) (use off2 len span d(4) in \<open>auto simp: apart_def g1_def\<close>)
    then show "fl_read (dv_file e) (unat off) (unat cap) = b" using d(3) len by simp
  qed
    show "fl_read (dv_file (g_dev g')) o1 n = fl_read (dv_file (g_dev g)) o1 n"
      if "apart (o1, o1 + n) (agmap_span g)" "o1 + n \<le> fl_len (dv_file (g_dev g))" for o1 n
    proof -
      have "apart (o1, o1 + n) (unat off, unat off + length b)"
        "apart (o1, o1 + n) (unat (off + cap), unat (off + cap) + length b)"
        using that(1) off2 len by (auto simp: apart_def agmap_span_def off_def cap_def)
      then show ?thesis
        using that(2) d(3,4) e(3) by (simp add: g' fl_read_after_write g1_def)
    qed
    show "read_agmap_copy crc (g_dev g') (g_sb g) c = Inr (g_map g')" if "am_wf (g_map g')" "c \<in> {0, 1}" for c
    proof -
      have "am_parse crc b = Inr m" using am_to_bytes_length(2) [OF b] that(1) by (simp add: g' g1_def)
      moreover have "agmap_copy_off (g_sb g) c \<in> {off, off + cap}"
        using that(2) by (auto simp: agmap_copy_off_def off_def cap_def)
      ultimately show ?thesis
        using copies span off2 flen
        by (auto simp: read_agmap_copy_def g' g1_def dv_pread_def simp flip: off_def cap_def)
    qed
  show "fs_ok g'" "g_map g' = (g_map g)\<lparr>am_gen := am_gen (g_map g) + 1\<rparr>" "g_sb g' = g_sb g"
    "g_hints g' = g_hints g" "fl_len (dv_file (g_dev g')) = fl_len (dv_file (g_dev g))"
    "dv_size (g_dev g') = dv_size (g_dev g)"
    using e(2) d(5) e(5) flen by (simp_all add: g' g1_def m_def)
qed

lemma dv_pwrite_file:
  assumes "dv_pwrite b off d = (Inr (), d')"
  shows "dv_file d' = fl_write (dv_file d) (unat off) b" and "dv_size d' = dv_size d"
  using assms by (auto simp: dv_pwrite_def Let_def split: if_splits)

lemma write_superblock_file:
  assumes ok: "fs_ok g" and run: "write_superblock crc g = (Inr (), g')"
  defines "b \<equiv> sb_to_bytes crc (g_sb (bump_gen g))"
  shows "dv_file (g_dev g') = fl_write (fl_write (dv_file (g_dev g)) 0 b) (unat (place g (sb_backup g))) b"
    and "dv_size (g_dev g') = dv_size (g_dev g)" and "length b = SB_SIZE"
proof -
  have ok1: "fs_ok (bump_gen g)" by (rule fs_ok_bump_gen [OF ok])
  have bak: "backup_off (bump_gen g) = Some (place g (sb_backup g))" using sb_copies(4) [OF ok1] by simp
  obtain d where d: "dv_pwrite b 0 (g_dev g) = (Inr (), d)"
    using run bak unfolding write_superblock_def b_def
    by (auto simp: onDev_def bindS_def modS_def askS_def simp flip: bump_gen_def split: sum.splits prod.splits)
  obtain e where e: "dv_pwrite b (place g (sb_backup g)) d = (Inr (), e)" "g_dev g' = e"
    using run bak d unfolding write_superblock_def b_def
    by (auto simp: onDev_def bindS_def modS_def askS_def simp flip: bump_gen_def split: sum.splits prod.splits)
  show "dv_file (g_dev g') = fl_write (fl_write (dv_file (g_dev g)) 0 b) (unat (place g (sb_backup g))) b"
    "dv_size (g_dev g') = dv_size (g_dev g)"
    using dv_pwrite_file [OF d] dv_pwrite_file [OF e(1)] e(2) by simp_all
  show "length b = SB_SIZE"
    unfolding b_def using ok1 by (intro length_sb_to_bytes) (simp add: fs_ok_def)
qed

lemma write_superblock_range:
  assumes ok: "fs_ok g" and run: "write_superblock crc g = (Inr (), g')"
    and "apart (o1, o1 + n) (0, SB_SIZE)" "apart (o1, o1 + n) (unat (place g (sb_backup g)), unat (place g (sb_backup g)) + SB_SIZE)"
    and "o1 + n \<le> fl_len (dv_file (g_dev g))"
  shows "fl_read (dv_file (g_dev g')) o1 n = fl_read (dv_file (g_dev g)) o1 n"
proof -
  note f = write_superblock_file [OF ok run]
  let ?b = "sb_to_bytes crc (g_sb (bump_gen g))"
  have "fl_read (fl_write (fl_write (dv_file (g_dev g)) 0 ?b) (unat (place g (sb_backup g))) ?b) o1 n
      = fl_read (fl_write (dv_file (g_dev g)) 0 ?b) o1 n"
    using assms(4,5) f(3) fl_len_write_ge [of "dv_file (g_dev g)" 0 ?b]
    by (intro fl_read_write_apart) simp_all
  also have "\<dots> = fl_read (dv_file (g_dev g)) o1 n"
    using assms(3,5) f(3) by (intro fl_read_write_apart) simp_all
  finally show ?thesis using f(1) by simp
qed

lemma write_superblock_len:
  assumes ok: "fs_ok g" and run: "write_superblock crc g = (Inr (), g')"
  shows "fl_len (dv_file (g_dev g')) = fl_len (dv_file (g_dev g))"
proof -
  note f = write_superblock_file [OF ok run]
  have "512 \<le> fl_len (dv_file (g_dev g))" "unat (place g (sb_backup g)) + 512 \<le> fl_len (dv_file (g_dev g))"
    using place_inside [OF ok sb_copies(1) [OF ok]] place_inside [OF ok sb_copies(3) [OF ok]]
      sb_copies(2) [OF ok] g_bs_ge [OF ok] by simp_all
  then show ?thesis using f(1,3) by (simp add: fl_len_write)
qed

text \<open>
  The map as it is now, made durable: after a commit of the map both copies on the device read
  back as the map, the superblock on the device is the one in memory, and no block that holds
  data has changed.
\<close>

lemma commit_map_ok:
  assumes ok: "fs_ok g" and room: "agmap_room g" and run: "commit_map crc g = (Inr (), g')"
  shows "fs_ok g'" and "g_map g' = (g_map g)\<lparr>am_gen := am_gen (g_map g) + 1\<rparr>"
    and "g_sb g' = (g_sb g)\<lparr>sb_gen := sb_gen (g_sb g) + 1\<rparr>" and "g_hints g' = g_hints g"
    and "fl_len (dv_file (g_dev g')) = fl_len (dv_file (g_dev g))" and "dv_size (g_dev g') = dv_size (g_dev g)"
    and "\<And>a. data_block g a \<Longrightarrow> mapped g' a \<and> place g' a = place g a \<and> read_block g' a = read_block g a"
    and "dv_pread (g_dev g') SB_SIZE 0 = Inr (sb_to_bytes crc (g_sb g'))"
    and "am_wf (g_map g') \<Longrightarrow> \<exists>status. load_agmap crc (g_dev g') (g_sb g') = Inr (g_map g', status)"
proof -
  obtain u1 g1 where w1: "write_agmap crc g = (Inr u1, g1)"
    and r1: "bindS (write_superblock crc) (\<lambda>_. onDev dv_sync) g1 = (Inr (), g')"
    using run unfolding commit_map_def by (rule bindS_okE)
  obtain u2 g2 where w2: "write_superblock crc g1 = (Inr u2, g2)" and r2: "onDev dv_sync g2 = (Inr (), g')"
    using r1 by (rule bindS_okE)
  have g': "g' = g2\<lparr>g_dev := snd (dv_sync (g_dev g2))\<rparr>"
    using r2 by (simp add: onDev_def split: prod.splits)
  note w1 = w1 [simplified] and w2 = w2 [simplified]
  have a: "fs_ok g1" "g_map g1 = (g_map g)\<lparr>am_gen := am_gen (g_map g) + 1\<rparr>" "g_sb g1 = g_sb g"
    "g_hints g1 = g_hints g" "fl_len (dv_file (g_dev g1)) = fl_len (dv_file (g_dev g))"
    "dv_size (g_dev g1) = dv_size (g_dev g)"
    "\<And>o1 n. apart (o1, o1 + n) (agmap_span g) \<Longrightarrow> o1 + n \<le> fl_len (dv_file (g_dev g)) \<Longrightarrow>
       fl_read (dv_file (g_dev g1)) o1 n = fl_read (dv_file (g_dev g)) o1 n"
    "am_wf (g_map g1) \<Longrightarrow> (\<And>c. c \<in> {0, 1} \<Longrightarrow> read_agmap_copy crc (g_dev g1) (g_sb g) c = Inr (g_map g1))"
    using write_agmap_ok [OF ok room w1] by blast+
  have same: "mapped g1 = mapped g" "place g1 = place g" "sb_backup g1 = sb_backup g" "g_bs g1 = g_bs g"
    using a(2,3) by (simp_all add: mapped_def place_def fun_eq_iff sb_backup_def ag0_length_def g_bs_def)
  obtain g2' where b: "write_superblock crc g1 = (Inr (), g2')" "fs_ok g2'"
    "g_sb g2' = (g_sb g1)\<lparr>sb_gen := sb_gen (g_sb g1) + 1\<rparr>" "g_map g2' = g_map g1" "g_hints g2' = g_hints g1"
    "\<And>x. mapped g1 x \<Longrightarrow> x \<noteq> sb_home \<Longrightarrow> x \<noteq> sb_backup g1 \<Longrightarrow> read_block g2' x = read_block g1 x"
    "dv_pread (g_dev g2') SB_SIZE 0 = Inr (sb_to_bytes crc (g_sb g2'))"
    using write_superblock_ok [OF a(1), of crc] by metis
  then have eq: "g2' = g2" using w2 by simp
  note b = b [unfolded eq]
  have len2: "fl_len (dv_file (g_dev g2)) = fl_len (dv_file (g_dev g))"
    using write_superblock_len [OF a(1) w2] a(5) by simp
  have read': "read_block g' = read_block g2"
    by (simp add: g' read_block_def g_resolve_def dv_pread_def g_bs_def fun_eq_iff)
    show "fs_ok g'" unfolding g' by (rule fs_ok_dev [OF b(2)]) simp_all
    show "mapped g' x \<and> place g' x = place g x \<and> read_block g' x = read_block g x" if x: "data_block g x" for x
    proof -
      have m: "mapped g x" "apart (blk_span g x) (agmap_span g)" "x \<noteq> sb_home" "x \<noteq> sb_backup g"
        using x by (simp_all add: data_block_def)
      have "read_block g1 x = read_block g x"
        using a(1) ok m same place_inside [OF ok m(1)] a(7) [of "unat (place g x)" "g_bs g"]
        by (intro read_block_file_eq) (simp_all add: blk_span_def)
      then have "read_block g' x = read_block g x"
        using b(6) [of x] m same by (simp add: read')
      moreover have "mapped g' x" "place g' x = place g x"
        using m(1) a(2,3) b(3,4) by (simp_all add: g' mapped_def place_def)
      ultimately show ?thesis by simp
    qed
    show "\<exists>status. load_agmap crc (g_dev g') (g_sb g') = Inr (g_map g', status)" if wf: "am_wf (g_map g')"
    proof -
      have copy: "read_agmap_copy crc (g_dev g') (g_sb g') c = Inr (g_map g')" if c: "c \<in> {0, 1}" for c
      proof -
        let ?o = "agmap_copy_off (g_sb g) c" and ?n = "unat (sb_agmap_length (g_sb g))"
        have c1: "read_agmap_copy crc (g_dev g1) (g_sb g) c = Inr (g_map g1)"
          using a(8) c wf b(4) by (simp add: g')
        have small: "fl_len (dv_file (g_dev g)) < 2 ^ 63" using ok by (simp add: fs_ok_def dv_room_def MAX_OFF_def)
        have inside: "unat ?o + ?n \<le> fl_len (dv_file (g_dev g))"
          and ap: "apart (unat ?o, unat ?o + ?n) (0, SB_SIZE)"
            "apart (unat ?o, unat ?o + ?n) (unat (place g (sb_backup g)), unat (place g (sb_backup g)) + SB_SIZE)"
          using room c small
          by (auto simp: agmap_room_def agmap_span_def agmap_copy_off_def apart_def unat_word_ariths)
        have "fl_read (dv_file (g_dev g2)) (unat ?o) ?n = fl_read (dv_file (g_dev g1)) (unat ?o) ?n"
          by (rule write_superblock_range [OF a(1) w2]) (use ap inside same a(5) in simp_all)
        then have "dv_pread (g_dev g') ?n ?o = dv_pread (g_dev g1) ?n ?o"
          using inside len2 a(5) by (simp add: g' dv_pread_def)
        then show ?thesis
          using c1 b(3,4) a(3) by (simp add: g' read_agmap_copy_def agmap_copy_off_def)
      qed
      then show ?thesis by (simp add: load_agmap_def better_map_def)
    qed
  show "g_map g' = (g_map g)\<lparr>am_gen := am_gen (g_map g) + 1\<rparr>"
    "g_sb g' = (g_sb g)\<lparr>sb_gen := sb_gen (g_sb g) + 1\<rparr>" "g_hints g' = g_hints g"
    "fl_len (dv_file (g_dev g')) = fl_len (dv_file (g_dev g))" "dv_size (g_dev g') = dv_size (g_dev g)"
    "dv_pread (g_dev g') SB_SIZE 0 = Inr (sb_to_bytes crc (g_sb g'))"
    using a b len2 write_superblock_file(2) [OF a(1) w2] by (simp_all add: g' dv_pread_def)
qed

lemma onDev_sync: "onDev dv_sync g = (Inr (), g\<lparr>g_dev := snd (dv_sync (g_dev g))\<rparr>)"
  by (simp add: onDev_def dv_sync_def)

text \<open>A commit of the map succeeds when the map fits its room on the device.\<close>

definition map_fits :: "gofs \<Rightarrow> bool" where
  "map_fits g \<longleftrightarrow> AGMAP_HDR + am_used (am_entries (g_map g)) \<le> unat (sb_agmap_length (g_sb g))"

lemma commit_map_succeeds:
  assumes ok: "fs_ok g" and room: "agmap_room g" and fits: "map_fits g"
  shows "\<exists>g'. commit_map crc g = (Inr (), g')"
proof -
  let ?m = "(g_map g)\<lparr>am_gen := am_gen (g_map g) + 1\<rparr>" and ?cap = "unat (sb_agmap_length (g_sb g))"
  let ?off = "sb_agmap_offset (g_sb g)"
  let ?g1 = "g\<lparr>g_map := ?m\<rparr>"
  obtain b where b: "am_to_bytes crc ?m ?cap = Inr b"
    using am_to_bytes_concat [of ?m ?cap crc] fits by (auto simp: map_fits_def)
  note len = am_to_bytes_length(1) [OF b]
  have span: "unat ?off + 2 * ?cap \<le> fl_len (dv_file (g_dev g))"
    using room by (simp add: agmap_room_def agmap_span_def)
  have small: "fl_len (dv_file (g_dev g)) < 2 ^ 63" using ok by (simp add: fs_ok_def dv_room_def MAX_OFF_def)
  have off2: "unat (?off + sb_agmap_length (g_sb g)) = unat ?off + ?cap"
    using span small by (simp add: unat_word_ariths)
  have ok1: "fs_ok ?g1" using ok by simp
  have i1: "unat ?off + length b \<le> fl_len (dv_file (g_dev ?g1))" using span len by simp
  obtain d where d: "dv_pwrite b ?off (g_dev ?g1) = (Inr (), d)" "fs_ok (?g1\<lparr>g_dev := d\<rparr>)"
    "fl_len (dv_file d) = fl_len (dv_file (g_dev ?g1))"
    using pwrite_inside [OF ok1 i1] by blast
  have i2: "unat (?off + sb_agmap_length (g_sb g)) + length b \<le> fl_len (dv_file (g_dev (?g1\<lparr>g_dev := d\<rparr>)))"
    using span len off2 d(3) by simp
  obtain e where e: "dv_pwrite b (?off + sb_agmap_length (g_sb g)) d = (Inr (), e)" "fs_ok (?g1\<lparr>g_dev := e\<rparr>)"
    using pwrite_inside [OF d(2) i2] by auto
  have wa: "write_agmap crc g = (Inr (), ?g1\<lparr>g_dev := e\<rparr>)"
    using b d(1) e(1) by (simp add: write_agmap_def bindS_def onDev_def askS_def)
  obtain g2 where ws: "write_superblock crc (?g1\<lparr>g_dev := e\<rparr>) = (Inr (), g2)"
    using write_superblock_ok [OF e(2), of crc] by blast
  have "commit_map crc g = bindS (write_superblock crc) (\<lambda>_. onDev dv_sync) (?g1\<lparr>g_dev := e\<rparr>)"
    unfolding commit_map_def by (rule bindS_Inr) (rule wa)
  also have "\<dots> = onDev dv_sync g2" by (rule bindS_Inr) (rule ws)
  finally show ?thesis by (simp add: onDev_sync)
qed

end
