(* ===== verification/Relocate.thy ===== *)
theory Relocate
  imports ResizeFacts
begin

text \<open>
  Moving an AG: the copy loop brings every byte of the AG's segments to its place in the new
  home, and the changed map then finds every block there with its old contents, as long as the
  new home does not overlap the old one.
\<close>

subsection \<open>Copying on the device\<close>

lemma forS_append: "forS f (xs @ ys) s = bindS (forS f xs) (\<lambda>_. forS f ys) s"
proof (induction xs arbitrary: s)
  case (Cons x xs)
  obtain r s' where m: "f x s = (r, s')" by (metis surj_pair)
  then show ?case by (cases r) (simp_all add: bindS_Inr bindS_Inl Cons.IH bindS_def)
qed simp

text \<open>A device that differs from \<open>g\<close>'s by copies within the file.\<close>

definition same_room :: "gofs \<Rightarrow> device \<Rightarrow> bool" where
  "same_room g d \<longleftrightarrow> fs_ok (g\<lparr>g_dev := d\<rparr>) \<and> fl_len (dv_file d) = fl_len (dv_file (g_dev g)) \<and>
     dv_size d = dv_size (g_dev g)"

lemma same_room_refl: "fs_ok g \<Longrightarrow> same_room g (g_dev g)"
  by (simp add: same_room_def)

lemma same_room_trans: "same_room g d \<Longrightarrow> same_room (g\<lparr>g_dev := d\<rparr>) e \<Longrightarrow> same_room g e"
  by (simp add: same_room_def)

lemma copy_piece_run:
  assumes "fs_ok g" and "unat a + n \<le> fl_len (dv_file (g_dev g))" and "unat b + n \<le> fl_len (dv_file (g_dev g))"
  obtains d where "copy_piece a b n g = (Inr (), g\<lparr>g_dev := d\<rparr>)" and "same_room g d"
    and "dv_file d = fl_write (dv_file (g_dev g)) (unat b) (fl_read (dv_file (g_dev g)) (unat a) n)"
proof -
  let ?xs = "fl_read (dv_file (g_dev g)) (unat a) n"
  have rd: "dv_pread (g_dev g) n a = Inr ?xs" by (rule dv_pread_inside [OF assms(2)])
  obtain d where d: "dv_pwrite ?xs b (g_dev g) = (Inr (), d)" "fs_ok (g\<lparr>g_dev := d\<rparr>)"
    "dv_file d = fl_write (dv_file (g_dev g)) (unat b) ?xs"
    "fl_len (dv_file d) = fl_len (dv_file (g_dev g))" "dv_size d = dv_size (g_dev g)"
    using pwrite_inside [OF assms(1), of b ?xs] assms(3) by auto
  show ?thesis
    by (rule that [of d]) (use rd d in \<open>simp_all add: copy_piece_def onDev_def same_room_def\<close>)
qed

text \<open>\<open>n\<close> bytes from \<open>a\<close> are now also at \<open>b\<close>; everything else is as it was.\<close>

definition moved :: "vfile \<Rightarrow> vfile \<Rightarrow> nat \<Rightarrow> nat \<Rightarrow> nat \<Rightarrow> bool" where
  "moved f f' a b n \<longleftrightarrow> (\<forall>i<n. fl_bytes f' (b + i) = fl_bytes f (a + i)) \<and>
     (\<forall>j<fl_len f. (j < b \<or> b + n \<le> j) \<longrightarrow> fl_bytes f' j = fl_bytes f j)"

lemma moved_none: "moved f f a b 0"
  by (simp add: moved_def)

lemma moved_more:
  assumes "moved f f1 a b n" and "f2 = fl_write f1 (b + n) (fl_read f1 (a + n) m)"
    and "apart (a, a + n + m) (b, b + n + m)" and "a + n + m \<le> fl_len f" and "fl_len f1 = fl_len f"
    and "b + n + m \<le> fl_len f"
  shows "moved f f2 a b (n + m)"
proof -
  have src: "fl_bytes f1 (a + n + i) = fl_bytes f (a + n + i)" if "i < m" for i
  proof -
    have "a + n + i < b \<or> b + n \<le> a + n + i"
      using that assms(3) unfolding apart_def fst_conv snd_conv by linarith
    moreover have "a + n + i < fl_len f" using that assms(4) by linarith
    ultimately show ?thesis using assms(1) unfolding moved_def by blast
  qed
  have b2: "fl_bytes f2 j = (if b + n \<le> j \<and> j < b + n + m then fl_bytes f (a + n + (j - (b + n)))
      else fl_bytes f1 j)" if "j < fl_len f" for j
    using that assms(2,5) src [of "j - (b + n)"] by (cases "m = 0") (auto simp: fl_write_def fl_read_def)
  show ?thesis
    unfolding moved_def
  proof (intro conjI allI impI)
    fix i assume i: "i < n + m"
    show "fl_bytes f2 (b + i) = fl_bytes f (a + i)"
    proof (cases "i < n")
      case True
      then show ?thesis using b2 [of "b + i"] i assms(1,6) by (simp add: moved_def)
    next
      case False
      then have "a + n + (b + i - (b + n)) = a + i" by simp
      then show ?thesis using b2 [of "b + i"] i False assms(6) by simp
    qed
  next
    fix j assume "j < fl_len f" "j < b \<or> b + (n + m) \<le> j"
    then show "fl_bytes f2 j = fl_bytes f j"
      using b2 [of j] assms(1) by (auto simp: moved_def)
  qed
qed

lemma unat_add_nat: "unat (w :: u64) + k < 2 ^ 64 \<Longrightarrow> unat (w + of_nat k) = unat w + k"
  by (simp add: unat_word_ariths unat_of_nat)

lemma copy_pieces_run:
  assumes ok: "fs_ok g" and ch: "0 < chunk" and A: "unat a + size0 \<le> fl_len (dv_file (g_dev g))"
    and B: "unat b + size0 \<le> fl_len (dv_file (g_dev g))"
    and ap: "apart (unat a, unat a + size0) (unat b, unat b + size0)"
    and k: "k \<le> div_ceil size0 chunk"
  shows "\<exists>d. forS (\<lambda>i. copy_piece (a + of_nat (i * chunk)) (b + of_nat (i * chunk)) (min chunk (size0 - i * chunk)))
      [0..<k] g = (Inr (), g\<lparr>g_dev := d\<rparr>) \<and> same_room g d \<and>
      moved (dv_file (g_dev g)) (dv_file d) (unat a) (unat b) (min (k * chunk) size0)"
  using k
proof (induction k)
  case 0
  then show ?case using same_room_refl [OF ok] by (intro exI [of _ "g_dev g"]) (simp add: moved_none)
next
  case (Suc k)
  let ?f = "\<lambda>i. copy_piece (a + of_nat (i * chunk)) (b + of_nat (i * chunk)) (min chunk (size0 - i * chunk))"
  obtain d where d: "forS ?f [0..<k] g = (Inr (), g\<lparr>g_dev := d\<rparr>)" "same_room g d"
    "moved (dv_file (g_dev g)) (dv_file d) (unat a) (unat b) (min (k * chunk) size0)"
    using Suc by auto
  have small: "fl_len (dv_file (g_dev g)) < 2 ^ 63" using ok by (simp add: fs_ok_def dv_room_def MAX_OFF_def)
  have below: "k * chunk \<le> size0"
  proof (rule ccontr)
    assume "\<not> k * chunk \<le> size0"
    then have "div_ceil size0 chunk \<le> k" by (intro div_ceil_least [OF ch]) simp
    then show False using Suc.prems by simp
  qed
  let ?m = "min chunk (size0 - k * chunk)"
  have big: "(2::nat) ^ 63 < 2 ^ 64" by simp
  have ua: "unat (a + of_nat (k * chunk)) = unat a + k * chunk"
    by (rule unat_add_nat) (use below A small big in linarith)
  have ub: "unat (b + of_nat (k * chunk)) = unat b + k * chunk"
    by (rule unat_add_nat) (use below B small big in linarith)
  let ?g1 = "g\<lparr>g_dev := d\<rparr>"
  have g1: "fs_ok ?g1" "fl_len (dv_file d) = fl_len (dv_file (g_dev g))"
    using d(2) by (simp_all add: same_room_def)
  have ia: "unat (a + of_nat (k * chunk)) + ?m \<le> fl_len (dv_file (g_dev ?g1))"
    and ib: "unat (b + of_nat (k * chunk)) + ?m \<le> fl_len (dv_file (g_dev ?g1))"
    unfolding ua ub using below A B g1(2) by auto
  obtain e where e: "?f k ?g1 = (Inr (), ?g1\<lparr>g_dev := e\<rparr>)" "same_room ?g1 e"
    "dv_file e = fl_write (dv_file d) (unat b + k * chunk) (fl_read (dv_file d) (unat a + k * chunk) ?m)"
    using copy_piece_run [OF g1(1) ia ib] ua ub by auto
  have sum: "k * chunk + ?m = min (Suc k * chunk) size0" using below by auto
  have "moved (dv_file (g_dev g)) (dv_file e) (unat a) (unat b) (k * chunk + ?m)"
    using d(3) below e(3) ap A B g1(2) sum
    by (intro moved_more [of _ "dv_file d"]) (auto simp: apart_def min_def)
  then have "moved (dv_file (g_dev g)) (dv_file e) (unat a) (unat b) (min (Suc k * chunk) size0)"
    by (simp only: sum)
  moreover have "forS ?f [0..<Suc k] g = (Inr (), g\<lparr>g_dev := e\<rparr>)"
    using d(1) e(1) by (simp add: forS_append bindS_Inr)
  ultimately show ?case using same_room_trans [OF d(2) e(2)] by blast
qed

text \<open>Where a segment of the AG goes in the new home at \<open>dest\<close>.\<close>

definition home_of :: "gofs \<Rightarrow> u64 \<Rightarrow> ag_segment \<Rightarrow> nat" where
  "home_of g dest s = unat dest + unat (sg_block s) * g_bs g"

definition seg_bytes_len :: "gofs \<Rightarrow> ag_segment \<Rightarrow> nat" where
  "seg_bytes_len g s = unat (sg_blocks s) * g_bs g"

lemma copy_seg_run:
  assumes ok: "fs_ok g" and A: "unat (sg_dev_offset s) + seg_bytes_len g s \<le> fl_len (dv_file (g_dev g))"
    and B: "home_of g dest s + seg_bytes_len g s \<le> fl_len (dv_file (g_dev g))"
    and ap: "apart (unat (sg_dev_offset s), unat (sg_dev_offset s) + seg_bytes_len g s)
      (home_of g dest s, home_of g dest s + seg_bytes_len g s)"
  shows "\<exists>d. copy_seg (CELL_BLOCKS * g_bs g) (bs64 g) dest s g = (Inr (), g\<lparr>g_dev := d\<rparr>) \<and> same_room g d \<and>
    moved (dv_file (g_dev g)) (dv_file d) (unat (sg_dev_offset s)) (home_of g dest s) (seg_bytes_len g s)"
proof -
  have small: "fl_len (dv_file (g_dev g)) < 2 ^ 63" using ok by (simp add: fs_ok_def dv_room_def MAX_OFF_def)
  have bs: "unat (bs64 g) = g_bs g" "0 < g_bs g" using g_bs_ge [OF ok] by (simp_all add: bs64_def g_bs_def)
  have hb: "unat (dest + ucast (sg_block s) * bs64 g) = home_of g dest s"
    using B small bs(1) by (simp add: home_of_def unat_word_ariths mod_simps)
  let ?n = "seg_bytes_len g s" and ?c = "CELL_BLOCKS * g_bs g"
  have full: "min (div_ceil ?n ?c * ?c) ?n = ?n"
    using div_ceil_ge [of ?c ?n] bs(2) by simp
  show ?thesis
    using copy_pieces_run [OF ok, of ?c "sg_dev_offset s" ?n "dest + ucast (sg_block s) * bs64 g" "div_ceil ?n ?c"]
      A B ap bs hb full by (simp add: copy_seg_def Let_def seg_bytes_len_def)
qed

text \<open>The ranges of two homes in one new place are apart when the segments hold different blocks.\<close>

definition sg_logical :: "ag_segment \<Rightarrow> nat \<times> nat" where
  "sg_logical s = (unat (sg_block s), unat (sg_block s) + unat (sg_blocks s))"

definition home_span :: "gofs \<Rightarrow> u64 \<Rightarrow> ag_segment \<Rightarrow> nat \<times> nat" where
  "home_span g dest s = (home_of g dest s, home_of g dest s + seg_bytes_len g s)"

lemma home_span_apart:
  assumes "apart (sg_logical s) (sg_logical t)"
  shows "apart (home_span g dest s) (home_span g dest t)"
proof -
  have scale: "p * g_bs g + q * g_bs g \<le> r * g_bs g" if "p + q \<le> r" for p q r
    using mult_le_mono1 [OF that, of "g_bs g"] by (simp add: add_mult_distrib)
  show ?thesis
    using assms scale by (auto simp: apart_def sg_logical_def home_span_def home_of_def seg_bytes_len_def)
qed

lemma home_span_inside:
  assumes "snd (sg_logical s) \<le> len"
  shows "unat dest \<le> fst (home_span g dest s)" "snd (home_span g dest s) \<le> unat dest + len * g_bs g"
  using mult_le_mono1 [OF assms, of "g_bs g"]
  by (simp_all add: sg_logical_def home_span_def home_of_def seg_bytes_len_def add_mult_distrib)

lemma span_of_bytes: "span_of g s = (unat (sg_dev_offset s), unat (sg_dev_offset s) + seg_bytes_len g s)"
  by (simp add: span_of_def sg_range_def seg_bytes_len_def g_bs_def)

text \<open>The whole loop over the segments of an AG.\<close>

definition all_moved :: "gofs \<Rightarrow> u64 \<Rightarrow> nat \<Rightarrow> ag_segment list \<Rightarrow> device \<Rightarrow> bool" where
  "all_moved g dest size0 ss d \<longleftrightarrow>
     (\<forall>s\<in>set ss. \<forall>i < seg_bytes_len g s.
        fl_bytes (dv_file d) (home_of g dest s + i) = fl_bytes (dv_file (g_dev g)) (unat (sg_dev_offset s) + i)) \<and>
     (\<forall>j<fl_len (dv_file (g_dev g)). j < unat dest \<or> unat dest + size0 \<le> j \<longrightarrow>
        fl_bytes (dv_file d) j = fl_bytes (dv_file (g_dev g)) j)"

lemma copy_segs_run:
  assumes ok: "fs_ok g" and room: "unat dest + len * g_bs g \<le> fl_len (dv_file (g_dev g))"
    and segs: "\<And>s. s \<in> set ss \<Longrightarrow> snd (span_of g s) \<le> fl_len (dv_file (g_dev g)) \<and>
       snd (sg_logical s) \<le> len \<and> apart (span_of g s) (unat dest, unat dest + len * g_bs g)"
    and dis: "sorted_wrt (\<lambda>s t. apart (sg_logical s) (sg_logical t)) ss"
  shows "\<exists>d. forS (copy_seg (CELL_BLOCKS * g_bs g) (bs64 g) dest) ss g = (Inr (), g\<lparr>g_dev := d\<rparr>) \<and>
    same_room g d \<and> all_moved g dest (len * g_bs g) ss d"
  using segs dis
proof (induction ss rule: rev_induct)
  case Nil
  then show ?case using same_room_refl [OF ok] by (intro exI [of _ "g_dev g"]) (simp add: all_moved_def)
next
  case (snoc s ss)
  let ?F = "dv_file (g_dev g)" and ?n = "seg_bytes_len g s"
  obtain d where d: "forS (copy_seg (CELL_BLOCKS * g_bs g) (bs64 g) dest) ss g = (Inr (), g\<lparr>g_dev := d\<rparr>)"
    "same_room g d" "all_moved g dest (len * g_bs g) ss d"
    using snoc by (auto simp: sorted_wrt_append)
  let ?g1 = "g\<lparr>g_dev := d\<rparr>"
  have g1: "fs_ok ?g1" "fl_len (dv_file d) = fl_len ?F" "g_bs ?g1 = g_bs g" "bs64 ?g1 = bs64 g"
    "home_of ?g1 dest s = home_of g dest s" "seg_bytes_len ?g1 s = ?n"
    using d(2) by (simp_all add: same_room_def g_bs_def bs64_def home_of_def seg_bytes_len_def)
  have s: "snd (span_of g s) \<le> fl_len ?F" "snd (sg_logical s) \<le> len"
    "apart (span_of g s) (unat dest, unat dest + len * g_bs g)" using snoc.prems(1) by simp_all
  note inside = home_span_inside [OF s(2), where dest = dest and g = g]
  obtain e where e: "copy_seg (CELL_BLOCKS * g_bs g) (bs64 g) dest s ?g1 = (Inr (), ?g1\<lparr>g_dev := e\<rparr>)"
    "same_room ?g1 e" "moved (dv_file d) (dv_file e) (unat (sg_dev_offset s)) (home_of g dest s) ?n"
    using copy_seg_run [OF g1(1), of s dest] s inside room g1
    by (auto simp: span_of_bytes home_span_def apart_def)
  have src: "fl_bytes (dv_file d) (unat (sg_dev_offset s) + i) = fl_bytes ?F (unat (sg_dev_offset s) + i)"
    if "i < ?n" for i
    using d(3) s that by (auto simp: all_moved_def span_of_bytes apart_def)
  have own: "fl_bytes (dv_file e) (home_of g dest s + i) = fl_bytes ?F (unat (sg_dev_offset s) + i)"
    if "i < ?n" for i
    using e(3) that src by (simp add: moved_def)
  have old: "fl_bytes (dv_file e) j = fl_bytes (dv_file d) j"
    if "j < fl_len ?F" "j < home_of g dest s \<or> home_of g dest s + ?n \<le> j" for j
    using e(3) that g1(2) unfolding moved_def by metis
  have "all_moved g dest (len * g_bs g) (ss @ [s]) e"
    unfolding all_moved_def
  proof (intro conjI ballI allI impI)
    fix t i assume t: "t \<in> set (ss @ [s])" "i < seg_bytes_len g t"
    show "fl_bytes (dv_file e) (home_of g dest t + i) = fl_bytes ?F (unat (sg_dev_offset t) + i)"
    proof (cases "t = s")
      case False
      then have t': "t \<in> set ss" using t(1) by simp
      have "apart (home_span g dest t) (home_span g dest s)"
        by (rule home_span_apart) (use snoc.prems(2) t' in \<open>simp add: sorted_wrt_append\<close>)
      moreover have "snd (sg_logical t) \<le> len" using snoc.prems(1) t(1) by blast
      note home_span_inside [OF this, where dest = dest and g = g]
      ultimately have "fl_bytes (dv_file e) (home_of g dest t + i) = fl_bytes (dv_file d) (home_of g dest t + i)"
        using t(2) room by (intro old) (auto simp: home_span_def apart_def)
      then show ?thesis using d(3) t' t(2) by (simp add: all_moved_def)
    qed (use own t(2) in simp)
  next
    fix j assume j: "j < fl_len ?F" "j < unat dest \<or> unat dest + len * g_bs g \<le> j"
    have "fl_bytes (dv_file e) j = fl_bytes (dv_file d) j"
      by (rule old [OF j(1)]) (use inside j(2) in \<open>auto simp: home_span_def\<close>)
    then show "fl_bytes (dv_file e) j = fl_bytes ?F j" using d(3) j unfolding all_moved_def by metis
  qed
  moreover have "forS (copy_seg (CELL_BLOCKS * g_bs g) (bs64 g) dest) (ss @ [s]) g = (Inr (), g\<lparr>g_dev := e\<rparr>)"
    using d(1) e(1) by (simp add: forS_append bindS_Inr)
  ultimately show ?case using same_room_trans [OF d(2) e(2)] by blast
qed

subsection \<open>Changing one entry of the map\<close>

lemma sorted_wrt_concat_iff:
  "sorted_wrt P (concat xss) \<longleftrightarrow> (\<forall>xs\<in>set xss. sorted_wrt P xs) \<and>
     sorted_wrt (\<lambda>xs ys. \<forall>x\<in>set xs. \<forall>y\<in>set ys. P x y) xss"
  by (induction xss) (auto simp: sorted_wrt_append)

lemma sorted_wrt_update:
  assumes "sorted_wrt Q xs" and "\<And>j. j < length xs \<Longrightarrow> j \<noteq> i \<Longrightarrow> Q (xs ! j) y \<and> Q y (xs ! j)"
  shows "sorted_wrt Q (xs[i := y])"
  using assms by (cases "i < length xs") (auto simp: sorted_wrt_iff_nth_less nth_list_update list_update_beyond)

text \<open>One AG gets new segments that overlap no other AG's.\<close>

lemma am_layout_replace:
  assumes ok: "am_layout_ok m bs" and new: "list_all (sg_ok bs) (ae_segs e')"
    and inner: "sorted_wrt (\<lambda>s s'. apart (sg_range bs s) (sg_range bs s')) (ae_segs e')"
    and other: "\<And>j s s'. j < length (am_entries m) \<Longrightarrow> j \<noteq> i \<Longrightarrow> s \<in> set (ae_segs (am_entries m ! j)) \<Longrightarrow>
      s' \<in> set (ae_segs e') \<Longrightarrow> apart (sg_range bs s) (sg_range bs s')"
  shows "am_layout_ok (m\<lparr>am_entries := (am_entries m)[i := e']\<rparr>) bs"
proof -
  let ?P = "\<lambda>s s'. apart (sg_range bs s) (sg_range bs s')"
  have sub: "set ((map ae_segs (am_entries m))[i := ae_segs e']) \<subseteq> insert (ae_segs e') (set (map ae_segs (am_entries m)))"
    by (rule set_update_subset_insert)
  have "list_all (sg_ok bs) (concat ((map ae_segs (am_entries m))[i := ae_segs e']))"
    using ok new sub by (fastforce simp: am_layout_ok_def am_segs_def list_all_iff)
  moreover have "sorted_wrt ?P (concat ((map ae_segs (am_entries m))[i := ae_segs e']))"
    unfolding sorted_wrt_concat_iff
  proof
    have s: "(\<forall>xs\<in>set (map ae_segs (am_entries m)). sorted_wrt ?P xs) \<and>
        sorted_wrt (\<lambda>xs ys. \<forall>x\<in>set xs. \<forall>y\<in>set ys. ?P x y) (map ae_segs (am_entries m))"
      using ok by (simp add: am_layout_ok_def am_segs_def sorted_wrt_concat_iff)
    show "\<forall>xs\<in>set ((map ae_segs (am_entries m))[i := ae_segs e']). sorted_wrt ?P xs"
      using s sub inner by blast
    show "sorted_wrt (\<lambda>xs ys. \<forall>x\<in>set xs. \<forall>y\<in>set ys. ?P x y) ((map ae_segs (am_entries m))[i := ae_segs e'])"
    proof (rule sorted_wrt_update)
      fix j assume j: "j < length (map ae_segs (am_entries m))" "j \<noteq> i"
      then show "(\<forall>x\<in>set (map ae_segs (am_entries m) ! j). \<forall>y\<in>set (ae_segs e'). ?P x y) \<and>
          (\<forall>x\<in>set (ae_segs e'). \<forall>y\<in>set (map ae_segs (am_entries m) ! j). ?P x y)"
        using other apart_sym by simp blast
    qed (use s in blast)
  qed
  ultimately show ?thesis by (simp add: am_layout_ok_def am_segs_def map_update)
qed

lemma fs_ok_set_entry:
  assumes ok: "fs_ok g" and ag: "ag \<noteq> 0" "unat ag < length (am_entries (g_map g))"
    and new: "list_all (sg_ok (sb_blocksize (g_sb g))) (ae_segs (f (am_entries (g_map g) ! unat ag)))"
    and inner: "sorted_wrt (\<lambda>s s'. apart (span_of g s) (span_of g s')) (ae_segs (f (am_entries (g_map g) ! unat ag)))"
    and other: "\<And>j s s'. j < length (am_entries (g_map g)) \<Longrightarrow> j \<noteq> unat ag \<Longrightarrow>
      s \<in> set (ae_segs (am_entries (g_map g) ! j)) \<Longrightarrow>
      s' \<in> set (ae_segs (f (am_entries (g_map g) ! unat ag))) \<Longrightarrow> apart (span_of g s) (span_of g s')"
    and inside: "\<And>s'. s' \<in> set (ae_segs (f (am_entries (g_map g) ! unat ag))) \<Longrightarrow>
      snd (span_of g s') \<le> fl_len (dv_file (g_dev g))"
  shows "fs_ok (set_entry ag f g)"
proof -
  let ?m = "g_map g" and ?bs = "sb_blocksize (g_sb g)"
  let ?e' = "f (am_entries ?m ! unat ag)"
  have lay: "am_layout_ok (?m\<lparr>am_entries := (am_entries ?m)[unat ag := ?e']\<rparr>) ?bs"
    by (rule am_layout_replace) (use ok new inner other in \<open>simp_all add: fs_ok_def span_of_def\<close>)
  have "set (am_segs (?m\<lparr>am_entries := (am_entries ?m)[unat ag := ?e']\<rparr>)) \<subseteq> set (am_segs ?m) \<union> set (ae_segs ?e')"
    using set_update_subset_insert [of "am_entries ?m" "unat ag" ?e'] by (auto simp: am_segs_def)
  then have "list_all (\<lambda>s. snd (sg_range ?bs s) \<le> fl_len (dv_file (g_dev g)))
      (am_segs (?m\<lparr>am_entries := (am_entries ?m)[unat ag := ?e']\<rparr>))"
    using ok inside by (auto simp: fs_ok_def list_all_iff span_of_def)
  moreover have "ag0_ok (?m\<lparr>am_entries := (am_entries ?m)[unat ag := ?e']\<rparr>)"
  proof -
    have "unat ag \<noteq> 0" using ag(1) by (simp add: word_unat_eq_iff)
    then show ?thesis using ok
      by (cases "am_entries ?m"; cases "unat ag") (auto simp: fs_ok_def ag0_ok_def)
  qed
  ultimately show ?thesis using ok lay by (simp add: fs_ok_def set_entry_def)
qed

lemma set_entry_fields [simp]:
  "g_sb (set_entry ag f g) = g_sb g" "g_dev (set_entry ag f g) = g_dev g" "g_hints (set_entry ag f g) = g_hints g"
  "g_bs (set_entry ag f g) = g_bs g" "agmap_span (set_entry ag f g) = agmap_span g"
  "length (am_entries (g_map (set_entry ag f g))) = length (am_entries (g_map g))"
  by (simp_all add: set_entry_def g_bs_def agmap_span_def)

lemma resolve_set_entry:
  "fst (blk_split a) \<noteq> ag \<Longrightarrow> am_resolve (g_map (set_entry ag f g)) a = am_resolve (g_map g) a"
  by (auto simp: am_resolve_def set_entry_def Let_def fun_eq_iff word_unat_eq_iff nth_list_update
      split: prod.split)

lemma place_set_entry:
  assumes "fst (blk_split a) \<noteq> ag"
  shows "mapped (set_entry ag f g) a = mapped g a" and "place (set_entry ag f g) a = place g a"
  using resolve_set_entry [OF assms] by (simp_all add: mapped_def place_def)

lemma sb_backup_set_entry:
  assumes "ag \<noteq> 0"
  shows "sb_backup (set_entry ag f g) = sb_backup g" and "place (set_entry ag f g) (sb_backup g) = place g (sb_backup g)"
proof -
  have "0 < unat ag" using assms by (simp add: word_neq_0_conv [symmetric] unat_gt_0)
  then have "hd ((am_entries (g_map g))[unat ag := e]) = hd (am_entries (g_map g))" for e
    by (cases "am_entries (g_map g)"; cases "unat ag") simp_all
  then show "sb_backup (set_entry ag f g) = sb_backup g"
    by (simp add: sb_backup_def ag0_length_def set_entry_def)
  have "fst (blk_split (sb_backup g)) \<noteq> ag" using assms by (simp add: sb_backup_def)
  then show "place (set_entry ag f g) (sb_backup g) = place g (sb_backup g)" by (rule place_set_entry)
qed

lemma agmap_room_set_entry: "ag \<noteq> 0 \<Longrightarrow> agmap_room (set_entry ag f g) = agmap_room g"
  by (simp add: agmap_room_def sb_backup_set_entry)

subsection \<open>Moving an AG\<close>

definition ag_at :: "gofs \<Rightarrow> u32 \<Rightarrow> ag_entry" where
  "ag_at g ag = am_entries (g_map g) ! unat ag"

definition new_home :: "gofs \<Rightarrow> u32 \<Rightarrow> u64 \<Rightarrow> nat \<times> nat" where
  "new_home g ag dest = (unat dest, unat dest + unat (ae_length (ag_at g ag)) * g_bs g)"

text \<open>The segments of an AG hold different blocks, all below the AG's length.\<close>

definition ag_covered :: "ag_entry \<Rightarrow> bool" where
  "ag_covered e \<longleftrightarrow> list_all (\<lambda>s. snd (sg_logical s) \<le> unat (ae_length e)) (ae_segs e) \<and>
     sorted_wrt (\<lambda>s t. apart (sg_logical s) (sg_logical t)) (ae_segs e)"

text \<open>The new home is free: no segment of any AG, this one included, and no copy of the map is there.\<close>

definition good_home :: "gofs \<Rightarrow> u32 \<Rightarrow> u64 \<Rightarrow> bool" where
  "good_home g ag dest \<longleftrightarrow> snd (new_home g ag dest) \<le> fl_len (dv_file (g_dev g)) \<and>
     apart (new_home g ag dest) (agmap_span g) \<and>
     list_all (\<lambda>s. apart (span_of g s) (new_home g ag dest)) (am_segs (g_map g))"

definition one_segment :: "u64 \<Rightarrow> ag_entry \<Rightarrow> ag_entry" where
  "one_segment dest e = e\<lparr>ae_segs := [\<lparr>sg_block = 0, sg_blocks = ae_length e, sg_dev_offset = dest\<rparr>]\<rparr>"

lemma set_entry_one_segment:
  "unat ag < length (am_entries (g_map g)) \<Longrightarrow> am_entries (g_map (set_entry ag (one_segment dest) g)) ! unat ag
    = \<lparr>ae_flags = ae_flags (ag_at g ag), ae_length = ae_length (ag_at g ag),
       ae_segs = [\<lparr>sg_block = 0, sg_blocks = ae_length (ag_at g ag), sg_dev_offset = dest\<rparr>]\<rparr>"
  by (simp add: set_entry_def one_segment_def ag_at_def)

lemma one_segment_span:
  "s \<in> set (ae_segs (one_segment dest (ag_at g ag))) \<Longrightarrow> span_of g s = new_home g ag dest"
  by (simp add: one_segment_def span_of_def sg_range_def new_home_def g_bs_def)

lemma fs_ok_moved:
  assumes ok: "fs_ok g" and ag: "ag \<noteq> 0" "unat ag < length (am_entries (g_map g))" and home: "good_home g ag dest"
  shows "fs_ok (set_entry ag (one_segment dest) g)"
proof (rule fs_ok_set_entry [OF ok ag])
  have small: "fl_len (dv_file (g_dev g)) < 2 ^ 63" using ok by (simp add: fs_ok_def dv_room_def MAX_OFF_def)
  note one = one_segment_span [where g = g and ag = ag and dest = dest, unfolded ag_at_def]
  let ?e = "one_segment dest (am_entries (g_map g) ! unat ag)"
  have "snd (new_home g ag dest) \<le> fl_len (dv_file (g_dev g))" using home by (simp add: good_home_def)
  then show "list_all (sg_ok (sb_blocksize (g_sb g))) (ae_segs ?e)"
    using small unat_bound [of "ae_length (ag_at g ag)"]
    by (auto simp: one_segment_def sg_ok_def sg_range_def new_home_def ag_at_def g_bs_def)
  show "sorted_wrt (\<lambda>s s'. apart (span_of g s) (span_of g s')) (ae_segs ?e)" by (simp add: one_segment_def)
  show "snd (span_of g s') \<le> fl_len (dv_file (g_dev g))" if "s' \<in> set (ae_segs ?e)" for s'
    using one [OF that] home by (simp add: good_home_def)
  show "apart (span_of g s) (span_of g s')"
    if "j < length (am_entries (g_map g))" "s \<in> set (ae_segs (am_entries (g_map g) ! j))" "s' \<in> set (ae_segs ?e)"
    for j s s'
  proof -
    have "s \<in> set (am_segs (g_map g))" using that(1,2) by (auto simp: am_segs_def)
    then show ?thesis using one [OF that(3)] home by (simp add: good_home_def list_all_iff)
  qed
qed

lemma fl_read_shift:
  "(\<And>i. i < n \<Longrightarrow> fl_bytes f' (p' + i) = fl_bytes f (p + i)) \<Longrightarrow> fl_read f' p' n = fl_read f p n"
  by (simp add: fl_read_def list_eq_iff_nth_eq)

text \<open>A mapped block of the AG \<open>ag\<close>, before and after.\<close>

lemma moved_block:
  assumes ok: "fs_ok g" and ag: "unat ag < length (am_entries (g_map g))" and home: "good_home g ag dest"
    and cov: "ag_covered (ag_at g ag)" and m: "mapped g a" and a: "fst (blk_split a) = ag"
    and mv: "all_moved g dest (unat (ae_length (ag_at g ag)) * g_bs g) (ae_segs (ag_at g ag)) d"
  defines "g3 \<equiv> set_entry ag (one_segment dest) (g\<lparr>g_dev := d\<rparr>)"
  shows "mapped g3 a" and "unat (place g3 a) = unat dest + unat (snd (blk_split a)) * g_bs g"
    and "snd (blk_span g3 a) \<le> snd (new_home g ag dest)"
    and "fl_read (dv_file d) (unat (place g3 a)) (g_bs g) = fl_read (dv_file (g_dev g)) (unat (place g a)) (g_bs g)"
proof -
  let ?bs = "sb_blocksize (g_sb g)" and ?len = "ae_length (ag_at g ag)"
  obtain p where p: "am_resolve (g_map g) a ?bs = Some p" using m by (auto simp: mapped_def)
  obtain l s where s: "blk_split a = (ag, l)" "s \<in> set (ae_segs (ag_at g ag))" "sg_holds l s"
    "p = sg_place ?bs l s" "l < ?len"
    using am_resolve_SomeE [OF p] a by (metis ag_at_def fst_conv)
  have pres: "ae_flags (ag_at g ag) AND AGF_PRESENT \<noteq> 0"
    using p s(1) by (auto simp: am_resolve_def Let_def ag_at_def split: if_splits)
  have sgok: "sg_ok ?bs s" using ok ag s(2) by (intro am_layout_seg) (simp_all add: fs_ok_def ag_at_def)
  have small: "fl_len (dv_file (g_dev g)) < 2 ^ 63" using ok by (simp add: fs_ok_def dv_room_def MAX_OFF_def)
  have len: "unat l < unat ?len" using s(5) by (simp add: word_less_nat_alt)
  have top: "unat dest + unat l * g_bs g + g_bs g \<le> snd (new_home g ag dest)"
    using mult_le_mono1 [of "Suc (unat l)" "unat ?len" "g_bs g"] len by (simp add: new_home_def)
  have below: "snd (new_home g ag dest) < 2 ^ 63" using home small by (simp add: good_home_def)
  have res: "am_resolve (g_map g3) a ?bs = Some (dest + ucast l * ucast ?bs)"
    using am_resolve_one_segment [OF _ set_entry_one_segment [of ag "g\<lparr>g_dev := d\<rparr>" dest], of l ?bs] ag pres s(5)
    by (simp add: g3_def ag_at_def blk_addr_split [OF s(1)])
  then show "mapped g3 a" by (simp add: mapped_def g3_def)
  have pl: "place g3 a = dest + ucast l * ucast ?bs" using res by (simp add: place_def g3_def)
  show at: "unat (place g3 a) = unat dest + unat (snd (blk_split a)) * g_bs g"
    using top below s(1) by (simp add: pl unat_word_ariths g_bs_def mod_simps)
  then show "snd (blk_span g3 a) \<le> snd (new_home g ag dest)"
    using top s(1) by (simp add: blk_span_def g3_def g_bs_def)
  note ex = sg_place_exact [OF sgok s(3)]
  let ?k = "unat l - unat (sg_block s)"
  have old: "unat (place g a) = unat (sg_dev_offset s) + ?k * g_bs g"
    using p s(4) ex(1) by (simp add: place_def g_bs_def)
  have split: "unat l * g_bs g = unat (sg_block s) * g_bs g + ?k * g_bs g"
    using ex(3) by (simp flip: add_mult_distrib)
  have within: "?k * g_bs g + i < seg_bytes_len g s" if "i < g_bs g" for i
    using mult_le_mono1 [of "Suc ?k" "unat (sg_blocks s)" "g_bs g"] ex(2) that
    by (simp add: seg_bytes_len_def)
  show "fl_read (dv_file d) (unat (place g3 a)) (g_bs g) = fl_read (dv_file (g_dev g)) (unat (place g a)) (g_bs g)"
  proof (rule fl_read_shift)
    fix i assume i: "i < g_bs g"
    have "fl_bytes (dv_file d) (home_of g dest s + (?k * g_bs g + i))
        = fl_bytes (dv_file (g_dev g)) (unat (sg_dev_offset s) + (?k * g_bs g + i))"
      using mv s(2) within [OF i] by (simp add: all_moved_def)
    then show "fl_bytes (dv_file d) (unat (place g3 a) + i) = fl_bytes (dv_file (g_dev g)) (unat (place g a) + i)"
      using at s(1) split by (simp add: old home_of_def add.assoc)
  qed
qed

lemma unmoved_block:
  assumes ok: "fs_ok g" and home: "good_home g ag dest" and m: "mapped g a" and a: "fst (blk_split a) \<noteq> ag"
    and mv: "all_moved g dest (unat (ae_length (ag_at g ag)) * g_bs g) ss d"
  shows "fl_read (dv_file d) (unat (place g a)) (g_bs g) = fl_read (dv_file (g_dev g)) (unat (place g a)) (g_bs g)"
proof -
  let ?bs = "sb_blocksize (g_sb g)"
  obtain p where p: "am_resolve (g_map g) a ?bs = Some p" using m by (auto simp: mapped_def)
  obtain ag' l s where "blk_split a = (ag', l)" and s: "unat ag' < length (am_entries (g_map g))"
    "s \<in> set (ae_segs (am_entries (g_map g) ! unat ag'))" "sg_holds l s" "p = sg_place ?bs l s"
    and "l < ae_length (am_entries (g_map g) ! unat ag')"
    using p by (rule am_resolve_SomeE)
  have sgok: "sg_ok ?bs s" using ok s by (intro am_layout_seg) (simp_all add: fs_ok_def)
  have in_segs: "s \<in> set (am_segs (g_map g))" using s(1,2) by (auto simp: am_segs_def)
  then have "apart (span_of g s) (new_home g ag dest)" using home by (simp add: good_home_def list_all_iff)
  moreover have "fst (span_of g s) \<le> unat (place g a)" "unat (place g a) + g_bs g \<le> snd (span_of g s)"
    using am_resolve_in_seg [OF sgok s(3)] p s(4) by (simp_all add: span_of_def place_def g_bs_def)
  ultimately have out: "unat (place g a) + i < unat dest \<or>
      unat dest + unat (ae_length (ag_at g ag)) * g_bs g \<le> unat (place g a) + i" if "i < g_bs g" for i
    using that by (auto simp: apart_def new_home_def)
  have inside: "unat (place g a) + g_bs g \<le> fl_len (dv_file (g_dev g))" by (rule place_inside [OF ok m])
  show ?thesis
  proof (rule fl_read_shift)
    fix i assume i: "i < g_bs g"
    have "unat (place g a) + i < fl_len (dv_file (g_dev g))" using inside i by linarith
    with out [OF i] mv show "fl_bytes (dv_file d) (unat (place g a) + i) = fl_bytes (dv_file (g_dev g)) (unat (place g a) + i)"
      unfolding all_moved_def by blast
  qed
qed

text \<open>A commit of the map keeps the layout.\<close>

lemma commit_map_layout:
  assumes ok: "fs_ok g" and room: "agmap_room g" and run: "commit_map crc g = (Inr (), g')"
  shows "agmap_room g'" and "agmap_span g' = agmap_span g" and "data_block g a \<Longrightarrow> data_block g' a"
    and "mapped g' = mapped g" and "place g' = place g"
proof -
  note cmt = commit_map_ok [OF ok room run]
  show same: "agmap_span g' = agmap_span g" "mapped g' = mapped g" "place g' = place g"
    using cmt(2,3) by (simp_all add: agmap_span_def mapped_def place_def fun_eq_iff)
  have bak: "sb_backup g' = sb_backup g" "g_bs g' = g_bs g"
    using cmt(2,3) by (simp_all add: sb_backup_def ag0_length_def g_bs_def)
  show "agmap_room g'" using room same bak cmt(5) by (simp add: agmap_room_def)
  show "data_block g a \<Longrightarrow> data_block g' a" using same bak by (simp add: data_block_def blk_span_def)
qed

text \<open>What a successful relocation has run.\<close>

lemma relocate_run:
  assumes ok: "fs_ok g" and home: "good_home g ag dest" and cov: "ag_covered (ag_at g ag)"
    and run: "relocate crc ag dest g = (Inr (), g')"
  obtains d where "unat ag < length (am_entries (g_map g))" and "ae_flags (ag_at g ag) AND AGF_IMMOVABLE = 0"
    and "same_room g d" and "all_moved g dest (unat (ae_length (ag_at g ag)) * g_bs g) (ae_segs (ag_at g ag)) d"
    and "commit_map crc (set_entry ag (one_segment dest) (g\<lparr>g_dev := d\<rparr>)) = (Inr (), g')"
proof -
  let ?e = "ag_at g ag" and ?loop = "forS (copy_seg (CELL_BLOCKS * g_bs g) (bs64 g) dest)"
  have bs2: "unat (bs64 g) = g_bs g" by (simp add: bs64_def g_bs_def)
  moreover have "0 < g_bs g" using g_bs_ge [OF ok] by simp
  ultimately have bs: "bs64 g \<noteq> 0" "unat (bs64 g) = g_bs g" by (auto simp del: bs2)
  let ?F = "\<lambda>e'. e'\<lparr>ae_segs := [\<lparr>sg_block = 0, sg_blocks = ae_length ?e, sg_dev_offset = dest\<rparr>]\<rparr>"
  have ag: "unat ag < length (am_entries (g_map g))" and fl: "ae_flags ?e AND AGF_IMMOVABLE = 0"
    and rest: "bindS (?loop (ae_segs ?e)) (\<lambda>_. bindS (onDev dv_sync) (\<lambda>_.
      bindS (modS (set_entry ag ?F)) (\<lambda>_. commit_map crc))) g = (Inr (), g')"
    using run bs by (simp_all add: relocate_def guardR_def Let_def ag_at_def split: if_splits)
  have segs: "snd (span_of g s) \<le> fl_len (dv_file (g_dev g)) \<and> snd (sg_logical s) \<le> unat (ae_length ?e) \<and>
      apart (span_of g s) (unat dest, unat dest + unat (ae_length ?e) * g_bs g)" if "s \<in> set (ae_segs ?e)" for s
  proof -
    have "s \<in> set (am_segs (g_map g))" using that ag by (auto simp: am_segs_def ag_at_def)
    then show ?thesis
      using span_in_file(1) [OF ok] home cov that by (simp add: good_home_def ag_covered_def list_all_iff new_home_def)
  qed
  have "unat dest + unat (ae_length ?e) * g_bs g \<le> fl_len (dv_file (g_dev g))"
    using home by (simp add: good_home_def new_home_def)
  from copy_segs_run [OF ok this segs] cov
  obtain d where d: "?loop (ae_segs ?e) g = (Inr (), g\<lparr>g_dev := d\<rparr>)" "same_room g d"
    "all_moved g dest (unat (ae_length ?e) * g_bs g) (ae_segs ?e) d"
    by (auto simp: ag_covered_def)
  define d' where "d' = snd (dv_sync d)"
  have sync: "dv_sync d = (Inr (), d')" "dv_file d' = dv_file d" "dv_size d' = dv_size d"
    "dv_writable d' = dv_writable d"
    by (auto simp: d'_def dv_sync_def split: option.split)
  have entry: "set_entry ag ?F (g\<lparr>g_dev := d'\<rparr>) = set_entry ag (one_segment dest) (g\<lparr>g_dev := d'\<rparr>)"
    by (simp add: set_entry_def one_segment_def ag_at_def)
  have "same_room g d'" using d(2) sync fs_ok_dev [of "g\<lparr>g_dev := d\<rparr>" d'] by (simp add: same_room_def)
  moreover have "all_moved g dest (unat (ae_length ?e) * g_bs g) (ae_segs ?e) d'"
    using d(3) sync(2) by (simp add: all_moved_def)
  moreover have "commit_map crc (set_entry ag (one_segment dest) (g\<lparr>g_dev := d'\<rparr>)) = (Inr (), g')"
    using rest d(1) sync(1) entry by (simp add: bindS_Inr [where m = "?loop (ae_segs ?e)"] onDev_def bindS_def)
  ultimately show ?thesis using ag fl by (intro that)
qed

text \<open>
  Moving an AG to a free home keeps every block of data: the map in force afterwards, in memory
  and on the device, finds each with its old contents, and the AG's own blocks are in the new home.
\<close>

lemma relocate_ok:
  assumes ok: "fs_ok g" and room: "agmap_room g" and ag0: "ag \<noteq> 0" and home: "good_home g ag dest"
    and cov: "ag_covered (ag_at g ag)" and run: "relocate crc ag dest g = (Inr (), g')"
  shows "fs_ok g'"
    and "\<And>a. data_block g a \<Longrightarrow> data_block g' a \<and> read_block g' a = read_block g a"
    and "\<And>a. data_block g a \<Longrightarrow> fst (blk_split a) = ag \<Longrightarrow>
      unat (place g' a) = unat dest + unat (snd (blk_split a)) * g_bs g"
    and "am_wf (g_map g') \<Longrightarrow> \<exists>status. load_agmap crc (g_dev g') (g_sb g') = Inr (g_map g', status)"
    and "fl_len (dv_file (g_dev g')) = fl_len (dv_file (g_dev g))" and "agmap_room g'" and "agmap_span g' = agmap_span g"
proof -
  obtain d where ag: "unat ag < length (am_entries (g_map g))" and "ae_flags (ag_at g ag) AND AGF_IMMOVABLE = 0"
    and sr: "same_room g d"
    and mv: "all_moved g dest (unat (ae_length (ag_at g ag)) * g_bs g) (ae_segs (ag_at g ag)) d"
    and cm: "commit_map crc (set_entry ag (one_segment dest) (g\<lparr>g_dev := d\<rparr>)) = (Inr (), g')"
    using relocate_run [OF ok home cov run] .
  let ?g1 = "g\<lparr>g_dev := d\<rparr>"
  let ?g3 = "set_entry ag (one_segment dest) ?g1"
  have same: "span_of ?g1 = span_of g" "new_home ?g1 = new_home g" "agmap_span ?g1 = agmap_span g"
    "sb_backup ?g1 = sb_backup g" "place ?g1 = place g" "mapped ?g1 = mapped g" "g_bs ?g1 = g_bs g"
    by (simp_all add: span_of_def new_home_def ag_at_def g_bs_def agmap_span_def sb_backup_def ag0_length_def
        place_def mapped_def fun_eq_iff)
  have ok1: "fs_ok ?g1" and flen: "fl_len (dv_file d) = fl_len (dv_file (g_dev g))"
    using sr by (simp_all add: same_room_def)
  have home1: "good_home ?g1 ag dest" using home flen same by (simp add: good_home_def)
  have ok3: "fs_ok ?g3" by (rule fs_ok_moved [OF ok1 ag0 _ home1]) (use ag in simp)
  have "agmap_room ?g1" using room flen same by (simp add: agmap_room_def)
  then have room3: "agmap_room ?g3" by (simp add: agmap_room_set_entry [OF ag0])
  note cmt = commit_map_ok [OF ok3 room3 cm]
  have here: "data_block ?g3 a \<and> read_block ?g3 a = read_block g a \<and>
      (fst (blk_split a) = ag \<longrightarrow> unat (place ?g3 a) = unat dest + unat (snd (blk_split a)) * g_bs g)"
    if a: "data_block g a" for a
  proof -
    have m: "mapped g a" "a \<noteq> sb_home" "a \<noteq> sb_backup ?g3" and ap: "apart (blk_span g a) (agmap_span g)"
      using a by (simp_all add: data_block_def sb_backup_set_entry [OF ag0] same)
    have file3: "dv_file (g_dev ?g3) = dv_file d" by simp
    show ?thesis
    proof (cases "fst (blk_split a) = ag")
      case True
      note mb = moved_block [OF ok ag home cov m(1) True mv]
      have "fst (new_home g ag dest) \<le> fst (blk_span ?g3 a)"
        using mb(2) by (simp add: new_home_def blk_span_def)
      then have "apart (blk_span ?g3 a) (agmap_span g)"
        using mb(3) home by (auto simp: good_home_def apart_def)
      moreover have "read_block ?g3 a = read_block g a"
        by (rule read_block_file_eq [OF ok ok3 m(1) mb(1)]) (use mb(4) same(7) file3 in simp_all)
      ultimately show ?thesis using mb(1,2) m same by (simp add: data_block_def)
    next
      case False
      note pe = place_set_entry [OF False, of "one_segment dest" ?g1, unfolded same]
      have "read_block ?g3 a = read_block g a"
        by (rule read_block_file_eq [OF ok ok3 m(1)])
          (use pe m(1) unmoved_block [OF ok home m(1) False mv] same(7) file3 in simp_all)
      then show ?thesis using False pe m ap same by (simp add: data_block_def blk_span_def)
    qed
  qed
  show "fs_ok g'" by (rule cmt(1))
  note lay = commit_map_layout [OF ok3 room3 cm]
  show "data_block g' a \<and> read_block g' a = read_block g a" if "data_block g a" for a
    using cmt(7) lay(3) here [OF that] by metis
  show "fl_len (dv_file (g_dev g')) = fl_len (dv_file (g_dev g))" "agmap_room g'" "agmap_span g' = agmap_span g"
    using cmt(5) flen lay(1,2) same by simp_all
  show "unat (place g' a) = unat dest + unat (snd (blk_split a)) * g_bs g"
    if "data_block g a" "fst (blk_split a) = ag" for a
    using cmt(7) here [OF that(1)] that(2) by metis
  show "\<exists>status. load_agmap crc (g_dev g') (g_sb g') = Inr (g_map g', status)" if "am_wf (g_map g')"
    using that by (rule cmt(9))
qed

text \<open>Moving an AG to a free, aligned home on the device succeeds when the map fits its room.\<close>

lemma good_home_no_overlap:
  assumes ok: "fs_ok g" and home: "good_home g ag dest" and n: "length (am_entries (g_map g)) < 2 ^ 32"
  shows "\<not> overlaps_excluding g dest (ucast (ae_length (ag_at g ag)) * bs64 g) ag"
    and "unat (dest + ucast (ae_length (ag_at g ag)) * bs64 g) = snd (new_home g ag dest)"
proof -
  let ?b = "ucast (ae_length (ag_at g ag)) * bs64 g"
  have small: "fl_len (dv_file (g_dev g)) < 2 ^ 63" using ok by (simp add: fs_ok_def dv_room_def MAX_OFF_def)
  have top: "unat dest + unat (ae_length (ag_at g ag)) * g_bs g < 2 ^ 63"
    using home small by (simp add: good_home_def new_home_def)
  then have b: "unat ?b = unat (ae_length (ag_at g ag)) * g_bs g"
    by (simp add: bs64_def unat_word_ariths g_bs_def)
  then have sum: "unat dest + unat ?b < 2 ^ 64" using top by simp
  then show "unat (dest + ?b) = snd (new_home g ag dest)" using b by (simp add: unat_word_ariths new_home_def)
  have "\<not> (unat dest < snd (span_of g s) \<and> fst (span_of g s) < unat dest + unat ?b)"
    if "i < length (am_entries (g_map g))" "s \<in> set (ae_segs (am_entries (g_map g) ! i))" for i s
  proof -
    have "s \<in> set (am_segs (g_map g))" using that by (auto simp: am_segs_def)
    then show ?thesis using home b by (auto simp: good_home_def list_all_iff apart_def new_home_def)
  qed
  then show "\<not> overlaps_excluding g dest ?b ag" unfolding overlaps_excluding_iff [OF ok n sum] by blast
qed

lemma relocate_succeeds:
  assumes ok: "fs_ok g" and room: "agmap_room g" and ag: "ag \<noteq> 0" "unat ag < length (am_entries (g_map g))"
    and n: "length (am_entries (g_map g)) < 2 ^ 32" and home: "good_home g ag dest" and cov: "ag_covered (ag_at g ag)"
    and al: "dest mod bs64 g = 0" and sz: "snd (new_home g ag dest) \<le> unat (dv_size (g_dev g))"
    and fl: "ae_flags (ag_at g ag) AND AGF_PRESENT \<noteq> 0" "ae_flags (ag_at g ag) AND AGF_IMMOVABLE = 0"
    and fits: "map_fits (set_entry ag (one_segment dest) g)"
  shows "\<exists>g'. relocate crc ag dest g = (Inr (), g')"
proof -
  let ?e = "ag_at g ag" and ?loop = "forS (copy_seg (CELL_BLOCKS * g_bs g) (bs64 g) dest)"
  let ?F = "\<lambda>e'. e'\<lparr>ae_segs := [\<lparr>sg_block = 0, sg_blocks = ae_length ?e, sg_dev_offset = dest\<rparr>]\<rparr>"
  have bs2: "unat (bs64 g) = g_bs g" by (simp add: bs64_def g_bs_def)
  moreover have "0 < g_bs g" using g_bs_ge [OF ok] by simp
  ultimately have bs: "bs64 g \<noteq> 0" "unat (bs64 g) = g_bs g" by (auto simp del: bs2)
  note no = good_home_no_overlap [OF ok home n]
  have le: "dest + ucast (ae_length ?e) * bs64 g \<le> dv_size (g_dev g)"
    using no(2) sz by (simp add: word_le_nat_alt)
  have step: "relocate crc ag dest g = bindS (?loop (ae_segs ?e)) (\<lambda>_. bindS (onDev dv_sync) (\<lambda>_.
      bindS (modS (set_entry ag ?F)) (\<lambda>_. commit_map crc))) g"
    using bs al ag(2) fl le no(1) by (simp add: relocate_def Let_def ag_at_def)
  have segs: "snd (span_of g s) \<le> fl_len (dv_file (g_dev g)) \<and> snd (sg_logical s) \<le> unat (ae_length ?e) \<and>
      apart (span_of g s) (unat dest, unat dest + unat (ae_length ?e) * g_bs g)" if "s \<in> set (ae_segs ?e)" for s
  proof -
    have "s \<in> set (am_segs (g_map g))" using that ag(2) by (auto simp: am_segs_def ag_at_def)
    then show ?thesis
      using span_in_file(1) [OF ok] home cov that by (simp add: good_home_def ag_covered_def list_all_iff new_home_def)
  qed
  have "unat dest + unat (ae_length ?e) * g_bs g \<le> fl_len (dv_file (g_dev g))"
    using home by (simp add: good_home_def new_home_def)
  from copy_segs_run [OF ok this segs] cov
  obtain d where d: "?loop (ae_segs ?e) g = (Inr (), g\<lparr>g_dev := d\<rparr>)" "same_room g d"
    by (auto simp: ag_covered_def)
  let ?d = "snd (dv_sync d)"
  let ?g2 = "set_entry ag ?F (g\<lparr>g_dev := ?d\<rparr>)"
  have run: "relocate crc ag dest g = commit_map crc ?g2"
  proof -
    have "relocate crc ag dest g = bindS (onDev dv_sync) (\<lambda>_. bindS (modS (set_entry ag ?F)) (\<lambda>_. commit_map crc))
        (g\<lparr>g_dev := d\<rparr>)" unfolding step by (rule bindS_Inr) (rule d(1))
    also have "\<dots> = bindS (modS (set_entry ag ?F)) (\<lambda>_. commit_map crc) (g\<lparr>g_dev := ?d\<rparr>)"
      by (rule bindS_Inr) (simp add: onDev_sync)
    finally show ?thesis by simp
  qed
  have eq: "?g2 = (set_entry ag (one_segment dest) g)\<lparr>g_dev := ?d\<rparr>"
    by (simp add: set_entry_def one_segment_def ag_at_def)
  have flen: "fl_len (dv_file d) = fl_len (dv_file (g_dev g))" and okd: "fs_ok (g\<lparr>g_dev := d\<rparr>)"
    using d(2) by (simp_all add: same_room_def)
  have ok3: "fs_ok (set_entry ag (one_segment dest) g)" by (rule fs_ok_moved [OF ok ag home])
  have wr: "dv_writable d = dv_writable (g_dev g)" using ok okd by (simp add: fs_ok_def dv_room_def)
  have "fs_ok ?g2" unfolding eq by (rule fs_ok_dev [OF ok3]) (simp_all add: flen wr)
  moreover have "agmap_room ?g2"
    using room flen by (simp add: agmap_room_set_entry [OF ag(1)])
      (simp add: agmap_room_def agmap_span_def sb_backup_def ag0_length_def place_def)
  moreover have "map_fits ?g2" using fits unfolding eq by (simp add: map_fits_def)
  ultimately show ?thesis unfolding run by (rule commit_map_succeeds)
qed

end
