(* ===== verification/Shrink.thy ===== *)
theory Shrink
  imports Relocate
begin

text \<open>
  Shrinking: every round of the loop clears one AG from beyond the new end, so the loop ends;
  afterwards no present AG reaches past it, and every block still mapped has its old contents.
\<close>

subsection \<open>No step of a resize runs for ever\<close>

lemma never_onDev: "never e m \<Longrightarrow> never e (onDev m)"
  by (auto simp: never_def onDev_def split: prod.split) (metis fst_conv)

lemma never_dv_pwrite: "e \<noteq> IoError \<Longrightarrow> never e (dv_pwrite b off)"
  by (auto simp: never_def dv_pwrite_def Let_def)

lemma never_dv_sync: "never e dv_sync"
  by (simp add: never_def)

lemma never_dv_set_len: "e \<noteq> IoError \<Longrightarrow> never e (dv_set_len n)"
  by (auto simp: never_def dv_set_len_def)

lemmas never_device [never_intros] =
  never_onDev [OF never_dv_pwrite] never_onDev [OF never_dv_sync] never_onDev [OF never_dv_set_len]

lemma dv_pread_neq: "e \<noteq> IoError \<Longrightarrow> dv_pread d n off \<noteq> Inl e"
  by (simp add: dv_pread_def guardR_def)

lemma am_put_entries_ends: "am_put_entries cap b off es \<noteq> Inl Diverges"
  by (induction cap b off es rule: am_put_entries.induct) (auto simp: Let_def split: prod.split)

lemma am_to_bytes_ends: "am_to_bytes crc m cap \<noteq> Inl Diverges"
  unfolding am_to_bytes_def Let_def
  by (intro guardR_neq tryR_neq am_put_entries_ends) (simp_all add: guardR_def split: prod.split)

lemma read_block_ends: "read_block g a \<noteq> Inl Diverges"
  unfolding read_block_def
  by (intro tryR_neq dv_pread_neq) (auto simp: g_resolve_def split: option.split)

lemma read_ag_header_ends: "read_ag_header crc g ag \<noteq> Inl Diverges"
  unfolding read_ag_header_def
  by (intro tryR_neq read_block_ends prefixR_Diverges) (simp add: ah_parse_def Let_def)

lemma commit_map_ends: "never Diverges (commit_map crc)"
proof -
  have "never Diverges (write_agmap crc)"
    unfolding write_agmap_def by (intro never_intros never_askS am_to_bytes_ends) simp_all
  moreover have "never Diverges (write_superblock crc)"
    unfolding write_superblock_def by (intro never_intros never_askS) simp_all
  ultimately show ?thesis unfolding commit_map_def by (intro never_intros)
qed

lemma relocate_ends: "never Diverges (relocate crc ag dest)"
  unfolding relocate_def copy_seg_def copy_piece_def
  by (intro never_intros never_askS commit_map_ends guardR_neq dv_pread_neq) simp_all

lemma retire_ends: "never Diverges (retire crc ag)"
  unfolding retire_def
  by (intro never_intros never_askS commit_map_ends guardR_neq read_ag_header_ends) simp_all

lemma shrink_step_ends: "never Diverges (shrink_step crc n i)"
  unfolding shrink_step_def Let_def
  by (intro never_intros never_askS relocate_ends retire_ends guardR_neq read_ag_header_ends)
    (simp_all split: option.split)

subsection \<open>What a round changes in the map\<close>

definition shape :: "gofs \<Rightarrow> ag_entry list \<times> u32" where
  "shape g = (am_entries (g_map g), sb_blocksize (g_sb g))"

lemma keeps_shape_dev [keeps_intros]: "keeps (\<lambda>g. shape g = x) (onDev m)"
  by (rule keepsI) (simp add: onDev_def shape_def split: prod.split)

lemma keeps_shape_commit [keeps_intros]: "keeps (\<lambda>g. shape g = x) (commit_map crc)"
  unfolding commit_map_def write_agmap_def write_superblock_def
  by (intro keeps_intros keeps_modS) (simp_all add: shape_def)

lemma keeps_shape_copy: "keeps (\<lambda>g. shape g = x) (copy_seg chunk bs dest s)"
  unfolding copy_seg_def copy_piece_def by (intro keeps_intros)

lemma shape_after:
  assumes "keeps (\<lambda>g. shape g = shape g0) m" and "m g0 = (r, g1)"
  shows "shape g1 = shape g0"
  using keepsD [OF assms(1) refl assms(2)] .

lemma commit_map_shape: "commit_map crc g = (r, g') \<Longrightarrow> shape g' = shape g"
  by (rule shape_after [OF keeps_shape_commit])

lemma relocate_shape:
  assumes run: "relocate crc ag dest g = (Inr (), g')"
  shows "unat ag < length (am_entries (g_map g))"
    and "shape g' = ((am_entries (g_map g))[unat ag := one_segment dest (ag_at g ag)], sb_blocksize (g_sb g))"
proof -
  let ?e = "ag_at g ag" and ?loop = "forS (copy_seg (CELL_BLOCKS * unat (bs64 g)) (bs64 g) dest)"
  let ?F = "\<lambda>e'. e'\<lparr>ae_segs := [\<lparr>sg_block = 0, sg_blocks = ae_length ?e, sg_dev_offset = dest\<rparr>]\<rparr>"
  have rest: "bindS (?loop (ae_segs ?e)) (\<lambda>_. bindS (onDev dv_sync) (\<lambda>_.
      bindS (modS (set_entry ag ?F)) (\<lambda>_. commit_map crc))) g = (Inr (), g')"
    using run by (simp add: relocate_def guardR_def Let_def ag_at_def split: if_splits)
  show ag: "unat ag < length (am_entries (g_map g))"
    using run by (simp add: relocate_def guardR_def Let_def split: if_splits)
  obtain u g1 where g1: "?loop (ae_segs ?e) g = (Inr u, g1)" and rest1: "bindS (onDev dv_sync) (\<lambda>_.
      bindS (modS (set_entry ag ?F)) (\<lambda>_. commit_map crc)) g1 = (Inr (), g')"
    using rest by (rule bindS_okE)
  obtain v g2 where g2: "onDev dv_sync g1 = (Inr v, g2)"
    and rest2: "bindS (modS (set_entry ag ?F)) (\<lambda>_. commit_map crc) g2 = (Inr (), g')"
    using rest1 by (rule bindS_okE)
  have "shape g2 = shape g"
    using shape_after [OF keeps_forS [OF keeps_shape_copy] g1] shape_after [OF keeps_shape_dev g2] by simp
  moreover have "shape g' = shape (set_entry ag ?F g2)"
    using commit_map_shape rest2 by simp
  ultimately show "shape g' = ((am_entries (g_map g))[unat ag := one_segment dest ?e], sb_blocksize (g_sb g))"
    by (simp add: shape_def set_entry_def one_segment_def ag_at_def)
qed

definition retired :: "ag_entry \<Rightarrow> ag_entry" where
  "retired e = e\<lparr>ae_flags := AGF_RETIRED, ae_segs := []\<rparr>"

lemma retire_shape:
  assumes run: "retire crc ag g = (Inr (), g')"
  shows "unat ag < length (am_entries (g_map g))" and "ag \<noteq> 0"
    and "shape g' = ((am_entries (g_map g))[unat ag := retired (ag_at g ag)], sb_blocksize (g_sb g))"
proof -
  obtain hdr where hdr: "read_ag_header crc g ag = Inr hdr"
    using run by (auto simp: retire_def split: if_splits sum.splits)
  show "unat ag < length (am_entries (g_map g))" "ag \<noteq> 0"
    using run hdr by (simp_all add: retire_def guardR_def split: if_splits)
  have "commit_map crc ((set_entry ag retired g)\<lparr>g_sb := (g_sb g)\<lparr>
      sb_free_blocks := sb_free_blocks (g_sb g) - ucast (ah_free_blocks hdr),
      sb_rsvd_blocks := sb_rsvd_blocks (g_sb g) - ucast (ah_rsvd_blocks hdr)\<rparr>\<rparr>) = (Inr (), g')"
    using run hdr by (simp add: retire_def guardR_def retired_def [abs_def] split: if_splits)
  from commit_map_shape [OF this]
  show "shape g' = ((am_entries (g_map g))[unat ag := retired (ag_at g ag)], sb_blocksize (g_sb g))"
    by (simp add: shape_def set_entry_def ag_at_def)
qed

text \<open>The AGs that reach past the new end.\<close>

definition beyond_set :: "gofs \<Rightarrow> u64 \<Rightarrow> nat set" where
  "beyond_set g n = {i. i < length (am_entries (g_map g)) \<and> is_beyond g n (am_entries (g_map g) ! i)}"

lemma finite_beyond [simp]: "finite (beyond_set g n)"
  by (simp add: beyond_set_def)

lemma is_beyond_shape: "sb_blocksize (g_sb g') = sb_blocksize (g_sb g) \<Longrightarrow> is_beyond g' n e = is_beyond g n e"
  by (simp add: is_beyond_def seg_end_def bs64_def)

lemma first_beyond_Some: "first_beyond g n = Some i \<Longrightarrow> i \<in> beyond_set g n"
  by (auto simp: first_beyond_def find_Some_iff beyond_set_def)

lemma first_beyond_None: "first_beyond g n = None \<longleftrightarrow> beyond_set g n = {}"
  by (auto simp: first_beyond_def find_None_iff beyond_set_def)

text \<open>AG numbers fit 32 bits and no AG is empty.\<close>

definition ags_ok :: "gofs \<Rightarrow> bool" where
  "ags_ok g \<longleftrightarrow> length (am_entries (g_map g)) \<le> 2 ^ 32 \<and> sb_blocksize (g_sb g) \<noteq> 0 \<and>
     list_all (\<lambda>e. ae_length e \<noteq> 0) (am_entries (g_map g))"

lemma beyond_set_update:
  assumes "shape g' = ((am_entries (g_map g))[i := e], sb_blocksize (g_sb g))" and "\<not> is_beyond g n e"
  shows "beyond_set g' n = beyond_set g n - {i}"
proof -
  have "is_beyond g' n = is_beyond g n" 
    using assms(1) by (simp add: shape_def fun_eq_iff is_beyond_def seg_end_def bs64_def)
  then have "j \<in> beyond_set g' n \<longleftrightarrow> j \<in> beyond_set g n - {i}" for j
    using assms by (cases "j = i") (auto simp: beyond_set_def shape_def)
  then show ?thesis by blast
qed

lemma gap_not_beyond:
  assumes "find_gap g (ucast (ae_length e) * bs64 g) n = Some dest" and "ae_length e \<noteq> 0" and "sb_blocksize (g_sb g) \<noteq> 0"
  shows "\<not> is_beyond g n (one_segment dest e)"
proof -
  let ?b = "ucast (ae_length e) * bs64 g"
  have big: "unat (ae_length e) * unat (sb_blocksize (g_sb g)) < 2 ^ 64"
    using mult_strict_mono [OF unat_bound [of "ae_length e"] unat_bound [of "sb_blocksize (g_sb g)"]] by simp
  then have b: "unat ?b = unat (ae_length e) * unat (sb_blocksize (g_sb g))"
    by (simp add: bs64_def unat_word_ariths)
  have "0 < ?b" using b assms(2,3) by (simp add: word_less_nat_alt unat_gt_0)
  from gap_scan_sound [OF assms(1) [unfolded find_gap_def] this] have "unat dest + unat ?b \<le> unat n" by simp
  moreover have "unat (dest + ?b) = unat dest + unat ?b"
    using calculation unat_bound [of n] by (simp add: unat_word_ariths)
  ultimately show ?thesis
    by (simp add: is_beyond_def one_segment_def seg_end_def word_less_nat_alt)
qed

lemma shrink_step_clears:
  assumes ags: "ags_ok g" and i: "i \<in> beyond_set g n" and run: "shrink_step crc n i g = (Inr (), g')"
  shows "beyond_set g' n = beyond_set g n - {i}" and "ags_ok g'"
proof -
  let ?e = "am_entries (g_map g) ! i"
  have i': "i < length (am_entries (g_map g))" using i by (simp add: beyond_set_def)
  then have num: "unat (of_nat i :: u32) = i" using ags by (simp add: ags_ok_def unat_of_nat)
  then have at: "ag_at g (of_nat i) = ?e" by (simp add: ag_at_def)
  have len: "ae_length ?e \<noteq> 0" "sb_blocksize (g_sb g) \<noteq> 0" using ags i' by (auto simp: ags_ok_def list_all_length)
  have "\<exists>e. shape g' = ((am_entries (g_map g))[i := e], sb_blocksize (g_sb g)) \<and> \<not> is_beyond g n e \<and> ae_length e \<noteq> 0"
  proof (cases "\<exists>hdr. read_ag_header crc g (of_nat i) = Inr hdr \<and> ah_full_blocks hdr = 0")
    case True
    then have "retire crc (of_nat i) g = (Inr (), g')" using run by (auto simp: shrink_step_def Let_def split: if_splits)
    from retire_shape(3) [OF this] show ?thesis
      using num at len by (intro exI [of _ "retired ?e"]) (simp add: retired_def is_beyond_def)
  next
    case False
    then obtain dest where d: "find_gap g (ucast (ae_length ?e) * bs64 g) n = Some dest"
      "relocate crc (of_nat i) dest g = (Inr (), g')"
      using run by (auto simp: shrink_step_def Let_def split: if_splits sum.splits option.splits)
    have "\<not> is_beyond g n (one_segment dest ?e)" by (rule gap_not_beyond [OF d(1) len])
    then show ?thesis
      using relocate_shape(2) [OF d(2)] num at len by (intro exI [of _ "one_segment dest ?e"]) (simp add: one_segment_def)
  qed
  then obtain e where e: "shape g' = ((am_entries (g_map g))[i := e], sb_blocksize (g_sb g))" "\<not> is_beyond g n e"
    "ae_length e \<noteq> 0" by blast
  show "beyond_set g' n = beyond_set g n - {i}" by (rule beyond_set_update [OF e(1,2)])
  show "ags_ok g'"
    using ags e(1,3) set_update_subset_insert [of "am_entries (g_map g)" i e]
    by (auto simp: ags_ok_def shape_def list_all_iff)
qed

text \<open>One round for every AG beyond the end, and one to see that none is left.\<close>

lemma shrink_loop_ends:
  assumes "ags_ok g" and "card (beyond_set g n) < fuel"
  shows "fst (shrink_loop crc n fuel g) \<noteq> Inl Diverges"
    and "shrink_loop crc n fuel g = (Inr (), g') \<Longrightarrow> beyond_set g' n = {} \<and> ags_ok g'"
proof -
  have "fst (shrink_loop crc n fuel g) \<noteq> Inl Diverges \<and>
    (shrink_loop crc n fuel g = (Inr (), g') \<longrightarrow> beyond_set g' n = {} \<and> ags_ok g')"
    using assms
  proof (induction fuel arbitrary: g)
    case (Suc fuel)
    show ?case
    proof (cases "first_beyond g n")
      case None
      moreover from None have "beyond_set g n = {}" by (simp only: first_beyond_None)
      ultimately show ?thesis using Suc.prems(1) by auto
    next
      case (Some i)
      then have i: "i \<in> beyond_set g n" by (rule first_beyond_Some)
      obtain r g1 where r: "shrink_step crc n i g = (r, g1)" by (cases "shrink_step crc n i g")
      show ?thesis
      proof (cases r)
        case (Inl e)
        then have "e \<noteq> Diverges" using neverD [OF shrink_step_ends] r by blast
        then show ?thesis using Some r Inl by (simp add: bindS_Inl)
      next
        case (Inr u)
        then have "shrink_step crc n i g = (Inr (), g1)" using r by simp
        note next_round = shrink_step_clears [OF Suc.prems(1) i this]
        have "card (beyond_set g1 n) < fuel"
          using Suc.prems(2) i card_gt_0_iff [of "beyond_set g n"] by (auto simp: next_round(1))
        from Suc.IH [OF next_round(2) this] show ?thesis using Some r Inr by (simp add: bindS_Inr)
      qed
    qed
  qed simp
  then show "fst (shrink_loop crc n fuel g) \<noteq> Inl Diverges"
    "shrink_loop crc n fuel g = (Inr (), g') \<Longrightarrow> beyond_set g' n = {} \<and> ags_ok g'" by blast+
qed

lemma card_beyond: "card (beyond_set g n) < length (am_entries (g_map g)) + 1"
proof -
  have "card (beyond_set g n) \<le> card {..<length (am_entries (g_map g))}"
    by (rule card_mono) (auto simp: beyond_set_def)
  then show ?thesis by simp
qed

lemma shrink_ends:
  assumes "ags_ok g"
  shows "fst (shrink crc n g) \<noteq> Inl Diverges"
    and "shrink crc n g = (Inr (), g') \<Longrightarrow> beyond_set g' n = {} \<and> dv_size (g_dev g') = n"
proof -
  let ?fuel = "length (am_entries (g_map g)) + 1"
  obtain r g1 where r: "shrink_loop crc n ?fuel g = (r, g1)" by (cases "shrink_loop crc n ?fuel g")
  note loop = shrink_loop_ends [OF assms card_beyond, of crc n]
  have run: "shrink crc n g = (case r of Inl e \<Rightarrow> (Inl e, g1) | Inr u \<Rightarrow> onDev (dv_set_len n) g1)"
    using r by (simp add: shrink_def bindS_Inl bindS_Inr del: shrink_loop.simps split: sum.split)
  show "fst (shrink crc n g) \<noteq> Inl Diverges"
    using loop(1) r by (auto simp: run onDev_def dv_set_len_def split: sum.split)
  show "beyond_set g' n = {} \<and> dv_size (g_dev g') = n" if ok: "shrink crc n g = (Inr (), g')"
  proof -
    have r': "shrink_loop crc n ?fuel g = (Inr (), g1)" using run ok r by (cases r) auto
    have "onDev (dv_set_len n) g1 = (Inr (), g')" using run ok r r' by simp
    then have "g' = g1\<lparr>g_dev := g_dev g'\<rparr>" "dv_size (g_dev g') = n"
      by (auto simp: onDev_def dv_set_len_def split: if_splits)
    moreover have "beyond_set (g1\<lparr>g_dev := d\<rparr>) n = beyond_set g1 n" for d
      by (simp add: beyond_set_def is_beyond_def seg_end_def bs64_def)
    ultimately show ?thesis using loop(2) [OF r'] by metis
  qed
qed

subsection \<open>What a shrink keeps\<close>

text \<open>An AG map that can be resized: AG 0 holds the map, and an AG that is not present has no segments.\<close>

definition resizable :: "gofs \<Rightarrow> bool" where
  "resizable g \<longleftrightarrow> fs_ok g \<and> agmap_room g \<and> ags_ok g \<and>
     list_all (\<lambda>e. ag_covered e \<and> (ae_flags e AND AGF_PRESENT = 0 \<longrightarrow> ae_segs e = [])) (am_entries (g_map g)) \<and>
     snd (agmap_span g) \<le> unat (ag0_length g) * g_bs g"

lemma find_gap_good_home:
  assumes rs: "resizable g" and lim: "unat n \<le> fl_len (dv_file (g_dev g))"
    and gap: "find_gap g (ucast (ae_length (ag_at g ag)) * bs64 g) n = Some dest"
    and ag: "unat ag < length (am_entries (g_map g))"
  shows "good_home g ag dest"
proof -
  let ?len = "ae_length (ag_at g ag)"
  let ?b = "ucast ?len * bs64 g"
  have ok: "fs_ok g" using rs by (simp add: resizable_def)
  have len: "?len \<noteq> 0" "sb_blocksize (g_sb g) \<noteq> 0"
    using rs ag by (auto simp: resizable_def ags_ok_def list_all_length ag_at_def)
  have big: "unat ?len * unat (sb_blocksize (g_sb g)) < 2 ^ 64"
    using mult_strict_mono [OF unat_bound [of ?len] unat_bound [of "sb_blocksize (g_sb g)"]] by simp
  then have b: "unat ?b = unat ?len * g_bs g"
    by (simp add: bs64_def unat_word_ariths g_bs_def)
  have "0 < ?b" using b len by (simp add: word_less_nat_alt unat_gt_0 g_bs_def)
  note sound = find_gap_sound [OF ok this gap, unfolded b]
  have segs: "apart (span_of g s) (new_home g ag dest)" if "s \<in> set (am_segs (g_map g))" for s
    using sound(2) [OF that] by (simp add: new_home_def apart_sym)
  obtain e es where e: "am_entries (g_map g) = e # es" "ae_segs e = [\<lparr>sg_block = 0, sg_blocks = ae_length e, sg_dev_offset = 0\<rparr>]"
    using ok by (auto simp: fs_ok_def ag0_ok_def split: list.splits)
  then have "\<lparr>sg_block = 0, sg_blocks = ae_length e, sg_dev_offset = 0\<rparr> \<in> set (am_segs (g_map g))"
    by (simp add: am_segs_def)
  from segs [OF this] have "apart (0, unat (ag0_length g) * g_bs g) (new_home g ag dest)"
    using e(1) by (simp add: span_of_def sg_range_def ag0_length_def g_bs_def)
  moreover have "snd (agmap_span g) \<le> unat (ag0_length g) * g_bs g" using rs by (simp add: resizable_def)
  moreover have "0 < unat ?len * g_bs g" using len by (simp add: g_bs_def unat_gt_0)
  ultimately have "apart (new_home g ag dest) (agmap_span g)"
    by (auto simp: apart_def new_home_def agmap_span_def)
  then show ?thesis
    using sound(1) lim segs by (simp add: good_home_def list_all_iff new_home_def)
qed

text \<open>Retiring takes the AG's blocks away and keeps the rest; an AG with allocated blocks stays.\<close>

lemma retire_ok:
  assumes ok: "fs_ok g" and room: "agmap_room g" and run: "retire crc ag g = (Inr (), g')"
  shows "fs_ok g'" and "\<exists>hdr. read_ag_header crc g ag = Inr hdr \<and> ah_full_blocks hdr = 0"
    and "\<And>a. fst (blk_split a) = ag \<Longrightarrow> \<not> mapped g' a"
    and "\<And>a. data_block g a \<Longrightarrow> fst (blk_split a) \<noteq> ag \<Longrightarrow> data_block g' a \<and> read_block g' a = read_block g a"
    and "fl_len (dv_file (g_dev g')) = fl_len (dv_file (g_dev g))" and "agmap_room g'" and "agmap_span g' = agmap_span g"
proof -
  obtain hdr where hdr: "read_ag_header crc g ag = Inr hdr" "ah_full_blocks hdr = 0"
    using run by (auto simp: retire_def split: if_splits sum.splits)
  then show "\<exists>hdr. read_ag_header crc g ag = Inr hdr \<and> ah_full_blocks hdr = 0" by blast
  note sh = retire_shape [OF run]
  let ?g1 = "set_entry ag retired g"
  let ?g2 = "?g1\<lparr>g_sb := (g_sb g)\<lparr>
      sb_free_blocks := sb_free_blocks (g_sb g) - ucast (ah_free_blocks hdr),
      sb_rsvd_blocks := sb_rsvd_blocks (g_sb g) - ucast (ah_rsvd_blocks hdr)\<rparr>\<rparr>"
  have cm: "commit_map crc ?g2 = (Inr (), g')"
    using run hdr by (simp add: retire_def guardR_def retired_def [abs_def] split: if_splits)
  have ok1: "fs_ok ?g1" by (rule fs_ok_set_entry [OF ok sh(2,1)]) (simp_all add: retired_def)
  have "sb_wf (g_sb ?g2)" using ok by (simp add: fs_ok_def sb_wf_def)
  then have ok2: "fs_ok ?g2" using fs_ok_sb [OF ok1] by simp
  have same: "agmap_span ?g2 = agmap_span g" "mapped ?g2 = mapped ?g1" "place ?g2 = place ?g1" "g_bs ?g2 = g_bs g"
    "sb_backup ?g2 = sb_backup ?g1" "agmap_room ?g2 = agmap_room ?g1"
    by (simp_all add: agmap_span_def agmap_room_def mapped_def place_def fun_eq_iff g_bs_def sb_backup_def ag0_length_def)
  have room2: "agmap_room ?g2" using room same(6) by (simp add: agmap_room_set_entry [OF sh(2)])
  note cmt = commit_map_ok [OF ok2 room2 cm]
  show "fs_ok g'" by (rule cmt(1))
  show "fl_len (dv_file (g_dev g')) = fl_len (dv_file (g_dev g))" using cmt(5) by simp
  note lay = commit_map_layout [OF ok2 room2 cm]
  show "agmap_room g'" "agmap_span g' = agmap_span g" using lay(1,2) same by simp_all
  show "data_block g' a \<and> read_block g' a = read_block g a" if a: "data_block g a" "fst (blk_split a) \<noteq> ag" for a
  proof -
    note pe = place_set_entry [OF a(2), of retired g]
    have m: "mapped g a" using a(1) by (simp add: data_block_def)
    have "data_block ?g2 a"
      using a(1) pe same sb_backup_set_entry [OF sh(2)] by (simp add: data_block_def blk_span_def)
    moreover have "read_block ?g2 a = read_block g a"
      by (rule read_block_file_eq [OF ok ok2 m]) (use pe m same in simp_all)
    ultimately show ?thesis using cmt(7) lay(3) by metis
  qed
  have map': "am_resolve (g_map g') = am_resolve (g_map ?g1)" using cmt(2) by simp
  show "\<not> mapped g' a" if "fst (blk_split a) = ag" for a
    using that sh(1) cmt(3) map'
    by (auto simp: mapped_def am_resolve_def set_entry_def retired_def Let_def split: prod.splits)
qed

lemma retire_succeeds:
  assumes ok: "fs_ok g" and room: "agmap_room g" and ag: "ag \<noteq> 0" "unat ag < length (am_entries (g_map g))"
    and hdr: "read_ag_header crc g ag = Inr hdr" "ah_full_blocks hdr = 0"
    and pres: "ae_flags (ag_at g ag) AND AGF_PRESENT \<noteq> 0" and fits: "map_fits (set_entry ag retired g)"
  shows "\<exists>g'. retire crc ag g = (Inr (), g')"
proof -
  let ?g1 = "set_entry ag retired g"
  let ?g2 = "?g1\<lparr>g_sb := (g_sb g)\<lparr>
      sb_free_blocks := sb_free_blocks (g_sb g) - ucast (ah_free_blocks hdr),
      sb_rsvd_blocks := sb_rsvd_blocks (g_sb g) - ucast (ah_rsvd_blocks hdr)\<rparr>\<rparr>"
  have run: "retire crc ag g = commit_map crc ?g2"
    using ag hdr pres by (simp add: retire_def retired_def [abs_def] ag_at_def)
  have ok1: "fs_ok ?g1" by (rule fs_ok_set_entry [OF ok ag]) (simp_all add: retired_def)
  have "sb_wf (g_sb ?g2)" using ok by (simp add: fs_ok_def sb_wf_def)
  then have "fs_ok ?g2" using fs_ok_sb [OF ok1] by simp
  moreover have "agmap_room ?g2 = agmap_room ?g1"
    by (simp add: agmap_span_def agmap_room_def place_def sb_backup_def ag0_length_def)
  then have "agmap_room ?g2" using room by (simp add: agmap_room_set_entry [OF ag(1)])
  moreover have "map_fits ?g2" using fits by (simp add: map_fits_def)
  ultimately show ?thesis unfolding run by (rule commit_map_succeeds)
qed

text \<open>The AG a block address names has been retired.\<close>

definition ag_retired :: "gofs \<Rightarrow> u64 \<Rightarrow> bool" where
  "ag_retired g a \<longleftrightarrow> ae_flags (ag_at g (fst (blk_split a))) = AGF_RETIRED \<and> \<not> mapped g a"

lemma resizable_step:
  assumes rs: "resizable g" and i: "i \<in> beyond_set g n" and run: "shrink_step crc n i g = (Inr (), g')"
    and lim: "unat n \<le> fl_len (dv_file (g_dev g))"
  shows "resizable g'" and "fl_len (dv_file (g_dev g')) = fl_len (dv_file (g_dev g))"
    and "data_block g a \<Longrightarrow> data_block g' a \<and> read_block g' a = read_block g a \<or> ag_retired g' a"
    and "ag_retired g a \<Longrightarrow> ag_retired g' a"
proof -
  let ?ag = "of_nat i :: u32" and ?e = "am_entries (g_map g) ! i"
  have ok: "fs_ok g" "agmap_room g" "ags_ok g" using rs by (simp_all add: resizable_def)
  have i': "i < length (am_entries (g_map g))" and bey: "is_beyond g n ?e" using i by (simp_all add: beyond_set_def)
  then have num: "unat ?ag = i" using ok(3) by (simp add: ags_ok_def unat_of_nat)
  then have at: "ag_at g ?ag = ?e" by (simp add: ag_at_def)
  have ag0: "?ag \<noteq> 0" using run by (auto simp: shrink_step_def Let_def split: if_splits)
  have cov: "ag_covered ?e" using rs i' by (simp add: resizable_def list_all_length)
  have "\<exists>e. shape g' = ((am_entries (g_map g))[i := e], sb_blocksize (g_sb g)) \<and> ag_covered e \<and>
      (ae_flags e AND AGF_PRESENT = 0 \<longrightarrow> ae_segs e = []) \<and> fs_ok g' \<and> agmap_room g' \<and> agmap_span g' = agmap_span g \<and>
      fl_len (dv_file (g_dev g')) = fl_len (dv_file (g_dev g)) \<and>
      (\<forall>a. data_block g a \<longrightarrow> data_block g' a \<and> read_block g' a = read_block g a \<or> ag_retired g' a)"
  proof (cases "\<exists>hdr. read_ag_header crc g ?ag = Inr hdr \<and> ah_full_blocks hdr = 0")
    case True
    then have rt: "retire crc ?ag g = (Inr (), g')" using run by (auto simp: shrink_step_def Let_def split: if_splits)
    note r = retire_ok [OF ok(1,2) rt] and sh = retire_shape [OF rt]
    have "ae_flags (ag_at g' ?ag) = AGF_RETIRED"
      using sh(3) i' num by (simp add: shape_def ag_at_def retired_def)
    then have "data_block g' a \<and> read_block g' a = read_block g a \<or> ag_retired g' a" if "data_block g a" for a
      using r(3) [of a] r(4) [OF that] by (cases "fst (blk_split a) = ?ag") (simp_all add: ag_retired_def)
    moreover have "ag_covered (retired ?e)" by (simp add: retired_def ag_covered_def)
    ultimately show ?thesis using r sh(3) num at by (intro exI [of _ "retired ?e"]) (simp add: retired_def)
  next
    case False
    then obtain dest where d: "find_gap g (ucast (ae_length ?e) * bs64 g) n = Some dest"
      "relocate crc ?ag dest g = (Inr (), g')"
      using run by (auto simp: shrink_step_def Let_def split: if_splits sum.splits option.splits)
    have home: "good_home g ?ag dest"
      by (rule find_gap_good_home [OF rs lim]) (use d(1) at num i' in simp_all)
    note r = relocate_ok [OF ok(1,2) ag0 home _ d(2), unfolded at, OF cov] and sh = relocate_shape [OF d(2)]
    have "ag_covered (one_segment dest ?e)" by (simp add: one_segment_def ag_covered_def sg_logical_def)
    moreover have "ae_flags (one_segment dest ?e) AND AGF_PRESENT \<noteq> 0"
      using bey by (simp add: is_beyond_def one_segment_def)
    ultimately show ?thesis using r(1,2,5-7) sh(2) num at by (intro exI [of _ "one_segment dest ?e"]) simp
  qed
  then obtain e where e: "shape g' = ((am_entries (g_map g))[i := e], sb_blocksize (g_sb g))" "ag_covered e"
    "ae_flags e AND AGF_PRESENT = 0 \<longrightarrow> ae_segs e = []" and ok': "fs_ok g'" "agmap_room g'" "agmap_span g' = agmap_span g"
    "fl_len (dv_file (g_dev g')) = fl_len (dv_file (g_dev g))"
    "\<And>a. data_block g a \<Longrightarrow> data_block g' a \<and> read_block g' a = read_block g a \<or> ag_retired g' a" by blast
  have i0: "0 < i" using ag0 num by (cases i) auto
  then have "ag0_length g' = ag0_length g" "g_bs g' = g_bs g"
    using e(1) by (cases "am_entries (g_map g)"; cases i; simp add: ag0_length_def shape_def g_bs_def)+
  moreover have "ags_ok g'" by (rule shrink_step_clears(2) [OF ok(3) i run])
  moreover have "list_all (\<lambda>e. ag_covered e \<and> (ae_flags e AND AGF_PRESENT = 0 \<longrightarrow> ae_segs e = [])) (am_entries (g_map g'))"
    using rs e set_update_subset_insert [of "am_entries (g_map g)" i e]
    by (auto simp: resizable_def shape_def list_all_iff)
  ultimately show "resizable g'" using ok' rs by (simp add: resizable_def)
  show "fl_len (dv_file (g_dev g')) = fl_len (dv_file (g_dev g))" by (rule ok'(4))
  show "data_block g a \<Longrightarrow> data_block g' a \<and> read_block g' a = read_block g a \<or> ag_retired g' a" by (rule ok'(5))
  show "ag_retired g' a" if a: "ag_retired g a"
  proof -
    have "unat (fst (blk_split a)) \<noteq> i"
      using a bey num by (auto simp: ag_retired_def ag_at_def is_beyond_def)
    then have "ag_at g' (fst (blk_split a)) = ag_at g (fst (blk_split a))"
      using e(1) by (simp add: ag_at_def shape_def)
    then show ?thesis using a
      by (auto simp: ag_retired_def mapped_def am_resolve_def Let_def ag_at_def split: prod.splits)
  qed
qed

lemma resizable_loop:
  assumes "resizable g" and "unat n \<le> fl_len (dv_file (g_dev g))" and "shrink_loop crc n fuel g = (Inr (), g')"
  shows "resizable g' \<and> fl_len (dv_file (g_dev g')) = fl_len (dv_file (g_dev g)) \<and>
    (\<forall>a. data_block g a \<longrightarrow> data_block g' a \<and> read_block g' a = read_block g a \<or> ag_retired g' a) \<and>
    (\<forall>a. ag_retired g a \<longrightarrow> ag_retired g' a)"
  using assms
proof (induction fuel arbitrary: g)
  case (Suc fuel)
  show ?case
  proof (cases "first_beyond g n")
    case None
    then show ?thesis using Suc.prems by simp
  next
    case (Some i)
    then have i: "i \<in> beyond_set g n" by (rule first_beyond_Some)
    have "bindS (shrink_step crc n i) (\<lambda>_. shrink_loop crc n fuel) g = (Inr (), g')" using Suc.prems(3) Some by simp
    then obtain u g1 where g1: "shrink_step crc n i g = (Inr u, g1)" "shrink_loop crc n fuel g1 = (Inr (), g')"
      by (rule bindS_okE)
    note step = resizable_step [OF Suc.prems(1) i g1(1) [simplified] Suc.prems(2)]
    have "unat n \<le> fl_len (dv_file (g_dev g1))" using Suc.prems(2) step(2) by simp
    from Suc.IH [OF step(1) this g1(2)] step(2-4) show ?thesis by metis
  qed
qed simp

text \<open>Cutting the device off behind the last segment.\<close>

lemma resizable_cut:
  assumes rs: "resizable g" and lim: "unat n \<le> fl_len (dv_file (g_dev g))" and clear: "beyond_set g n = {}"
    and run: "onDev (dv_set_len n) g = (Inr (), g')"
  shows "fs_ok g'" and "data_block g a \<Longrightarrow> mapped g' a \<and> read_block g' a = read_block g a"
    and "g_map g' = g_map g" and "fl_len (dv_file (g_dev g')) = unat n"
proof -
  have ok: "fs_ok g" using rs by (simp add: resizable_def)
  have g': "g' = g\<lparr>g_dev := g_dev g'\<rparr>" and d: "dv_file (g_dev g') = fl_set_len (dv_file (g_dev g)) (unat n)"
    "dv_writable (g_dev g') = dv_writable (g_dev g)"
    using run by (auto simp: onDev_def dv_set_len_def split: if_splits)
  show "g_map g' = g_map g" by (subst g') simp
  show len: "fl_len (dv_file (g_dev g')) = unat n" using d(1) by (simp add: fl_set_len_def)
  have ends: "snd (span_of g s) \<le> unat n" if "s \<in> set (am_segs (g_map g))" for s
  proof -
    obtain j where j: "j < length (am_entries (g_map g))" "s \<in> set (ae_segs (am_entries (g_map g) ! j))"
      using \<open>s \<in> set (am_segs (g_map g))\<close> by (auto simp: am_segs_def) (metis in_set_conv_nth)
    then have "ae_flags (am_entries (g_map g) ! j) AND AGF_PRESENT \<noteq> 0"
      using rs by (auto simp: resizable_def list_all_length)
    then have "\<not> n < seg_end g s" using clear j by (auto simp: beyond_set_def is_beyond_def list_ex_iff)
    then show ?thesis using seg_end_exact(2) [OF ok that] by (simp add: word_less_nat_alt)
  qed
  have "dv_room (g_dev g')" using ok d(2) len lim by (auto simp: fs_ok_def dv_room_def)
  then have "fs_ok (g\<lparr>g_dev := g_dev g'\<rparr>)"
    using ok ends len by (auto simp: fs_ok_def list_all_iff span_of_def)
  then show ok': "fs_ok g'" using g' by simp
  show "mapped g' a \<and> read_block g' a = read_block g a" if a: "data_block g a"
  proof -
    have m: "mapped g a" using a by (simp add: data_block_def)
    have same: "mapped g' = mapped g" "place g' = place g" "g_bs g' = g_bs g"
      by (subst g', simp add: mapped_def place_def g_bs_def fun_eq_iff)+
    have "unat (place g a) + g_bs g \<le> unat n" using place_inside [OF ok', of a] m same len by simp
    then have "fl_read (dv_file (g_dev g')) (unat (place g a)) (g_bs g) = fl_read (dv_file (g_dev g)) (unat (place g a)) (g_bs g)"
      using lim by (intro fl_read_shift) (simp add: d(1) fl_set_len_def)
    then show ?thesis using m same read_block_file_eq [OF ok ok' m] by simp
  qed
qed

lemma shrink_ok:
  assumes rs: "resizable g" and lim: "unat n \<le> fl_len (dv_file (g_dev g))" and run: "shrink crc n g = (Inr (), g')"
  shows "fs_ok g'" and "fl_len (dv_file (g_dev g')) = unat n"
    and "data_block g a \<Longrightarrow> read_block g' a = read_block g a \<or> ag_retired g' a"
proof -
  have "bindS (shrink_loop crc n (length (am_entries (g_map g)) + 1)) (\<lambda>_. onDev (dv_set_len n)) g = (Inr (), g')"
    using run by (simp add: shrink_def del: shrink_loop.simps)
  then obtain u g1 where "shrink_loop crc n (length (am_entries (g_map g)) + 1) g = (Inr u, g1)"
    and cut: "onDev (dv_set_len n) g1 = (Inr (), g')" by (rule bindS_okE)
  then have loop: "shrink_loop crc n (length (am_entries (g_map g)) + 1) g = (Inr (), g1)" by (cases u) (simp only:)
  note l = resizable_loop [OF rs lim loop]
  have ags: "ags_ok g" using rs by (simp add: resizable_def)
  have clear: "beyond_set g1 n = {}" using shrink_loop_ends(2) [OF ags card_beyond loop] by blast
  have lim1: "unat n \<le> fl_len (dv_file (g_dev g1))" using l lim by simp
  note c = resizable_cut [OF conjunct1 [OF l] lim1 clear cut]
  show "fs_ok g'" "fl_len (dv_file (g_dev g')) = unat n" using c(1,4) by simp_all
  have "g_sb g' = g_sb g1" using cut by (auto simp: onDev_def split: prod.splits)
  then have "ag_retired g' a = ag_retired g1 a" by (simp add: ag_retired_def ag_at_def mapped_def c(3))
  then show "data_block g a \<Longrightarrow> read_block g' a = read_block g a \<or> ag_retired g' a"
    using l c(2) [of a] by metis
qed

end
