(* ===== verification/ResizeProps.thy ===== *)
theory ResizeProps
  imports Shrink Example
begin

text \<open>
  The properties of online resize, with a filesystem of two AGs for their witnesses: the second
  AG lies in two segments behind a gap that has just room for it.
\<close>

subsection \<open>Two AGs\<close>

definition ex2_hdr :: "u32 \<Rightarrow> ag_header" where
  "ex2_hdr k = \<lparr>ah_num = 1, ah_gen = 1, ah_length = 8, ah_free_blocks = 0, ah_rsvd_blocks = 8,
     ah_full_blocks = k, ah_alloc_root = 1, ah_ino_hint = 0, ah_data_hint = 0, ah_tbl_arena = 0\<rparr>"

definition ex2_map :: agmap where
  "ex2_map = \<lparr>am_gen = 1, am_entries =
     [\<lparr>ae_flags = 3, ae_length = 64, ae_segs = [\<lparr>sg_block = 0, sg_blocks = 64, sg_dev_offset = 0\<rparr>]\<rparr>,
      \<lparr>ae_flags = 1, ae_length = 8, ae_segs = [\<lparr>sg_block = 0, sg_blocks = 4, sg_dev_offset = 45056\<rparr>,
        \<lparr>sg_block = 4, sg_blocks = 4, sg_dev_offset = 40960\<rparr>]\<rparr>]\<rparr>"

definition ex2_file :: "u32 \<Rightarrow> vfile" where
  "ex2_file k =
     \<lparr>fl_bytes = (\<lambda>i. if i < 512 then sb_to_bytes ex_crc ex_sb ! i
        else if 45056 \<le> i \<and> i < 45120 then ah_to_bytes ex_crc (ex2_hdr k) ! (i - 45056)
        else if i = 41472 then 77 else 0), fl_len = 49152\<rparr>"

definition ex2_fs :: "u32 \<Rightarrow> gofs" where
  "ex2_fs k =
     \<lparr>g_dev = \<lparr>dv_file = ex2_file k, dv_size = 49152, dv_writable = True, dv_nosync = False,
        dv_recorder = None\<rparr>,
      g_sb = ex_sb, g_map = ex2_map, g_hints = (\<lambda>_. None)\<rparr>"

lemma ex2_bs [simp]: "sb_blocksize (g_sb (ex2_fs k)) = 512" "g_bs (ex2_fs k) = 512" "bs64 (ex2_fs k) = 512"
  by (simp_all add: ex2_fs_def ex_sb_def g_bs_def bs64_def)

lemma ex2_ok: "fs_ok (ex2_fs k)"
  using ex_sb_wf
  by (simp add: fs_ok_def ex2_fs_def am_layout_ok_def am_segs_def ex2_map_def sg_ok_def sg_range_def
      ex2_file_def dv_room_def MAX_OFF_def ag0_ok_def apart_def)

lemma ex2_entries [simp]: "am_entries (g_map (ex2_fs k)) = am_entries ex2_map"
  by (simp add: ex2_fs_def)

lemma ex2_ag1: "ag_at (ex2_fs k) 1 = am_entries ex2_map ! 1"
  by (simp add: ag_at_def)

lemma ex2_backup: "sb_backup (ex2_fs k) = blk_addr 0 63" "place (ex2_fs k) (blk_addr 0 63) = 32256"
  using am_resolve_one_segment [of 0 ex2_map 3 64 0 63 512]
  by (simp_all add: sb_backup_def ag0_length_def ex2_fs_def ex2_map_def place_def ex_sb_def)

lemma ex2_span: "agmap_span (ex2_fs k) = (5120, 7168)"
  by (simp add: agmap_span_def ex2_fs_def ex_sb_def)

lemma ex2_len: "fl_len (dv_file (g_dev (ex2_fs k))) = 49152" "dv_size (g_dev (ex2_fs k)) = 49152"
  by (simp_all add: ex2_fs_def ex2_file_def)

lemma ex2_room: "agmap_room (ex2_fs k)"
  by (simp add: agmap_room_def ex2_span ex2_len ex2_backup apart_def)

lemma ex2_resizable: "resizable (ex2_fs k)"
  using ex2_ok ex2_room
  by (simp add: resizable_def ex2_span ags_ok_def ex2_map_def ag_covered_def sg_logical_def apart_def ag0_length_def)

lemma ex2_home: "good_home (ex2_fs k) 1 32768"
  by (simp add: good_home_def new_home_def ex2_ag1 ex2_span ex2_len am_segs_def)
    (simp add: ex2_map_def apart_def span_of_def sg_range_def)

lemma ex2_fits: "map_fits (set_entry 1 (one_segment 32768) (ex2_fs k))" "map_fits (set_entry 1 retired (ex2_fs k))"
  by (simp_all add: map_fits_def set_entry_def one_segment_def retired_def)
    (simp_all add: ex2_map_def ex2_fs_def ex_sb_def)

lemma ex2_relocate: "\<exists>g'. relocate crc 1 32768 (ex2_fs k) = (Inr (), g')"
  by (rule relocate_succeeds [OF ex2_ok ex2_room _ _ _ ex2_home _ _ _ _ _ ex2_fits(1)])
    (simp_all add: ex2_ag1 new_home_def ex2_len, simp_all add: ex2_map_def ag_covered_def sg_logical_def apart_def)

lemma ex2_block: "data_block (ex2_fs k) (blk_addr 1 5)" "fst (blk_split (blk_addr 1 5)) = 1"
  "read_block (ex2_fs k) (blk_addr 1 5) = Inr (77 # replicate 511 0)"
proof -
  have r: "am_resolve ex2_map (blk_addr 1 5) 512 = Some 41472"
    by (simp add: am_resolve_def ex2_map_def sg_holds_def sg_place_def)
  then have m: "mapped (ex2_fs k) (blk_addr 1 5)" "place (ex2_fs k) (blk_addr 1 5) = 41472"
    by (simp_all add: mapped_def place_def) (simp_all add: ex2_fs_def)
  then show "data_block (ex2_fs k) (blk_addr 1 5)"
    by (simp add: data_block_def sb_home_def ex2_backup blk_span_def ex2_span apart_def)
  have "map (fl_bytes (ex2_file k)) [41472..<41472 + 512] = 77 # replicate 511 0"
    by (rule nth_equalityI) (auto simp: ex2_file_def nth_Cons')
  then show "read_block (ex2_fs k) (blk_addr 1 5) = Inr (77 # replicate 511 0)"
    using read_block_mapped [OF ex2_ok m(1)] m(2) by (simp add: fl_read_def) (simp add: ex2_fs_def)
qed simp

lemma map_upt_pad:
  "length xs + n = m \<Longrightarrow> (\<And>i. i < m \<Longrightarrow> f (a + i) = (if i < length xs then xs ! i else x)) \<Longrightarrow>
     map f [a..<a + m] = xs @ replicate n x"
  by (rule nth_equalityI) (auto simp: nth_append)

lemma ex2_header: "read_ag_header ex_crc (ex2_fs k) 1 = Inr (ex2_hdr k)"
proof -
  have r: "am_resolve ex2_map (blk_addr 1 0) 512 = Some 45056"
    by (simp add: am_resolve_def ex2_map_def sg_holds_def sg_place_def)
  then have m: "mapped (ex2_fs k) (blk_addr 1 0)" "place (ex2_fs k) (blk_addr 1 0) = 45056"
    by (simp_all add: mapped_def place_def) (simp_all add: ex2_fs_def)
  have "map (fl_bytes (ex2_file k)) [45056..<45056 + 512] = ah_to_bytes ex_crc (ex2_hdr k) @ replicate 448 0"
    by (rule map_upt_pad) (simp_all add: ex2_file_def)
  then have "read_block (ex2_fs k) (blk_addr 1 0) = Inr (ah_to_bytes ex_crc (ex2_hdr k) @ replicate 448 0)"
    using read_block_mapped [OF ex2_ok m(1)] m(2) by (simp add: fl_read_def) (simp add: ex2_fs_def)
  then show ?thesis by (simp add: read_ag_header_def ag_header_block_def ah_parse_to_bytes)
qed

lemma ex2_find_gap: "find_gap (ex2_fs k) 4096 36864 = Some 32768"
proof -
  have "sort_spans (seg_spans (ex2_fs k)) = [(0, 32768), (40960, 43008), (45056, 47104)]"
    by (simp add: sort_spans_def seg_spans_def am_segs_def seg_end_def) (simp add: ex2_map_def seg_end_def)
  then show ?thesis by (simp add: find_gap_def sat_sub_def)
qed

lemma ex2_beyond: "first_beyond (ex2_fs k) 36864 = Some 1"
  by (simp add: first_beyond_def is_beyond_def ex2_map_def seg_end_def upt_rec)

lemma ex2_shrink: "\<exists>g'. shrink ex_crc 36864 (ex2_fs 1) = (Inr (), g')"
proof -
  let ?g = "ex2_fs 1"
  obtain g1 where g1: "relocate ex_crc 1 32768 ?g = (Inr (), g1)" using ex2_relocate by blast
  have step: "shrink_step ex_crc 36864 1 ?g = (Inr (), g1)"
    using g1 ex2_header [of 1] ex2_find_gap [of 1] by (simp add: shrink_step_def ex2_hdr_def ex2_map_def)
  have "ags_ok ?g" using ex2_resizable by (simp add: resizable_def)
  note clear = shrink_step_clears [OF this first_beyond_Some [OF ex2_beyond] step]
  have "beyond_set ?g 36864 = {1}"
    by (auto simp: beyond_set_def ex2_map_def is_beyond_def seg_end_def less_Suc_eq nth_Cons')
  then have last: "first_beyond g1 36864 = None" using clear(1) by (simp add: first_beyond_None)
  have "fs_ok g1"
    by (rule relocate_ok(1) [OF ex2_ok ex2_room _ ex2_home _ g1]) (simp_all add: ex2_ag1 ex2_map_def ag_covered_def sg_logical_def apart_def)
  then have wr: "dv_writable (g_dev g1)" by (simp add: fs_ok_def dv_room_def)
  have "shrink_loop ex_crc 36864 3 ?g = shrink_loop ex_crc 36864 2 g1"
    using ex2_beyond [of 1] step by (simp add: numeral_3_eq_3 numeral_2_eq_2 bindS_def askS_def)
  also have "\<dots> = (Inr (), g1)" using last by (simp add: numeral_2_eq_2)
  finally have "shrink_loop ex_crc 36864 3 ?g = (Inr (), g1)" .
  then have "shrink ex_crc 36864 ?g = onDev (dv_set_len 36864) g1"
    by (simp add: shrink_def ex2_map_def bindS_def askS_def numeral_3_eq_3 numeral_2_eq_2 del: shrink_loop.simps)
  then show ?thesis using wr by (simp add: onDev_def dv_set_len_def MAX_OFF_def)
qed

section \<open>Properties\<close>

text \<open>C23: The gap search for online resize is right in both directions: a gap it returns ends at or
  before the limit and shares no byte with any segment of the AG map, and when it returns none
  then every range of that many bytes below the limit overlaps a segment.\<close>

theorem find_gap_exact:
  assumes "fs_ok g" and "0 < bytes"
  shows "case find_gap g bytes limit of
      Some d \<Rightarrow> unat d + unat bytes \<le> unat limit \<and>
        (\<forall>s\<in>set (am_segs (g_map g)). apart (unat d, unat d + unat bytes) (span_of g s))
    | None \<Rightarrow> \<forall>d. d + unat bytes \<le> unat limit \<longrightarrow>
        (\<exists>s\<in>set (am_segs (g_map g)). \<not> apart (d, d + unat bytes) (span_of g s))"
  using find_gap_sound [OF assms] find_gap_complete [OF assms] by (auto split: option.split)

lemma find_gap_exact_witness:
  "unat (32768 :: u64) + unat (4096 :: u64) \<le> unat (36864 :: u64) \<and>
   list_all (\<lambda>s. apart (unat (32768 :: u64), unat (32768 :: u64) + unat (4096 :: u64)) (span_of (ex2_fs 1) s))
     (am_segs (g_map (ex2_fs 1)))"
  using find_gap_exact [OF ex2_ok [of 1], of 4096 36864] unfolding ex2_find_gap list_all_iff by simp

text \<open>C10: Moving an AG to a home that is free (no segment of any AG, itself included, and no copy of
  the map there) loses no data: after a successful relocation every mapped block other than the
  superblock copies and the AG map reads as before, the AG's blocks are found at the new home,
  and the next mount loads exactly the map that is now in force.\<close>

theorem relocate_keeps_blocks:
  assumes "fs_ok g" and "agmap_room g" and "ag \<noteq> 0" and "good_home g ag dest" and "ag_covered (ag_at g ag)"
    and "relocate crc ag dest g = (Inr (), g')"
  shows "fs_ok g' \<and>
    (\<forall>a. data_block g a \<longrightarrow> read_block g' a = read_block g a \<and>
       (fst (blk_split a) = ag \<longrightarrow> unat (place g' a) = unat dest + unat (snd (blk_split a)) * g_bs g)) \<and>
    (am_wf (g_map g') \<longrightarrow> (\<exists>status. load_agmap crc (g_dev g') (g_sb g') = Inr (g_map g', status)))"
  using relocate_ok [OF assms] by blast

lemma relocate_keeps_blocks_witness:
  "\<exists>g'. relocate ex_crc 1 32768 (ex2_fs 1) = (Inr (), g') \<and>
     read_block g' (blk_addr 1 5) = Inr (77 # replicate 511 0) \<and> unat (place g' (blk_addr 1 5)) = 32768 + 5 * 512"
proof -
  obtain g' where g': "relocate ex_crc 1 32768 (ex2_fs 1) = (Inr (), g')" using ex2_relocate by blast
  have "ag_covered (ag_at (ex2_fs 1) 1)"
    by (simp add: ex2_ag1 ex2_map_def ag_covered_def sg_logical_def apart_def)
  from relocate_keeps_blocks [OF ex2_ok ex2_room _ ex2_home this g'] g' ex2_block(1) [of 1] ex2_block(2) ex2_block(3) [of 1]
  show ?thesis by auto
qed

text \<open>C22: Only an AG without allocated blocks can be retired: a successful \<open>retire\<close> means that the
  AG's header counts no full block; afterwards the AG's blocks are unmapped and every data block of
  the other AGs reads as before.\<close>

theorem retire_only_empty:
  assumes "fs_ok g" and "agmap_room g" and "retire crc ag g = (Inr (), g')"
  shows "(\<exists>hdr. read_ag_header crc g ag = Inr hdr \<and> ah_full_blocks hdr = 0) \<and> ag \<noteq> 0 \<and> fs_ok g' \<and>
    (\<forall>a. fst (blk_split a) = ag \<longrightarrow> \<not> mapped g' a) \<and>
    (\<forall>a. data_block g a \<and> fst (blk_split a) \<noteq> ag \<longrightarrow> read_block g' a = read_block g a)"
  using retire_ok [OF assms] retire_shape(2) [OF assms(3)] by blast

lemma retire_only_empty_witness:
  "\<exists>g'. retire ex_crc 1 (ex2_fs 0) = (Inr (), g') \<and> \<not> mapped g' (blk_addr 1 5)"
proof -
  have "\<exists>g'. retire ex_crc 1 (ex2_fs 0) = (Inr (), g')"
    by (rule retire_succeeds [OF ex2_ok ex2_room _ _ ex2_header _ _ ex2_fits(2)])
      (simp_all add: ex2_ag1 ex2_map_def ex2_hdr_def)
  then obtain g' where g': "retire ex_crc 1 (ex2_fs 0) = (Inr (), g')" by blast
  from retire_only_empty [OF ex2_ok ex2_room this] g' ex2_block(2) show ?thesis by blast
qed

text \<open>C21: Shrinking ends: with at most \<open>2 ^ 32\<close> AGs, none of length zero, the loop of \<open>shrink\<close> never
  needs more rounds than there are AGs (and one to see that none is left), and when it succeeds no
  present AG reaches past the new end of the device.\<close>

theorem shrink_terminates:
  assumes "ags_ok g"
  shows "fst (shrink crc n g) \<noteq> Inl Diverges \<and>
    (\<forall>g'. shrink crc n g = (Inr (), g') \<longrightarrow> dv_size (g_dev g') = n \<and>
       (\<forall>e\<in>set (am_entries (g_map g')). \<not> is_beyond g' n e))"
  using shrink_ends [OF assms, of crc n] by (auto simp: beyond_set_def in_set_conv_nth)

lemma shrink_terminates_witness:
  "\<exists>g'. shrink ex_crc 36864 (ex2_fs 1) = (Inr (), g') \<and> dv_size (g_dev g') = 36864 \<and>
     list_all (\<lambda>e. \<not> is_beyond g' 36864 e) (am_entries (g_map g'))"
proof -
  have "ags_ok (ex2_fs 1)" using ex2_resizable by (simp add: resizable_def)
  from shrink_terminates [OF this, of ex_crc 36864] ex2_shrink show ?thesis unfolding list_all_iff by blast
qed



end
