(* ===== verification/DirFacts.thy ===== *)
theory DirFacts
  imports Dir
begin

text \<open>
  Facts about directories: a bucket and a header block read back as they were built, and the
  arithmetic of the extendible hash table. After a split, a merge or a halving of the table
  every hash leads to the bucket its entries are in.
\<close>

unbundle bit_operations_syntax

subsection \<open>Buckets\<close>

definition hentry_core :: "hentry \<Rightarrow> buffer" where
  "hentry_core e = to_be 8 (he_ino e) @ to_be 8 (he_hash e) @ [he_ftype e, 0] @
     to_be 2 (of_nat (length (encode_utf16 (he_name e))) :: u16) @ concat (map (to_be 2) (encode_utf16 (he_name e)))"

definition hentry_bytes :: "hentry \<Rightarrow> buffer" where
  "hentry_bytes e = pad (hentry_core e) (he_size e - length (hentry_core e))"

definition hentry_ok :: "hentry \<Rightarrow> bool" where
  "hentry_ok e \<longleftrightarrow> rstring_ok (he_name e) \<and> length (encode_utf16 (he_name e)) < 2 ^ 16"

lemma length_units [simp]: "length (concat (map (to_be 2) us)) = 2 * length us"
  by (induction us) simp_all

lemma length_hentry_core: "length (hentry_core e) = 20 + 2 * length (encode_utf16 (he_name e))"
  by (simp add: hentry_core_def)

lemma entry_size_ge: "20 + 2 * n \<le> entry_size n"
  by (simp add: entry_size_def)

lemma length_hentry_bytes [simp]: "length (hentry_bytes e) = he_size e"
  using entry_size_ge [of "length (encode_utf16 (he_name e))"]
  by (simp add: hentry_bytes_def length_hentry_core he_size_def)

lemma length_concat_hentry_bytes [simp]: "length (concat (map hentry_bytes es)) = sum_list (map he_size es)"
  by (induction es) simp_all

lemma get_bytes_Cons [fields]: "0 < off \<Longrightarrow> get_bytes (x # xs) off n = get_bytes xs (off - 1) n"
  by (cases off) (simp_all add: get_bytes_def)

lemma put_byte: "i < length b \<Longrightarrow> b[i := x] = put_bytes b i [x]"
  by (simp add: put_bytes_def upd_conv_take_nth_drop)

lemma put_hentry_pad:
  assumes "he_size e \<le> k"
  shows "put_hentry (length P) e (pad P k) = pad (P @ hentry_bytes e) (k - he_size e)"
proof -
  let ?us = "encode_utf16 (he_name e)"
  have sz: "20 + 2 * length ?us \<le> he_size e" using entry_size_ge by (simp add: he_size_def)
  then have room: "20 + 2 * length ?us \<le> k" using assms by simp
  have "put_hentry (length P) e (pad P k) = pad (P @ hentry_core e) (k - 20 - 2 * length ?us)"
    using room
    by (simp add: put_hentry_def Let_def put_int_defs put_u16s_def put_pad put_byte hentry_core_def)
  also have "\<dots> = pad (P @ hentry_bytes e) (k - he_size e)"
    using sz assms by (simp add: hentry_bytes_def pad_def length_hentry_core flip: replicate_add)
  finally show ?thesis .
qed

lemma put_hentries_pad:
  "length P + k = bs \<Longrightarrow> put_hentries bs (length P) es (pad P k) =
     (if sum_list (map he_size es) \<le> k then Inr (pad (P @ concat (map hentry_bytes es)) (k - sum_list (map he_size es)))
      else Inl (Msg ''bucket overflow''))"
proof (induction es arbitrary: P k)
  case (Cons e es)
  show ?case
  proof (cases "he_size e \<le> k")
    case True
    have "put_hentries bs (length P) (e # es) (pad P k)
        = put_hentries bs (length (P @ hentry_bytes e)) es (pad (P @ hentry_bytes e) (k - he_size e))"
      using True Cons.prems put_hentry_pad [OF True, of P] by simp
    then show ?thesis
      using Cons.IH [of "P @ hentry_bytes e" "k - he_size e"] True Cons.prems by auto
  qed (use Cons.prems in auto)
qed simp

definition bucket_head :: "u8 \<Rightarrow> nat \<Rightarrow> buffer" where
  "bucket_head ld n = BUCKET_MAGIC @ replicate 12 0 @ [ld, 0] @ to_be 2 (of_nat n :: u16) @ replicate 4 0"

lemma length_BUCKET_MAGIC [simp]: "length BUCKET_MAGIC = 4"
  by (simp add: BUCKET_MAGIC_def)

lemma length_bucket_head [simp]: "length (bucket_head ld n) = BK_HDR"
  by (simp add: bucket_head_def BUCKET_MAGIC_def)

lemma bucket_build_exact:
  assumes "BK_HDR \<le> bs"
  shows "bucket_build bs ld es =
    (if BK_HDR + sum_list (map he_size es) \<le> bs
     then Inr (pad (bucket_head ld (length es) @ concat (map hentry_bytes es)) (bs - BK_HDR - sum_list (map he_size es)))
     else Inl (Msg ''bucket overflow''))"
proof -
  have "put_u16 ((put_bytes (replicate bs 0) 0 BUCKET_MAGIC)[16 := ld]) 18 (of_nat (length es))
      = pad (BUCKET_MAGIC @ replicate 12 0 @ [ld, 0] @ to_be 2 (of_nat (length es) :: u16)) (bs - 20)"
    using assms by (simp add: put_u16_def pad_start put_pad put_byte BUCKET_MAGIC_def)
      (simp add: pad_def)
  also have "\<dots> = pad (bucket_head ld (length es)) (bs - BK_HDR)"
    using assms by (simp add: bucket_head_def pad_def flip: replicate_add)
  finally have "bucket_build bs ld es = put_hentries bs (length (bucket_head ld (length es))) es
      (pad (bucket_head ld (length es)) (bs - BK_HDR))"
    by (simp add: bucket_build_def)
  then show ?thesis using assms put_hentries_pad [of "bucket_head ld (length es)" "bs - BK_HDR" bs es] by auto
qed

lemma bucket_entries_from_image:
  assumes "drop off buf = concat (map hentry_bytes es) @ r" and "\<forall>e\<in>set es. hentry_ok e"
  shows "bucket_entries_from buf off (length es) = Inr es"
  using assms
proof (induction es arbitrary: off)
  case (Cons e es)
  let ?us = "encode_utf16 (he_name e)"
  let ?z = "replicate (he_size e - length (hentry_core e)) 0 @ concat (map hentry_bytes es) @ r"
  have d: "drop off buf = hentry_core e @ ?z" using Cons.prems(1) by (simp add: hentry_bytes_def [of e] pad_def)
  have ok: "rstring_ok (he_name e)" "length ?us < 2 ^ 16" using Cons.prems(2) by (simp_all add: hentry_ok_def)
  have len: "off + 20 + 2 * length ?us \<le> length buf"
  proof -
    have "length (drop off buf) \<ge> 20 + 2 * length ?us" unfolding d by (simp add: length_hentry_core)
    then show ?thesis by simp
  qed
  have get: "get_bytes buf (off + i) n = get_bytes (hentry_core e @ ?z) i n" for i n
    unfolding d [symmetric] by (simp add: get_bytes_def add.commute)
  have n: "unat (get_u16 buf (off + 18)) = length ?us"
    using ok(2) by (simp add: get_u16_def get hentry_core_def fields unat_of_nat)
  have ino: "get_u64 buf off = he_ino e" "get_u64 buf (off + 8) = he_hash e"
    using get [of 0 8] by (simp_all add: get_u64_def get hentry_core_def fields)
  have "drop off buf ! 16 = he_ftype e" unfolding d by (simp add: hentry_core_def nth_append)
  then have ft: "buf ! (off + 16) = he_ftype e" using len by simp
  have "drop (off + 20) buf = concat (map (to_be 2) ?us) @ ?z"
    unfolding drop_plus [of off] d by (simp add: hentry_core_def)
  then have name: "get_u16s buf (off + 20) (length ?us) = ?us"
    unfolding get_int_drop [of buf "off + 20"] by (simp add: get_u16s_concat)
  have "drop (off + he_size e) buf = concat (map hentry_bytes es) @ r"
    unfolding drop_plus Cons.prems(1) by simp
  then have "bucket_entries_from buf (off + entry_size (length ?us)) (length es) = Inr es"
    using Cons.IH Cons.prems(2) by (simp add: he_size_def)
  then show ?case
    using len n ino ft name utf16_roundtrip [OF ok(1)] by (simp add: Let_def)
qed simp

text \<open>Sealing and the generation leave the entries alone.\<close>

lemma bucket_roundtrip:
  fixes crc :: crc_fun and gen :: u64
  assumes "bucket_build bs ld es = Inr buf" and "BK_HDR \<le> bs" and "\<forall>e\<in>set es. hentry_ok e" and "length es < 2 ^ 16"
  defines "out \<equiv> seal crc (put_u64 buf 8 gen)"
  shows "bucket_entries out = Inr es" and "out ! 16 = ld" and "get_bytes out 0 4 = BUCKET_MAGIC"
    and "get_u32 out 4 = csum crc out 4" and "length out = bs"
proof -
  have buf: "buf = bucket_head ld (length es) @ concat (map hentry_bytes es) @
      replicate (bs - BK_HDR - sum_list (map he_size es)) 0" and fit: "BK_HDR + sum_list (map he_size es) \<le> bs"
    using assms(1) bucket_build_exact [OF assms(2)] by (auto simp: pad_def split: if_splits)
  then have len: "length buf = bs" by simp
  have "drop BK_HDR out = drop BK_HDR buf"
    using len assms(2) by (simp add: out_def seal_def put_u32_def put_u64_def drop_put_bytes layout)
  also have "\<dots> = concat (map hentry_bytes es) @ replicate (bs - BK_HDR - sum_list (map he_size es)) 0"
    unfolding buf by simp
  finally have "bucket_entries_from out BK_HDR (length es) = Inr es"
    by (rule bucket_entries_from_image) (rule assms(3))
  moreover have "get_bytes out 18 2 = get_bytes buf 18 2"
    using len assms(2) by (simp add: out_def put_u64_def layout)
  then have "get_u16 out 18 = of_nat (length es)"
    by (simp add: get_u16_def buf bucket_head_def BUCKET_MAGIC_def fields)
  then have "unat (get_u16 out 18) = length es" using assms(4) by (simp add: unat_of_nat)
  ultimately show "bucket_entries out = Inr es" by (simp add: bucket_entries_def)
  have "out ! 16 = buf ! 16" using len assms(2) by (simp add: out_def put_u64_def layout)
  then show "out ! 16 = ld" by (simp add: buf bucket_head_def BUCKET_MAGIC_def nth_append)
  have "get_bytes out 0 4 = get_bytes buf 0 4" using len assms(2) by (simp add: out_def put_u64_def layout)
  then show "get_bytes out 0 4 = BUCKET_MAGIC" by (simp add: buf bucket_head_def fields)
  show "get_u32 out 4 = csum crc out 4"
    unfolding out_def by (rule seal_verifies) (use len assms(2) in \<open>simp add: put_u64_def layout\<close>)
  show "length out = bs" using len assms(2) by (simp add: out_def put_u64_def layout)
qed

subsection \<open>The header block\<close>

text \<open>Writing many integers at places that do not overlap.\<close>

definition put_all :: "(nat \<times> u32) list \<Rightarrow> buffer \<Rightarrow> buffer" where
  "put_all ps b = fold (\<lambda>(p, v) b. put_u32 b p v) ps b"

definition places_ok :: "nat \<Rightarrow> (nat \<times> u32) list \<Rightarrow> bool" where
  "places_ok n ps \<longleftrightarrow> list_all (\<lambda>(p, v). p + 4 \<le> n) ps \<and> sorted_wrt (\<lambda>x y. apart (fst x, fst x + 4) (fst y, fst y + 4)) ps"

lemma put_all_simps [simp]:
  "put_all [] b = b" "put_all ((p, v) # ps) b = put_all ps (put_u32 b p v)"
  "put_all (ps @ qs) b = put_all qs (put_all ps b)"
  by (simp_all add: put_all_def)

lemma length_put_all: "places_ok (length b) ps \<Longrightarrow> length (put_all ps b) = length b"
proof (induction ps arbitrary: b)
  case (Cons x ps)
  then show ?case by (cases x) (simp add: places_ok_def put_u32_def layout)
qed simp

lemma get_put_all_other:
  assumes "places_ok (length b) ps" and "\<forall>(p, v)\<in>set ps. apart (o2, o2 + n) (p, p + 4)"
  shows "get_bytes (put_all ps b) o2 n = get_bytes b o2 n"
  using assms
proof (induction ps arbitrary: b)
  case (Cons x ps)
  obtain p v where x: "x = (p, v)" by (cases x)
  have inb: "p + 4 \<le> length b" using Cons.prems(1) x by (simp add: places_ok_def)
  have "get_bytes (put_all ps (put_u32 b p v)) o2 n = get_bytes (put_u32 b p v) o2 n"
    using Cons.prems x inb by (intro Cons.IH) (simp_all add: places_ok_def put_u32_def layout)
  also have "\<dots> = get_bytes b o2 n"
    using Cons.prems(2) x inb by (simp add: put_u32_def get_put_other apart_def disj_commute)
  finally show ?case by (simp add: x)
qed simp

lemma get_put_all:
  assumes "places_ok (length b) ps" and "(p, v) \<in> set ps"
  shows "get_u32 (put_all ps b) p = v"
  using assms
proof (induction ps arbitrary: b)
  case (Cons x ps)
  obtain q w where x: "x = (q, w)" by (cases x)
  have inb: "q + 4 \<le> length b" and tl: "places_ok (length (put_u32 b q w)) ps"
    using Cons.prems(1) x by (auto simp: places_ok_def put_u32_def layout)
  show ?case
  proof (cases "(p, v) = x")
    case True
    then have "\<forall>(p', v')\<in>set ps. apart (p, p + 4) (p', p' + 4)"
      using Cons.prems(1) by (auto simp: places_ok_def)
    then have "get_bytes (put_all ps (put_u32 b p v)) p 4 = get_bytes (put_u32 b p v) p 4"
      using tl True x by (intro get_put_all_other) simp_all
    then show ?thesis using True x inb by (simp add: get_u32_def) (simp add: put_u32_def layout)
  next
    case False
    then show ?thesis using Cons.IH [OF tl] Cons.prems(2) x by auto
  qed
qed simp

definition table_places :: "u32 list \<Rightarrow> (nat \<times> u32) list" where
  "table_places table = map (\<lambda>(i, v). (DH_HDR + i * 4, v)) (enumerate 0 table)"

definition free_places :: "nat \<Rightarrow> u32 list \<Rightarrow> (nat \<times> u32) list" where
  "free_places n freelist = map (\<lambda>(k, v). (n - 4 * (k + 1), v)) (enumerate 0 freelist)"

lemma places_table_free:
  assumes "DH_HDR + length table * 4 + length freelist * 4 \<le> n"
  shows "places_ok n (table_places table @ free_places n freelist)"
proof -
  have t: "sorted_wrt (\<lambda>x y. apart (fst x, fst x + 4) (fst y, fst y + 4)) (table_places table)"
    by (simp add: table_places_def sorted_wrt_iff_nth_less nth_enumerate_eq apart_def)
  have f: "sorted_wrt (\<lambda>x y. apart (fst x, fst x + 4) (fst y, fst y + 4)) (free_places n freelist)"
    using assms by (auto simp: free_places_def sorted_wrt_iff_nth_less nth_enumerate_eq apart_def)
  have tf: "apart (fst x, fst x + 4) (fst y, fst y + 4)"
    if "x \<in> set (table_places table)" "y \<in> set (free_places n freelist)" for x y
    using that assms by (auto simp: table_places_def free_places_def apart_def in_set_enumerate_eq)
  have "list_all (\<lambda>(p, v). p + 4 \<le> n) (table_places table @ free_places n freelist)"
    using assms by (auto simp: list_all_iff table_places_def free_places_def in_set_enumerate_eq)
  then show ?thesis using t f tf by (simp add: places_ok_def sorted_wrt_append)
qed

lemma put_table_all:
  assumes "DH_HDR + length table * 4 + length freelist * 4 \<le> length buf"
  shows "put_table table freelist buf = put_all (table_places table @ free_places (length buf) freelist) buf"
proof -
  have t: "fold (\<lambda>(i, v) b. put_u32 b (DH_HDR + i * 4) v) xs b = put_all (map (\<lambda>(i, v). (DH_HDR + i * 4, v)) xs) b" for xs b
    by (induction xs arbitrary: b) auto
  have f: "fold (\<lambda>(k, v) b. put_u32 b (length b - 4 * (k + 1)) v) xs b
      = put_all (map (\<lambda>(k, v). (length b - 4 * (k + 1), v)) xs) b"
    if "\<forall>(k, v)\<in>set xs. 4 * (k + 1) \<le> length b" for xs :: "(nat \<times> u32) list" and b
    using that
  proof (induction xs arbitrary: b)
    case (Cons x xs)
    obtain k v where x: "x = (k, v)" by (cases x)
    have "length (put_u32 b (length b - 4 * (k + 1)) v) = length b"
      unfolding put_u32_def by (rule length_put_bytes) (use Cons.prems x in simp)
    then show ?case using Cons.IH [of "put_u32 b (length b - 4 * (k + 1)) v"] Cons.prems x by simp
  qed simp
  have "places_ok (length buf) (table_places table)"
    using places_table_free [OF assms] by (simp add: places_ok_def sorted_wrt_append)
  from length_put_all [OF this] show ?thesis
    unfolding put_table_def t
    by (subst f) (use assms in \<open>auto simp: table_places_def free_places_def in_set_enumerate_eq\<close>)
qed

lemma length_DIRH_MAGIC [simp]: "length DIRH_MAGIC = 4"
  by (simp add: DIRH_MAGIC_def)

definition dhdr_front :: "u64 \<Rightarrow> u8 \<Rightarrow> u32 \<Rightarrow> nat \<Rightarrow> buffer" where
  "dhdr_front gen depth nbuckets nfree = DIRH_MAGIC @ replicate 4 0 @ to_be 8 gen @ [depth, 0] @
     to_be 2 (of_nat nfree :: u16) @ to_be 4 nbuckets"

lemma dhdr_image_exact:
  assumes "DH_HDR \<le> bs"
  shows "dhdr_image bs gen depth nbuckets table freelist
    = put_table table freelist (pad (dhdr_front gen depth nbuckets (length freelist)) (bs - DH_HDR))"
  using assms
  by (simp add: dhdr_image_def dhdr_front_def Let_def put_int_defs pad_start put_pad put_byte) (simp add: pad_def)

lemma dhdr_roundtrip:
  fixes crc :: crc_fun and gen :: u64 and nbuckets :: u32
  assumes "DH_HDR + length table * 4 + length freelist * 4 \<le> bs" and "length table = 2 ^ unat depth"
    and "depth \<le> MAX_DEPTH" and "length freelist < 2 ^ 16"
  defines "out \<equiv> seal crc (dhdr_image bs gen depth nbuckets table freelist)"
  shows "dhdr_parse blk out = Inr \<lparr>dh_depth = depth, dh_nbuckets = nbuckets, dh_table = table, dh_blk = blk, dh_free = freelist\<rparr>"
    and "get_bytes out 0 4 = DIRH_MAGIC" and "get_u32 out 4 = csum crc out 4" and "length out = bs"
    and "get_u64 out 8 = gen"
proof -
  let ?front = "dhdr_front gen depth nbuckets (length freelist)"
  let ?base = "pad ?front (bs - DH_HDR)"
  let ?ps = "table_places table @ free_places bs freelist"
  have flen: "length ?front = DH_HDR" by (simp add: dhdr_front_def)
  have bs: "DH_HDR \<le> bs" and len0: "length ?base = bs" using assms(1) flen by simp_all
  have ok: "places_ok (length ?base) ?ps" using places_table_free [OF assms(1)] len0 by simp
  let ?b = "put_all ?ps ?base"
  have out: "out = seal crc ?b"
    unfolding out_def dhdr_image_exact [OF bs] using put_table_all [of table freelist ?base] assms(1) len0 by simp
  have len: "length ?b = bs" using length_put_all [OF ok] len0 by simp
  show lout: "length out = bs" using out len bs by simp
  have far: "apart (o2, o2 + n) (p, p + 4)" if "o2 + n \<le> DH_HDR" "(p, v) \<in> set ?ps" for o2 n p v
    using that assms(1) by (auto simp: table_places_def free_places_def apart_def in_set_enumerate_eq)
  have front: "get_bytes out o2 n = get_bytes ?front o2 n" if "o2 + n \<le> DH_HDR" "o2 + n \<le> 4 \<or> 8 \<le> o2" for o2 n
  proof -
    have "get_bytes out o2 n = get_bytes ?b o2 n" unfolding out using len bs that(2) by (simp add: layout)
    also have "\<dots> = get_bytes ?base o2 n" by (rule get_put_all_other [OF ok]) (use far [OF that(1)] in auto)
    finally show ?thesis using that(1) flen by (simp add: pad_def get_bytes_append_left)
  qed
  have vals: "get_u32 out p = v" if "(p, v) \<in> set ?ps" for p v
  proof -
    have "8 \<le> p" using far [of 0 8 p v] that by (auto simp: apart_def)
    then have "get_bytes out p 4 = get_bytes ?b p 4" unfolding out using len bs by (simp add: layout)
    then show ?thesis using get_put_all [OF ok that] by (simp add: get_u32_def)
  qed
  show "get_bytes out 0 4 = DIRH_MAGIC" using front [of 0 4] by (simp add: dhdr_front_def fields)
  show "get_u32 out 4 = csum crc out 4" unfolding out by (rule seal_verifies) (use len bs in simp)
  show "get_u64 out 8 = gen" using front [of 8 8] by (simp add: get_u64_def dhdr_front_def fields)
  have d16: "out ! 16 = depth"
  proof -
    have "get_bytes out 16 1 = [depth]" using front [of 16 1] by (simp add: dhdr_front_def fields get_bytes_def)
    then have "drop 16 out ! 0 = depth" by (cases "drop 16 out") (simp_all add: get_bytes_def)
    then show ?thesis using lout bs by simp
  qed
  have slots: "unat depth mod 64 = unat depth"
    using assms(3) by (simp add: word_le_nat_alt)
  have nfree: "unat (get_u16 out 18) = length freelist"
    using front [of 18 2] assms(4) by (simp add: get_u16_def dhdr_front_def fields unat_of_nat)
  have nb: "get_u32 out 20 = nbuckets"
    using front [of 20 4] by (simp add: get_u32_def dhdr_front_def fields)
  have "map (\<lambda>i. get_u32 out (DH_HDR + i * 4)) [0..<length table] = table"
  proof (rule nth_equalityI)
    fix i assume i: "i < length (map (\<lambda>i. get_u32 out (DH_HDR + i * 4)) [0..<length table])"
    then have "(DH_HDR + i * 4, table ! i) \<in> set ?ps" by (force simp: table_places_def in_set_enumerate_eq)
    then show "map (\<lambda>i. get_u32 out (DH_HDR + i * 4)) [0..<length table] ! i = table ! i"
      using vals i by simp
  qed simp
  moreover have "map (\<lambda>k. get_u32 out (bs - 4 * (k + 1))) [0..<length freelist] = freelist"
  proof (rule nth_equalityI)
    fix k assume k: "k < length (map (\<lambda>k. get_u32 out (bs - 4 * (k + 1))) [0..<length freelist])"
    then have "(bs - 4 * (k + 1), freelist ! k) \<in> set ?ps" by (force simp: free_places_def in_set_enumerate_eq)
    from vals [OF this] show "map (\<lambda>k. get_u32 out (bs - 4 * (k + 1))) [0..<length freelist] ! k = freelist ! k"
      using k by simp
  qed simp
  ultimately show "dhdr_parse blk out
      = Inr \<lparr>dh_depth = depth, dh_nbuckets = nbuckets, dh_table = table, dh_blk = blk, dh_free = freelist\<rparr>"
    using d16 nfree nb slots lout assms(1,2) by (simp add: dhdr_parse_def Let_def guardR_def)
qed

subsection \<open>The table of an extendible hash directory\<close>

lemma bucket_index_div:
  assumes "unat depth < 64"
  shows "bucket_index hash depth = unat hash div 2 ^ (64 - unat depth)"
proof (cases "depth = 0")
  case True
  then show ?thesis using unat_bound [of hash] by (simp add: bucket_index_def)
next
  case False
  then have pos: "0 < unat depth" by (simp add: unat_gt_0)
  have "unat (64 - depth) = 64 - unat depth"
    using assms by (subst unat_sub) (simp_all add: word_le_nat_alt)
  then have sh: "unat (64 - depth) mod 64 = 64 - unat depth" using pos by simp
  have "take_bit 64 (unat hash) = unat hash" using unat_bound [of hash] by (intro take_bit_nat_eq_self) simp
  then have "unat (drop_bit (64 - unat depth) hash) = unat hash div 2 ^ (64 - unat depth)"
    by (subst unsigned_drop_bit_eq) (simp add: drop_bit_eq_div)
  then show ?thesis using False sh by (simp add: bucket_index_def)
qed

lemma bucket_index_less:
  assumes "unat depth < 64"
  shows "bucket_index hash depth < 2 ^ unat depth"
proof -
  have "(2::nat) ^ 64 = 2 ^ unat depth * 2 ^ (64 - unat depth)" using assms by (simp flip: power_add)
  then have "unat hash < 2 ^ unat depth * 2 ^ (64 - unat depth)" using unat_bound [of hash] by simp
  then show ?thesis unfolding bucket_index_div [OF assms] by (rule less_mult_imp_div_less)
qed

lemma bucket_index_double:
  assumes "unat depth < 63"
  shows "bucket_index hash (depth + 1) div 2 = bucket_index hash depth" and "unat (depth + 1) = unat depth + 1"
proof -
  show d: "unat (depth + 1) = unat depth + 1" using assms by (simp add: unat_word_ariths)
  have "(2::nat) ^ (64 - unat (depth + 1)) * 2 = 2 ^ (64 - unat depth)"
  proof -
    have "64 - unat depth = Suc (64 - unat (depth + 1))" using assms d by simp
    then show ?thesis by (simp only: power_Suc2)
  qed
  then show "bucket_index hash (depth + 1) div 2 = bucket_index hash depth"
    using assms d by (simp add: bucket_index_div flip: div_mult2_eq)
qed

text \<open>The hash bit that parts a bucket is the bit of the table index below the local depth.\<close>

lemma goes_up_index:
  assumes "ld < depth" and "depth \<le> MAX_DEPTH"
  shows "goes_up ld e \<longleftrightarrow> odd (bucket_index (he_hash e) depth div 2 ^ (unat depth - 1 - unat ld))"
proof -
  have d: "unat depth \<le> 9" "unat ld < unat depth" using assms by (simp_all add: word_le_nat_alt word_less_nat_alt)
  have sh: "unat (63 - ld) mod 64 = 63 - unat ld"
    using d by (subst unat_sub) (simp_all add: word_le_nat_alt)
  have "goes_up ld e \<longleftrightarrow> bit (he_hash e) (63 - unat ld)"
    by (simp add: goes_up_def sh and_exp_eq_0_iff_not_bit)
  also have "\<dots> \<longleftrightarrow> odd (unat (he_hash e) div 2 ^ (63 - unat ld))"
    by (simp add: bit_unsigned_iff flip: bit_iff_odd)
  also have "(2::nat) ^ (63 - unat ld) = 2 ^ (64 - unat depth) * 2 ^ (unat depth - 1 - unat ld)"
    using d by (simp flip: power_add)
  finally show ?thesis using d by (simp add: bucket_index_div div_mult2_eq)
qed

lemma redirect_shift:
  assumes "ld < depth" and "depth \<le> MAX_DEPTH"
  shows "unat (depth - 1 - ld) mod 64 = unat depth - 1 - unat ld"
proof -
  have d: "unat depth \<le> 9" "unat ld < unat depth" using assms by (simp_all add: word_le_nat_alt word_less_nat_alt)
  have "unat (depth - 1) = unat depth - 1" using d by (subst unat_sub) (simp_all add: word_le_nat_alt)
  then have "unat (depth - 1 - ld) = unat depth - 1 - unat ld"
    using d by (subst unat_sub) (simp_all add: word_le_nat_alt)
  then show ?thesis using d by simp
qed

text \<open>
  The shape of the table: the slots of a bucket are exactly those that agree in the upper
  \<open>ld\<close> bits of their index with one of them, and every entry is in the bucket its hash leads to.
\<close>

type_synonym buckets = "u32 \<Rightarrow> hentry list \<times> u8"

definition slot_group :: "u8 \<Rightarrow> u8 \<Rightarrow> nat \<Rightarrow> nat" where
  "slot_group depth ld i = i div 2 ^ (unat depth - unat ld)"

definition hash_dir_ok :: "u8 \<Rightarrow> u32 list \<Rightarrow> buckets \<Rightarrow> bool" where
  "hash_dir_ok depth table bk \<longleftrightarrow> length table = 2 ^ unat depth \<and> depth \<le> MAX_DEPTH \<and>
     (\<forall>i<length table. snd (bk (table ! i)) \<le> depth \<and>
        (\<forall>j<length table. table ! j = table ! i \<longleftrightarrow>
           slot_group depth (snd (bk (table ! i))) j = slot_group depth (snd (bk (table ! i))) i) \<and>
        (\<forall>e\<in>set (fst (bk (table ! i))). table ! bucket_index (he_hash e) depth = table ! i))"

lemma hash_dir_okD:
  assumes "hash_dir_ok depth table bk"
  shows "length table = 2 ^ unat depth" and "depth \<le> MAX_DEPTH" and "unat depth \<le> 9"
    and "i < length table \<Longrightarrow> snd (bk (table ! i)) \<le> depth"
    and "i < length table \<Longrightarrow> j < length table \<Longrightarrow> table ! j = table ! i \<longleftrightarrow>
      slot_group depth (snd (bk (table ! i))) j = slot_group depth (snd (bk (table ! i))) i"
    and "i < length table \<Longrightarrow> e \<in> set (fst (bk (table ! i))) \<Longrightarrow> table ! bucket_index (he_hash e) depth = table ! i"
  using assms unfolding hash_dir_ok_def by (simp_all add: word_le_nat_alt)

lemma double_table_nth: "i < 2 * length table \<Longrightarrow> double_table table ! i = table ! (i div 2)"
proof (induction table arbitrary: i)
  case (Cons b bs)
  have "double_table (b # bs) = b # b # double_table bs" by (simp add: double_table_def)
  then show ?case
    using Cons.IH [of "i - 2"] Cons.prems
    by (cases i; cases "i - 1") (auto simp: nth_Cons' div_le_dividend)
qed simp

lemma length_double_table [simp]: "length (double_table table) = 2 * length table"
  by (induction table) (simp_all add: double_table_def)

text \<open>Doubling the table changes nothing for any hash.\<close>

lemma hash_dir_double:
  assumes ok: "hash_dir_ok depth table bk" and d: "depth < MAX_DEPTH"
  shows "hash_dir_ok (depth + 1) (double_table table) bk"
    and "double_table table ! bucket_index h (depth + 1) = table ! bucket_index h depth"
proof -
  note ok' = hash_dir_okD [OF ok]
  have dn: "unat depth < 9" using d by (simp add: word_less_nat_alt)
  then have d63: "unat depth < 63" "unat (depth + 1) < 64" "unat (depth + 1) = unat depth + 1"
    using bucket_index_double(2) [of depth] by simp_all
  note dbl = bucket_index_double(1) [OF d63(1)]
  have look: "double_table table ! bucket_index h (depth + 1) = table ! bucket_index h depth" for h
    using bucket_index_less [OF d63(2), of h] d63(3) ok'(1) dbl by (simp add: double_table_nth)
  show "double_table table ! bucket_index h (depth + 1) = table ! bucket_index h depth" by (rule look)
  have grp: "slot_group (depth + 1) ld i = slot_group depth ld (i div 2)" if "ld \<le> depth" for ld i
    using that d63(3) by (simp add: slot_group_def word_le_nat_alt Suc_diff_le flip: div_mult2_eq)
  have "unat (depth + 1) \<le> 9" using dn d63(3) by simp
  then have "depth + 1 \<le> MAX_DEPTH" by (simp add: word_le_nat_alt)
  moreover have "snd (bk b) \<le> depth + 1" if "snd (bk b) \<le> depth" for b
    using that d63(3) by (simp add: word_le_nat_alt)
  ultimately show "hash_dir_ok (depth + 1) (double_table table) bk"
    unfolding hash_dir_ok_def using ok' look grp d63(3)
    by (auto simp: double_table_nth)
qed

text \<open>Splitting a bucket below the depth of the table.\<close>

definition split_bk :: "u8 \<Rightarrow> u32 \<Rightarrow> u32 \<Rightarrow> buckets \<Rightarrow> buckets" where
  "split_bk ld bno new_bno bk =
     bk(bno := (filter (\<lambda>e. \<not> goes_up ld e) (fst (bk bno)), ld + 1),
        new_bno := (filter (goes_up ld) (fst (bk bno)), ld + 1))"

lemma slot_group_finer:
  assumes "ld < depth" and "depth \<le> MAX_DEPTH"
  shows "slot_group depth (ld + 1) i = i div 2 ^ (unat depth - 1 - unat ld)"
    and "slot_group depth ld i = slot_group depth (ld + 1) i div 2"
    and "slot_group depth (ld + 1) j = slot_group depth (ld + 1) i \<longleftrightarrow>
      slot_group depth ld j = slot_group depth ld i \<and>
      odd (j div 2 ^ (unat depth - 1 - unat ld)) = odd (i div 2 ^ (unat depth - 1 - unat ld))"
    and "ld + 1 \<le> depth"
proof -
  have d: "unat depth \<le> 9" "unat ld < unat depth" using assms by (simp_all add: word_le_nat_alt word_less_nat_alt)
  then have l1: "unat (ld + 1) = unat ld + 1" by (simp add: unat_word_ariths)
  then show "ld + 1 \<le> depth" using d by (simp add: word_le_nat_alt)
  have fine: "slot_group depth (ld + 1) x = x div 2 ^ (unat depth - 1 - unat ld)" for x
    by (simp add: slot_group_def l1)
  have "unat depth - unat ld = Suc (unat depth - 1 - unat ld)" using d by simp
  then have coarse: "slot_group depth ld x = slot_group depth (ld + 1) x div 2" for x
    unfolding fine by (simp add: slot_group_def mult.commute flip: div_mult2_eq)
  show "slot_group depth (ld + 1) i = i div 2 ^ (unat depth - 1 - unat ld)" by (rule fine)
  show "slot_group depth ld i = slot_group depth (ld + 1) i div 2" by (rule coarse)
  have parity: "x = y \<longleftrightarrow> x div 2 = y div 2 \<and> odd x = odd y" for x y :: nat by presburger
  show "slot_group depth (ld + 1) j = slot_group depth (ld + 1) i \<longleftrightarrow>
      slot_group depth ld j = slot_group depth ld i \<and>
      odd (j div 2 ^ (unat depth - 1 - unat ld)) = odd (i div 2 ^ (unat depth - 1 - unat ld))"
    unfolding coarse fine by (rule parity)
qed

lemma redirect_nth:
  assumes "ld < depth" and "depth \<le> MAX_DEPTH" and "i < length table"
  shows "redirect depth ld bno new_bno table ! i =
    (if table ! i = bno \<and> odd (i div 2 ^ (unat depth - 1 - unat ld)) then new_bno else table ! i)"
  using assms(3) by (simp add: redirect_def redirect_shift [OF assms(1,2)] nth_enumerate_eq)

lemma length_redirect [simp]: "length (redirect depth ld bno new_bno table) = length table"
  by (simp add: redirect_def)

lemma redirect_route:
  assumes ok: "hash_dir_ok depth table bk" and ld: "ld < depth"
  shows "redirect depth ld bno new_bno table ! bucket_index (he_hash e) depth =
    (if table ! bucket_index (he_hash e) depth = bno \<and> goes_up ld e then new_bno
     else table ! bucket_index (he_hash e) depth)"
proof -
  note ok' = hash_dir_okD [OF ok]
  have "bucket_index (he_hash e) depth < length table"
    using bucket_index_less [of depth "he_hash e"] ok'(1,3) by simp
  then show ?thesis using redirect_nth [OF ld ok'(2)] goes_up_index [OF ld ok'(2), of e] by simp
qed

lemma hash_dir_redirect:
  assumes ok: "hash_dir_ok depth table bk" and bno: "bno \<in> set table" and new: "new_bno \<notin> set table"
    and ld: "snd (bk bno) = ld" "ld < depth"
  shows "hash_dir_ok depth (redirect depth ld bno new_bno table) (split_bk ld bno new_bno bk)"
proof -
  note ok' = hash_dir_okD [OF ok]
  let ?t = "redirect depth ld bno new_bno table" and ?bk = "split_bk ld bno new_bno bk"
  let ?up = "\<lambda>i. odd (i div 2 ^ (unat depth - 1 - unat ld))"
  have ne: "bno \<noteq> new_bno" using bno new by auto
  have inset: "table ! i \<noteq> new_bno" if "i < length table" for i using that new nth_mem by metis
  note fine = slot_group_finer [OF ld(2) ok'(2)]
  have nth: "?t ! i = (if table ! i = bno \<and> ?up i then new_bno else table ! i)" if "i < length table" for i
    by (rule redirect_nth [OF ld(2) ok'(2) that])
  have old: "?bk b = bk b" if "b \<noteq> bno" "b \<noteq> new_bno" for b using that by (simp add: split_bk_def)
  have here: "table ! i = bno \<Longrightarrow> snd (?bk (?t ! i)) = ld + 1" if "i < length table" for i
    using that ne by (simp add: nth split_bk_def)
  have depth: "snd (?bk (?t ! i)) \<le> depth" if i: "i < length table" for i
    using ok'(4) [OF i] here [OF i] fine(4) old inset [OF i] nth [OF i] by (cases "table ! i = bno") auto
  have group: "?t ! j = ?t ! i \<longleftrightarrow> slot_group depth (snd (?bk (?t ! i))) j = slot_group depth (snd (?bk (?t ! i))) i"
    if i: "i < length table" and j: "j < length table" for i j
  proof (cases "table ! i = bno")
    case True
    have "?t ! j = ?t ! i \<longleftrightarrow> table ! j = bno \<and> ?up j = ?up i"
      using True ne inset [OF j] by (auto simp: nth i j)
    also have "\<dots> \<longleftrightarrow> slot_group depth (ld + 1) j = slot_group depth (ld + 1) i"
      using ok'(5) [OF i j] True ld(1) fine(3) [of j i] by auto
    finally show ?thesis using here [OF i True] by simp
  next
    case False
    then have "?t ! i = table ! i" "?bk (?t ! i) = bk (table ! i)" using old inset [OF i] by (simp_all add: nth i)
    moreover have "?t ! j = table ! i \<longleftrightarrow> table ! j = table ! i" using False inset [OF i] by (auto simp: nth j)
    ultimately show ?thesis using ok'(5) [OF i j] by simp
  qed
  have entries: "?t ! bucket_index (he_hash e) depth = ?t ! i"
    if i: "i < length table" and e: "e \<in> set (fst (?bk (?t ! i)))" for i e
  proof (cases "table ! i = bno")
    case True
    then have "e \<in> set (fst (bk (table ! i)))" and up: "goes_up ld e = ?up i"
      using e ne by (auto simp: nth i split_bk_def split: if_splits)
    then have "table ! bucket_index (he_hash e) depth = bno" using ok'(6) [OF i] True by simp
    then show ?thesis using redirect_route [OF ok ld(2), of bno new_bno e] True up by (simp add: nth i)
  next
    case False
    then have "?t ! i = table ! i" "?bk (?t ! i) = bk (table ! i)" using old inset [OF i] by (simp_all add: nth i)
    then have "table ! bucket_index (he_hash e) depth = table ! i" using ok'(6) [OF i] e by simp
    then show ?thesis using redirect_route [OF ok ld(2), of bno new_bno e] False \<open>?t ! i = table ! i\<close> by simp
  qed
  show ?thesis
    unfolding hash_dir_ok_def using ok'(1,2) depth group entries by simp
qed

text \<open>A split as the code does it, with the table doubled when the bucket is at its depth.\<close>

definition split_table :: "u8 \<Rightarrow> u32 list \<Rightarrow> u8 \<Rightarrow> u32 \<Rightarrow> u32 \<Rightarrow> u8 \<times> u32 list" where
  "split_table depth table ld bno new_bno =
     (let (d, t) = (if ld = depth then (depth + 1, double_table table) else (depth, table))
      in (d, redirect d ld bno new_bno t))"

lemma set_double_table [simp]: "set (double_table table) = set table"
  by (auto simp: double_table_def)

lemma hash_dir_split:
  assumes ok: "hash_dir_ok depth table bk" and bno: "bno \<in> set table" and new: "new_bno \<notin> set table"
    and ld: "snd (bk bno) = ld" and lim: "ld = depth \<longrightarrow> depth < MAX_DEPTH"
    and sp: "split_table depth table ld bno new_bno = (depth', table')"
  shows "hash_dir_ok depth' table' (split_bk ld bno new_bno bk)"
    and "table' ! bucket_index (he_hash e) depth' =
      (if table ! bucket_index (he_hash e) depth = bno \<and> goes_up ld e then new_bno
       else table ! bucket_index (he_hash e) depth)"
proof -
  note ok' = hash_dir_okD [OF ok]
  obtain i where i: "i < length table" "table ! i = bno" using bno by (auto simp: in_set_conv_nth)
  have le: "ld \<le> depth" using ok'(4) [OF i(1)] i(2) ld by simp
  have "hash_dir_ok depth' table' (split_bk ld bno new_bno bk) \<and>
    table' ! bucket_index (he_hash e) depth' =
      (if table ! bucket_index (he_hash e) depth = bno \<and> goes_up ld e then new_bno
       else table ! bucket_index (he_hash e) depth)"
  proof (cases "ld = depth")
    case True
    then have d: "depth < MAX_DEPTH" using lim by simp
    have "split_table depth table ld bno new_bno = (depth + 1, redirect (depth + 1) ld bno new_bno (double_table table))"
      using True by (simp add: split_table_def)
    with sp have s: "depth' = depth + 1" "table' = redirect (depth + 1) ld bno new_bno (double_table table)" by auto
    have lt: "ld < depth + 1" using True bucket_index_double(2) [of depth] d by (simp add: word_less_nat_alt)
    note db = hash_dir_double [OF ok d]
    show ?thesis
      unfolding s using hash_dir_redirect [OF db(1) _ _ ld lt] bno new
        redirect_route [OF db(1) lt, of bno new_bno e] db(2) [of "he_hash e"] by simp
  next
    case False
    then have "split_table depth table ld bno new_bno = (depth, redirect depth ld bno new_bno table)"
      by (simp add: split_table_def)
    with sp have s: "depth' = depth" "table' = redirect depth ld bno new_bno table" by auto
    have lt: "ld < depth" using False le by simp
    show ?thesis
      unfolding s using hash_dir_redirect [OF ok bno new ld lt] redirect_route [OF ok lt, of bno new_bno e] by simp
  qed
  then show "hash_dir_ok depth' table' (split_bk ld bno new_bno bk)"
    "table' ! bucket_index (he_hash e) depth' =
      (if table ! bucket_index (he_hash e) depth = bno \<and> goes_up ld e then new_bno
       else table ! bucket_index (he_hash e) depth)" by blast+
qed

text \<open>Merging a bucket with its buddy, the group whose index differs in the lowest of the upper bits.\<close>

definition merge_table :: "u32 \<Rightarrow> u32 \<Rightarrow> u32 list \<Rightarrow> u32 list" where
  "merge_table bno bno2 table = map (\<lambda>b. if b = bno2 then bno else b) table"

definition merge_bk :: "u8 \<Rightarrow> u32 \<Rightarrow> u32 \<Rightarrow> buckets \<Rightarrow> buckets" where
  "merge_bk ld bno bno2 bk = bk(bno2 := ([], 0), bno := (fst (bk bno) @ fst (bk bno2), ld - 1))"

lemma slot_group_coarser:
  assumes "0 < ld" and "ld \<le> depth"
  shows "slot_group depth (ld - 1) i = slot_group depth ld i div 2" and "unat (ld - 1) = unat ld - 1"
proof -
  have d: "0 < unat ld" "unat ld \<le> unat depth" using assms by (simp_all add: word_le_nat_alt word_less_nat_alt)
  then show l1: "unat (ld - 1) = unat ld - 1" by (subst unat_sub) (simp_all add: word_le_nat_alt)
  have "unat depth - unat (ld - 1) = Suc (unat depth - unat ld)" using d l1 by simp
  then show "slot_group depth (ld - 1) i = slot_group depth ld i div 2"
    by (simp add: slot_group_def mult.commute flip: div_mult2_eq)
qed

lemma buddy_group:
  assumes "0 < ld" and "ld \<le> depth" and "depth \<le> MAX_DEPTH" and "idx < 2 ^ unat depth"
  defines "buddy \<equiv> idx XOR 2 ^ (unat (depth - ld) mod 64)"
  shows "buddy < 2 ^ unat depth"
    and "slot_group depth ld buddy = (if even (slot_group depth ld idx) then slot_group depth ld idx + 1
       else slot_group depth ld idx - 1)"
proof -
  have d: "unat depth \<le> 9" "unat ld \<le> unat depth" "0 < unat ld"
    using assms(1-3) by (simp_all add: word_le_nat_alt word_less_nat_alt)
  have k: "unat (depth - ld) mod 64 = unat depth - unat ld"
    using d by (subst unat_sub) (simp_all add: word_le_nat_alt)
  let ?k = "unat depth - unat ld"
  have buddy: "buddy = idx XOR 2 ^ ?k" by (simp add: buddy_def k)
  have "take_bit (unat depth) buddy = buddy"
  proof -
    have "take_bit (unat depth) idx = idx" using assms(4) by (intro take_bit_nat_eq_self)
    moreover have "take_bit (unat depth) (2 ^ ?k :: nat) = 2 ^ ?k" using d by (intro take_bit_nat_eq_self) simp
    ultimately show ?thesis by (simp add: buddy take_bit_xor)
  qed
  then show "buddy < 2 ^ unat depth" by (metis take_bit_nat_less_exp)
  have "buddy div 2 ^ ?k = drop_bit ?k idx XOR drop_bit ?k (2 ^ ?k)"
    by (simp add: buddy drop_bit_xor flip: drop_bit_eq_div)
  also have "drop_bit ?k (2 ^ ?k :: nat) = 1" by (simp add: drop_bit_eq_div)
  also have "drop_bit ?k idx XOR 1 = (if even (drop_bit ?k idx) then drop_bit ?k idx + 1 else drop_bit ?k idx - 1)"
    by (simp add: xor_one_eq xor_Suc_0_eq)
  finally show "slot_group depth ld buddy = (if even (slot_group depth ld idx) then slot_group depth ld idx + 1
       else slot_group depth ld idx - 1)"
    by (simp add: slot_group_def drop_bit_eq_div)
qed

lemma buddy_pair:
  fixes x y z :: nat
  assumes "z = (if even y then y + 1 else y - 1)"
  shows "x div 2 = y div 2 \<longleftrightarrow> x = y \<or> x = z"
proof (cases "even y")
  case True
  then obtain k where "y = 2 * k" by (rule evenE)
  then show ?thesis using assms by auto
next
  case False
  then obtain k where "y = 2 * k + 1" by (rule oddE)
  then show ?thesis using assms by auto
qed

lemma hash_dir_merge:
  assumes ok: "hash_dir_ok depth table bk" and idx: "idx < length table"
    and b: "table ! idx = bno" "snd (bk bno) = ld" "0 < ld"
    and buddy: "buddy = idx XOR 2 ^ (unat (depth - ld) mod 64)"
    and b2: "table ! buddy = bno2" "snd (bk bno2) = ld" "bno2 \<noteq> bno"
  shows "hash_dir_ok depth (merge_table bno bno2 table) (merge_bk ld bno bno2 bk)"
    and "merge_table bno bno2 table ! bucket_index h depth =
      (if table ! bucket_index h depth = bno2 then bno else table ! bucket_index h depth)"
proof -
  note ok' = hash_dir_okD [OF ok]
  let ?t = "merge_table bno bno2 table" and ?bk = "merge_bk ld bno bno2 bk"
  have nth: "?t ! i = (if table ! i = bno2 then bno else table ! i)" if "i < length table" for i
    using that by (simp add: merge_table_def)
  have route: "?t ! bucket_index h depth = (if table ! bucket_index h depth = bno2 then bno else table ! bucket_index h depth)" for h
    using nth bucket_index_less [of depth h] ok'(1,3) by simp
  then show "?t ! bucket_index h depth = (if table ! bucket_index h depth = bno2 then bno else table ! bucket_index h depth)" .
  have le: "ld \<le> depth" using ok'(4) [OF idx] b by simp
  note bud = buddy_group [OF b(3) le ok'(2), of idx, folded buddy]
  have bidx: "buddy < length table" using bud(1) idx ok'(1) by simp
  let ?G = "slot_group depth ld"
  have mem: "table ! i = bno \<longleftrightarrow> ?G i = ?G idx" "table ! i = bno2 \<longleftrightarrow> ?G i = ?G buddy" if "i < length table" for i
    using ok'(5) [OF idx that] ok'(5) [OF bidx that] b b2 by simp_all
  have "?G buddy = (if even (?G idx) then ?G idx + 1 else ?G idx - 1)" using bud(2) idx ok'(1) by simp
  then have pair: "x div 2 = ?G idx div 2 \<longleftrightarrow> x = ?G idx \<or> x = ?G buddy" for x by (rule buddy_pair)
  have joined: "?t ! i = bno \<longleftrightarrow> slot_group depth (ld - 1) i = slot_group depth (ld - 1) idx" if "i < length table" for i
    using mem [OF that] nth [OF that] slot_group_coarser(1) [OF b(3) le] pair by auto
  have other: "?bk x = bk x" if "x \<noteq> bno" "x \<noteq> bno2" for x using that by (simp add: merge_bk_def)
  have bno: "?bk bno = (fst (bk bno) @ fst (bk bno2), ld - 1)" by (simp add: merge_bk_def)
  have not2: "?t ! i \<noteq> bno2" if "i < length table" for i using nth [OF that] b2(3) by auto
  have depth: "snd (?bk (?t ! i)) \<le> depth" if i: "i < length table" for i
  proof (cases "?t ! i = bno")
    case True
    then show ?thesis using le slot_group_coarser(2) [OF b(3) le] by (simp add: bno word_le_nat_alt)
  next
    case False
    then have "?t ! i = table ! i" using nth [OF i] by (auto split: if_splits)
    then show ?thesis using other [OF False not2 [OF i]] ok'(4) [OF i] by simp
  qed
  have group: "?t ! j = ?t ! i \<longleftrightarrow> slot_group depth (snd (?bk (?t ! i))) j = slot_group depth (snd (?bk (?t ! i))) i"
    if i: "i < length table" and j: "j < length table" for i j
  proof (cases "?t ! i = bno")
    case True
    then show ?thesis using joined [OF i] joined [OF j] bno by simp
  next
    case False
    then have ti: "?t ! i = table ! i" using nth [OF i] by (auto split: if_splits)
    then have "?t ! j = ?t ! i \<longleftrightarrow> table ! j = table ! i" using False nth [OF j] not2 [OF i] by auto
    then show ?thesis using other [OF False not2 [OF i]] ok'(5) [OF i j] ti by simp
  qed
  have entries: "?t ! bucket_index (he_hash e) depth = ?t ! i"
    if i: "i < length table" and e: "e \<in> set (fst (?bk (?t ! i)))" for i e
  proof (cases "?t ! i = bno")
    case True
    then have "e \<in> set (fst (bk bno)) \<or> e \<in> set (fst (bk bno2))" using e bno by simp
    then have "table ! bucket_index (he_hash e) depth \<in> {bno, bno2}"
      using ok'(6) [OF idx] ok'(6) [OF bidx] b b2 by auto
    then show ?thesis using route [of "he_hash e"] True by auto
  next
    case False
    then have ti: "?t ! i = table ! i" using nth [OF i] by (auto split: if_splits)
    then have "table ! bucket_index (he_hash e) depth = table ! i"
      using ok'(6) [OF i, of e] e other [OF False not2 [OF i]] by simp
    then show ?thesis using route [of "he_hash e"] ti not2 [OF i] by auto
  qed
  show "hash_dir_ok depth ?t ?bk"
    unfolding hash_dir_ok_def using ok'(1,2) depth group entries by (simp add: merge_table_def)
qed

text \<open>Halving a table whose slots are equal in pairs changes nothing for any hash.\<close>

lemma halve_table_Some:
  "halve_table t = Inr (Some t') \<Longrightarrow> length t = 2 * length t' \<and> (\<forall>i<length t. t ! i = t' ! (i div 2))"
proof (induction t arbitrary: t' rule: halve_table.induct)
  case (3 b b' bs)
  then obtain r where r: "b = b'" "halve_table bs = Inr (Some r)" "t' = b # r"
    by (auto simp: tryR_Inr_iff split: if_splits)
  have IH: "length bs = 2 * length r \<and> (\<forall>i<length bs. bs ! i = r ! (i div 2))" using 3(1) r by blast
  have "(b # b' # bs) ! i = (b # r) ! (i div 2)" if "i < length (b # b' # bs)" for i
  proof (cases "i < 2")
    case True
    then show ?thesis using r(1) by (cases i) auto
  next
    case False
    then obtain j where "i = j + 2" by (metis add.commute le_Suc_ex not_less)
    then show ?thesis using IH that by simp
  qed
  then show ?case using IH r(3) by simp
qed simp_all

lemma hash_dir_halve:
  assumes ok: "hash_dir_ok depth table bk" and d: "depth \<noteq> 0" and h: "halve_table table = Inr (Some t)"
  shows "hash_dir_ok (depth - 1) t bk" and "t ! bucket_index h (depth - 1) = table ! bucket_index h depth"
proof -
  note ok' = hash_dir_okD [OF ok] and hv = halve_table_Some [OF h]
  have dn: "0 < unat depth" using d by (simp add: unat_gt_0)
  have d1: "unat (depth - 1) = unat depth - 1" using dn by (subst unat_sub) (simp_all add: word_le_nat_alt)
  have two: "(2::nat) ^ unat depth = 2 * 2 ^ unat (depth - 1)" using dn d1 by (cases "unat depth") simp_all
  then have len: "length t = 2 ^ unat (depth - 1)" using hv ok'(1) by simp
  have pair: "table ! (2 * i) = t ! i" if "i < length t" for i using hv that by simp
  have "unat (depth - 1) < 63" using d1 ok'(3) by simp
  from bucket_index_double(1) [OF this] have idx: "bucket_index h depth div 2 = bucket_index h (depth - 1)" for h by simp
  have look: "t ! bucket_index h (depth - 1) = table ! bucket_index h depth" for h
    using hv bucket_index_less [of depth h] ok'(1,3) idx [of h] by simp
  show "t ! bucket_index h (depth - 1) = table ! bucket_index h depth" by (rule look)
  have dub: "2 * i < length table" if "i < length t" for i using hv that by simp
  have low: "snd (bk (t ! i)) \<le> depth - 1" if i: "i < length t" for i
  proof (rule ccontr)
    assume "\<not> snd (bk (t ! i)) \<le> depth - 1"
    then have eq: "snd (bk (t ! i)) = depth"
      using ok'(4) [OF dub [OF i]] pair [OF i] d1 dn by (simp add: word_le_nat_alt word_unat_eq_iff)
    have i1: "2 * i + 1 < length table" using hv i by simp
    have "table ! (2 * i + 1) = table ! (2 * i)" using hv i1 pair [OF i] by simp
    then show False using ok'(5) [OF dub [OF i] i1] eq pair [OF i] by (simp add: slot_group_def)
  qed
  have grp: "slot_group depth ld (2 * i) = slot_group (depth - 1) ld i" if "ld \<le> depth - 1" for ld i
  proof -
    have "unat depth - unat ld = Suc (unat (depth - 1) - unat ld)" using that d1 dn by (simp add: word_le_nat_alt Suc_diff_le)
    then show ?thesis by (simp add: slot_group_def)
  qed
  have dle: "depth - 1 \<le> MAX_DEPTH" using ok'(3) d1 by (simp add: word_le_nat_alt)
  have groups: "t ! j = t ! i \<longleftrightarrow> slot_group (depth - 1) (snd (bk (t ! i))) j = slot_group (depth - 1) (snd (bk (t ! i))) i"
    if i: "i < length t" and j: "j < length t" for i j
    using ok'(5) [OF dub [OF i] dub [OF j]] pair [OF i] pair [OF j] grp [OF low [OF i]] by simp
  have ents: "t ! bucket_index (he_hash e) (depth - 1) = t ! i" if i: "i < length t" and e: "e \<in> set (fst (bk (t ! i)))" for i e
    using ok'(6) [OF dub [OF i], of e] pair [OF i] look [of "he_hash e"] e by simp
  show "hash_dir_ok (depth - 1) t bk"
    unfolding hash_dir_ok_def using len dle low groups ents by simp
qed

end
