(* ===== verification/DirTable.thy ===== *)
theory DirTable
  imports DirFacts
begin

text \<open>
  A hashed directory as a state machine over its table and buckets: insertion and removal in
  the bucket a hash leads to, and the silent steps (split, merge, halving of the table) with
  the code's own table arithmetic. Every reachable state is well formed, each step does to the
  set of entries what its label says, and looking in one bucket is looking in all of them.
\<close>

subsection \<open>States and steps\<close>

record dtable =
  dt_depth :: u8
  dt_table :: "u32 list"
  dt_buckets :: buckets

datatype dlabel = Added hentry | Removed hentry | Silent

definition dt_slot :: "dtable \<Rightarrow> u64 \<Rightarrow> u32" where
  "dt_slot d h = dt_table d ! bucket_index h (dt_depth d)"

definition dt_bucket :: "dtable \<Rightarrow> u64 \<Rightarrow> hentry list" where
  "dt_bucket d h = fst (dt_buckets d (dt_slot d h))"

definition dt_set_entries :: "u32 \<Rightarrow> hentry list \<Rightarrow> dtable \<Rightarrow> dtable" where
  "dt_set_entries b es d = d\<lparr>dt_buckets := (dt_buckets d)(b := (es, snd (dt_buckets d b)))\<rparr>"

definition dt_empty :: dtable where
  "dt_empty = \<lparr>dt_depth = 0, dt_table = [0], dt_buckets = (\<lambda>_. ([], 0))\<rparr>"

inductive dir_step :: "(rstring \<Rightarrow> u64) \<Rightarrow> dtable \<Rightarrow> dlabel \<Rightarrow> dtable \<Rightarrow> bool" for H where
  add: "find (he_match (he_hash e) (he_name e)) (dt_bucket d (he_hash e)) = None \<Longrightarrow>
    he_hash e = H (he_name e) \<Longrightarrow>
    dir_step H d (Added e) (dt_set_entries (dt_slot d (he_hash e)) (dt_bucket d (he_hash e) @ [e]) d)"
| remove: "take_out (he_match (H n) n) (dt_bucket d (H n)) = Some (e, es) \<Longrightarrow>
    dir_step H d (Removed e) (dt_set_entries (dt_slot d (H n)) es d)"
| split: "bno \<in> set (dt_table d) \<Longrightarrow> new_bno \<notin> set (dt_table d) \<Longrightarrow> ld = snd (dt_buckets d bno) \<Longrightarrow>
    (ld = dt_depth d \<longrightarrow> dt_depth d < MAX_DEPTH) \<Longrightarrow>
    split_table (dt_depth d) (dt_table d) ld bno new_bno = (depth', table') \<Longrightarrow>
    dir_step H d Silent \<lparr>dt_depth = depth', dt_table = table', dt_buckets = split_bk ld bno new_bno (dt_buckets d)\<rparr>"
| merge: "idx < length (dt_table d) \<Longrightarrow> bno = dt_table d ! idx \<Longrightarrow> ld = snd (dt_buckets d bno) \<Longrightarrow> 0 < ld \<Longrightarrow>
    bno2 = dt_table d ! (idx XOR 2 ^ (unat (dt_depth d - ld) mod 64)) \<Longrightarrow> snd (dt_buckets d bno2) = ld \<Longrightarrow> bno2 \<noteq> bno \<Longrightarrow>
    dir_step H d Silent (d\<lparr>dt_table := merge_table bno bno2 (dt_table d), dt_buckets := merge_bk ld bno bno2 (dt_buckets d)\<rparr>)"
| halve: "dt_depth d \<noteq> 0 \<Longrightarrow> halve_table (dt_table d) = Inr (Some t) \<Longrightarrow>
    dir_step H d Silent (d\<lparr>dt_depth := dt_depth d - 1, dt_table := t\<rparr>)"

inductive_cases dir_stepE: "dir_step H d l d'"

inductive dir_reach :: "(rstring \<Rightarrow> u64) \<Rightarrow> dtable \<Rightarrow> bool" for H where
  start: "dir_reach H dt_empty"
| step: "dir_reach H d \<Longrightarrow> dir_step H d l d' \<Longrightarrow> dir_reach H d'"

subsection \<open>The invariant\<close>

definition dt_entries :: "dtable \<Rightarrow> hentry set" where
  "dt_entries d = (\<Union>b\<in>set (dt_table d). set (fst (dt_buckets d b)))"

definition dt_ok :: "(rstring \<Rightarrow> u64) \<Rightarrow> dtable \<Rightarrow> bool" where
  "dt_ok H d \<longleftrightarrow> hash_dir_ok (dt_depth d) (dt_table d) (dt_buckets d) \<and>
     (\<forall>e\<in>dt_entries d. he_hash e = H (he_name e)) \<and>
     (\<forall>b\<in>set (dt_table d). distinct (map he_name (fst (dt_buckets d b))))"

lemma dt_ok_empty: "dt_ok H dt_empty"
  by (simp add: dt_ok_def dt_empty_def dt_entries_def hash_dir_ok_def)

lemma dt_okD: "dt_ok H d \<Longrightarrow> hash_dir_ok (dt_depth d) (dt_table d) (dt_buckets d)"
  by (simp add: dt_ok_def)

lemma dt_slot_in:
  assumes "hash_dir_ok (dt_depth d) (dt_table d) (dt_buckets d)"
  shows "dt_slot d h \<in> set (dt_table d)"
  using bucket_index_less [of "dt_depth d" h] hash_dir_okD(1,3) [OF assms] by (simp add: dt_slot_def)

text \<open>An entry is in exactly the bucket its hash leads to.\<close>

lemma dt_entry_bucket:
  assumes ok: "hash_dir_ok (dt_depth d) (dt_table d) (dt_buckets d)"
    and b: "b \<in> set (dt_table d)" and e: "e \<in> set (fst (dt_buckets d b))"
  shows "dt_slot d (he_hash e) = b"
proof -
  obtain i where "i < length (dt_table d)" "dt_table d ! i = b" using b by (auto simp: in_set_conv_nth)
  then show ?thesis using hash_dir_okD(6) [OF ok, of i e] e by (simp add: dt_slot_def)
qed

lemma dt_entries_slot:
  assumes "hash_dir_ok (dt_depth d) (dt_table d) (dt_buckets d)"
  shows "e \<in> dt_entries d \<longleftrightarrow> e \<in> set (dt_bucket d (he_hash e))"
  using dt_entry_bucket [OF assms] dt_slot_in [OF assms, of "he_hash e"]
  by (auto simp: dt_entries_def dt_bucket_def)

text \<open>Looking in one bucket is looking in the whole directory.\<close>

lemma dt_find:
  assumes ok: "dt_ok H d"
  shows "find (he_match (H n) n) (dt_bucket d (H n)) = Some e \<longleftrightarrow> e \<in> dt_entries d \<and> he_name e = n"
    and "find (he_match (H n) n) (dt_bucket d (H n)) = None \<longleftrightarrow> (\<forall>e\<in>dt_entries d. he_name e \<noteq> n)"
proof -
  let ?es = "dt_bucket d (H n)"
  have hash: "he_hash e = H (he_name e)" if "e \<in> dt_entries d" for e using ok that by (simp add: dt_ok_def)
  have sub: "set ?es \<subseteq> dt_entries d" using dt_slot_in [OF dt_okD [OF ok]] by (auto simp: dt_entries_def dt_bucket_def)
  have here: "e \<in> set ?es" if "e \<in> dt_entries d" "he_name e = n" for e
    using that hash [OF that(1)] dt_entries_slot [OF dt_okD [OF ok]] by simp
  have match: "he_match (H n) n e \<longleftrightarrow> he_name e = n" if "e \<in> set ?es" for e
    using that hash sub by (auto simp: he_match_def)
  show none: "find (he_match (H n) n) ?es = None \<longleftrightarrow> (\<forall>e\<in>dt_entries d. he_name e \<noteq> n)"
    using here match sub by (auto simp: find_None_iff)
  have dist: "distinct (map he_name ?es)" using ok dt_slot_in [OF dt_okD [OF ok]] by (simp add: dt_ok_def dt_bucket_def)
  show "find (he_match (H n) n) ?es = Some e \<longleftrightarrow> e \<in> dt_entries d \<and> he_name e = n"
  proof
    assume "find (he_match (H n) n) ?es = Some e"
    then have "e \<in> set ?es" "he_match (H n) n e" by (auto simp: find_Some_iff)
    then show "e \<in> dt_entries d \<and> he_name e = n" using sub match by auto
  next
    assume e: "e \<in> dt_entries d \<and> he_name e = n"
    then have "find (he_match (H n) n) ?es \<noteq> None" using none by auto
    then obtain x where x: "find (he_match (H n) n) ?es = Some x" by auto
    then have "x \<in> set ?es" "he_match (H n) n x" by (auto simp: find_Some_iff)
    then have "x = e" using here e match dist by (metis distinct_map inj_on_def)
    then show "find (he_match (H n) n) ?es = Some e" using x by simp
  qed
qed

subsection \<open>Steps keep the invariant and do what their label says\<close>

definition dt_apply :: "dlabel \<Rightarrow> hentry set \<Rightarrow> hentry set" where
  "dt_apply l S = (case l of Added e \<Rightarrow> insert e S | Removed e \<Rightarrow> S - {e} | Silent \<Rightarrow> S)"

lemma take_out_Some:
  "take_out P xs = Some (x, ys) \<Longrightarrow> \<exists>as bs. xs = as @ x # bs \<and> ys = as @ bs \<and> P x \<and> (\<forall>a\<in>set as. \<not> P a)"
proof (induction xs arbitrary: ys)
  case (Cons a xs)
  show ?case
  proof (cases "P a")
    case False
    then obtain zs where "take_out P xs = Some (x, zs)" "ys = a # zs" using Cons.prems by auto
    with Cons.IH obtain as bs where "xs = as @ x # bs" "zs = as @ bs" "P x" "\<forall>a\<in>set as. \<not> P a" by blast
    then show ?thesis using \<open>ys = a # zs\<close> False by (intro exI [of _ "a # as"] exI [of _ bs]) simp
  qed (use Cons.prems in \<open>auto intro: exI [of _ "[]"]\<close>)
qed simp

lemma dt_set_entries_ok:
  assumes ok: "dt_ok H d" and b: "b \<in> set (dt_table d)"
    and es: "\<And>e. e \<in> set es \<Longrightarrow> dt_slot d (he_hash e) = b \<and> he_hash e = H (he_name e)"
    and dist: "distinct (map he_name es)"
  shows "dt_ok H (dt_set_entries b es d)"
    and "dt_entries (dt_set_entries b es d) = (dt_entries d - set (fst (dt_buckets d b))) \<union> set es"
proof -
  let ?d = "dt_set_entries b es d"
  have sel: "dt_table ?d = dt_table d" "dt_depth ?d = dt_depth d"
    "dt_buckets ?d = (dt_buckets d)(b := (es, snd (dt_buckets d b)))" by (simp_all add: dt_set_entries_def)
  have old: "hash_dir_ok (dt_depth d) (dt_table d) (dt_buckets d)" using ok by (simp add: dt_ok_def)
  have "\<And>e. e \<in> set es \<Longrightarrow> dt_table d ! bucket_index (he_hash e) (dt_depth d) = b"
    using es unfolding dt_slot_def by blast
  then have "hash_dir_ok (dt_depth d) (dt_table d) (dt_buckets ?d)"
    using old unfolding hash_dir_ok_def sel by auto
  moreover have uniq: "x = b" if "x \<in> set (dt_table d)" "e \<in> set (fst (dt_buckets d x))" "e \<in> set (fst (dt_buckets d b))" for x e
    using dt_entry_bucket [OF dt_okD [OF ok] that(1,2)] dt_entry_bucket [OF dt_okD [OF ok] b that(3)] by simp
  have ents: "dt_entries ?d = (dt_entries d - set (fst (dt_buckets d b))) \<union> set es"
  proof (rule set_eqI)
    fix e
    show "e \<in> dt_entries ?d \<longleftrightarrow> e \<in> (dt_entries d - set (fst (dt_buckets d b))) \<union> set es"
      using b uniq [of _ e] by (auto simp: dt_entries_def sel)
  qed
  then show "dt_entries ?d = (dt_entries d - set (fst (dt_buckets d b))) \<union> set es" .
  moreover have "\<forall>x\<in>set (dt_table d). distinct (map he_name (fst (dt_buckets ?d x)))"
    using ok dist by (simp add: dt_ok_def sel)
  ultimately show "dt_ok H ?d" using ok es by (auto simp: dt_ok_def sel)
qed

lemma in_set_enumerate_snd: "(i, x) \<in> set (enumerate n xs) \<Longrightarrow> x \<in> set xs"
  by (auto simp: in_set_enumerate_eq)

lemma filter_names: "distinct (map he_name es) \<Longrightarrow> distinct (map he_name (filter P es))"
  by (induction es) auto

lemma dir_step_ok:
  assumes "dir_step H d l d'" and ok: "dt_ok H d"
  shows "dt_ok H d' \<and> dt_entries d' = dt_apply l (dt_entries d)"
  using assms(1)
proof cases
  case (add e)
  let ?b = "dt_slot d (he_hash e)" and ?es = "dt_bucket d (he_hash e)"
  have b: "?b \<in> set (dt_table d)" by (rule dt_slot_in [OF dt_okD [OF ok]])
  have fresh: "\<forall>x\<in>dt_entries d. he_name x \<noteq> he_name e" using dt_find(2) [OF ok, of "he_name e"] add by simp
  have in_es: "dt_slot d (he_hash x) = ?b \<and> he_hash x = H (he_name x) \<and> x \<in> dt_entries d" if "x \<in> set ?es" for x
  proof -
    have "x \<in> dt_entries d" using that b by (auto simp: dt_bucket_def dt_entries_def)
    then show ?thesis using that ok dt_entry_bucket [OF dt_okD [OF ok] b, of x] by (simp add: dt_bucket_def dt_ok_def)
  qed
  have "distinct (map he_name ?es)" using ok b by (simp add: dt_ok_def dt_bucket_def)
  moreover have "he_name x \<noteq> he_name e" if "x \<in> set ?es" for x using fresh in_es [OF that] by blast
  then have "he_name e \<notin> he_name ` set ?es" by (metis imageE)
  ultimately have dist: "distinct (map he_name (?es @ [e]))" by simp
  have "dt_slot d (he_hash x) = ?b \<and> he_hash x = H (he_name x)" if x: "x \<in> set (?es @ [e])" for x
  proof (cases "x = e")
    case False
    then have "x \<in> set ?es" using x by simp
    then show ?thesis using in_es by blast
  qed (use add(4) in simp)
  note r = dt_set_entries_ok [OF ok b this dist]
  have "dt_entries d - set ?es \<union> set (?es @ [e]) = insert e (dt_entries d)" using in_es by auto
  then show ?thesis using r add(1,2) by (simp add: dt_apply_def dt_bucket_def)
next
  case (remove n e es)
  let ?b = "dt_slot d (H n)"
  have b: "?b \<in> set (dt_table d)" by (rule dt_slot_in [OF dt_okD [OF ok]])
  obtain as bs where s: "dt_bucket d (H n) = as @ e # bs" "es = as @ bs" using take_out_Some [OF remove(3)] by blast
  have "distinct (map he_name (fst (dt_buckets d ?b)))" using ok b by (simp add: dt_ok_def)
  then have dist: "distinct (map he_name (as @ e # bs))" using s(1) by (simp only: dt_bucket_def)
  have in_es: "dt_slot d (he_hash x) = ?b \<and> he_hash x = H (he_name x)" if "x \<in> set es" for x
  proof -
    have x: "x \<in> set (fst (dt_buckets d ?b))" using that s by (auto simp: dt_bucket_def)
    then have "x \<in> dt_entries d" using b by (auto simp: dt_entries_def)
    then show ?thesis using dt_entry_bucket [OF dt_okD [OF ok] b x] ok by (simp add: dt_ok_def)
  qed
  have "distinct (map he_name es)" using dist s(2) by auto
  note r = dt_set_entries_ok [OF ok b in_es this]
  have bk: "fst (dt_buckets d ?b) = as @ e # bs" using s(1) by (simp add: dt_bucket_def)
  have "e \<notin> set es" using dist s(2) by auto
  moreover have "set (as @ e # bs) \<subseteq> dt_entries d" using b unfolding bk [symmetric] dt_entries_def by blast
  ultimately have "dt_entries d - set (as @ e # bs) \<union> set es = dt_entries d - {e}" using s(2) by auto
  then show ?thesis using r remove bk by (simp add: dt_apply_def)
next
  case (split bno new_bno ld depth' table')
  let ?bk = "split_bk ld bno new_bno (dt_buckets d)"
  note old = dt_okD [OF ok]
  have sp: "hash_dir_ok depth' table' ?bk" "\<And>e. table' ! bucket_index (he_hash e) depth' =
      (if dt_slot d (he_hash e) = bno \<and> goes_up ld e then new_bno else dt_slot d (he_hash e))"
    using hash_dir_split [OF old split(3,4) split(5) [symmetric] split(6,7)] by (simp_all add: dt_slot_def)
  have ok': "hash_dir_ok (dt_depth d') (dt_table d') (dt_buckets d')" using sp(1) split(2) by simp
  have slot: "dt_slot d' (he_hash e) = (if dt_slot d (he_hash e) = bno \<and> goes_up ld e then new_bno else dt_slot d (he_hash e))" for e
    unfolding dt_slot_def [of d'] using sp(2) split(2) by simp
  have bk: "dt_buckets d' = ?bk" using split(2) by simp
  have ne: "bno \<noteq> new_bno" "dt_slot d h \<noteq> new_bno" for h using split(3,4) dt_slot_in [OF old, of h] by auto
  have "e \<in> dt_entries d' \<longleftrightarrow> e \<in> dt_entries d" for e
    unfolding dt_entries_slot [OF ok'] dt_entries_slot [OF old] dt_bucket_def slot bk
    using ne by (auto simp: split_bk_def)
  then have ents: "dt_entries d' = dt_entries d" by blast
  have names: "distinct (map he_name (fst (dt_buckets d' b)))" if b: "b \<in> set (dt_table d')" for b
  proof -
    have "set table' \<subseteq> insert new_bno (set (dt_table d))"
      using arg_cong [OF split(7), of snd] by (auto simp: split_table_def redirect_def Let_def split: if_splits dest!: in_set_enumerate_snd)
    then have "b = new_bno \<or> b \<in> set (dt_table d)" using b split(2) by auto
    then show ?thesis
      using split(2,3) ok filter_names by (auto simp: split_bk_def dt_ok_def)
  qed
  show ?thesis using ok' ents names ok split(1) by (simp add: dt_ok_def dt_apply_def)
next
  case (merge idx bno ld bno2)
  note old = dt_okD [OF ok]
  have mg: "hash_dir_ok (dt_depth d) (merge_table bno bno2 (dt_table d)) (merge_bk ld bno bno2 (dt_buckets d))"
    "\<And>h. merge_table bno bno2 (dt_table d) ! bucket_index h (dt_depth d) = (if dt_slot d h = bno2 then bno else dt_slot d h)"
    using hash_dir_merge [OF old merge(3) merge(4) [symmetric] merge(5) [symmetric] merge(6) refl merge(7) [symmetric] merge(8,9)]
    by (simp_all add: dt_slot_def)
  have ok': "hash_dir_ok (dt_depth d') (dt_table d') (dt_buckets d')" using mg(1) merge(2) by simp
  have slot: "dt_slot d' h = (if dt_slot d h = bno2 then bno else dt_slot d h)" for h
    unfolding dt_slot_def [of d'] using mg(2) merge(2) by simp
  have bk: "dt_buckets d' = merge_bk ld bno bno2 (dt_buckets d)" using merge(2) by simp
  have b1: "bno \<in> set (dt_table d)" using merge(3,4) by simp
  have l1: "dt_slot d (he_hash e) = bno" if "e \<in> set (fst (dt_buckets d bno))" for e
    by (rule dt_entry_bucket [OF old b1 that])
  have b2: "bno2 \<in> set (dt_table d)"
  proof -
    have "ld \<le> dt_depth d" using hash_dir_okD(4) [OF old merge(3)] merge(4,5) by simp
    from buddy_group(1) [OF merge(6) this hash_dir_okD(2) [OF old]] show ?thesis
      using merge(3,7) hash_dir_okD(1) [OF old] by simp
  qed
  have l2: "dt_slot d (he_hash e) = bno2" if "e \<in> set (fst (dt_buckets d bno2))" for e
    by (rule dt_entry_bucket [OF old b2 that])
  have "e \<in> dt_entries d' \<longleftrightarrow> e \<in> dt_entries d" for e
    unfolding dt_entries_slot [OF ok'] dt_entries_slot [OF old] dt_bucket_def slot bk
    using merge(9) l1 [of e] l2 [of e] by (auto simp: merge_bk_def)
  then have ents: "dt_entries d' = dt_entries d" by blast
  have hash: "he_hash e = H (he_name e)" if "e \<in> set (fst (dt_buckets d b))" "b \<in> set (dt_table d)" for e b
    using ok that by (auto simp: dt_ok_def dt_entries_def)
  have "he_name x \<noteq> he_name y" if "x \<in> set (fst (dt_buckets d bno))" "y \<in> set (fst (dt_buckets d bno2))" for x y
    using l1 [OF that(1)] l2 [OF that(2)] hash [OF that(1) b1] hash [OF that(2) b2] merge(9) by auto
  then have both: "distinct (map he_name (fst (dt_buckets d bno) @ fst (dt_buckets d bno2)))"
    using ok b1 b2 by (auto simp: dt_ok_def)
  have names: "distinct (map he_name (fst (dt_buckets d' b)))" if b: "b \<in> set (dt_table d')" for b
  proof -
    have "b = bno \<or> b \<in> set (dt_table d)" using b merge(2) by (auto simp: merge_table_def split: if_splits)
    then show ?thesis using merge(2) both ok by (auto simp: merge_bk_def dt_ok_def)
  qed
  show ?thesis using ok' ents names ok merge(1) by (simp add: dt_ok_def dt_apply_def)
next
  case (halve t)
  note old = dt_okD [OF ok]
  note hv = hash_dir_halve [OF old halve(3,4)]
  have ok': "hash_dir_ok (dt_depth d') (dt_table d') (dt_buckets d')" using hv(1) halve(2) by simp
  have slot: "dt_slot d' h = dt_slot d h" for h using hv(2) halve(2) by (simp add: dt_slot_def)
  have bk: "dt_buckets d' = dt_buckets d" using halve(2) by simp
  have ents: "dt_entries d' = dt_entries d"
    using dt_entries_slot [OF ok'] dt_entries_slot [OF old] slot bk by (auto simp: dt_bucket_def)
  have "set t \<subseteq> set (dt_table d)"
  proof
    fix b assume "b \<in> set t"
    then obtain i where i: "i < length t" "b = t ! i" by (auto simp: in_set_conv_nth)
    then have "b = dt_table d ! (2 * i)" "2 * i < length (dt_table d)" using halve_table_Some [OF halve(4)] by simp_all
    then show "b \<in> set (dt_table d)" by simp
  qed
  then show ?thesis using ok' ents bk ok halve(1,2) by (auto simp: dt_ok_def dt_apply_def)
qed

lemma dir_reach_ok: "dir_reach H d \<Longrightarrow> dt_ok H d"
  by (induction rule: dir_reach.induct) (auto simp: dt_ok_empty dest: dir_step_ok)

end
