(* ===== verification/HashedDir.thy ===== *)
theory HashedDir
  imports DirTable
begin

text \<open>
  A hashed directory on disk as a table state: lookups and insertions of \<open>src/dir.rs\<close> read and
  write the blocks of the directory, and do to them what the state machine does to its state.
\<close>

subsection \<open>Blocks of a directory with inline extents\<close>

lemma map_lookup_extents:
  "in_format ino = FMT_EXTENT \<Longrightarrow> map_lookup crc g t ino fb = Inr (extent_lookup (extents_parse (in_payload ino)) fb)"
  by (simp add: map_lookup_def)

definition dir_run :: "inode \<Rightarrow> u64 \<Rightarrow> u64 option" where
  "dir_run ino fb = (case extent_lookup (extents_parse (in_payload ino)) fb of Run a _ \<Rightarrow> Some a | Hole _ \<Rightarrow> None)"

lemma dir_block_run:
  assumes "in_format ino = FMT_EXTENT"
  shows "dir_block_addr crc g t ino fb =
      (case dir_run ino fb of Some a \<Rightarrow> Inr a | None \<Rightarrow> Inl (Msg ''directory block {fb} is a hole''))"
    and "dir_block_read crc g t ino fb =
      (case dir_run ino fb of Some a \<Rightarrow> txn_read g t a | None \<Rightarrow> Inl (Msg ''directory block {fb} is a hole''))"
  by (simp_all add: dir_block_addr_def dir_block_read_def map_lookup_extents [OF assms] dir_run_def split: mapping.split)

text \<open>What a bucket block holds.\<close>

definition bucket_image :: "crc_fun \<Rightarrow> buffer \<Rightarrow> (hentry list \<times> u8) option" where
  "bucket_image crc buf =
     (if get_bytes buf 0 4 = BUCKET_MAGIC \<and> get_u32 buf 4 = csum crc buf 4
      then (case bucket_entries buf of Inr es \<Rightarrow> Some (es, buf ! 16) | Inl _ \<Rightarrow> None) else None)"

lemma bucket_image_Some:
  "bucket_image crc buf = Some (es, ld) \<longleftrightarrow> get_bytes buf 0 4 = BUCKET_MAGIC \<and> get_u32 buf 4 = csum crc buf 4 \<and>
     bucket_entries buf = Inr es \<and> ld = buf ! 16"
  by (auto simp: bucket_image_def split: sum.splits)

lemma bucket_read_iff:
  assumes "in_format ino = FMT_EXTENT"
  shows "bucket_read crc g t ino b = Inr (es, ld, a) \<longleftrightarrow> dir_run ino (1 + ucast b) = Some a \<and>
    (\<exists>buf. txn_read g t a = Inr buf \<and> bucket_image crc buf = Some (es, ld))"
  unfolding bucket_read_def dir_block_run [OF assms] bucket_image_Some
  by (cases "dir_run ino (1 + ucast b)") (auto simp: tryR_Inr_iff split: if_splits)

lemma dhdr_read_iff:
  assumes "in_format ino = FMT_EXTENT"
  shows "dhdr_read crc g t ino = Inr h \<longleftrightarrow> dir_run ino 0 = Some (dh_blk h) \<and>
    (\<exists>buf. txn_read g t (dh_blk h) = Inr buf \<and> get_bytes buf 0 4 = DIRH_MAGIC \<and> get_u32 buf 4 = csum crc buf 4 \<and>
       dhdr_parse (dh_blk h) buf = Inr h)"
proof -
  have blk: "dh_blk h = a" if "dhdr_parse a buf = Inr h" for a buf
    using that by (auto simp: dhdr_parse_def Let_def guardR_def split: if_splits)
  then show ?thesis
    by (auto simp: dhdr_read_def dir_block_run [OF assms] tryR_Inr_iff split: option.splits if_splits)
qed

text \<open>The directory \<open>ino\<close> has the header \<open>h\<close> and the buckets \<open>bk\<close>, each in a block of its own.\<close>

definition dir_at :: "crc_fun \<Rightarrow> gofs \<Rightarrow> txn \<Rightarrow> inode \<Rightarrow> dhdr \<Rightarrow> buckets \<Rightarrow> (u32 \<Rightarrow> u64) \<Rightarrow> bool" where
  "dir_at crc g t ino h bk adr \<longleftrightarrow> txn_ok t \<and> in_format ino = FMT_EXTENT \<and> is_dir ino \<and> dhdr_read crc g t ino = Inr h \<and>
     (\<forall>b\<in>set (dh_table h). bucket_read crc g t ino b = Inr (fst (bk b), snd (bk b), adr b)) \<and>
     inj_on adr (set (dh_table h)) \<and> dh_blk h \<notin> adr ` set (dh_table h)"

definition dt_of :: "dhdr \<Rightarrow> buckets \<Rightarrow> dtable" where
  "dt_of h bk = \<lparr>dt_depth = dh_depth h, dt_table = dh_table h, dt_buckets = bk\<rparr>"

lemma dt_of_simps [simp]:
  "dt_depth (dt_of h bk) = dh_depth h" "dt_table (dt_of h bk) = dh_table h" "dt_buckets (dt_of h bk) = bk"
  by (simp_all add: dt_of_def)

lemma dh_slot_table:
  assumes "dt_ok H (dt_of h bk)"
  shows "dh_slot h hash = Inr (dt_slot (dt_of h bk) hash)"
proof -
  note ok = dt_okD [OF assms, simplified]
  show ?thesis
    using bucket_index_less [of "dh_depth h" hash] hash_dir_okD(1,3) [OF ok]
    by (simp add: dh_slot_def Let_def dt_slot_def guardR_def)
qed

text \<open>A write to one bucket block changes that bucket and nothing else.\<close>

lemma dir_at_write:
  assumes d: "dir_at crc g t ino h bk adr" and b: "b \<in> set (dh_table h)"
    and img: "bucket_image crc buf = Some (es, ld)"
  shows "dir_at crc g (txn_write (adr b) buf t) ino h (bk(b := (es, ld))) adr"
proof -
  have ext: "in_format ino = FMT_EXTENT" using d by (simp add: dir_at_def)
  let ?t = "txn_write (adr b) buf t"
  have read: "txn_read g ?t a = (if a = adr b then Inr buf else txn_read g t a)" for a
    using d by (simp add: txn_read_def txn_write_def dir_at_def)
  have ne: "dh_blk h \<noteq> adr b" using d b by (auto simp: dir_at_def)
  have "dhdr_read crc g ?t ino = Inr h"
    using d ne unfolding dir_at_def dhdr_read_iff [OF ext] read by auto
  moreover have "bucket_read crc g ?t ino x = Inr (fst ((bk(b := (es, ld))) x), snd ((bk(b := (es, ld))) x), adr x)"
    if x: "x \<in> set (dh_table h)" for x
  proof -
    have old: "bucket_read crc g t ino x = Inr (fst (bk x), snd (bk x), adr x)" using d x by (simp add: dir_at_def)
    have "adr x = adr b \<longleftrightarrow> x = b" using d b x by (auto simp: dir_at_def inj_on_def)
    then show ?thesis
      using old img unfolding bucket_read_iff [OF ext] read by (cases "x = b") auto
  qed
  ultimately show ?thesis using d by (simp add: dir_at_def txn_write_def)
qed

subsection \<open>Finding\<close>

lemma hashed_find_run:
  assumes d: "dir_at crc g t ino h bk adr" and ok: "dt_ok (hash_name sip (sb_uuid (g_sb g))) (dt_of h bk)"
  shows "dir_find sip crc g t ino n =
    Inr (map_option he_entry (find (he_match (hash_name sip (sb_uuid (g_sb g)) n) n)
      (dt_bucket (dt_of h bk) (hash_name sip (sb_uuid (g_sb g)) n))))"
proof -
  let ?b = "dt_slot (dt_of h bk) (hash_name sip (sb_uuid (g_sb g)) n)"
  have "?b \<in> set (dh_table h)" using dt_slot_in [OF dt_okD [OF ok]] by simp
  then have "bucket_read crc g t ino ?b = Inr (fst (bk ?b), snd (bk ?b), adr ?b)" using d by (simp add: dir_at_def)
  then show ?thesis
    using d dh_slot_table [OF ok] by (simp add: dir_find_def hashed_find_def Let_def dir_at_def dt_bucket_def)
qed

subsection \<open>Inserting\<close>

text \<open>An insertion that needs no split.\<close>

lemma hashed_insert_run:
  assumes d: "dir_at crc g t ino h bk adr" and ok: "dt_ok H (dt_of h bk)"
    and H: "H = hash_name sip (sb_uuid (g_sb g))"
    and new: "new = \<lparr>he_ino = de_ino e, he_hash = H (de_name e), he_ftype = de_ftype e, he_name = de_name e\<rparr>"
    and fresh: "\<forall>x\<in>dt_entries (dt_of h bk). he_name x \<noteq> de_name e"
    and fits: "bucket_fits (g_bs g) (dt_bucket (dt_of h bk) (he_hash new)) new"
    and names: "\<forall>x\<in>dt_entries (dt_of h bk). hentry_ok x" "hentry_ok new"
    and bs: "BK_HDR \<le> g_bs g" "length (dt_bucket (dt_of h bk) (he_hash new)) + 1 < 2 ^ 16"
  defines "b \<equiv> dt_slot (dt_of h bk) (he_hash new)"
  defines "bk' \<equiv> bk(b := (fst (bk b) @ [new], snd (bk b)))"
  shows "\<exists>t'. dir_insert sip crc dir ino e (g, t) = (Inr ino, (g, t')) \<and> dir_at crc g t' ino h bk' adr"
    and "dir_step H (dt_of h bk) (Added new) (dt_of h bk')"
proof -
  let ?d = "dt_of h bk" and ?es = "fst (bk b)"
  have es: "dt_bucket ?d (he_hash new) = ?es" by (simp add: dt_bucket_def b_def)
  have bin: "b \<in> set (dh_table h)" using dt_slot_in [OF dt_okD [OF ok]] by (simp add: b_def)
  have hn: "he_hash new = H (de_name e)" "he_name new = de_name e" by (simp_all add: new)
  have none: "find (he_match (H (de_name e)) (de_name e)) ?es = None"
    using dt_find(2) [OF ok, of "de_name e"] fresh es by (simp add: hn)
  show "dir_step H ?d (Added new) (dt_of h bk')"
  proof -
    have "dir_step H ?d (Added new) (dt_set_entries (dt_slot ?d (he_hash new)) (dt_bucket ?d (he_hash new) @ [new]) ?d)"
      by (rule dir_step.add) (use none in \<open>simp_all add: hn es [unfolded hn]\<close>)
    moreover have "dt_set_entries (dt_slot ?d (he_hash new)) (dt_bucket ?d (he_hash new) @ [new]) ?d = dt_of h bk'"
      unfolding es by (simp add: dt_set_entries_def bk'_def b_def dt_of_def)
    ultimately show ?thesis by simp
  qed
  have ok_es: "\<forall>x\<in>set (?es @ [new]). hentry_ok x" using names bin by (auto simp: dt_entries_def)
  have room: "BK_HDR + sum_list (map he_size (?es @ [new])) \<le> g_bs g" using fits es by (simp add: bucket_fits_def)
  let ?ld = "snd (bk b)"
  obtain buf where buf: "bucket_build (g_bs g) ?ld (?es @ [new]) = Inr buf"
    using bucket_build_exact [OF bs(1), of ?ld "?es @ [new]"] room by simp
  let ?out = "seal crc (put_u64 buf 8 (old_gen g t (adr b) + 1))"
  have len: "length (?es @ [new]) < 2 ^ 16" using bs(2) es by simp
  have img: "bucket_image crc ?out = Some (?es @ [new], ?ld)"
    using bucket_roundtrip [OF buf bs(1) ok_es len, of crc "old_gen g t (adr b) + 1"] by (simp add: bucket_image_def)
  have at: "dir_at crc g (txn_write (adr b) ?out t) ino h bk' adr"
    unfolding bk'_def by (rule dir_at_write [OF d bin img])
  have wr: "bucket_write crc (adr b) ?ld (?es @ [new]) (g, t) = (Inr (), (g, txn_write (adr b) ?out t))"
    using buf by (simp add: bucket_write_def askF_def)
  have rd: "dhdr_read crc g t ino = Inr h" "bucket_read crc g t ino b = Inr (?es, ?ld, adr b)"
    using d bin by (simp_all add: dir_at_def)
  have slot: "dh_slot h (he_hash new) = Inr b" using dh_slot_table [OF ok] by (simp add: b_def)
  have ext: "in_format ino = FMT_EXTENT" using d by (simp add: dir_at_def)
  have fit: "bucket_fits (g_bs g) ?es new" using fits es by simp
  have done_wr: "bindS (bucket_write crc (adr b) ?ld (?es @ [new])) (\<lambda>_. retS ino) (g, t)
      = (Inr ino, (g, txn_write (adr b) ?out t))" by (simp add: bindS_def wr)
  have loop: "insert_loop crc (Suc fuel) ag ino new (g, t) = (Inr ino, (g, txn_write (adr b) ?out t))" for fuel ag
    using rd slot fit done_wr by (simp add: askF_def)
  have "dir_find sip crc g t ino (de_name e) = Inr None"
    using hashed_find_run [OF d ok [unfolded H], of "de_name e"] none es by (simp add: H hn)
  then have "dir_insert sip crc dir ino e (g, t) = hashed_insert sip crc dir ino e (g, t)"
    using ext by (simp add: dir_insert_def numeral_2_eq_2 askF_def)
  also have "\<dots> = insert_loop crc DIR_FUEL (fst (blk_split dir)) ino new (g, t)"
    by (simp add: hashed_insert_def askF_def new H)
  also have "\<dots> = (Inr ino, (g, txn_write (adr b) ?out t))"
    using loop [of 511] by simp
  finally show "\<exists>t'. dir_insert sip crc dir ino e (g, t) = (Inr ino, (g, t')) \<and> dir_at crc g t' ino h bk' adr"
    using at by blast
qed

end
