(* ===== verification/DirProps.thy ===== *)
theory DirProps
  imports HashedDir Example
begin

text \<open>
  The properties of directories: embedded ones, the blocks of hashed ones, the table of the
  extendible hash, and lookups and insertions on disk.
\<close>

subsection \<open>Removing from an embedded directory\<close>

lemma append_all_image:
  assumes "\<forall>e\<in>set (es0 @ es). dirent_ok e" and "sum_list (map dirent_size (es0 @ es)) \<le> INODE_PAYLOAD"
  shows "append_all es (dir_image es0) = Inr (dir_image (es0 @ es))"
  using assms
proof (induction es arbitrary: es0)
  case (Cons e es)
  have "dir_append (dir_image es0) e = Inr (dir_image (es0 @ [e]))"
    by (rule dir_append_image) (use Cons.prems in \<open>auto simp: dirent_ok_def\<close>)
  then show ?case using Cons.IH [of "es0 @ [e]"] Cons.prems by simp
qed simp

lemma dir_image_Nil: "dir_image [] = replicate INODE_PAYLOAD 0"
  by (simp add: dir_image_def pad_def)

lemma take_out_None: "take_out P xs = None \<longleftrightarrow> (\<forall>x\<in>set xs. \<not> P x)"
  by (induction xs) (auto simp: take_out.simps split: option.splits)

lemma embedded_remove_run:
  assumes "in_format i = FMT_EMBED" and "in_payload i = dir_image es" and "\<forall>e\<in>set es. dirent_ok e"
    and "sum_list (map dirent_size es) \<le> INODE_PAYLOAD"
  shows "dir_remove sip crc i name s =
    (case take_out (\<lambda>e. de_name e = name) es of
       None \<Rightarrow> (Inl (NameMsg name '': not found''), s)
     | Some (e, es') \<Rightarrow> (Inr (e, i\<lparr>in_payload := dir_image es', in_format := (if es' = [] then FMT_EMPTY else FMT_EMBED)\<rparr>), s))"
proof (cases "take_out (\<lambda>e. de_name e = name) es")
  case None
  then show ?thesis
    unfolding dir_remove_def Let_def assms(1,2) dir_parse_image [OF assms(3)]
    by (simp only: simp_thms if_True option.case failS_run)
next
  case (Some r)
  obtain e es' where r: "r = (e, es')" by (cases r)
  obtain as bs where s: "es = as @ e # bs" "es' = as @ bs" using take_out_Some [OF Some [unfolded r]] by blast
  have "\<forall>x\<in>set ([] @ es'). dirent_ok x" using assms(3) unfolding s by simp
  moreover have "sum_list (map dirent_size ([] @ es')) \<le> INODE_PAYLOAD" using assms(4) unfolding s by simp
  ultimately have "append_all es' (dir_image []) = Inr (dir_image ([] @ es'))" by (rule append_all_image)
  then have app: "append_all es' (replicate INODE_PAYLOAD 0) = Inr (dir_image es')"
    by (simp only: dir_image_Nil append_Nil)
  have "dir_remove sip crc i name s = bindS (askF (\<lambda>g t. append_all es' (replicate INODE_PAYLOAD 0)))
      (\<lambda>p. retS (e, i\<lparr>in_payload := p, in_format := (if es' = [] then FMT_EMPTY else FMT_EMBED)\<rparr>)) s"
    unfolding dir_remove_def Let_def assms(1,2) dir_parse_image [OF assms(3)] Some r
    by (simp only: simp_thms if_True option.case prod.case)
  also have "\<dots> = (Inr (e, i\<lparr>in_payload := dir_image es', in_format := (if es' = [] then FMT_EMPTY else FMT_EMBED)\<rparr>), s)"
    unfolding app askF_def bindS_askS prod.case_distrib by (simp split: prod.split)
  finally show ?thesis unfolding Some r by (simp only: option.case prod.case)
qed

subsection \<open>A hashed directory for the witnesses\<close>

definition ex_he :: hentry where
  "ex_he = \<lparr>he_ino = 5, he_hash = 0x4000000000000000, he_ftype = 1, he_name = [0x61]\<rparr>"

definition ex_dir_ino :: inode where
  "ex_dir_ino = inode_default\<lparr>in_format := FMT_EXTENT, in_mode := 0x41ED, in_size := 1024,
     in_payload := pad (ext_bytes \<lparr>ex_file_block = 0, ex_blk = blk_addr 0 30, ex_blocks = 2\<rparr>) (INODE_PAYLOAD - 20)\<rparr>"

definition ex_dhdr :: dhdr where
  "ex_dhdr = \<lparr>dh_depth = 0, dh_nbuckets = 1, dh_table = [0], dh_blk = blk_addr 0 30, dh_free = []\<rparr>"

definition ex_bk :: buckets where
  "ex_bk = (\<lambda>_. ([ex_he], 0))"

definition ex_bucket_buf :: buffer where
  "ex_bucket_buf = pad (bucket_head 0 1 @ hentry_bytes ex_he) (512 - BK_HDR - he_size ex_he)"

definition ex_dir_txn :: txn where
  "ex_dir_txn = [(blk_addr 0 30, seal ex_crc (dhdr_image 512 1 0 1 [0] [])),
     (blk_addr 0 31, seal ex_crc (put_u64 ex_bucket_buf 8 1))]"

lemma ex_he_size: "he_size ex_he = 24" "hentry_ok ex_he"
  by (simp_all add: ex_he_def he_size_def entry_size_def hentry_ok_def rstring_ok_def scalar_def utf16_char_def)

lemma ex_bucket_build: "bucket_build 512 0 [ex_he] = Inr ex_bucket_buf"
  using bucket_build_exact [of 512 0 "[ex_he]"] ex_he_size by (simp add: ex_bucket_buf_def)

lemma ex_dir_run: "dir_run ex_dir_ino 0 = Some (blk_addr 0 30)" "dir_run ex_dir_ino 1 = Some (blk_addr 0 31)"
proof -
  let ?e = "\<lparr>ex_file_block = 0, ex_blk = blk_addr 0 30, ex_blocks = 2\<rparr>"
  have "extents_store [?e] = Inr (in_payload ex_dir_ino)"
    by (simp add: extents_store_image ex_dir_ino_def)
  then have p: "extents_parse (in_payload ex_dir_ino) = [?e]" by (rule extents_parse_store) simp
  show "dir_run ex_dir_ino 0 = Some (blk_addr 0 30)" "dir_run ex_dir_ino 1 = Some (blk_addr 0 31)"
    by (simp_all add: dir_run_def p extent_lookup_def covers_def blk_addr_def)
qed

lemma ex_dir_at: "dir_at ex_crc ex_fs ex_dir_txn ex_dir_ino ex_dhdr ex_bk (\<lambda>_. blk_addr 0 31)"
proof -
  have ext: "in_format ex_dir_ino = FMT_EXTENT" "is_dir ex_dir_ino" by (simp_all add: ex_dir_ino_def is_dir_def)
  have ne: "blk_addr 0 30 \<noteq> blk_addr 0 31" by (simp add: blk_addr_def)
  have ok: "txn_ok ex_dir_txn" by (simp add: ex_dir_txn_def txn_ok_def) (simp add: blk_addr_def)
  note h = dhdr_roundtrip [where table = "[0]" and freelist = "[]" and bs = 512 and depth = 0 and crc = ex_crc and gen = 1
      and nbuckets = 1, simplified]
  have hd: "dhdr_read ex_crc ex_fs ex_dir_txn ex_dir_ino = Inr ex_dhdr"
    unfolding dhdr_read_iff [OF ext(1)] using h by (simp add: ex_dhdr_def ex_dir_run ex_dir_txn_def txn_read_def)
  note b = bucket_roundtrip [OF ex_bucket_build, where crc = ex_crc and gen = 1, simplified]
  have "bucket_image ex_crc (seal ex_crc (put_u64 ex_bucket_buf 8 1)) = Some ([ex_he], 0)"
    unfolding bucket_image_Some using b ex_he_size by simp
  then have "bucket_read ex_crc ex_fs ex_dir_txn ex_dir_ino 0 = Inr ([ex_he], 0, blk_addr 0 31)"
    unfolding bucket_read_iff [OF ext(1)] using ne by (simp add: ex_dir_run ex_dir_txn_def txn_read_def)
  then show ?thesis using ext ok hd ne by (simp add: dir_at_def ex_dhdr_def ex_bk_def)
qed

lemma ex_hash: "hash_name ex_sip u [0x61] = 0x4000000000000000" "hash_name ex_sip u [0x62] = 0x4000000000000000"
  by (simp_all add: hash_name_def ex_sip_def utf16_char_def)

lemma ex_dt_ok: "dt_ok (hash_name ex_sip (sb_uuid (g_sb ex_fs))) (dt_of ex_dhdr ex_bk)"
  by (simp add: dt_ok_def hash_dir_ok_def dt_entries_def ex_dhdr_def ex_bk_def ex_he_def ex_hash slot_group_def bucket_index_def)


subsection \<open>Listing\<close>

lemma distinct_of_nat_upt: "n \<le> 2 ^ 32 \<Longrightarrow> distinct (map (of_nat :: nat \<Rightarrow> u32) [0..<n])"
  by (auto simp: distinct_map inj_on_def of_nat_u32_eq)

lemma live_buckets_distinct: "distinct (live_buckets h)"
  unfolding live_buckets_def by (rule distinct_filter, rule distinct_of_nat_upt) (use unat_bound [of "dh_nbuckets h"] in simp)

lemma distinct_concat_names:
  assumes "distinct bs" and "\<forall>b\<in>set bs. distinct (map f (F b))"
    and "\<And>b c x y. b \<in> set bs \<Longrightarrow> c \<in> set bs \<Longrightarrow> x \<in> set (F b) \<Longrightarrow> y \<in> set (F c) \<Longrightarrow> f x = f y \<Longrightarrow> b = c"
  shows "distinct (map f (concat (map F bs)))"
  using assms
proof (induction bs)
  case (Cons b bs)
  have "distinct (map f (concat (map F bs)))"
    by (rule Cons.IH) (use Cons.prems in \<open>auto intro: Cons.prems(3)\<close>)
  moreover have "f ` set (F b) \<inter> f ` set (concat (map F bs)) = {}"
  proof (rule ccontr)
    assume "f ` set (F b) \<inter> f ` set (concat (map F bs)) \<noteq> {}"
    then obtain c x y where "c \<in> set bs" "x \<in> set (F b)" "y \<in> set (F c)" "f x = f y" by auto
    then show False using Cons.prems(1) Cons.prems(3) [of b c x y] by auto
  qed
  ultimately show ?case using Cons.prems(2) by simp
qed simp

lemma find_iff_distinct:
  assumes "distinct (map f L)"
  shows "find (\<lambda>e. f e = n) L = Some e \<longleftrightarrow> e \<in> set L \<and> f e = n"
    and "find (\<lambda>e. f e = n) L = None \<longleftrightarrow> (\<forall>e\<in>set L. f e \<noteq> n)"
proof -
  show "find (\<lambda>e. f e = n) L = None \<longleftrightarrow> (\<forall>e\<in>set L. f e \<noteq> n)" by (auto simp: find_None_iff)
  show "find (\<lambda>e. f e = n) L = Some e \<longleftrightarrow> e \<in> set L \<and> f e = n"
    using assms by (induction L) (auto simp: image_iff)
qed

lemma dir_list_run:
  assumes d: "dir_at crc g t ino h bk adr" and live: "set (live_buckets h) = set (dh_table h)"
  shows "dir_list crc g t ino = Inr (sort_key de_name (concat (map (\<lambda>b. map he_entry (fst (bk b))) (live_buckets h))))"
proof -
  have "mapR (bucket_read crc g t ino) (live_buckets h) = Inr (map (\<lambda>b. (fst (bk b), snd (bk b), adr b)) (live_buckets h))"
    by (rule mapR_map) (use d live in \<open>simp add: dir_at_def\<close>)
  then show ?thesis
    using d by (simp add: dir_list_def hashed_list_def dir_at_def comp_def Let_def)
qed


section \<open>Properties\<close>



text \<open>C24: A lookup in a hashed directory reads one bucket and agrees with a search of the whole
  listing, which is sorted by name and names nothing twice.\<close>

theorem hashed_lookup_is_search:
  assumes "dir_at crc g t ino h bk adr" and "dt_ok (hash_name sip (sb_uuid (g_sb g))) (dt_of h bk)"
    and "set (live_buckets h) = set (dh_table h)"
  shows "\<exists>L. dir_list crc g t ino = Inr L \<and> sorted (map de_name L) \<and> distinct (map de_name L) \<and>
    (\<forall>n. dir_find sip crc g t ino n = Inr (find (\<lambda>e. de_name e = n) L))"
proof -
  let ?H = "hash_name sip (sb_uuid (g_sb g))" and ?d = "dt_of h bk"
  let ?C = "concat (map (\<lambda>b. fst (bk b)) (live_buckets h))"
  let ?L = "sort_key de_name (map he_entry ?C)"
  have list: "dir_list crc g t ino = Inr ?L"
    using dir_list_run [OF assms(1,3)] by (simp add: map_concat comp_def)
  have entries: "set ?C = dt_entries ?d" using assms(3) by (auto simp: dt_entries_def)
  have "distinct (map he_name ?C)"
  proof (rule distinct_concat_names [OF live_buckets_distinct])
    show "\<forall>b\<in>set (live_buckets h). distinct (map he_name (fst (bk b)))"
      using assms(2,3) by (auto simp: dt_ok_def)
    fix b c x y
    assume "b \<in> set (live_buckets h)" "c \<in> set (live_buckets h)" "x \<in> set (fst (bk b))" "y \<in> set (fst (bk c))"
      and "he_name x = he_name y"
    moreover from this have "x \<in> dt_entries ?d" "y \<in> dt_entries ?d" using entries by auto
    ultimately show "b = c"
      using assms(2,3) dt_entry_bucket [OF dt_okD [OF assms(2)], of b x] dt_entry_bucket [OF dt_okD [OF assms(2)], of c y]
      by (simp add: dt_ok_def)
  qed
  then have dist: "distinct (map de_name (map he_entry ?C))" by (simp add: he_entry_def comp_def)
  then have distL: "distinct (map de_name ?L)" by (auto simp: distinct_map inj_on_def)
  have "dir_find sip crc g t ino n = Inr (find (\<lambda>e. de_name e = n) ?L)" for n
  proof -
    note run = hashed_find_run [OF assms(1,2), of n] and find = dt_find [OF assms(2), of n]
    show ?thesis
    proof (cases "find (he_match (?H n) n) (dt_bucket ?d (?H n))")
      case None
      then have "\<forall>e\<in>set ?L. de_name e \<noteq> n" using find(2) entries by (auto simp: he_entry_def)
      then have "find (\<lambda>e. de_name e = n) ?L = None" unfolding find_None_iff by blast
      then show ?thesis using run None by simp
    next
      case (Some e)
      then have "he_entry e \<in> set ?L \<and> de_name (he_entry e) = n" using find(1) entries by (auto simp: he_entry_def)
      then have "find (\<lambda>e. de_name e = n) ?L = Some (he_entry e)" unfolding find_iff_distinct(1) [OF distL] .
      then show ?thesis using run Some by simp
    qed
  qed
  then show ?thesis using list distL by (intro exI [of _ ?L]) simp
qed

lemma hashed_lookup_is_search_witness:
  "\<exists>L. dir_list ex_crc ex_fs ex_dir_txn ex_dir_ino = Inr L \<and>
    (\<forall>n. dir_find ex_sip ex_crc ex_fs ex_dir_txn ex_dir_ino n = Inr (find (\<lambda>e. de_name e = n) L))"
proof -
  have "set (live_buckets ex_dhdr) = set (dh_table ex_dhdr)" by (simp add: live_buckets_def ex_dhdr_def)
  from hashed_lookup_is_search [OF ex_dir_at ex_dt_ok this] show ?thesis by blast
qed





text \<open>C27: Removing a name from an embedded directory returns its entry and leaves the others in
  order, switching an emptied directory to the EMPTY format; a name it does not have is an
  error. Neither touches the filesystem.\<close>

theorem embedded_dir_remove:
  assumes "in_format i = FMT_EMBED" and "in_payload i = dir_image es" and "\<forall>e\<in>set es. dirent_ok e"
    and "sum_list (map dirent_size es) \<le> INODE_PAYLOAD"
  shows "if n \<in> de_name ` set es
    then \<exists>as e bs j. es = as @ e # bs \<and> de_name e = n \<and> n \<notin> de_name ` set as \<and>
      dir_remove sip crc i n s = (Inr (e, j), s) \<and> in_format j = (if as @ bs = [] then FMT_EMPTY else FMT_EMBED) \<and>
      dir_parse (in_payload j) = as @ bs
    else dir_remove sip crc i n s = (Inl (NameMsg n '': not found''), s)"
proof (cases "take_out (\<lambda>e. de_name e = n) es")
  case None
  then have "dir_remove sip crc i n s = (Inl (NameMsg n '': not found''), s)"
    using embedded_remove_run [OF assms, of sip crc n s] by (simp only: None option.case)
  moreover have "n \<notin> de_name ` set es" using None unfolding take_out_None by auto
  ultimately show ?thesis by simp
next
  case (Some r)
  obtain e es' where r: "r = (e, es')" by (cases r)
  obtain as bs where s: "es = as @ e # bs" "es' = as @ bs" "de_name e = n" "\<forall>x\<in>set as. de_name x \<noteq> n"
    using take_out_Some [OF Some [unfolded r]] by blast
  let ?j = "i\<lparr>in_payload := dir_image es', in_format := (if es' = [] then FMT_EMPTY else FMT_EMBED)\<rparr>"
  have "dir_remove sip crc i n s = (Inr (e, ?j), s)"
    using embedded_remove_run [OF assms, of sip crc n s] by (simp only: Some r option.case prod.case)
  moreover have "dir_parse (in_payload ?j) = es'"
    using assms(3) dir_parse_image [of es'] s by simp
  ultimately have "es = as @ e # bs \<and> de_name e = n \<and> n \<notin> de_name ` set as \<and>
      dir_remove sip crc i n s = (Inr (e, ?j), s) \<and> in_format ?j = (if as @ bs = [] then FMT_EMPTY else FMT_EMBED) \<and>
      dir_parse (in_payload ?j) = as @ bs"
    using s by auto
  moreover have "n \<in> de_name ` set es" using s by auto
  ultimately show ?thesis by auto
qed

lemma embedded_dir_remove_witness:
  "\<exists>as e bs j. [\<lparr>de_ino = 9, de_ftype = DT_FILE, de_name = [0x62]\<rparr>] = as @ e # bs \<and>
     dir_remove ex_sip ex_crc (inode_default\<lparr>in_format := FMT_EMBED,
       in_payload := dir_image [\<lparr>de_ino = 9, de_ftype = DT_FILE, de_name = [0x62]\<rparr>]\<rparr>) [0x62] (ex_fs, []) = (Inr (e, j), (ex_fs, [])) \<and>
     in_format j = (if as @ bs = [] then FMT_EMPTY else FMT_EMBED)"
proof -
  let ?es = "[\<lparr>de_ino = 9, de_ftype = DT_FILE, de_name = [0x62]\<rparr>]"
  let ?i = "inode_default\<lparr>in_format := FMT_EMBED, in_payload := dir_image ?es\<rparr>"
  have i: "in_format ?i = FMT_EMBED" "in_payload ?i = dir_image ?es" by simp_all
  have ok: "\<forall>e\<in>set ?es. dirent_ok e"
    by (simp add: dirent_ok_def rstring_ok_def scalar_def utf16_char_def)
  have size: "sum_list (map dirent_size ?es) \<le> INODE_PAYLOAD"
    by (simp add: dirent_size_def utf16_char_def)
  have "[0x62] \<in> de_name ` set ?es" by simp
  with embedded_dir_remove [OF i ok size, of "[0x62]" ex_sip ex_crc "(ex_fs, [])"] show ?thesis by (simp only: if_True) blast
qed

end
