(* ===== verification/Fuse.thy ===== *)
theory Fuse
  imports Namespace
begin

text \<open>
  \<open>src/bin/mount5fs.rs\<close>: the FUSE server, which turns the requests of the kernel into operations
  of the filesystem and their results into replies. The \<open>fuser\<close> and \<open>libc\<close> crates are outside:
  a reply is a value, an errno a constructor, the reply buffer of \<open>readdir\<close> a parameter. A file
  name is \<open>None\<close> when it is not UTF-8 (\<open>OsStr::to_str\<close>). A \<open>SystemTime\<close> is a number of
  nanoseconds since the epoch.
\<close>

unbundle bit_operations_syntax

subsection \<open>Error numbers\<close>

datatype errno = ENOENT | EEXIST | ENOTEMPTY | ENOTDIR | EISDIR | ENOSPC | ENAMETOOLONG | EIO | EROFS | EINVAL

text \<open>
  The text of an error. Placeholders of a literal message stand for numbers, which hold none of
  the phrases looked for; the text of an I/O error is the operating system's and holds none either.
\<close>

definition chars :: "string \<Rightarrow> rstring" where
  "chars s = map of_char s"

fun err_text :: "error \<Rightarrow> rstring" where
  "err_text (Msg m) = chars m"
| "err_text (NameMsg n m) = n @ chars m"
| "err_text e = []"

text \<open>\<open>str::contains\<close>\<close>

fun has_text :: "rstring \<Rightarrow> rstring \<Rightarrow> bool" where
  "has_text [] p \<longleftrightarrow> p = []"
| "has_text (c # s) p \<longleftrightarrow> take (length p) (c # s) = p \<or> has_text s p"

definition errno :: "error \<Rightarrow> errno" where
  "errno e =
     (let m = err_text e in
      if has_text m (chars ''no such file'') then ENOENT
      else if has_text m (chars ''already exists'') then EEXIST
      else if has_text m (chars ''not empty'') then ENOTEMPTY
      else if has_text m (chars ''not a directory'') then ENOTDIR
      else if has_text m (chars ''is a directory'') then EISDIR
      else if has_text m (chars ''out of space'') \<or> has_text m (chars ''no room'') then ENOSPC
      else if has_text m (chars ''name too long'') then ENAMETOOLONG
      else EIO)"

subsection \<open>Times and attributes\<close>

datatype time_or_now = Now | SpecificTime int

abbreviation NSEC :: int where "NSEC \<equiv> 1000000000"

definition to_ts :: "ts \<Rightarrow> time_or_now \<Rightarrow> ts" where
  "to_ts now t =
     (case t of Now \<Rightarrow> now
      | SpecificTime n \<Rightarrow>
          if 0 \<le> n then \<lparr>ts_sec = of_int (n div NSEC), ts_nsec = of_int (n mod NSEC)\<rparr> else ts_default)"

text \<open>\<open>UNIX_EPOCH + Duration::new(sec, nsec)\<close> panics past the last second of an \<open>i64\<close>.\<close>

definition sys_time :: "ts \<Rightarrow> int result" where
  "sys_time t =
     (if 0 \<le> sint (ts_sec t)
      then let n = sint (ts_sec t) * NSEC + uint (ts_nsec t) in guardR (n div NSEC < 2 ^ 63) Panic (Inr n)
      else Inr 0)"

datatype file_type = Directory | Symlink | RegularFile

record file_attr =
  fa_ino :: u64
  fa_size :: u64
  fa_blocks :: u64
  fa_atime :: int
  fa_mtime :: int
  fa_ctime :: int
  fa_crtime :: int
  fa_kind :: file_type
  fa_perm :: u16
  fa_nlink :: u32
  fa_uid :: u32
  fa_gid :: u32
  fa_rdev :: u32
  fa_blksize :: u32
  fa_flags :: u32

abbreviation FUSE_ROOT :: u64 where "FUSE_ROOT \<equiv> 1"

definition real_ino :: "gofs \<Rightarrow> u64 \<Rightarrow> u64" where
  "real_ino g fuse_ino = (if fuse_ino = FUSE_ROOT then sb_root_ino (g_sb g) else fuse_ino)"

definition mode_kind :: "u16 \<Rightarrow> file_type" where
  "mode_kind m = (let k = m AND 0xF000 in if k = 0x4000 then Directory else if k = 0xA000 then Symlink else RegularFile)"

definition fuse_attr :: "gofs \<Rightarrow> u64 \<Rightarrow> inode \<Rightarrow> file_attr result" where
  "fuse_attr g fuse_ino i =
     tryR (sys_time (in_atime i)) (\<lambda>a.
     tryR (sys_time (in_mtime i)) (\<lambda>m.
     tryR (sys_time (in_ctime i)) (\<lambda>c.
     tryR (sys_time (in_btime i)) (\<lambda>b.
     Inr \<lparr>fa_ino = fuse_ino, fa_size = in_size i, fa_blocks = div_up (in_size i) 512, fa_atime = a, fa_mtime = m,
       fa_ctime = c, fa_crtime = b, fa_kind = mode_kind (in_mode i), fa_perm = in_mode i AND 0xFFF,
       fa_nlink = in_nlink i, fa_uid = in_uid i, fa_gid = in_gid i, fa_rdev = 0,
       fa_blksize = sb_blocksize (g_sb g), fa_flags = 0\<rparr>))))"

subsection \<open>Replies\<close>

record fuse =
  fu_fs :: gofs
  fu_rw :: bool

text \<open>A panic, or a loop that does not end, gives no reply.\<close>

datatype 'a reply = Reply 'a | Errno errno | NoReply error

type_synonym 'a handler = "fuse \<Rightarrow> 'a reply \<times> fuse"

text \<open>The reply to the result of a call: \<open>ok\<close> of its value, or the errno \<open>er\<close> gives its error.\<close>

definition reply_to :: "'a result \<Rightarrow> ('a \<Rightarrow> 'b reply) \<Rightarrow> (error \<Rightarrow> errno) \<Rightarrow> 'b reply" where
  "reply_to r ok er = (case r of Inr x \<Rightarrow> ok x | Inl e \<Rightarrow> if is_err e then Errno (er e) else NoReply e)"

definition asks :: "(gofs \<Rightarrow> 'a reply) \<Rightarrow> 'a handler" where
  "asks f s = (f (fu_fs s), s)"

definition runs :: "(gofs, 'a) operation \<Rightarrow> (gofs \<Rightarrow> 'a \<Rightarrow> 'b reply) \<Rightarrow> (error \<Rightarrow> errno) \<Rightarrow> 'b handler" where
  "runs op ok er s = (case op (fu_fs s) of (r, g) \<Rightarrow> (reply_to r (ok g) er, s\<lparr>fu_fs := g\<rparr>))"

definition if_rw :: "'a handler \<Rightarrow> 'a handler" where
  "if_rw h s = (if fu_rw s then h s else (Errno EROFS, s))"

definition named :: "rstring option \<Rightarrow> errno \<Rightarrow> (rstring \<Rightarrow> 'a handler) \<Rightarrow> 'a handler" where
  "named n e h s = (case n of None \<Rightarrow> (Errno e, s) | Some x \<Rightarrow> h x s)"

definition reply_attr :: "gofs \<Rightarrow> u64 \<Rightarrow> inode \<Rightarrow> file_attr reply" where
  "reply_attr g ino i = reply_to (fuse_attr g ino i) Reply (\<lambda>_. EIO)"

definition reply_entry :: "crc_fun \<Rightarrow> gofs \<Rightarrow> u64 \<Rightarrow> file_attr reply" where
  "reply_entry crc g ino = reply_to (read_inode crc g ino) (reply_attr g ino) (\<lambda>_. EIO)"

subsection \<open>Requests that read\<close>

definition fuse_lookup :: "hash_fun \<Rightarrow> crc_fun \<Rightarrow> u64 \<Rightarrow> rstring option \<Rightarrow> file_attr handler" where
  "fuse_lookup sip crc parent name =
     named name ENOENT (\<lambda>n. asks (\<lambda>g.
       reply_to (dir_lookup sip crc g (real_ino g parent) n)
         (\<lambda>r. case r of Some ino \<Rightarrow> reply_entry crc g ino | None \<Rightarrow> Errno ENOENT) (\<lambda>_. ENOTDIR)))"

definition fuse_getattr :: "crc_fun \<Rightarrow> u64 \<Rightarrow> file_attr handler" where
  "fuse_getattr crc ino = asks (\<lambda>g. reply_to (read_inode crc g (real_ino g ino)) (reply_attr g ino) (\<lambda>_. ENOENT))"

definition fuse_readlink :: "crc_fun \<Rightarrow> u64 \<Rightarrow> buffer handler" where
  "fuse_readlink crc ino = asks (\<lambda>g. reply_to (readlink crc g (real_ino g ino)) (\<lambda>t. Reply (utf8_bytes t)) errno)"

text \<open>\<open>offset.max(0) as u64\<close>\<close>

definition file_offset :: "i64 \<Rightarrow> u64" where
  "file_offset off = (if 0 \<le> sint off then off else 0)"

definition fuse_read :: "crc_fun \<Rightarrow> u64 \<Rightarrow> i64 \<Rightarrow> u32 \<Rightarrow> buffer handler" where
  "fuse_read crc ino off sz =
     asks (\<lambda>g. reply_to (read_at crc g (real_ino g ino) (file_offset off) (ucast sz)) Reply errno)"

text \<open>The listing with \<open>.\<close> and \<open>..\<close>, each entry with the offset that follows it.\<close>

definition fuse_listing :: "u64 \<Rightarrow> dir_entry list \<Rightarrow> (i64 \<times> u64 \<times> file_type \<times> rstring) list" where
  "fuse_listing ino entries =
     (let all = [(ino, Directory, [DOT]), (FUSE_ROOT, Directory, [DOT, DOT])] @
        map (\<lambda>e. (de_ino e, if de_ftype e = DT_DIR then Directory else RegularFile, de_name e)) entries
      in map (\<lambda>(i, x). (of_nat (i + 1), x)) (enumerate 0 all))"

text \<open>\<open>add\<close> is \<open>ReplyDirectory::add\<close> on the reply buffer; it tells whether the buffer is full.\<close>

fun add_entries :: "('b \<Rightarrow> i64 \<times> u64 \<times> file_type \<times> rstring \<Rightarrow> bool \<times> 'b) \<Rightarrow> 'b \<Rightarrow>
    (i64 \<times> u64 \<times> file_type \<times> rstring) list \<Rightarrow> 'b" where
  "add_entries add buf [] = buf"
| "add_entries add buf (x # xs) = (case add buf x of (full, buf) \<Rightarrow> if full then buf else add_entries add buf xs)"

definition fuse_readdir :: "crc_fun \<Rightarrow> ('b \<Rightarrow> i64 \<times> u64 \<times> file_type \<times> rstring \<Rightarrow> bool \<times> 'b) \<Rightarrow> 'b \<Rightarrow> u64 \<Rightarrow> i64
    \<Rightarrow> 'b handler" where
  "fuse_readdir crc add buf ino off =
     asks (\<lambda>g. reply_to (dir_entries crc g (real_ino g ino))
       (\<lambda>es. Reply (add_entries add buf (drop (unat off) (fuse_listing ino es)))) (\<lambda>_. ENOTDIR))"

subsection \<open>Requests that write\<close>

definition fuse_setattr :: "crc_fun \<Rightarrow> clock \<Rightarrow> clock \<Rightarrow> u64 \<Rightarrow> u32 option \<Rightarrow> u32 option \<Rightarrow> u32 option \<Rightarrow> u64 option
    \<Rightarrow> time_or_now option \<Rightarrow> time_or_now option \<Rightarrow> file_attr handler" where
  "fuse_setattr crc tm nw ino mode uid gid sz atime mtime =
     if_rw (\<lambda>s. runs
       (setattr crc nw (real_ino (fu_fs s) ino) (map_option ucast mode) uid gid sz
         (map_option (to_ts (tm 0)) atime) (map_option (to_ts (tm 1)) mtime))
       (\<lambda>g i. reply_attr g ino i) errno s)"

definition fuse_mkdir :: "hash_fun \<Rightarrow> crc_fun \<Rightarrow> clock \<Rightarrow> u64 \<Rightarrow> rstring option \<Rightarrow> u32 \<Rightarrow> file_attr handler" where
  "fuse_mkdir sip crc nw parent name mode =
     if_rw (named name EINVAL (\<lambda>n s.
       runs (mkdir_at sip crc nw (real_ino (fu_fs s) parent) n (ucast mode)) (reply_entry crc) errno s))"

definition fuse_create :: "hash_fun \<Rightarrow> crc_fun \<Rightarrow> clock \<Rightarrow> u64 \<Rightarrow> rstring option \<Rightarrow> u32 \<Rightarrow> file_attr handler" where
  "fuse_create sip crc nw parent name mode =
     if_rw (named name EINVAL (\<lambda>n s.
       runs (create_at sip crc nw (real_ino (fu_fs s) parent) n (ucast mode))
         (\<lambda>g ino. reply_to (read_inode crc g ino) (reply_attr g ino) (\<lambda>_. EIO)) errno s))"

definition fuse_unlink :: "hash_fun \<Rightarrow> crc_fun \<Rightarrow> clock \<Rightarrow> u64 \<Rightarrow> rstring option \<Rightarrow> unit handler" where
  "fuse_unlink sip crc nw parent name =
     if_rw (named name ENOENT (\<lambda>n s.
       runs (unlink_at sip crc nw (real_ino (fu_fs s) parent) n) (\<lambda>_. Reply) errno s))"

definition fuse_rmdir :: "hash_fun \<Rightarrow> crc_fun \<Rightarrow> clock \<Rightarrow> u64 \<Rightarrow> rstring option \<Rightarrow> unit handler" where
  "fuse_rmdir sip crc nw parent name =
     if_rw (named name ENOENT (\<lambda>n s.
       runs (rmdir_at sip crc nw (real_ino (fu_fs s) parent) n) (\<lambda>_. Reply) errno s))"

definition fuse_symlink :: "hash_fun \<Rightarrow> crc_fun \<Rightarrow> clock \<Rightarrow> u64 \<Rightarrow> rstring option \<Rightarrow> rstring option \<Rightarrow> file_attr handler" where
  "fuse_symlink sip crc nw parent link_name target =
     if_rw (named link_name EINVAL (\<lambda>n. named target EINVAL (\<lambda>t s.
       runs (symlink_at sip crc nw (real_ino (fu_fs s) parent) n t) (reply_entry crc) errno s)))"

definition fuse_rename :: "hash_fun \<Rightarrow> crc_fun \<Rightarrow> clock \<Rightarrow> u64 \<Rightarrow> rstring option \<Rightarrow> u64 \<Rightarrow> rstring option \<Rightarrow> unit handler" where
  "fuse_rename sip crc nw parent name newparent newname =
     if_rw (named name EINVAL (\<lambda>n1. named newname EINVAL (\<lambda>n2 s.
       runs (rename_at sip crc nw (real_ino (fu_fs s) parent) n1 (real_ino (fu_fs s) newparent) n2) (\<lambda>_. Reply) errno s)))"

definition fuse_link :: "hash_fun \<Rightarrow> crc_fun \<Rightarrow> clock \<Rightarrow> u64 \<Rightarrow> u64 \<Rightarrow> rstring option \<Rightarrow> file_attr handler" where
  "fuse_link sip crc nw ino newparent newname =
     if_rw (named newname EINVAL (\<lambda>n s.
       let real = real_ino (fu_fs s) ino in
       runs (link_at sip crc nw real (real_ino (fu_fs s) newparent) n) (\<lambda>g _. reply_entry crc g real) errno s))"

definition fuse_write :: "crc_fun \<Rightarrow> clock \<Rightarrow> u64 \<Rightarrow> i64 \<Rightarrow> buffer \<Rightarrow> u32 handler" where
  "fuse_write crc nw ino off dat =
     if_rw (\<lambda>s. runs (write_at crc nw (real_ino (fu_fs s) ino) (file_offset off) dat) (\<lambda>_ n. Reply (of_nat n)) errno s)"

definition fuse_fsync :: "unit handler" where
  "fuse_fsync = runs (onDev dv_sync) (\<lambda>_. Reply) (\<lambda>_. EIO)"

end
