(* ===== verification/Mkfs.thy ===== *)
theory Mkfs
  imports Files
begin

text \<open>
  \<open>src/mkfs.rs\<close>: creating a filesystem, for the validation of the options, the division of the
  device into AGs, the metadata of every AG (with the kernel region, the first table arena, the
  inode cell and the root inode in AG 0), the two AG map copies, the empty journal and the two
  superblocks. The new UUID and the clock reading are arguments. The file at the path is the one
  the operating system found or made there.
\<close>

unbundle bit_operations_syntax

subsection \<open>Options\<close>

record mkfs_opts =
  mo_size :: "u64 option"
  mo_blocksize :: u32
  mo_inodesize :: u16
  mo_journal :: "u64 option"
  mo_label :: rstring
  mo_kernel :: "buffer option"

record mkfs_summary =
  ms_size :: u64
  ms_blocks :: u64
  ms_ags :: u32
  ms_journal_blocks :: u64
  ms_root_ino :: u64
  ms_free_blocks :: u64
  ms_kernel_offset :: u64

definition mkfs_opts_default :: mkfs_opts where
  "mkfs_opts_default = \<lparr>mo_size = None, mo_blocksize = 4096, mo_inodesize = 256, mo_journal = None,
     mo_label = [], mo_kernel = None\<rparr>"

abbreviation MAX_AG_BYTES :: u64 where "MAX_AG_BYTES \<equiv> 0x1000000000"
abbreviation AGMAP_BYTES :: u64 where "AGMAP_BYTES \<equiv> 0x10000"

definition KERNEL_NAME :: rstring where
  "KERNEL_NAME = [0x6B, 0x65, 0x72, 0x6E, 0x65, 0x6C, 0x2E, 0x62, 0x69, 0x6E]"

definition mkfs_check :: "mkfs_opts \<Rightarrow> unit result" where
  "mkfs_check opts =
     (let bs = mo_blocksize opts; isz = ucast (mo_inodesize opts) :: u32 in
      if \<not> is_power_of_two bs \<or> bs < 2048 then Inl (Msg ''blocksize must be a power of two >= 2048'')
      else if \<not> is_power_of_two isz \<or> isz < 128 \<or> bs < isz
      then Inl (Msg ''inodesize must be a power of two, 128 <= inodesize <= blocksize'')
      else if of_nat ALLOC_FANOUT < bs div isz
      then Inl (Msg ''blocksize/inodesize must be <= {ALLOC_FANOUT} (slot record limit)'')
      else Inr ())"

definition mkfs_device :: "mkfs_opts \<Rightarrow> vfile \<Rightarrow> device result" where
  "mkfs_device opts f =
     (case mo_size opts of
        Some s \<Rightarrow> dv_create f (s - s mod ucast (mo_blocksize opts))
      | None \<Rightarrow> Inr (dv_open f True))"

text \<open>The quantities the rest of the function works with.\<close>

record mk_plan =
  pl_bs :: u64
  pl_blocksize :: u32
  pl_inodesize :: u16
  pl_slots :: u32
  pl_total :: u64
  pl_journal :: u64
  pl_agmap :: u64
  pl_kernel :: "buffer option"
  pl_klen :: u64
  pl_kblocks :: u64

definition journal_bytes :: "u64 option \<Rightarrow> u64 \<Rightarrow> u64" where
  "journal_bytes j sz = (case j of Some b \<Rightarrow> b | None \<Rightarrow> min 0x8000000 (max (sz div 16) 0x400000))"

definition mk_plan_of :: "mkfs_opts \<Rightarrow> u64 \<Rightarrow> mk_plan" where
  "mk_plan_of opts sz =
     (let bs = ucast (mo_blocksize opts) :: u64; klen = (case mo_kernel opts of None \<Rightarrow> 0 | Some k \<Rightarrow> of_nat (length k))
      in \<lparr>pl_bs = bs, pl_blocksize = mo_blocksize opts, pl_inodesize = mo_inodesize opts,
          pl_slots = mo_blocksize opts div ucast (mo_inodesize opts), pl_total = sz div bs,
          pl_journal = div_up (journal_bytes (mo_journal opts) sz) bs, pl_agmap = div_up AGMAP_BYTES bs,
          pl_kernel = mo_kernel opts, pl_klen = klen, pl_kblocks = div_up klen bs\<rparr>)"

text \<open>The lengths of the AGs; a rest too small for an AG of its own goes to the last one.\<close>

fun split_ags :: "nat \<Rightarrow> u64 \<Rightarrow> u64 \<Rightarrow> u32 list result" where
  "split_ags 0 max_blocks remaining = Inl Diverges"
| "split_ags (Suc fuel) max_blocks remaining =
     (if remaining = 0 then Inr []
      else
        let len = min remaining max_blocks in
        if 0 < remaining - len \<and> remaining - len < 1024 then Inr [ucast remaining]
        else tryR (split_ags fuel max_blocks (remaining - len)) (\<lambda>ls. Inr (ucast len # ls)))"

definition ag_lengths :: "mk_plan \<Rightarrow> u32 list result" where
  "ag_lengths p = split_ags (unat (pl_total p) + 1) (MAX_AG_BYTES div pl_bs p) (pl_total p)"

subsection \<open>One AG\<close>

definition sb_proto :: "mkfs_opts \<Rightarrow> buffer \<Rightarrow> u32 \<Rightarrow> u64 \<Rightarrow> superblock" where
  "sb_proto opts uuid ags journal_blocks =
     \<lparr>sb_compat = 0, sb_ro_compat = 0, sb_incompat = 0, sb_blocksize = mo_blocksize opts,
      sb_inodesize = mo_inodesize opts, sb_uuid = uuid,
      sb_disk_name = (let us = take 16 (encode_utf16 (mo_label opts)) in us @ replicate (16 - length us) 0),
      sb_root_ino = 0, sb_next_ag = ags, sb_agmap_offset = 0, sb_agmap_length = AGMAP_BYTES,
      sb_journal_start = 0, sb_journal_length = journal_blocks, sb_kernel_offset = 0, sb_kernel_end = 0,
      sb_free_blocks = 0, sb_rsvd_blocks = 0, sb_full_blocks = 0, sb_gen = 1, sb_journal_seq = 1,
      sb_journal_head = 0\<rparr>"

text \<open>
  The fixed metadata of AG 0: the AG map copies, the journal and the kernel region. With the
  superblock come the first block past them and the first kernel block.
\<close>

definition head_layout :: "mk_plan \<Rightarrow> u32 \<Rightarrow> u64 \<Rightarrow> u32 \<Rightarrow> superblock \<Rightarrow> (u32 \<times> u32 \<times> superblock) result" where
  "head_layout p ag_len dev_off nxt sb =
     (let sb = sb\<lparr>sb_agmap_offset := dev_off + ucast nxt * pl_bs p\<rparr>;
          nxt = nxt + ucast (2 * pl_agmap p);
          sb = sb\<lparr>sb_journal_start := blk_addr 0 nxt\<rparr>;
          nxt = nxt + ucast (pl_journal p);
          (kstart, sb, nxt) =
            (if 0 < pl_kblocks p
             then let off = ucast nxt * pl_bs p
                  in (nxt, sb\<lparr>sb_kernel_offset := off, sb_kernel_end := off + pl_klen p\<rparr>, nxt + ucast (pl_kblocks p))
             else (0, sb, nxt))
      in if ucast ag_len \<le> (ucast nxt :: u64) + 3 * of_nat CELL_BLOCKS
         then Inl (Msg ''device too small for journal/kernel + metadata; use --journal-size'')
         else Inr (nxt, kstart, sb))"

text \<open>The root table with its reserved cells: the head, a partial last cell, and in AG 0 the last cell.\<close>

definition head_table :: "mk_plan \<Rightarrow> u32 \<Rightarrow> u32 \<Rightarrow> nat \<Rightarrow> nat \<Rightarrow> nat \<Rightarrow> (buffer \<times> nat) result" where
  "head_table p ag ag_len cells rt_blocks head =
     (let zeros = replicate (rt_blocks * unat (pl_bs p)) 0 in
      guardR (head \<le> 4 * length zeros) Panic
        (let table = fold (\<lambda>c t. cell_set t c CELL_RSVD) [0..<head] zeros;
             (table, rsvd) =
               (if unat ag_len mod CELL_BLOCKS \<noteq> 0 \<and> cell_get table (cells - 1) = CELL_FREE
                then (cell_set table (cells - 1) CELL_RSVD, head + 1) else (table, head))
         in Inr (if ag = 0 \<and> cell_get table (cells - 1) = CELL_FREE
                 then (cell_set table (cells - 1) CELL_RSVD, rsvd + 1) else (table, rsvd))))"

text \<open>The first arena block of AG 0: records 0 to 2 refine the inode cell down to its first block.\<close>

definition arena_block :: "crc_fun \<Rightarrow> mk_plan \<Rightarrow> u32 \<Rightarrow> buffer" where
  "arena_block crc p arena =
     (let buf = put_u32 (put_bytes (replicate (unat (pl_bs p)) 0) 0 ALLOC_MAGIC) 16 7;
          r0 = REC_SIZE; r1 = 2 * REC_SIZE; r2 = 3 * REC_SIZE;
          buf = put_bytes buf r0 (cell_set (get_bytes buf r0 4) 0 CELL_REFINED);
          buf = put_u16 (put_u32 buf (r0 + 4) arena) (r0 + 8) 1;
          buf = put_bytes buf r1 (cell_set (get_bytes buf r1 4) 0 CELL_REFINED);
          buf = put_u16 (put_u32 buf (r1 + 4) arena) (r1 + 8) 2;
          buf = put_bytes buf r2 (cell_set (get_bytes buf r2 4) 0 CELL_FULL);
          buf = (if 0 < pl_kblocks p then put_bytes buf r2 (cell_set (get_bytes buf r2 4) 1 CELL_FULL) else buf)
      in seal crc buf)"

definition inode_cell :: "crc_fun \<Rightarrow> mk_plan \<Rightarrow> u64 \<Rightarrow> nat \<Rightarrow> nat \<Rightarrow> buffer \<Rightarrow> (device, buffer \<times> u32 \<times> u32) operation" where
  "inode_cell crc p dev_off cells head table =
     bindS (ensureS (head + 2 < cells) (Msg ''AG 0 too small for inode metadata'')) (\<lambda>_.
     let arena = of_nat (head * CELL_BLOCKS) :: u32; ino_hint = of_nat ((head + 1) * CELL_BLOCKS) :: u32;
         table = cell_set (cell_set table head CELL_RSVD) (head + 1) CELL_REFINED;
         roff = rt_ref_off cells (head + 1)
     in bindS (ensureS (roff + 6 \<le> length table) Panic) (\<lambda>_.
        bindS (dv_pwrite (arena_block crc p arena) (dev_off + ucast arena * pl_bs p)) (\<lambda>_.
        retS (put_u16 (put_u32 table roff arena) (roff + 4) 0, ino_hint, arena))))"

text \<open>The root inode, and the kernel with its inode and directory entry.\<close>

definition fresh_inode :: "ts \<Rightarrow> inode" where
  "fresh_inode now = inode_default\<lparr>in_atime := now, in_mtime := now, in_ctime := now, in_btime := now\<rparr>"

definition put_kernel :: "crc_fun \<Rightarrow> mk_plan \<Rightarrow> ts \<Rightarrow> u64 \<Rightarrow> u32 \<Rightarrow> u32 \<Rightarrow> u64 \<Rightarrow> buffer \<Rightarrow> inode \<Rightarrow> (device, inode) operation" where
  "put_kernel crc p now dev_off kstart ino_hint root_ino kdata root =
     (let ki = (fresh_inode now)\<lparr>in_format := FMT_EXTENT, in_mode := 0x81A4, in_nlink := 1,
            in_flags := INODE_FLAG_IMMUTABLE, in_size := pl_klen p, in_nblocks := pl_kblocks p\<rparr>
      in bindS (dv_pwrite (pad kdata (unat (pl_kblocks p * pl_bs p) - length kdata)) (dev_off + ucast kstart * pl_bs p)) (\<lambda>_.
         bindS (askS (\<lambda>d. extents_store
           [\<lparr>ex_file_block = 0, ex_blk = blk_addr 0 kstart, ex_blocks = ucast (pl_kblocks p)\<rparr>])) (\<lambda>pay.
         bindS (dv_pwrite (in_to_bytes crc (ki\<lparr>in_payload := pay\<rparr>))
           (dev_off + ucast ino_hint * pl_bs p + ucast (pl_inodesize p))) (\<lambda>_.
         bindS (askS (\<lambda>d. dir_append (in_payload root)
           \<lparr>de_ino = root_ino + 1, de_ftype = DT_FILE, de_name = KERNEL_NAME\<rparr>)) (\<lambda>rp.
         retS (root\<lparr>in_format := FMT_EMBED, in_payload := rp\<rparr>))))))"

definition put_root :: "crc_fun \<Rightarrow> mk_plan \<Rightarrow> ts \<Rightarrow> u64 \<Rightarrow> u32 \<Rightarrow> u32 \<Rightarrow> (device, u64) operation" where
  "put_root crc p now dev_off kstart ino_hint =
     (let root_ino = ino_addr 0 (ino_hint * pl_slots p); at = dev_off + ucast ino_hint * pl_bs p;
          root = (fresh_inode now)\<lparr>in_format := FMT_EMPTY, in_mode := 0x41ED, in_nlink := 2\<rparr>
      in bindS (dv_pwrite (replicate (unat (pl_bs p)) 0) at) (\<lambda>_.
         bindS (case pl_kernel p of None \<Rightarrow> retS root
                | Some k \<Rightarrow> put_kernel crc p now dev_off kstart ino_hint root_ino k root) (\<lambda>root.
         bindS (dv_pwrite (in_to_bytes crc root) at) (\<lambda>_.
         retS root_ino))))"

text \<open>The zeroed fixed blocks, the header and the root table of one AG.\<close>

definition put_meta :: "crc_fun \<Rightarrow> mk_plan \<Rightarrow> u64 \<Rightarrow> u32 \<Rightarrow> u32 \<Rightarrow> ag_header \<Rightarrow> buffer \<Rightarrow> (device, unit) operation" where
  "put_meta crc p dev_off nxt hdr_block hdr table =
     (let bs = unat (pl_bs p); zero = replicate bs 0 in
      bindS (forS (\<lambda>b. dv_pwrite zero (dev_off + of_nat b * pl_bs p)) [0..<unat nxt]) (\<lambda>_.
      bindS (dv_pwrite (put_bytes zero 0 (ah_to_bytes crc hdr)) (dev_off + ucast hdr_block * pl_bs p)) (\<lambda>_.
      forS (\<lambda>i. dv_pwrite (put_bytes zero 0 (get_bytes table (i * bs) bs))
             (dev_off + ucast (ah_alloc_root hdr + of_nat i) * pl_bs p))
        [0..<div_ceil (length table) bs])))"

record mk_state =
  mk_map :: agmap
  mk_off :: u64
  mk_free :: u64
  mk_rsvd :: u64
  mk_full :: u64
  mk_root :: u64
  mk_sb :: superblock

definition mkfs_ag :: "crc_fun \<Rightarrow> ts \<Rightarrow> mk_plan \<Rightarrow> u32 \<times> u32 \<Rightarrow> mk_state \<Rightarrow> (device, mk_state) operation" where
  "mkfs_ag crc now p = (\<lambda>(ag, ag_len) st.
     let (cells, rt_blocks) = rt_geometry ag_len (pl_blocksize p);
         hdr_block = (if ag = 0 then 1 else 0); alloc_root = hdr_block + 1;
         nxt = alloc_root + of_nat rt_blocks; off = mk_off st
     in bindS (askS (\<lambda>d. if ag = 0 then head_layout p ag_len off nxt (mk_sb st) else Inr (nxt, 0, mk_sb st))) (\<lambda>(nxt, kstart, sb).
        let head = div_ceil (unat nxt) CELL_BLOCKS in
        bindS (askS (\<lambda>d. head_table p ag ag_len cells rt_blocks head)) (\<lambda>(table, rsvd).
        bindS (if ag = 0 then inode_cell crc p off cells head table else retS (table, 0, 0)) (\<lambda>(table, ino_hint, arena).
        let rsvd = (if ag = 0 then rsvd + 1 else rsvd); full = (if ag = 0 then 1 else 0) :: u64;
            free_cells = of_nat cells - of_nat rsvd - (if ag = 0 then 1 else 0) :: u64;
            free = free_cells * of_nat CELL_BLOCKS + (if ag = 0 then of_nat CELL_BLOCKS - 1 else 0);
            rsvd_blocks = ucast ag_len - free - full;
            hdr = \<lparr>ah_num = ag, ah_gen = 1, ah_length = ag_len, ah_free_blocks = ucast free,
              ah_rsvd_blocks = ucast rsvd_blocks, ah_full_blocks = ucast full, ah_alloc_root = alloc_root,
              ah_ino_hint = ino_hint, ah_data_hint = of_nat (head * CELL_BLOCKS), ah_tbl_arena = arena\<rparr>
        in bindS (put_meta crc p off nxt hdr_block hdr table) (\<lambda>_.
           bindS (if ag = 0 then put_root crc p now off kstart ino_hint else retS (mk_root st)) (\<lambda>root.
           retS (st\<lparr>
             mk_map := (mk_map st)\<lparr>am_entries := am_entries (mk_map st) @
               [\<lparr>ae_flags = AGF_PRESENT OR (if ag = 0 then AGF_IMMOVABLE else 0), ae_length = ag_len,
                 ae_segs = [\<lparr>sg_block = 0, sg_blocks = ag_len, sg_dev_offset = off\<rparr>]\<rparr>]\<rparr>,
             mk_free := mk_free st + free, mk_rsvd := mk_rsvd st + rsvd_blocks, mk_full := mk_full st + full,
             mk_off := off + ucast ag_len * pl_bs p, mk_root := root, mk_sb := sb\<rparr>)))))))"

subsection \<open>The whole device\<close>

text \<open>The AG map copies, the empty journal and the two superblocks.\<close>

definition mkfs_finish :: "crc_fun \<Rightarrow> mk_plan \<Rightarrow> u32 \<Rightarrow> mk_state \<Rightarrow> (device, superblock) operation" where
  "mkfs_finish crc p len0 st =
     (let sb = mk_sb st; bs = pl_bs p; jstart = sb_journal_start sb AND 0xFFFFFFFF in
      bindS (askS (\<lambda>d. am_to_bytes crc (mk_map st) (unat AGMAP_BYTES))) (\<lambda>bytes.
      bindS (dv_pwrite bytes (sb_agmap_offset sb)) (\<lambda>_.
      bindS (dv_pwrite bytes (sb_agmap_offset sb + AGMAP_BYTES)) (\<lambda>_.
      bindS (forS (\<lambda>b. dv_pwrite (replicate (unat bs) 0) ((jstart + of_nat b) * bs)) [0..<unat (pl_journal p)]) (\<lambda>_.
      let sb = sb\<lparr>sb_root_ino := mk_root st, sb_free_blocks := mk_free st, sb_rsvd_blocks := mk_rsvd st,
            sb_full_blocks := mk_full st\<rparr>;
          sb_bytes = sb_to_bytes crc sb
      in bindS (dv_pwrite sb_bytes 0) (\<lambda>_.
         bindS (dv_pwrite sb_bytes ((ucast len0 - 1) * bs)) (\<lambda>_.
         bindS dv_sync (\<lambda>_.
         retS sb))))))))"

definition mkfs_on :: "crc_fun \<Rightarrow> ts \<Rightarrow> buffer \<Rightarrow> mkfs_opts \<Rightarrow> (device, mkfs_summary) operation" where
  "mkfs_on crc now uuid opts =
     bindS (askS (\<lambda>d. Inr (dv_size d - dv_size d mod ucast (mo_blocksize opts)))) (\<lambda>sz.
     bindS (ensureS (8 * 2 ^ 20 \<le> sz) (Msg ''device too small ({size} bytes); minimum 8 MiB'')) (\<lambda>_.
     let p = mk_plan_of opts sz in
     bindS (askS (\<lambda>d. ag_lengths p)) (\<lambda>lens.
     bindS (foldS (mkfs_ag crc now p) (map (\<lambda>(i, len). (of_nat i, len)) (enumerate 0 lens))
       \<lparr>mk_map = \<lparr>am_gen = 1, am_entries = []\<rparr>, mk_off = 0, mk_free = 0, mk_rsvd = 0, mk_full = 0, mk_root = 0,
        mk_sb = sb_proto opts uuid (of_nat (length lens)) (pl_journal p)\<rparr>) (\<lambda>st.
     bindS (ensureS (lens \<noteq> []) Panic) (\<lambda>_.
     bindS (mkfs_finish crc p (hd lens) st) (\<lambda>sb.
     retS \<lparr>ms_size = sz, ms_blocks = pl_total p, ms_ags = of_nat (length lens),
       ms_journal_blocks = pl_journal p, ms_root_ino = mk_root st, ms_free_blocks = mk_free st,
       ms_kernel_offset = sb_kernel_offset sb\<rparr>))))))"

text \<open>With the result comes the file as it is left.\<close>

definition mkfs :: "crc_fun \<Rightarrow> ts \<Rightarrow> buffer \<Rightarrow> mkfs_opts \<Rightarrow> vfile \<Rightarrow> mkfs_summary result \<times> vfile" where
  "mkfs crc now uuid opts f =
     (case tryR (mkfs_check opts) (\<lambda>_. mkfs_device opts f) of
        Inl e \<Rightarrow> (Inl e, f)
      | Inr d \<Rightarrow> (case mkfs_on crc now uuid opts d of (r, d') \<Rightarrow> (r, dv_file d')))"

end
