(* ===== verification/Fsck.thy ===== *)
theory Fsck
  imports Mkfs
begin

text \<open>
  \<open>src/fsck.rs\<close>: the read-only structural check. A report is three lists of messages; a message
  is the literal text of its format string. An \<open>Err\<close> that the code catches becomes a message,
  a panic ends the check. A \<open>HashMap\<close> is an association list in the order of insertion (the
  code's iteration order is unspecified and decides only the order of messages). \<open>fuel\<close> bounds
  the journal scan and the depth of extent trees, which the code does not bound.
\<close>

unbundle bit_operations_syntax

subsection \<open>Reports and hash maps\<close>

record report =
  rp_errors :: "string list"
  rp_warnings :: "string list"
  rp_info :: "string list"

definition report_default :: report where
  "report_default = \<lparr>rp_errors = [], rp_warnings = [], rp_info = []\<rparr>"

definition rp_err :: "string \<Rightarrow> (report, unit) operation" where
  "rp_err m = modS (\<lambda>r. r\<lparr>rp_errors := rp_errors r @ [m]\<rparr>)"

definition rp_warn :: "string \<Rightarrow> (report, unit) operation" where
  "rp_warn m = modS (\<lambda>r. r\<lparr>rp_warnings := rp_warnings r @ [m]\<rparr>)"

definition rp_note :: "string \<Rightarrow> (report, unit) operation" where
  "rp_note m = modS (\<lambda>r. r\<lparr>rp_info := rp_info r @ [m]\<rparr>)"

definition rp_clean :: "report \<Rightarrow> bool" where
  "rp_clean r \<longleftrightarrow> rp_errors r = []"

text \<open>\<open>match r { Ok(x) => .., Err(_) => .. }\<close> on a value that is not an operation.\<close>

definition matchR :: "'a result \<Rightarrow> ('a \<Rightarrow> ('s, 'b) operation) \<Rightarrow> ('s, 'b) operation \<Rightarrow> ('s, 'b) operation" where
  "matchR r f h = matchS (askS (\<lambda>_. r)) f (\<lambda>_. h)"

definition whenS :: "bool \<Rightarrow> ('s, unit) operation \<Rightarrow> ('s, unit) operation" where
  "whenS b m = (if b then m else retS ())"

fun hm_put :: "'k \<Rightarrow> 'v \<Rightarrow> ('k \<times> 'v) list \<Rightarrow> ('k \<times> 'v) list" where
  "hm_put k v [] = [(k, v)]"
| "hm_put k v ((k', v') # xs) = (if k' = k then (k, v) # xs else (k', v') # hm_put k v xs)"

definition hm_get :: "('k \<times> 'v) list \<Rightarrow> 'k \<Rightarrow> 'v \<Rightarrow> 'v" where
  "hm_get xs k v = (case map_of xs k of None \<Rightarrow> v | Some x \<Rightarrow> x)"

subsection \<open>The refinement tree of one AG\<close>

record tally =
  tl_free :: u64
  tl_rsvd :: u64
  tl_full :: u64
  tl_errs :: "string list"
  tl_used :: "(u32 \<times> u32) list"
  tl_refd :: "(u32 \<times> u32) list"

definition tally_empty :: tally where
  "tally_empty = \<lparr>tl_free = 0, tl_rsvd = 0, tl_full = 0, tl_errs = [], tl_used = [], tl_refd = []\<rparr>"

definition tl_note :: "string \<Rightarrow> (tally, unit) operation" where
  "tl_note m = modS (\<lambda>t. t\<lparr>tl_errs := tl_errs t @ [m]\<rparr>)"

text \<open>The blocks of one child: FREE, RSVD and FULL ones count, the rest is refined further.\<close>

definition tl_count :: "u8 \<Rightarrow> u64 \<Rightarrow> u64 \<Rightarrow> (tally, unit) operation \<Rightarrow> (tally, unit) operation" where
  "tl_count st n tail refined =
     (if st = CELL_FREE then modS (\<lambda>t. t\<lparr>tl_free := tl_free t + n\<rparr>)
      else if st = CELL_RSVD then modS (\<lambda>t. t\<lparr>tl_rsvd := tl_rsvd t + tail\<rparr>)
      else if st = CELL_FULL then modS (\<lambda>t. t\<lparr>tl_full := tl_full t + n\<rparr>)
      else refined)"

definition tally_rec :: "crc_fun \<Rightarrow> gofs \<Rightarrow> u32 \<Rightarrow> tref \<Rightarrow> (tally, buffer option) operation" where
  "tally_rec crc g ag rf =
     matchR (read_block g (blk_addr ag (fst rf))) (\<lambda>buf.
       if get_bytes buf 0 4 \<noteq> ALLOC_MAGIC then bindS (tl_note ''table block {}: bad magic'') (\<lambda>_. retS None)
       else if get_u32 buf 4 \<noteq> csum crc buf 4 then bindS (tl_note ''table block {}: bad checksum'') (\<lambda>_. retS None)
       else
         let used = get_u32 buf 16; bit = push_bit (unat (snd rf) mod 32) 1 :: u32; off = 128 * (1 + unat (snd rf)) in
         bindS (modS (\<lambda>t. t\<lparr>tl_used := hm_put (fst rf) used (tl_used t),
           tl_refd := hm_put (fst rf) (hm_get (tl_refd t) (fst rf) 0 OR bit) (tl_refd t)\<rparr>)) (\<lambda>_.
         bindS (whenS (used AND bit = 0) (tl_note ''table block {} record {}: referenced but not marked used'')) (\<lambda>_.
         bindS (ensureS (off + 128 \<le> length buf) Panic) (\<lambda>_.
         retS (Some (get_bytes buf off 128))))))
     (bindS (tl_note ''table block {}: {e}'') (\<lambda>_. retS None))"

definition check_slot :: "crc_fun \<Rightarrow> buffer \<Rightarrow> nat \<Rightarrow> buffer \<Rightarrow> nat \<Rightarrow> (tally, unit) operation" where
  "check_slot crc buf isz l3rec s =
     (let chunk = get_bytes buf (s * isz) isz; st = rec_state l3rec s in
      bindS (ensureS (s < ALLOC_FANOUT) Panic) (\<lambda>_.
      if st = CELL_FULL then
        matchR (in_parse crc chunk) (\<lambda>_. retS ()) (tl_note ''slot block {local} slot {s}: marked used but {e}'')
      else if st = CELL_FREE then
        whenS (\<not> list_all (\<lambda>b. b = 0) chunk) (tl_note ''slot block {local} slot {s}: marked free but not zeroed'')
      else tl_note ''slot block {local} slot {s}: bad state {st}''))"

definition check_slot_block :: "crc_fun \<Rightarrow> gofs \<Rightarrow> u32 \<Rightarrow> u32 \<Rightarrow> buffer \<Rightarrow> (tally, unit) operation" where
  "check_slot_block crc g ag local l3rec =
     (let isz = unat (sb_inodesize (g_sb g)) in
      bindS (ensureS (isz \<noteq> 0) Panic) (\<lambda>_.
      matchR (read_block g (blk_addr ag local))
        (\<lambda>buf. forS (check_slot crc buf isz l3rec) [0..<g_bs g div isz])
        (tl_note ''slot block {local}: {e}'')))"

definition tally_l1 :: "crc_fun \<Rightarrow> gofs \<Rightarrow> u32 \<Rightarrow> u32 \<Rightarrow> buffer \<Rightarrow> nat \<Rightarrow> (tally, unit) operation" where
  "tally_l1 crc g ag base l1rec j =
     tl_count (rec_state l1rec j) 1 1
       (bindS (modS (\<lambda>t. t\<lparr>tl_full := tl_full t + 1\<rparr>)) (\<lambda>_.
        bindS (tally_rec crc g ag (rec_ref l1rec j)) (\<lambda>r.
        case r of None \<Rightarrow> retS () | Some l3rec \<Rightarrow> check_slot_block crc g ag (base + of_nat j) l3rec)))"

definition tally_l0 :: "crc_fun \<Rightarrow> gofs \<Rightarrow> u32 \<Rightarrow> u32 \<Rightarrow> buffer \<Rightarrow> nat \<Rightarrow> (tally, unit) operation" where
  "tally_l0 crc g ag base l0rec i =
     tl_count (rec_state l0rec i) (of_nat ALLOC_FANOUT) (of_nat ALLOC_FANOUT)
       (bindS (tally_rec crc g ag (rec_ref l0rec i)) (\<lambda>r.
        case r of None \<Rightarrow> retS ()
        | Some l1rec \<Rightarrow> forS (tally_l1 crc g ag (base + of_nat (i * ALLOC_FANOUT)) l1rec) [0..<ALLOC_FANOUT]))"

definition tally_cell :: "crc_fun \<Rightarrow> gofs \<Rightarrow> ag_header \<Rightarrow> nat \<Rightarrow> buffer \<Rightarrow> nat \<Rightarrow> (tally, unit) operation" where
  "tally_cell crc g hdr cells table c =
     (let tail = of_nat (min (unat (ah_length hdr) - c * CELL_BLOCKS) CELL_BLOCKS);
          roff = rt_ref_off cells c
      in tl_count (cell_get table c) (of_nat CELL_BLOCKS) tail
           (bindS (tally_rec crc g (ah_num hdr) (get_u32 table roff, get_u16 table (roff + 4))) (\<lambda>r.
            case r of None \<Rightarrow> retS ()
            | Some l0rec \<Rightarrow>
                forS (tally_l0 crc g (ah_num hdr) (of_nat (c * CELL_BLOCKS)) l0rec) [0..<ALLOC_FANOUT])))"

definition table_leaks :: "tally \<Rightarrow> string list" where
  "table_leaks t = concat (map (\<lambda>(blk, used).
     if used AND NOT (hm_get (tl_refd t) blk 0) \<noteq> 0
     then [''table block {blk}: records {:#x} marked used but unreferenced (leak)''] else []) (tl_used t))"

definition tally_ag :: "crc_fun \<Rightarrow> gofs \<Rightarrow> ag_header \<Rightarrow> tally result" where
  "tally_ag crc g hdr =
     (let cells = fst (rt_geometry (ah_length hdr) (sb_blocksize (g_sb g))) in
      tryR (read_root_table g hdr) (\<lambda>table.
      case forS (tally_cell crc g hdr cells table) [0..<cells] tally_empty of
        (Inl e, _) \<Rightarrow> Inl e
      | (Inr _, t) \<Rightarrow> Inr (t\<lparr>tl_errs := tl_errs t @ table_leaks t\<rparr>)))"

subsection \<open>All AGs\<close>

definition check_counts :: "ag_header \<Rightarrow> tally \<Rightarrow> (report, unit) operation" where
  "check_counts hdr t =
     bindS (forS (\<lambda>m. rp_err ''AG {ag}: {m}'') (tl_errs t)) (\<lambda>_.
     bindS (whenS (tl_free t \<noteq> ucast (ah_free_blocks hdr))
       (rp_err ''AG {ag}: allocator shows {free} free blocks, header says {}'')) (\<lambda>_.
     bindS (whenS (tl_full t \<noteq> ucast (ah_full_blocks hdr))
       (rp_err ''AG {ag}: allocator shows {full} full blocks, header says {}'')) (\<lambda>_.
     whenS (tl_rsvd t \<noteq> ucast (ah_rsvd_blocks hdr))
       (rp_warn ''AG {ag}: allocator shows {rsvd} reserved blocks, header says {}''))))"

definition check_ag :: "crc_fun \<Rightarrow> gofs \<Rightarrow> nat \<times> ag_entry \<Rightarrow> u64 \<Rightarrow> (report, u64) operation" where
  "check_ag crc g = (\<lambda>(i, e) free.
     let ag = of_nat i :: u32 in
     if ae_flags e AND AGF_RETIRED \<noteq> 0 then retS free
     else if ae_flags e AND AGF_PRESENT = 0 then bindS (rp_warn ''AG {ag}: not present and not retired'') (\<lambda>_. retS free)
     else if sum_list (map (\<lambda>s. ucast (sg_blocks s)) (ae_segs e)) \<noteq> (ucast (ae_length e) :: u64)
     then bindS (rp_err ''AG {ag}: map covers {mapped} of {} blocks'') (\<lambda>_. retS free)
     else
       matchR (read_ag_header crc g ag) (\<lambda>hdr.
         bindS (whenS (ah_num hdr \<noteq> ag) (rp_err ''AG {ag}: header claims ag_num {}'')) (\<lambda>_.
         bindS (whenS (ah_length hdr \<noteq> ae_length e) (rp_err ''AG {ag}: header length {} != map length {}'')) (\<lambda>_.
         matchR (tally_ag crc g hdr)
           (\<lambda>t. bindS (check_counts hdr t) (\<lambda>_. retS (free + tl_free t)))
           (bindS (rp_err ''AG {ag}: allocator: {e}'') (\<lambda>_. retS free)))))
       (bindS (rp_err ''AG {ag}: {e}'') (\<lambda>_. retS free)))"

definition check_allocator :: "crc_fun \<Rightarrow> gofs \<Rightarrow> (report, unit) operation" where
  "check_allocator crc g =
     bindS (foldS (check_ag crc g) (enumerate 0 (am_entries (g_map g))) 0) (\<lambda>free.
     whenS (free \<noteq> sb_free_blocks (g_sb g))
       (rp_warn ''superblock free_blocks {} != allocator total {} (advisory field)''))"

subsection \<open>The kernel region\<close>

definition check_kernel_inode :: "gofs \<Rightarrow> u64 \<Rightarrow> inode \<Rightarrow> (report, unit) operation" where
  "check_kernel_inode g len i =
     bindS (whenS (in_flags i AND INODE_FLAG_IMMUTABLE = 0) (rp_err ''kernel.bin: missing immutable flag'')) (\<lambda>_.
     bindS (whenS (in_size i \<noteq> len) (rp_err ''kernel.bin: size {} != superblock kernel length {len}'')) (\<lambda>_.
     case (case extents_parse (in_payload i) of [] \<Rightarrow> None
           | e # _ \<Rightarrow> am_resolve (g_map g) (ex_blk e) (sb_blocksize (g_sb g))) of
       Some phys \<Rightarrow> whenS (phys \<noteq> sb_kernel_offset (g_sb g))
         (rp_err ''kernel.bin extent at phys {phys:#x} but superblock says {:#x}'')
     | None \<Rightarrow> rp_err ''kernel.bin: extent unmapped''))"

definition first_seg :: "gofs \<Rightarrow> ag_segment option" where
  "first_seg g = (case am_entries (g_map g) of [] \<Rightarrow> None | e # _ \<Rightarrow> (case ae_segs e of [] \<Rightarrow> None | s # _ \<Rightarrow> Some s))"

definition check_kernel :: "hash_fun \<Rightarrow> crc_fun \<Rightarrow> gofs \<Rightarrow> (report, unit) operation" where
  "check_kernel sip crc g =
     (let sb = g_sb g; len = sat_sub64 (sb_kernel_end sb) (sb_kernel_offset sb) in
      whenS (sb_kernel_offset sb \<noteq> 0)
        (bindS (rp_note ''kernel: {len} bytes at phys {:#x}'') (\<lambda>_.
         case first_seg g of None \<Rightarrow> retS ()
         | Some s \<Rightarrow>
             let ag0_end = sg_dev_offset s + ucast (sg_blocks s) * bs_of g in
             bindS (whenS (sb_kernel_offset sb < sg_dev_offset s \<or> ag0_end < sb_kernel_end sb)
               (rp_err ''kernel region lies outside AG 0's first segment'')) (\<lambda>_.
             matchR (dir_lookup sip crc g (sb_root_ino sb) KERNEL_NAME) (\<lambda>r.
               case r of
                 Some ino \<Rightarrow> matchR (read_inode crc g ino) (check_kernel_inode g len) (rp_err ''kernel.bin: {e}'')
               | None \<Rightarrow> rp_err ''kernel region exists but kernel.bin is missing from /'')
             (rp_err ''kernel.bin lookup: {e}'')))))"

subsection \<open>Extent trees\<close>

fun check_tree_child :: "crc_fun \<Rightarrow> gofs \<Rightarrow> nat \<Rightarrow> u8 \<times> child \<Rightarrow> u8 \<Rightarrow> string list result" where
  "check_tree_child crc g 0 c level = Inl Diverges"
| "check_tree_child crc g (Suc fuel) (st, blocks, addr) level =
     (if st = CELL_FREE then Inr []
      else if st = CELL_FULL then
        (if blocks = 0 \<or> cov level < ucast blocks then Inr [''FULL child maps {blocks} blocks > coverage {}'']
         else if am_resolve (g_map g) addr (sb_blocksize (g_sb g)) = None
           \<or> am_resolve (g_map g) (addr + ucast blocks - 1) (sb_blocksize (g_sb g)) = None
         then Inr [''run at {addr:#x} not fully mapped''] else Inr [])
      else if st = CELL_REFINED then
        (if level = 0 then Inr [''level-0 child marked refined'']
         else
           (case node_read crc g [] addr of
              Inl e \<Rightarrow> if is_err e then Inr [''{e}''] else Inl e
            | Inr buf \<Rightarrow>
                tryR (mapR (node_at buf) [0..<NODE_FANOUT]) (\<lambda>cs.
                tryR (mapR (\<lambda>c. check_tree_child crc g fuel c (node_level buf)) cs) (\<lambda>ms.
                Inr ((if node_level buf \<noteq> level - 1 then [''node {addr:#x}: level {} under a level-{level} child''] else [])
                  @ concat ms)))))
      else Inr [''bad child state {s}''])"

definition check_mapping :: "crc_fun \<Rightarrow> gofs \<Rightarrow> nat \<Rightarrow> inode \<Rightarrow> string list result" where
  "check_mapping crc g fuel ino =
     (let f = in_format ino; bs = sb_blocksize (g_sb g); p = in_payload ino in
      if f = FMT_EMPTY \<or> f = FMT_EMBED then Inr []
      else if f = FMT_EXTENT then
        Inr (concat (map (\<lambda>e.
          if am_resolve (g_map g) (ex_blk e) bs = None
            \<or> am_resolve (g_map g) (ex_blk e + ucast (ex_blocks e - 1)) bs = None
          then [''extent at {:#x} not fully mapped''] else []) (extents_parse p)))
      else if f = FMT_TREE then
        tryR (mapR (\<lambda>i. check_tree_child crc g fuel (root_state p i, root_child p i) (root_level p)) [0..<ROOT_FANOUT])
          (\<lambda>ms. Inr (concat ms))
      else Inr [''unknown format {f}''])"

subsection \<open>The namespace\<close>

record walk =
  wk_report :: report
  wk_nlinks :: "(u64 \<times> u32) list"
  wk_files :: u64
  wk_dirs :: u64

definition onReport :: "(report, unit) operation \<Rightarrow> (walk, unit) operation" where
  "onReport m w = (case m (wk_report w) of (r, rp) \<Rightarrow> (r, w\<lparr>wk_report := rp\<rparr>))"

definition count_subdirs :: "crc_fun \<Rightarrow> gofs \<Rightarrow> inode \<Rightarrow> u32 result" where
  "count_subdirs crc g ino =
     (case dir_list crc g [] ino of
        Inl e \<Rightarrow> if is_err e then Inr 0 else Inl e
      | Inr es \<Rightarrow> Inr (of_nat (length (filter (\<lambda>e. de_ftype e = DT_DIR) es))))"

definition add_link :: "u64 \<Rightarrow> (walk, unit) operation" where
  "add_link ino = modS (\<lambda>w. w\<lparr>wk_files := wk_files w + 1,
     wk_nlinks := hm_put ino (hm_get (wk_nlinks w) ino 0 + 1) (wk_nlinks w)\<rparr>)"

text \<open>\<open>n\<close> is 65 less the depth: a directory deeper than 64 is taken for a cycle.\<close>

fun walk_dir :: "hash_fun \<Rightarrow> crc_fun \<Rightarrow> gofs \<Rightarrow> nat \<Rightarrow> nat \<Rightarrow> u64 \<Rightarrow> (walk, unit) operation" where
  "walk_dir sip crc g fuel 0 ino = onReport (rp_err ''{path}: directory tree too deep (cycle?)'')"
| "walk_dir sip crc g fuel (Suc n) ino =
     matchR (read_inode crc g ino) (\<lambda>inode.
       if \<not> is_dir inode then onReport (rp_err ''{path}: not a directory'')
       else
         bindS (modS (\<lambda>w. w\<lparr>wk_dirs := wk_dirs w + 1\<rparr>)) (\<lambda>_.
         bindS (matchR (dir_check sip crc g [] inode)
           (forS (\<lambda>m. onReport (rp_err ''{path}: {m}''))) (onReport (rp_err ''{path}: {e}''))) (\<lambda>_.
         bindS (matchR (dir_list crc g [] inode) (\<lambda>es. foldS (\<lambda>ent self_links.
             matchR (read_inode crc g (de_ino ent)) (\<lambda>child.
               if is_dir child then
                 bindS (whenS (de_ftype ent \<noteq> DT_DIR)
                   (onReport (rp_warn ''{cpath}: entry type {} but inode is a directory''))) (\<lambda>_.
                 bindS (askS (\<lambda>w. count_subdirs crc g child)) (\<lambda>k.
                 bindS (modS (\<lambda>w. w\<lparr>wk_nlinks := hm_put (de_ino ent) (2 + k) (wk_nlinks w)\<rparr>)) (\<lambda>_.
                 bindS (walk_dir sip crc g fuel n (de_ino ent)) (\<lambda>_.
                 retS (self_links + 1)))))
               else
                 bindS (add_link (de_ino ent)) (\<lambda>_.
                 bindS (askS (\<lambda>w. check_mapping crc g fuel child)) (\<lambda>ms.
                 bindS (forS (\<lambda>m. onReport (rp_err ''{cpath}: {m}'')) ms) (\<lambda>_.
                 retS self_links))))
             (bindS (onReport (rp_err ''{cpath}: {e}'')) (\<lambda>_. retS self_links))) es (2 :: u32))
           (bindS (onReport (rp_err ''{path}: {e}'')) (\<lambda>_. retS 2))) (\<lambda>self_links.
         modS (\<lambda>w. w\<lparr>wk_nlinks :=
           (case map_of (wk_nlinks w) ino of None \<Rightarrow> hm_put ino self_links (wk_nlinks w) | Some _ \<Rightarrow> wk_nlinks w)\<rparr>)))))
     (onReport (rp_err ''{path}: {e}''))"

definition check_link :: "crc_fun \<Rightarrow> gofs \<Rightarrow> u64 \<times> u32 \<Rightarrow> (report, unit) operation" where
  "check_link crc g = (\<lambda>(ino, expect).
     matchR (read_inode crc g ino)
       (\<lambda>i. whenS (in_nlink i \<noteq> expect) (rp_err ''inode {ino:#x}: nlink {} but {expect} reference(s) found''))
       (rp_err ''inode {ino:#x}: {e}''))"

definition check_namespace :: "hash_fun \<Rightarrow> crc_fun \<Rightarrow> gofs \<Rightarrow> nat \<Rightarrow> (report, unit) operation" where
  "check_namespace sip crc g fuel r =
     (case walk_dir sip crc g fuel 65 (sb_root_ino (g_sb g))
         \<lparr>wk_report = r, wk_nlinks = [], wk_files = 0, wk_dirs = 0\<rparr> of
        (Inl e, w) \<Rightarrow> (Inl e, wk_report w)
      | (Inr _, w) \<Rightarrow>
          bindS (forS (check_link crc g) (wk_nlinks w)) (\<lambda>_.
          rp_note ''namespace: {dirs} directorie(s), {files} file(s)'') (wk_report w))"

subsection \<open>The whole check\<close>

definition check_backup :: "crc_fun \<Rightarrow> gofs \<Rightarrow> (report, unit) operation" where
  "check_backup crc g =
     (case first_seg g of None \<Rightarrow> retS ()
      | Some s \<Rightarrow>
          matchR (dv_pread (g_dev g) SB_SIZE (sg_dev_offset s + (ucast (sg_blocks s) - 1) * bs_of g)) (\<lambda>bak.
            matchR (sb_parse crc bak) (\<lambda>b.
              if sb_uuid b \<noteq> sb_uuid (g_sb g) then rp_err ''backup superblock: UUID mismatch''
              else whenS (sb_gen b \<noteq> sb_gen (g_sb g)) (rp_warn ''backup superblock gen {} != primary {}''))
            (rp_err ''backup superblock: {e}''))
          (rp_err ''backup superblock: unreadable''))"

definition check_agmap :: "gofs \<Rightarrow> u64 result list \<Rightarrow> (report, unit) operation" where
  "check_agmap g status =
     bindS (forS (\<lambda>s. case s of Inr gen \<Rightarrow> rp_note ''ag map copy {i}: valid, gen {gen}''
                      | Inl e \<Rightarrow> rp_warn ''ag map copy {i}: {e}'') status) (\<lambda>_.
     whenS (length (am_entries (g_map g)) \<noteq> unat (sb_next_ag (g_sb g)))
       (rp_warn ''ag map has {} entries, superblock next_ag is {}''))"

definition check_journal :: "crc_fun \<Rightarrow> gofs \<Rightarrow> nat \<Rightarrow> (report, unit) operation" where
  "check_journal crc g fuel =
     matchR (journal_pending crc fuel g)
       (\<lambda>n. if n = 0 then rp_note ''journal: clean (seq {}, head {})''
            else rp_warn ''journal: {n} transaction(s) pending replay (mount rw to apply)'')
       (rp_err ''journal: {e}'')"

definition check_parts :: "hash_fun \<Rightarrow> crc_fun \<Rightarrow> nat \<Rightarrow> gofs \<Rightarrow> u64 result list \<Rightarrow> (report, unit) operation" where
  "check_parts sip crc fuel g status =
     bindS (check_agmap g status) (\<lambda>_.
     bindS (check_backup crc g) (\<lambda>_.
     bindS (check_journal crc g fuel) (\<lambda>_.
     bindS (check_allocator crc g) (\<lambda>_.
     bindS (check_namespace sip crc g fuel) (\<lambda>_.
     check_kernel sip crc g)))))"

definition check_on :: "hash_fun \<Rightarrow> crc_fun \<Rightarrow> nat \<Rightarrow> gofs \<Rightarrow> (report, unit) operation" where
  "check_on sip crc fuel g =
     bindS (askS (\<lambda>_. dv_pread (g_dev g) SB_SIZE 0)) (\<lambda>raw.
     bindS (matchR (sb_parse crc raw) (\<lambda>_. retS ())
       (rp_err ''primary superblock: {e} (recovered from backup; mount rw to heal)'')) (\<lambda>_.
     bindS (rp_note ''superblock: v2, blocksize {}, inodesize {}, label {}, gen {}'') (\<lambda>_.
     if sb_incompat (g_sb g) \<noteq> 0 then rp_err ''unknown incompat feature flags {:#x}''
     else bindS (askS (\<lambda>_. load_agmap crc (g_dev g) (g_sb g))) (\<lambda>(_, status). check_parts sip crc fuel g status))))"

definition fsck_check :: "hash_fun \<Rightarrow> crc_fun \<Rightarrow> nat \<Rightarrow> vfile \<Rightarrow> report result" where
  "fsck_check sip crc fuel f =
     tryR (open_fs crc fuel f False) (\<lambda>g.
     case check_on sip crc fuel g report_default of
       (Inl e, _) \<Rightarrow> Inl e
     | (Inr _, r) \<Rightarrow> Inr r)"

end
