(* ===== verification/FsckFacts.thy ===== *)
theory FsckFacts
  imports Fsck
begin

text \<open>
  Facts about the structural check: a reported error is never taken back, a tally without
  problems counts every block of the AG once, a clean report means what it says, and the walk of
  an extent tree ends exactly when the tree has no cycle of nodes.
\<close>

unbundle bit_operations_syntax

subsection \<open>Errors stay\<close>

lemma keeps_matchR [keeps_intros]:
  "(\<And>x. keeps P (f x)) \<Longrightarrow> keeps P h \<Longrightarrow> keeps P (matchR r f h)"
  unfolding matchR_def by (intro keeps_intros)

lemma keeps_whenS [keeps_intros]: "keeps P m \<Longrightarrow> keeps P (whenS b m)"
  unfolding whenS_def by (intro keeps_intros)

abbreviation dirty :: "report \<Rightarrow> bool" where "dirty r \<equiv> rp_errors r \<noteq> []"

lemma keeps_report [keeps_intros]:
  "keeps dirty (rp_err m)" "keeps dirty (rp_warn m)" "keeps dirty (rp_note m)"
  by (simp_all add: rp_err_def rp_warn_def rp_note_def keeps_def)

abbreviation noted :: "tally \<Rightarrow> bool" where "noted t \<equiv> tl_errs t \<noteq> []"

lemma keeps_tally [keeps_intros]:
  "keeps noted (tl_note m)"
  "keeps noted r \<Longrightarrow> keeps noted (tl_count st n tail r)"
  by (simp_all add: tl_note_def tl_count_def keeps_def)

lemma keeps_tally_full [keeps_intros]: "keeps noted (modS (\<lambda>t. t\<lparr>tl_full := v t\<rparr>))"
  by (simp add: keeps_def)

lemma keeps_tally_maps [keeps_intros]: "keeps noted (modS (\<lambda>t. t\<lparr>tl_used := v t, tl_refd := w t\<rparr>))"
  by (simp add: keeps_def)

lemma keeps_tally_rec [keeps_intros]: "keeps noted (tally_rec crc g ag rf)"
  unfolding tally_rec_def Let_def by (intro keeps_intros)

lemma keeps_check_slot_block [keeps_intros]: "keeps noted (check_slot_block crc g ag local l3)"
  unfolding check_slot_block_def check_slot_def Let_def by (intro keeps_intros)

lemma keeps_tally_l1 [keeps_intros]: "keeps noted (tally_l1 crc g ag base l1 j)"
  unfolding tally_l1_def by (intro keeps_intros)

lemma keeps_tally_l0 [keeps_intros]: "keeps noted (tally_l0 crc g ag base l0 i)"
  unfolding tally_l0_def by (intro keeps_intros)

lemma keeps_tally_cell [keeps_intros]: "keeps noted (tally_cell crc g hdr cells table c)"
  unfolding tally_cell_def Let_def by (intro keeps_intros)

subsection \<open>Every block is counted once\<close>

definition tl_total :: "tally \<Rightarrow> u64" where
  "tl_total t = tl_free t + tl_rsvd t + tl_full t"

text \<open>An operation that counts \<open>n\<close> blocks unless it reports a problem.\<close>

definition adds :: "u64 \<Rightarrow> (tally, 'a) operation \<Rightarrow> bool" where
  "adds n m \<longleftrightarrow> (\<forall>s r s'. m s = (Inr r, s') \<and> \<not> noted s' \<longrightarrow> tl_total s' = tl_total s + n)"

lemma addsD: "adds n m \<Longrightarrow> m s = (Inr r, s') \<Longrightarrow> \<not> noted s' \<Longrightarrow> tl_total s' = tl_total s + n"
  by (auto simp: adds_def)

lemma adds_bind:
  assumes "adds a m" and "\<And>x. adds b (f x)" and "\<And>x. keeps noted (f x)"
  shows "adds (a + b) (bindS m f)"
  unfolding adds_def
proof (intro allI impI)
  fix s r s' assume run: "bindS m f s = (Inr r, s') \<and> \<not> noted s'"
  then obtain x s1 where s1: "m s = (Inr x, s1)" "f x s1 = (Inr r, s')" by (auto elim: bindS_okE)
  then have "\<not> noted s1" using keepsD [OF assms(3)] run by blast
  then show "tl_total s' = tl_total s + (a + b)"
    using addsD [OF assms(1) s1(1)] addsD [OF assms(2) s1(2)] run by (simp add: add.assoc)
qed

lemma adds_0:
  "adds 0 (retS x)" "adds 0 (tl_note m)" "adds 0 (ensureS b e)"
  "adds 0 (modS (\<lambda>t. t\<lparr>tl_used := v t, tl_refd := w t\<rparr>))"
  by (auto simp: adds_def tl_note_def ensureS_def tl_total_def)

lemma adds_full: "adds n (modS (\<lambda>t. t\<lparr>tl_full := tl_full t + n\<rparr>))"
  by (simp add: adds_def tl_total_def algebra_simps)

lemma adds_count:
  "(st \<noteq> CELL_FREE \<Longrightarrow> st \<noteq> CELL_RSVD \<Longrightarrow> st \<noteq> CELL_FULL \<Longrightarrow> adds n m) \<Longrightarrow>
    adds (if st = CELL_RSVD then tail else n) (tl_count st n tail m)"
  by (auto simp: adds_def tl_count_def tl_total_def algebra_simps)

lemma adds_whenS: "adds 0 m \<Longrightarrow> adds 0 (whenS b m)"
  by (simp add: whenS_def adds_0)

lemma matchR_ok:
  "matchR r f h s = (Inr y, s') \<Longrightarrow> (\<exists>x. r = Inr x \<and> f x s = (Inr y, s')) \<or> (\<exists>e. r = Inl e \<and> is_err e \<and> h s = (Inr y, s'))"
  by (cases r) (auto simp: matchR_def matchS_def askS_def split: if_splits)

lemma adds_matchR: "(\<And>x. adds n (f x)) \<Longrightarrow> adds n h \<Longrightarrow> adds n (matchR r f h)"
  unfolding adds_def by (meson matchR_ok)

lemma adds_forS:
  assumes "\<And>x. adds (n x) (f x)" and "\<And>x. keeps noted (f x)"
  shows "adds (sum_list (map n xs)) (forS f xs)"
proof (induction xs)
  case Nil
  show ?case by (simp only: forS.simps list.map sum_list.Nil adds_0)
next
  case (Cons x xs)
  show ?case
    using adds_bind [OF assms(1) [of x] Cons.IH keeps_forS [OF assms(2)]] by simp
qed

text \<open>A record that cannot be read is reported.\<close>

lemma tally_rec_ok:
  assumes "tally_rec crc g ag rf s = (Inr r, s')" and "\<not> noted s'"
  shows "(\<exists>b. r = Some b) \<and> tl_total s' = tl_total s"
proof -
  have "\<not> noted s' \<longrightarrow> (\<exists>b. r = Some b) \<and> tl_total s' = tl_total s"
    using assms(1) unfolding tally_rec_def Let_def
    by (auto dest!: matchR_ok elim!: bindS_okE simp: tl_note_def whenS_def ensureS_def tl_total_def split: if_splits)
  then show ?thesis using assms(2) by blast
qed

lemma adds_rec:
  assumes "\<And>b. adds n (f b)" and "\<And>b. keeps noted (f b)"
  shows "adds n (bindS (tally_rec crc g ag rf) (\<lambda>r. case r of None \<Rightarrow> retS () | Some b \<Rightarrow> f b))"
  unfolding adds_def
proof (intro allI impI)
  fix s r s' assume run: "bindS (tally_rec crc g ag rf) (\<lambda>r. case r of None \<Rightarrow> retS () | Some b \<Rightarrow> f b) s = (Inr r, s') \<and> \<not> noted s'"
  then obtain x s1 where s1: "tally_rec crc g ag rf s = (Inr x, s1)"
    "(case x of None \<Rightarrow> retS () | Some b \<Rightarrow> f b) s1 = (Inr r, s')" by (auto elim: bindS_okE)
  have "\<not> noted s1"
  proof
    assume "noted s1"
    have "keeps noted (case x of None \<Rightarrow> retS () | Some b \<Rightarrow> f b)" by (intro keeps_intros assms(2))
    then have "noted s'" using \<open>noted s1\<close> s1(2) unfolding keeps_def by (metis snd_conv)
    then show False using run by blast
  qed
  then obtain b where b: "x = Some b" "tl_total s1 = tl_total s" using tally_rec_ok [OF s1(1)] by blast
  then show "tl_total s' = tl_total s + n" using addsD [OF assms(1)] s1(2) run by auto
qed

lemma sum_list_const: "sum_list (map (\<lambda>_. n) xs) = of_nat (length xs) * (n :: u64)"
  by (induction xs) (simp_all add: algebra_simps)

lemma adds_slot_block: "adds 0 (check_slot_block crc g ag local l3)"
proof -
  have slot: "adds 0 (check_slot crc buf isz l3 s)" for buf isz s
  proof -
    have "adds (0 + 0) (check_slot crc buf isz l3 s)"
      unfolding check_slot_def Let_def
      by (intro adds_bind adds_0 keeps_intros) (auto intro!: adds_matchR adds_0 adds_whenS)
    then show ?thesis by simp
  qed
  have keep: "keeps noted (check_slot crc buf isz l3 s)" for buf isz s
    unfolding check_slot_def Let_def by (intro keeps_intros)
  have "adds (0 + 0) (check_slot_block crc g ag local l3)"
    unfolding check_slot_block_def Let_def
  proof (rule adds_bind, rule adds_0)
    have "adds 0 (forS (check_slot crc buf isz l3) xs)" for buf isz xs
      using adds_forS [where n = "\<lambda>_. 0", OF slot keep] by (simp add: sum_list_const)
    then show "adds 0 (matchR (read_block g (blk_addr ag local))
        (\<lambda>buf. forS (check_slot crc buf isz l3) [0..<g_bs g div isz]) (tl_note m))" for isz m
      by (intro adds_matchR adds_0)
  qed (intro keeps_intros keep)
  then show ?thesis by simp
qed

lemma adds_l1: "adds 1 (tally_l1 crc g ag base l1 j)"
proof -
  have "adds (1 + 0) (bindS (modS (\<lambda>t. t\<lparr>tl_full := tl_full t + 1\<rparr>)) (\<lambda>_.
      bindS (tally_rec crc g ag (rec_ref l1 j)) (\<lambda>r.
      case r of None \<Rightarrow> retS () | Some l3rec \<Rightarrow> check_slot_block crc g ag (base + of_nat j) l3rec)))"
    by (intro adds_bind adds_full adds_rec adds_slot_block keeps_intros)
  then show ?thesis using adds_count [of "rec_state l1 j" 1 _ 1] unfolding tally_l1_def by simp
qed

lemma adds_l0: "adds 16 (tally_l0 crc g ag base l0 i)"
proof -
  have "adds 16 (forS (tally_l1 crc g ag b l1) [0..<ALLOC_FANOUT])" for b l1
    using adds_forS [where n = "\<lambda>_. 1" and f = "tally_l1 crc g ag b l1" and xs = "[0..<ALLOC_FANOUT]", OF adds_l1 keeps_tally_l1]
    by (simp add: sum_list_const)
  then have "adds 16 (bindS (tally_rec crc g ag (rec_ref l0 i)) (\<lambda>r.
      case r of None \<Rightarrow> retS ()
      | Some l1rec \<Rightarrow> forS (tally_l1 crc g ag (base + of_nat (i * ALLOC_FANOUT)) l1rec) [0..<ALLOC_FANOUT]))"
    by (intro adds_rec keeps_intros)
  from adds_count [of "rec_state l0 i", OF this, where tail = 16]
  show ?thesis by (simp only: tally_l0_def of_nat_numeral if_cancel)
qed

definition cell_tail :: "u32 \<Rightarrow> nat \<Rightarrow> nat" where
  "cell_tail len c = min (unat len - c * CELL_BLOCKS) CELL_BLOCKS"

lemma adds_cell:
  "adds (if cell_get table c = CELL_RSVD then of_nat (cell_tail (ah_length hdr) c) else 256)
    (tally_cell crc g hdr cells table c)"
proof -
  have "adds 256 (forS (tally_l0 crc g ag b l0) [0..<ALLOC_FANOUT])" for ag b l0
    using adds_forS [where n = "\<lambda>_. 16" and f = "tally_l0 crc g ag b l0" and xs = "[0..<ALLOC_FANOUT]", OF adds_l0 keeps_tally_l0]
    by (simp add: sum_list_const)
  then have "adds 256 (bindS (tally_rec crc g (ah_num hdr) rf) (\<lambda>r.
      case r of None \<Rightarrow> retS ()
      | Some l0rec \<Rightarrow> forS (tally_l0 crc g (ah_num hdr) (of_nat (c * CELL_BLOCKS)) l0rec) [0..<ALLOC_FANOUT]))" for rf
    by (intro adds_rec keeps_intros)
  from adds_count [of "cell_get table c", OF this, where tail = "of_nat (cell_tail (ah_length hdr) c)"]
  show ?thesis by (simp only: tally_cell_def Let_def cell_tail_def of_nat_numeral)
qed

lemma full_cell:
  assumes "c < div_ceil n CELL_BLOCKS" and "c \<noteq> div_ceil n CELL_BLOCKS - 1 \<or> n mod CELL_BLOCKS = 0"
  shows "c * CELL_BLOCKS + CELL_BLOCKS \<le> n"
proof -
  define q r where "q = n div CELL_BLOCKS" and "r = n mod CELL_BLOCKS"
  have n: "n = r + q * CELL_BLOCKS" and r: "r < CELL_BLOCKS" by (simp_all add: q_def r_def)
  have "div_ceil n CELL_BLOCKS = q + (r + 255) div CELL_BLOCKS"
    unfolding div_ceil_def n by (simp add: div_mult_self1 add.commute add.left_commute)
  also have "(r + 255) div CELL_BLOCKS = (if r = 0 then 0 else 1)"
    using r by (cases "r = 0") (simp_all add: div_nat_eqI)
  finally have d: "div_ceil n CELL_BLOCKS = q + (if r = 0 then 0 else 1)" .
  have "c < q + (if r = 0 then 0 else 1)" using assms(1) by (simp only: d)
  moreover have "c \<noteq> q + (if r = 0 then 0 else 1) - 1 \<or> r = 0" using assms(2) by (simp only: d flip: r_def)
  ultimately have "c < q" by (cases "r = 0") simp_all
  then show ?thesis using n by simp
qed

lemma sum_tails:
  assumes "cells = div_ceil n CELL_BLOCKS" and "\<forall>c<cells. k c = min (n - c * CELL_BLOCKS) CELL_BLOCKS"
  shows "sum_list (map k [0..<cells]) = n"
proof -
  have pre: "m \<le> cells \<Longrightarrow> sum_list (map k [0..<m]) = min n (m * CELL_BLOCKS)" for m
    using assms(2) by (induction m) auto
  have "n \<le> cells * CELL_BLOCKS" using div_ceil_ge [of CELL_BLOCKS n] assms(1) by simp
  then show ?thesis using pre [of cells] by simp
qed

lemma tally_ag_total:
  assumes "tally_ag crc g hdr = Inr t" and "tl_errs t = []" and "read_root_table g hdr = Inr table"
    and cells: "cells = fst (rt_geometry (ah_length hdr) (sb_blocksize (g_sb g)))"
    and last: "unat (ah_length hdr) mod CELL_BLOCKS = 0 \<or> cell_get table (cells - 1) = CELL_RSVD"
  shows "tl_total t = ucast (ah_length hdr)"
proof -
  let ?len = "ah_length hdr"
  let ?n = "\<lambda>c. if cell_get table c = CELL_RSVD then cell_tail ?len c else 256"
  obtain u t0 where run: "forS (tally_cell crc g hdr cells table) [0..<cells] tally_empty = (Inr u, t0)"
    and t: "t = t0\<lparr>tl_errs := tl_errs t0 @ table_leaks t0\<rparr>"
    using assms(1,3) cells by (auto simp: tally_ag_def Let_def split: prod.splits sum.splits)
  have clean: "\<not> noted t0" using assms(2) t by simp
  have "adds (sum_list (map (\<lambda>c. of_nat (?n c)) [0..<cells])) (forS (tally_cell crc g hdr cells table) [0..<cells])"
    by (rule adds_forS) (use adds_cell in \<open>simp_all add: keeps_tally_cell if_distrib [where f = of_nat] cong: if_cong\<close>)
  from addsD [OF this run clean] have "tl_total t0 = sum_list (map (\<lambda>c. of_nat (?n c)) [0..<cells])"
    by (simp add: tally_empty_def tl_total_def)
  also have "\<dots> = of_nat (sum_list (map ?n [0..<cells]))" by (induction cells) simp_all
  also have "sum_list (map ?n [0..<cells]) = unat ?len"
  proof (rule sum_tails)
    show c: "cells = div_ceil (unat ?len) CELL_BLOCKS" by (simp add: cells rt_geometry_def Let_def)
    show "\<forall>c<cells. ?n c = min (unat ?len - c * CELL_BLOCKS) CELL_BLOCKS"
    proof (intro allI impI)
      fix c assume "c < cells"
      show "?n c = min (unat ?len - c * CELL_BLOCKS) CELL_BLOCKS"
      proof (cases "cell_get table c = CELL_RSVD")
        case False
        then have "c \<noteq> cells - 1 \<or> unat ?len mod CELL_BLOCKS = 0" using last by auto
        then have "c * CELL_BLOCKS + CELL_BLOCKS \<le> unat ?len"
          using \<open>c < cells\<close> by (intro full_cell) (simp_all only: c)
        then show ?thesis using False by simp
      qed (simp add: cell_tail_def)
    qed
  qed
  finally show ?thesis using t by (simp add: tl_total_def)
qed

subsection \<open>What a clean report means\<close>

lemma report_runs [simp]:
  "rp_err m r = (Inr (), r\<lparr>rp_errors := rp_errors r @ [m]\<rparr>)"
  "rp_warn m r = (Inr (), r\<lparr>rp_warnings := rp_warnings r @ [m]\<rparr>)"
  "rp_note m r = (Inr (), r\<lparr>rp_info := rp_info r @ [m]\<rparr>)"
  by (simp_all add: rp_err_def rp_warn_def rp_note_def)

text \<open>A step of a check that ends clean started clean.\<close>

lemma clean_bind:
  assumes "bindS m f s = (Inr y, s')" and "\<not> dirty s'" and "\<And>x. keeps dirty (f x)"
  obtains x s1 where "m s = (Inr x, s1)" and "f x s1 = (Inr y, s')" and "\<not> dirty s1"
proof -
  obtain x s1 where run: "m s = (Inr x, s1)" "f x s1 = (Inr y, s')" using assms(1) by (auto elim: bindS_okE)
  then have "\<not> dirty s1" using assms(2,3) unfolding keeps_def by (metis snd_conv)
  then show thesis using run that by blast
qed

lemma clean_whenS: "whenS b (rp_err m) s = (Inr y, s') \<Longrightarrow> \<not> dirty s' \<Longrightarrow> \<not> b \<and> s' = s"
  by (auto simp: whenS_def split: if_splits)

lemma clean_matchR:
  assumes "matchR r f h s = (Inr y, s')" and "\<not> dirty s'" and "\<And>s1. dirty (snd (h s1))"
  obtains x where "r = Inr x" and "f x s = (Inr y, s')"
  using matchR_ok [OF assms(1)] assms(2) assms(3) [of s] that by auto

lemma clean_forS:
  assumes "forS f xs s = (Inr u, s')" and "\<not> dirty s'" and "\<And>x. keeps dirty (f x)" and "x \<in> set xs"
  shows "\<exists>s1 s2. f x s1 = (Inr (), s2) \<and> \<not> dirty s2"
  using assms(1,4)
proof (induction xs arbitrary: s)
  case (Cons a xs)
  obtain v s1 where s1: "f a s = (Inr v, s1)" "forS f xs s1 = (Inr u, s')" "\<not> dirty s1"
    using clean_bind [OF Cons.prems(1) [unfolded forS.simps] assms(2)] keeps_forS [of dirty f xs, OF assms(3)] by blast
  then show ?case using Cons.IH [OF s1(2)] Cons.prems(2) by auto
qed simp

lemma clean_foldS:
  assumes "foldS f xs b s = (Inr u, s')" and "\<not> dirty s'" and "\<And>x b. keeps dirty (f x b)" and "x \<in> set xs"
  shows "\<exists>b1 b2 s1 s2. f x b1 s1 = (Inr b2, s2) \<and> \<not> dirty s2"
  using assms(1,4)
proof (induction xs arbitrary: s b)
  case (Cons a xs)
  obtain v s1 where s1: "f a b s = (Inr v, s1)" "foldS f xs v s1 = (Inr u, s')" "\<not> dirty s1"
    using clean_bind [OF Cons.prems(1) [unfolded foldS.simps] assms(2)] keeps_foldS [of dirty f xs, OF assms(3)] by blast
  then show ?case using Cons.IH [OF s1(2)] Cons.prems(2) by auto
qed simp

lemma keeps_check_counts [keeps_intros]: "keeps dirty (check_counts hdr t)"
  unfolding check_counts_def by (intro keeps_intros)

lemma keeps_check_ag [keeps_intros]: "keeps dirty (check_ag crc g ie free)"
  unfolding check_ag_def Let_def by (intro keeps_intros)

lemma keeps_check_allocator [keeps_intros]: "keeps dirty (check_allocator crc g)"
  unfolding check_allocator_def by (intro keeps_intros)

lemma keeps_check_kernel [keeps_intros]: "keeps dirty (check_kernel sip crc g)"
  unfolding check_kernel_def check_kernel_inode_def Let_def by (intro keeps_intros)

lemma keeps_check_backup [keeps_intros]: "keeps dirty (check_backup crc g)"
  unfolding check_backup_def by (intro keeps_intros)

lemma keeps_check_journal [keeps_intros]: "keeps dirty (check_journal crc g fuel)"
  unfolding check_journal_def by (intro keeps_intros)

lemma keeps_check_agmap [keeps_intros]: "keeps dirty (check_agmap g status)"
  unfolding check_agmap_def by (intro keeps_intros)

lemma keeps_check_link [keeps_intros]: "keeps dirty (check_link crc g x)"
  unfolding check_link_def by (intro keeps_intros)

abbreviation wdirty :: "walk \<Rightarrow> bool" where "wdirty w \<equiv> dirty (wk_report w)"

lemma keeps_onReport [keeps_intros]: "keeps dirty m \<Longrightarrow> keeps wdirty (onReport m)"
  by (simp add: keeps_def onReport_def split_beta)

lemma keeps_walk_mod [keeps_intros]:
  "keeps wdirty (modS (\<lambda>w. w\<lparr>wk_dirs := d w\<rparr>))" "keeps wdirty (modS (\<lambda>w. w\<lparr>wk_nlinks := n w\<rparr>))"
  "keeps wdirty (add_link ino)"
  by (simp_all add: keeps_def add_link_def)

lemma keeps_walk_dir [keeps_intros]: "keeps wdirty (walk_dir sip crc g fuel n ino)"
proof (induction n arbitrary: ino)
  case 0
  show ?case unfolding walk_dir.simps by (intro keeps_intros)
next
  case (Suc n)
  show ?case unfolding walk_dir.simps by (intro keeps_intros Suc)
qed

lemma keeps_check_namespace [keeps_intros]: "keeps dirty (check_namespace sip crc g fuel)"
proof (rule keepsI)
  fix r assume "dirty r"
  let ?w0 = "\<lparr>wk_report = r, wk_nlinks = [], wk_files = 0, wk_dirs = 0\<rparr>"
  obtain v w where w: "walk_dir sip crc g fuel 65 (sb_root_ino (g_sb g)) ?w0 = (v, w)" by fastforce
  have "wdirty w" by (rule keepsD [OF keeps_walk_dir _ w]) (use \<open>dirty r\<close> in simp)
  moreover have "keeps dirty (bindS (forS (check_link crc g) (wk_nlinks w)) (\<lambda>_. rp_note m))" for m
    by (intro keeps_intros)
  ultimately show "dirty (snd (check_namespace sip crc g fuel r))"
    unfolding check_namespace_def w by (cases v) (simp_all add: keeps_def)
qed

text \<open>What a clean report says of an AG in use.\<close>

definition ag_sound :: "crc_fun \<Rightarrow> gofs \<Rightarrow> nat \<Rightarrow> ag_entry \<Rightarrow> bool" where
  "ag_sound crc g i e \<longleftrightarrow> sum_list (map (\<lambda>s. ucast (sg_blocks s)) (ae_segs e)) = (ucast (ae_length e) :: u64) \<and>
     (\<exists>hdr t. read_ag_header crc g (of_nat i) = Inr hdr \<and> ah_num hdr = of_nat i \<and> ah_length hdr = ae_length e \<and>
        tally_ag crc g hdr = Inr t \<and> tl_errs t = [] \<and> tl_free t = ucast (ah_free_blocks hdr) \<and>
        tl_full t = ucast (ah_full_blocks hdr))"

lemma check_counts_clean:
  assumes "check_counts hdr t s = (Inr u, s')" and "\<not> dirty s'"
  shows "tl_errs t = [] \<and> tl_free t = ucast (ah_free_blocks hdr) \<and> tl_full t = ucast (ah_full_blocks hdr)"
proof -
  obtain v1 s1 where 1: "forS (\<lambda>m. rp_err ''AG {ag}: {m}'') (tl_errs t) s = (Inr v1, s1)" "\<not> dirty s1" and
    rest: "bindS (whenS (tl_free t \<noteq> ucast (ah_free_blocks hdr))
       (rp_err ''AG {ag}: allocator shows {free} free blocks, header says {}'')) (\<lambda>_.
     bindS (whenS (tl_full t \<noteq> ucast (ah_full_blocks hdr))
       (rp_err ''AG {ag}: allocator shows {full} full blocks, header says {}'')) (\<lambda>_.
     whenS (tl_rsvd t \<noteq> ucast (ah_rsvd_blocks hdr))
       (rp_warn ''AG {ag}: allocator shows {rsvd} reserved blocks, header says {}''))) s1 = (Inr u, s')"
    by (rule clean_bind [OF assms(1) [unfolded check_counts_def] assms(2)]) (auto intro: keeps_intros)
  obtain v2 s2 where 2: "whenS (tl_free t \<noteq> ucast (ah_free_blocks hdr))
       (rp_err ''AG {ag}: allocator shows {free} free blocks, header says {}'') s1 = (Inr v2, s2)" "\<not> dirty s2" and
    rest2: "bindS (whenS (tl_full t \<noteq> ucast (ah_full_blocks hdr))
       (rp_err ''AG {ag}: allocator shows {full} full blocks, header says {}'')) (\<lambda>_.
     whenS (tl_rsvd t \<noteq> ucast (ah_rsvd_blocks hdr))
       (rp_warn ''AG {ag}: allocator shows {rsvd} reserved blocks, header says {}'')) s2 = (Inr u, s')"
    by (rule clean_bind [OF rest assms(2)]) (auto intro: keeps_intros)
  obtain v3 s3 where 3: "whenS (tl_full t \<noteq> ucast (ah_full_blocks hdr))
       (rp_err ''AG {ag}: allocator shows {full} full blocks, header says {}'') s2 = (Inr v3, s3)" "\<not> dirty s3"
    by (rule clean_bind [OF rest2 assms(2)]) (auto intro: keeps_intros)
  have "tl_errs t = []"
  proof (rule ccontr)
    assume "tl_errs t \<noteq> []"
    then obtain m where "m \<in> set (tl_errs t)" by (cases "tl_errs t") auto
    from clean_forS [OF 1 keeps_report(1) this] show False by auto
  qed
  then show ?thesis using clean_whenS [OF 2] clean_whenS [OF 3] by simp
qed

lemma check_ag_clean:
  assumes run: "check_ag crc g (i, e) free s = (Inr v, s')" and clean: "\<not> dirty s'"
    and use: "ae_flags e AND AGF_RETIRED = 0" "ae_flags e AND AGF_PRESENT \<noteq> 0"
  shows "ag_sound crc g i e"
proof -
  let ?ag = "of_nat i :: u32"
  have mapped: "sum_list (map (\<lambda>s. ucast (sg_blocks s)) (ae_segs e)) = (ucast (ae_length e) :: u64)"
    using run clean use by (auto simp: check_ag_def bindS_def Let_def split: if_splits)
  have dirt: "dirty (snd (bindS (rp_err m) (\<lambda>_. retS x) s1))" for m s1 and x :: u64
    by (simp add: bindS_def)
  have "matchR (read_ag_header crc g ?ag) (\<lambda>hdr.
         bindS (whenS (ah_num hdr \<noteq> ?ag) (rp_err ''AG {ag}: header claims ag_num {}'')) (\<lambda>_.
         bindS (whenS (ah_length hdr \<noteq> ae_length e) (rp_err ''AG {ag}: header length {} != map length {}'')) (\<lambda>_.
         matchR (tally_ag crc g hdr)
           (\<lambda>t. bindS (check_counts hdr t) (\<lambda>_. retS (free + tl_free t)))
           (bindS (rp_err ''AG {ag}: allocator: {e}'') (\<lambda>_. retS free)))))
       (bindS (rp_err ''AG {ag}: {e}'') (\<lambda>_. retS free)) s = (Inr v, s')"
    using run use mapped by (simp add: check_ag_def Let_def)
  then obtain hdr where hdr: "read_ag_header crc g ?ag = Inr hdr" and
    "bindS (whenS (ah_num hdr \<noteq> ?ag) (rp_err ''AG {ag}: header claims ag_num {}'')) (\<lambda>_.
         bindS (whenS (ah_length hdr \<noteq> ae_length e) (rp_err ''AG {ag}: header length {} != map length {}'')) (\<lambda>_.
         matchR (tally_ag crc g hdr)
           (\<lambda>t. bindS (check_counts hdr t) (\<lambda>_. retS (free + tl_free t)))
           (bindS (rp_err ''AG {ag}: allocator: {e}'') (\<lambda>_. retS free)))) s = (Inr v, s')"
    by (rule clean_matchR [OF _ clean dirt])
  from this(2) obtain v1 s1 where 1: "whenS (ah_num hdr \<noteq> ?ag) (rp_err ''AG {ag}: header claims ag_num {}'') s = (Inr v1, s1)"
    "\<not> dirty s1" and
    "bindS (whenS (ah_length hdr \<noteq> ae_length e) (rp_err ''AG {ag}: header length {} != map length {}'')) (\<lambda>_.
         matchR (tally_ag crc g hdr)
           (\<lambda>t. bindS (check_counts hdr t) (\<lambda>_. retS (free + tl_free t)))
           (bindS (rp_err ''AG {ag}: allocator: {e}'') (\<lambda>_. retS free))) s1 = (Inr v, s')"
    by (rule clean_bind [OF _ clean]) (auto intro: keeps_intros)
  from this(3) obtain v2 s2 where 2: "whenS (ah_length hdr \<noteq> ae_length e) (rp_err ''AG {ag}: header length {} != map length {}'') s1 = (Inr v2, s2)"
    "\<not> dirty s2" and
    "matchR (tally_ag crc g hdr)
           (\<lambda>t. bindS (check_counts hdr t) (\<lambda>_. retS (free + tl_free t)))
           (bindS (rp_err ''AG {ag}: allocator: {e}'') (\<lambda>_. retS free)) s2 = (Inr v, s')"
    by (rule clean_bind [OF _ clean]) (auto intro: keeps_intros)
  from this(3) obtain t where t: "tally_ag crc g hdr = Inr t" and
    "bindS (check_counts hdr t) (\<lambda>_. retS (free + tl_free t)) s2 = (Inr v, s')"
    by (rule clean_matchR [OF _ clean dirt])
  from this(2) obtain v3 s3 where 3: "check_counts hdr t s2 = (Inr v3, s3)" "\<not> dirty s3"
    by (rule clean_bind [OF _ clean]) (auto intro: keeps_intros)
  show ?thesis
    unfolding ag_sound_def
    using mapped hdr t clean_whenS [OF 1] clean_whenS [OF 2] check_counts_clean [OF 3] by blast
qed

lemma check_allocator_clean:
  assumes run: "check_allocator crc g s = (Inr v, s')" and clean: "\<not> dirty s'"
    and e: "i < length (am_entries (g_map g))" "e = am_entries (g_map g) ! i"
      "ae_flags e AND AGF_RETIRED = 0" "ae_flags e AND AGF_PRESENT \<noteq> 0"
  shows "ag_sound crc g i e"
proof -
  obtain f s1 where fold: "foldS (check_ag crc g) (enumerate 0 (am_entries (g_map g))) 0 s = (Inr f, s1)" "\<not> dirty s1"
    by (rule clean_bind [OF run [unfolded check_allocator_def] clean]) (auto intro: keeps_intros)
  have "(i, e) \<in> set (enumerate 0 (am_entries (g_map g)))"
    using e(1,2) by (auto simp: in_set_enumerate_eq)
  from clean_foldS [OF fold keeps_check_ag this] show ?thesis using check_ag_clean e(3,4) by blast
qed

text \<open>The namespace: the link counts found are those of the inodes.\<close>

lemma check_link_clean:
  assumes "check_link crc g (ino, k) s = (Inr u, s')" and "\<not> dirty s'"
  shows "\<exists>i. read_inode crc g ino = Inr i \<and> in_nlink i = k"
proof -
  obtain i where "read_inode crc g ino = Inr i" and
    "whenS (in_nlink i \<noteq> k) (rp_err ''inode {ino:#x}: nlink {} but {expect} reference(s) found'') s = (Inr u, s')"
    by (rule clean_matchR [OF assms(1) [unfolded check_link_def prod.case] assms(2)]) auto
  then show ?thesis using clean_whenS assms(2) by blast
qed

lemma check_namespace_clean:
  assumes "check_namespace sip crc g fuel s = (Inr v, s')" and "\<not> dirty s'"
  shows "\<exists>w. walk_dir sip crc g fuel 65 (sb_root_ino (g_sb g))
      \<lparr>wk_report = s, wk_nlinks = [], wk_files = 0, wk_dirs = 0\<rparr> = (Inr (), w) \<and> \<not> wdirty w \<and>
    (\<forall>(ino, k)\<in>set (wk_nlinks w). \<exists>i. read_inode crc g ino = Inr i \<and> in_nlink i = k)"
proof -
  obtain r w where w: "walk_dir sip crc g fuel 65 (sb_root_ino (g_sb g))
      \<lparr>wk_report = s, wk_nlinks = [], wk_files = 0, wk_dirs = 0\<rparr> = (r, w)" by fastforce
  have r: "r = Inr ()" using assms(1) w unfolding check_namespace_def by (cases r) auto
  have "bindS (forS (check_link crc g) (wk_nlinks w)) (\<lambda>_. rp_note ''namespace: {dirs} directorie(s), {files} file(s)'')
      (wk_report w) = (Inr v, s')"
    using assms(1) unfolding check_namespace_def w r by simp
  then obtain u s1 where fl: "forS (check_link crc g) (wk_nlinks w) (wk_report w) = (Inr u, s1)" "\<not> dirty s1"
    by (rule clean_bind [OF _ assms(2)]) (auto intro: keeps_intros)
  have "\<not> wdirty w" using keepsD [OF keeps_forS [OF keeps_check_link] _ fl(1)] fl(2) by blast
  moreover have "\<exists>i. read_inode crc g ino = Inr i \<and> in_nlink i = k" if "(ino, k) \<in> set (wk_nlinks w)" for ino k
    using clean_forS [OF fl keeps_check_link that] check_link_clean by blast
  ultimately show ?thesis using w r by blast
qed

lemma check_parts_clean:
  assumes run: "check_parts sip crc fuel g status s = (Inr v, s')" and clean: "\<not> dirty s'"
  obtains s1 s2 n s3 s4 s5 where "check_backup crc g s1 = (Inr (), s2)" and "\<not> dirty s2"
    and "journal_pending crc fuel g = Inr n" and "check_allocator crc g s3 = (Inr (), s4)" and "\<not> dirty s4"
    and "check_namespace sip crc g fuel s4 = (Inr (), s5)" and "\<not> dirty s5"
proof -
  have dirt: "dirty (snd (rp_err m s1))" for m s1 by simp
  obtain s3 where run3: "bindS (check_backup crc g) (\<lambda>_.
       bindS (check_journal crc g fuel) (\<lambda>_.
       bindS (check_allocator crc g) (\<lambda>_.
       bindS (check_namespace sip crc g fuel) (\<lambda>_.
       check_kernel sip crc g)))) s3 = (Inr v, s')"
    by (rule clean_bind [OF run [unfolded check_parts_def] clean]) (intro keeps_intros, blast)
  obtain v4 s4 where 4: "check_backup crc g s3 = (Inr v4, s4)" "\<not> dirty s4" and run4:
      "bindS (check_journal crc g fuel) (\<lambda>_.
       bindS (check_allocator crc g) (\<lambda>_.
       bindS (check_namespace sip crc g fuel) (\<lambda>_.
       check_kernel sip crc g))) s4 = (Inr v, s')"
    by (rule clean_bind [OF run3 clean]) (auto intro: keeps_intros)
  obtain v5 s5 where 5: "check_journal crc g fuel s4 = (Inr v5, s5)" "\<not> dirty s5" and run5:
      "bindS (check_allocator crc g) (\<lambda>_.
       bindS (check_namespace sip crc g fuel) (\<lambda>_.
       check_kernel sip crc g)) s5 = (Inr v, s')"
    by (rule clean_bind [OF run4 clean]) (auto intro: keeps_intros)
  obtain n where n: "journal_pending crc fuel g = Inr n"
    by (rule clean_matchR [OF 5(1) [unfolded check_journal_def] 5(2) dirt])
  obtain v6 s6 where 6: "check_allocator crc g s5 = (Inr v6, s6)" "\<not> dirty s6" and run6:
      "bindS (check_namespace sip crc g fuel) (\<lambda>_. check_kernel sip crc g) s6 = (Inr v, s')"
    by (rule clean_bind [OF run5 clean]) (auto intro: keeps_intros)
  obtain v7 s7 where 7: "check_namespace sip crc g fuel s6 = (Inr v7, s7)" "\<not> dirty s7"
    by (rule clean_bind [OF run6 clean]) (auto intro: keeps_intros)
  show thesis using that [OF _ _ n] 4 6 7 by simp
qed

lemma check_backup_clean:
  assumes "check_backup crc g s = (Inr u, s')" and "\<not> dirty s'" and "first_seg g = Some sg"
  shows "\<exists>bak b. dv_pread (g_dev g) SB_SIZE (sg_dev_offset sg + (ucast (sg_blocks sg) - 1) * bs_of g) = Inr bak \<and>
    sb_parse crc bak = Inr b \<and> sb_uuid b = sb_uuid (g_sb g)"
proof -
  have dirt: "dirty (snd (rp_err m s1))" for m s1 by simp
  obtain bak where bak: "dv_pread (g_dev g) SB_SIZE (sg_dev_offset sg + (ucast (sg_blocks sg) - 1) * bs_of g) = Inr bak"
    and "matchR (sb_parse crc bak) (\<lambda>b.
        if sb_uuid b \<noteq> sb_uuid (g_sb g) then rp_err ''backup superblock: UUID mismatch''
        else whenS (sb_gen b \<noteq> sb_gen (g_sb g)) (rp_warn ''backup superblock gen {} != primary {}''))
      (rp_err ''backup superblock: {e}'') s = (Inr u, s')"
    by (rule clean_matchR [OF assms(1) [unfolded check_backup_def assms(3) option.case] assms(2) dirt])
  from this(2) obtain b where "sb_parse crc bak = Inr b" and
    "(if sb_uuid b \<noteq> sb_uuid (g_sb g) then rp_err ''backup superblock: UUID mismatch''
      else whenS (sb_gen b \<noteq> sb_gen (g_sb g)) (rp_warn ''backup superblock gen {} != primary {}'')) s = (Inr u, s')"
    by (rule clean_matchR [OF _ assms(2) dirt])
  then show ?thesis using bak assms(2) by (auto split: if_splits)
qed

lemma check_on_clean:
  assumes run: "check_on sip crc fuel g s = (Inr v, s')" and clean: "\<not> dirty s'"
  obtains raw sb status s1 where "dv_pread (g_dev g) SB_SIZE 0 = Inr raw" and "sb_parse crc raw = Inr sb"
    and "sb_incompat (g_sb g) = 0" and "check_parts sip crc fuel g status s1 = (Inr v, s')"
proof -
  have dirt: "dirty (snd (rp_err m s1))" for m s1 by simp
  obtain raw where raw: "dv_pread (g_dev g) SB_SIZE 0 = Inr raw"
    using run by (auto simp: check_on_def split: sum.splits)
  let ?rest = "\<lambda>_ :: unit. bindS (rp_note ''superblock: v2, blocksize {}, inodesize {}, label {}, gen {}'') (\<lambda>_.
     if sb_incompat (g_sb g) \<noteq> 0 then rp_err ''unknown incompat feature flags {:#x}''
     else bindS (askS (\<lambda>_. load_agmap crc (g_dev g) (g_sb g))) (\<lambda>(_, status). check_parts sip crc fuel g status))"
  have keep: "keeps dirty (?rest x)" for x
    unfolding check_parts_def by (intro keeps_intros)
  obtain v1 s1 where 1: "matchR (sb_parse crc raw) (\<lambda>_. retS ())
       (rp_err ''primary superblock: {e} (recovered from backup; mount rw to heal)'') s = (Inr v1, s1)" "\<not> dirty s1"
    and run1: "?rest v1 s1 = (Inr v, s')"
    by (rule clean_bind [OF _ clean keep]) (use run raw in \<open>simp add: check_on_def\<close>)
  obtain sb where sb: "sb_parse crc raw = Inr sb" by (rule clean_matchR [OF 1 dirt])
  have inc: "sb_incompat (g_sb g) = 0"
    using run1 clean by (auto simp: bindS_def split: if_splits)
  then obtain m status s2 where "check_parts sip crc fuel g status s2 = (Inr v, s')"
    using run1 by (auto simp: bindS_def askS_def split: sum.splits)
  then show thesis using that raw sb inc by blast
qed

subsection \<open>The walk of an extent tree\<close>

lemma mapR_neq: "(\<And>x. x \<in> set xs \<Longrightarrow> f x \<noteq> Inl e) \<Longrightarrow> mapR f xs \<noteq> Inl e"
  by (induction xs) (auto simp: tryR_Inl_iff)

lemma mapR_in: "mapR f xs = Inr ys \<Longrightarrow> y \<in> set ys \<Longrightarrow> \<exists>x\<in>set xs. f x = Inr y"
  by (induction xs arbitrary: ys) (auto simp: tryR_Inr_iff)

text \<open>A node below another has a lower level.\<close>

definition levels_fall :: "crc_fun \<Rightarrow> gofs \<Rightarrow> bool" where
  "levels_fall crc g \<longleftrightarrow> (\<forall>a buf i b a' buf'. node_read crc g [] a = Inr buf \<longrightarrow>
     node_at buf i = Inr (CELL_REFINED, b, a') \<longrightarrow> node_read crc g [] a' = Inr buf' \<longrightarrow> node_level buf' < node_level buf)"

definition child_below :: "crc_fun \<Rightarrow> gofs \<Rightarrow> u8 \<times> child \<Rightarrow> u8 \<Rightarrow> bool" where
  "child_below crc g c level \<longleftrightarrow>
     (fst c = CELL_REFINED \<longrightarrow> (\<forall>buf. node_read crc g [] (snd (snd c)) = Inr buf \<longrightarrow> node_level buf < level))"

lemma node_at_neq: "node_at b i \<noteq> Inl Diverges"
  by (simp add: node_at_def guardR_def)

lemma node_read_neq: "node_read crc g t a \<noteq> Inl Diverges"
proof -
  have "read_block g a \<noteq> Inl Diverges"
    by (auto simp: read_block_def g_resolve_def dv_pread_def guardR_def tryR_Inl_iff split: option.splits if_splits)
  then show ?thesis
    unfolding node_read_def txn_read_def by (auto simp: tryR_Inl_iff split: option.splits if_splits)
qed

lemma check_tree_child_ends:
  assumes "levels_fall crc g"
  shows "child_below crc g c level \<Longrightarrow> unat level < fuel \<Longrightarrow> check_tree_child crc g fuel c level \<noteq> Inl Diverges"
proof (induction fuel arbitrary: c level)
  case (Suc fuel)
  obtain st blocks addr where c: "c = (st, blocks, addr)" by (cases c)
  show ?case
  proof (cases "st = CELL_REFINED \<and> level \<noteq> 0")
    case True
    show ?thesis
    proof (cases "node_read crc g [] addr")
      case (Inl e)
      then have "e \<noteq> Diverges" using node_read_neq by metis
      then show ?thesis using True Inl by (simp add: c)
    next
      case (Inr buf)
      then have lower: "node_level buf < level" using Suc.prems(1) True c by (simp add: child_below_def)
      have child: "child_below crc g x (node_level buf)" if "node_at buf i = Inr x" for x i
        using assms Inr that unfolding levels_fall_def child_below_def by (cases x) auto
      have ends: "check_tree_child crc g fuel x (node_level buf) \<noteq> Inl Diverges" if "node_at buf i = Inr x" for x i
        by (rule Suc.IH [OF child [OF that]]) (use lower Suc.prems(2) in \<open>simp add: word_less_nat_alt\<close>)
      have kids: "mapR (\<lambda>c. check_tree_child crc g fuel c (node_level buf)) cs \<noteq> Inl Diverges"
        if cs: "mapR (node_at buf) [0..<NODE_FANOUT] = Inr cs" for cs
      proof (rule mapR_neq)
        fix x assume "x \<in> set cs"
        then obtain i where "node_at buf i = Inr x" using mapR_in [OF cs] by blast
        then show "check_tree_child crc g fuel x (node_level buf) \<noteq> Inl Diverges" by (rule ends)
      qed
      have ats: "mapR (node_at buf) [0..<NODE_FANOUT] \<noteq> Inl Diverges" by (intro mapR_neq node_at_neq)
      show ?thesis
      proof (cases "mapR (node_at buf) [0..<NODE_FANOUT]")
        case (Inl e)
        then show ?thesis using True Inr ats by (simp add: c)
      next
        case (Inr cs)
        then show ?thesis
          using True \<open>node_read crc g [] addr = Inr buf\<close> kids [OF Inr]
          by (cases "mapR (\<lambda>c. check_tree_child crc g fuel c (node_level buf)) cs") (simp_all add: c)
      qed
    qed
  qed (simp add: c)
qed simp

text \<open>A node that is its own first child is walked for ever.\<close>

lemma check_tree_child_cycle:
  assumes "node_read crc g [] a = Inr buf" and "node_at buf 0 = Inr (CELL_REFINED, b, a)" and "node_level buf \<noteq> 0"
    and "\<forall>i<NODE_FANOUT. \<exists>c. node_at buf i = Inr c"
  shows "level \<noteq> 0 \<Longrightarrow> check_tree_child crc g fuel (CELL_REFINED, b', a) level = Inl Diverges"
proof (induction fuel arbitrary: b' level)
  case (Suc fuel)
  have "mapR (node_at buf) [0..<NODE_FANOUT] = Inr (map (\<lambda>i. projr (node_at buf i)) [0..<NODE_FANOUT])"
    using assms(4) by (intro mapR_map) auto
  moreover have "[0..<NODE_FANOUT] = 0 # [1..<NODE_FANOUT]" by (simp add: upt_conv_Cons)
  ultimately have ats: "mapR (node_at buf) [0..<NODE_FANOUT] =
      Inr ((CELL_REFINED, b, a) # map (\<lambda>i. projr (node_at buf i)) [1..<NODE_FANOUT])"
    using assms(2) by (simp only: list.map sum.sel)
  show ?case using assms(1) Suc.prems Suc.IH [OF assms(3)] ats by simp
qed simp

end
