(* ===== verification/FsckProps.thy ===== *)
theory FsckProps
  imports FsckFacts Example
begin

text \<open>
  The properties of the structural check, with a small filesystem that passes it: one AG of 64
  blocks of 512 bytes, all reserved, and an empty root directory.
\<close>

subsection \<open>Files made of writes\<close>

definition blank :: "nat \<Rightarrow> vfile" where
  "blank n = \<lparr>fl_bytes = (\<lambda>_. 0), fl_len = n\<rparr>"

fun put_writes :: "(nat \<times> buffer) list \<Rightarrow> vfile \<Rightarrow> vfile" where
  "put_writes [] f = f"
| "put_writes ((o1, b) # ws) f = fl_write (put_writes ws f) o1 b"

definition inside :: "nat \<Rightarrow> (nat \<times> buffer) list \<Rightarrow> bool" where
  "inside n ws \<longleftrightarrow> list_all (\<lambda>(o1, b). o1 + length b \<le> n) ws"

lemma put_writes_len: "inside (fl_len f) ws \<Longrightarrow> fl_len (put_writes ws f) = fl_len f"
  by (induction ws) (auto simp: inside_def fl_len_write)

lemma put_writes_read_other:
  assumes "inside (fl_len f) ws" and "list_all (\<lambda>(o1, b). apart (o2, o2 + n) (o1, o1 + length b)) ws"
    and "o2 + n \<le> fl_len f"
  shows "fl_read (put_writes ws f) o2 n = fl_read f o2 n"
  using assms
proof (induction ws)
  case (Cons w ws)
  obtain o1 b where w: "w = (o1, b)" by (cases w)
  have "fl_len (put_writes ws f) = fl_len f" using Cons.prems(1) by (intro put_writes_len) (simp add: inside_def)
  then show ?case using Cons by (simp add: w fl_read_write_apart inside_def)
qed simp

lemma put_writes_read:
  assumes "inside (fl_len f) (xs @ (o1, b) # ys)" and "list_all (\<lambda>(o2, c). apart (o1, o1 + length b) (o2, o2 + length c)) xs"
  shows "fl_read (put_writes (xs @ (o1, b) # ys) f) o1 (length b) = b"
  using assms
proof (induction xs)
  case (Cons w xs)
  obtain o2 c where w: "w = (o2, c)" by (cases w)
  have len: "fl_len (put_writes (xs @ (o1, b) # ys) f) = fl_len f"
    using Cons.prems(1) by (intro put_writes_len) (simp add: inside_def)
  have "o1 + length b \<le> fl_len f" using Cons.prems(1) by (simp add: inside_def)
  then show ?case using Cons len by (simp add: w fl_read_write_apart inside_def)
qed simp

lemma blank_read: "fl_read (blank n) o1 k = replicate k 0"
  by (rule nth_equalityI) (simp_all add: fl_read_def blank_def)

subsection \<open>An image\<close>

definition chk_sb :: superblock where
  "chk_sb = ex_sb\<lparr>sb_journal_start := blk_addr 0 30, sb_journal_head := 0\<rparr>"

definition chk_hdr :: ag_header where
  "chk_hdr = \<lparr>ah_num = 0, ah_gen = 1, ah_length = 64, ah_free_blocks = 0, ah_rsvd_blocks = 64,
     ah_full_blocks = 0, ah_alloc_root = 2, ah_ino_hint = 0, ah_data_hint = 0, ah_tbl_arena = 0\<rparr>"

definition chk_root :: inode where
  "chk_root = inode_default\<lparr>in_mode := 0x41ED, in_nlink := 2\<rparr>"

definition chk_map_bytes :: buffer where
  "chk_map_bytes = projr (am_to_bytes ex_crc ex_map 1024)"

definition chk_writes :: "(nat \<times> buffer) list" where
  "chk_writes = [(0, sb_to_bytes ex_crc chk_sb), (512, ah_to_bytes ex_crc chk_hdr), (1024, [1]),
     (5120, chk_map_bytes), (6144, chk_map_bytes), (10240, in_to_bytes ex_crc chk_root),
     (32256, sb_to_bytes ex_crc chk_sb)]"

definition chk_file :: vfile where
  "chk_file = put_writes chk_writes (blank 32768)"

definition chk_fs :: gofs where
  "chk_fs = \<lparr>g_dev = dv_open chk_file False, g_sb = chk_sb, g_map = ex_map, g_hints = (\<lambda>_. None)\<rparr>"

lemma chk_map: "am_to_bytes ex_crc ex_map 1024 = Inr chk_map_bytes" "length chk_map_bytes = 1024"
  "am_parse ex_crc chk_map_bytes = Inr ex_map"
proof -
  have wf: "am_wf ex_map" by (simp add: am_wf_def ex_map_def)
  have fits: "AGMAP_HDR + am_used (am_entries ex_map) \<le> 1024" by (simp add: ex_map_def)
  show "am_to_bytes ex_crc ex_map 1024 = Inr chk_map_bytes"
    unfolding chk_map_bytes_def using am_to_bytes_concat [OF fits, of ex_crc] by simp
  then show "length chk_map_bytes = 1024" "am_parse ex_crc chk_map_bytes = Inr ex_map"
    using am_to_bytes_length [of ex_crc ex_map 1024] wf by blast+
qed

lemma chk_sb_wf: "sb_wf chk_sb"
  using ex_sb_wf by (simp add: sb_wf_def chk_sb_def ex_sb_def)

lemma chk_lengths: "length (sb_to_bytes ex_crc chk_sb) = 512" "length (ah_to_bytes ex_crc chk_hdr) = 64"
  "length (in_to_bytes ex_crc chk_root) = 256"
  using length_sb_to_bytes [OF chk_sb_wf] ah_codec.length_enc [of ex_crc chk_hdr] in_codec.length_enc [of chk_root ex_crc]
  by (simp_all add: chk_root_def in_wf_def inode_default_def)

lemma chk_inside: "inside (fl_len (blank 32768)) chk_writes" "fl_len chk_file = 32768"
proof -
  show i: "inside (fl_len (blank 32768)) chk_writes"
    by (simp add: inside_def chk_writes_def chk_lengths chk_map(2) blank_def)
  then show "fl_len chk_file = 32768" unfolding chk_file_def using put_writes_len by (simp add: blank_def)
qed

lemma chk_piece:
  assumes "chk_writes = xs @ (o1, b) # ys" and "list_all (\<lambda>(o2, c). apart (o1, o1 + length b) (o2, o2 + length c)) xs"
    and "n = length b"
  shows "fl_read chk_file o1 n = b"
  unfolding chk_file_def assms(1,3) by (rule put_writes_read) (use chk_inside(1) assms in simp_all)

lemma chk_pieces:
  "fl_read chk_file 0 512 = sb_to_bytes ex_crc chk_sb"
  "fl_read chk_file 512 64 = ah_to_bytes ex_crc chk_hdr"
  "fl_read chk_file 1024 1 = [1]"
  "fl_read chk_file 5120 1024 = chk_map_bytes"
  "fl_read chk_file 6144 1024 = chk_map_bytes"
  "fl_read chk_file 10240 256 = in_to_bytes ex_crc chk_root"
  "fl_read chk_file 32256 512 = sb_to_bytes ex_crc chk_sb"
proof -
  have w: "chk_writes = [] @ (0, sb_to_bytes ex_crc chk_sb) # tl chk_writes"
    "chk_writes = take 1 chk_writes @ (512, ah_to_bytes ex_crc chk_hdr) # drop 2 chk_writes"
    "chk_writes = take 2 chk_writes @ (1024, [1]) # drop 3 chk_writes"
    "chk_writes = take 3 chk_writes @ (5120, chk_map_bytes) # drop 4 chk_writes"
    "chk_writes = take 4 chk_writes @ (6144, chk_map_bytes) # drop 5 chk_writes"
    "chk_writes = take 5 chk_writes @ (10240, in_to_bytes ex_crc chk_root) # drop 6 chk_writes"
    "chk_writes = take 6 chk_writes @ (32256, sb_to_bytes ex_crc chk_sb) # []"
    by (simp_all add: chk_writes_def)
  show "fl_read chk_file 0 512 = sb_to_bytes ex_crc chk_sb"
    by (rule chk_piece [OF w(1)]) (simp_all add: chk_lengths)
  show "fl_read chk_file 512 64 = ah_to_bytes ex_crc chk_hdr"
    by (rule chk_piece [OF w(2)]) (simp_all add: chk_lengths chk_writes_def apart_def)
  show "fl_read chk_file 1024 1 = [1]"
    by (rule chk_piece [OF w(3)]) (simp_all add: chk_lengths chk_writes_def apart_def)
  show "fl_read chk_file 5120 1024 = chk_map_bytes"
    by (rule chk_piece [OF w(4)]) (simp_all add: chk_lengths chk_map(2) chk_writes_def apart_def)
  show "fl_read chk_file 6144 1024 = chk_map_bytes"
    by (rule chk_piece [OF w(5)]) (simp_all add: chk_lengths chk_map(2) chk_writes_def apart_def)
  show "fl_read chk_file 10240 256 = in_to_bytes ex_crc chk_root"
    by (rule chk_piece [OF w(6)]) (simp_all add: chk_lengths chk_map(2) chk_writes_def apart_def)
  show "fl_read chk_file 32256 512 = sb_to_bytes ex_crc chk_sb"
    by (rule chk_piece [OF w(7)]) (simp_all add: chk_lengths chk_map(2) chk_writes_def apart_def)
qed

lemma chk_zero:
  assumes "o1 + n \<le> 32768" and "list_all (\<lambda>(o2, c). apart (o1, o1 + n) (o2, o2 + length c)) chk_writes"
  shows "fl_read chk_file o1 n = replicate n 0"
  unfolding chk_file_def using put_writes_read_other [OF chk_inside(1) assms(2)] assms(1) blank_read by (simp add: blank_def)

subsection \<open>The check of the image\<close>

lemma chk_pread:
  "unat off + n \<le> 32768 \<Longrightarrow> dv_pread (g_dev chk_fs) n off = Inr (fl_read chk_file (unat off) n)"
  by (simp add: dv_pread_def chk_fs_def dv_open_def dv_new_def chk_inside(2))

lemma chk_fs_fields [simp]: "g_sb chk_fs = chk_sb" "g_map chk_fs = ex_map" "g_bs chk_fs = 512" "bs_of chk_fs = 512"
  by (simp_all add: chk_fs_def g_bs_def chk_sb_def ex_sb_def bs_of_def)

lemma chk_sb_fields [simp]: "sb_blocksize chk_sb = 512" "sb_inodesize chk_sb = 256" "sb_incompat chk_sb = 0"
  "sb_root_ino chk_sb = blk_addr 0 40" "sb_next_ag chk_sb = 1" "sb_agmap_offset chk_sb = 5120"
  "sb_agmap_length chk_sb = 1024" "sb_journal_start chk_sb = blk_addr 0 30" "sb_journal_length chk_sb = 8"
  "sb_kernel_offset chk_sb = 0" "sb_free_blocks chk_sb = 0" "sb_journal_head chk_sb = 0" "sb_journal_seq chk_sb = 1"
  by (simp_all add: chk_sb_def ex_sb_def)

lemma chk_super: "sb_parse ex_crc (sb_to_bytes ex_crc chk_sb) = Inr chk_sb"
  by (rule sb_codec.dec_enc_exact [OF chk_sb_wf])

lemma chk_agmap: "load_agmap ex_crc (g_dev chk_fs) chk_sb = Inr (ex_map, [Inr 1, Inr 1])"
proof -
  have "read_agmap_copy ex_crc (g_dev chk_fs) chk_sb 0 = Inr ex_map" "read_agmap_copy ex_crc (g_dev chk_fs) chk_sb 1 = Inr ex_map"
    by (simp_all add: read_agmap_copy_def agmap_copy_off_def chk_pread chk_pieces chk_map(3))
  then show ?thesis by (simp add: load_agmap_def better_map_def ex_map_def)
qed

lemma chk_open: "open_fs ex_crc fuel chk_file False = Inr chk_fs"
proof -
  have d: "g_dev chk_fs = dv_open chk_file False" by (simp add: chk_fs_def)
  have "find_superblock ex_crc (g_dev chk_fs) = Inr (chk_sb, False)"
    by (simp add: find_superblock_def chk_pread chk_pieces chk_super)
  then show ?thesis using chk_agmap by (simp add: open_fs_def Let_def d) (simp add: chk_fs_def)
qed

lemma chk_block: "l < 64 \<Longrightarrow> read_block chk_fs (blk_addr 0 l) = Inr (fl_read chk_file (unat l * 512) 512)"
proof -
  assume l: "l < 64"
  then have n: "unat l < 64" by (simp add: word_less_nat_alt)
  then have "unat (ucast l * 512 :: u64) = unat l * 512" by (simp add: unat_word_ariths)
  then show ?thesis
    using l n ex_resolve [of l] by (simp add: read_block_def g_resolve_def chk_pread)
qed

lemma chk_header: "read_ag_header ex_crc chk_fs 0 = Inr chk_hdr"
proof -
  have "fl_read chk_file 512 512 = ah_to_bytes ex_crc chk_hdr @ fl_read chk_file 576 448"
    using fl_read_split [of chk_file 512 64 448] chk_pieces(2) by simp
  then show ?thesis
    using chk_block [of 1] by (simp add: read_ag_header_def ag_header_block_def ah_parse_to_bytes)
qed

lemma chk_root_table: "read_root_table chk_fs chk_hdr = Inr (1 # fl_read chk_file 1025 511)"
proof -
  have geo: "rt_geometry 64 512 = (1, 1)" by (simp add: rt_geometry_def div_ceil_def)
  have "fl_read chk_file 1024 512 = [1] @ fl_read chk_file 1025 511"
    using fl_read_split [of chk_file 1024 1 511] chk_pieces(3) by simp
  then show ?thesis using chk_block [of 2] by (simp add: read_root_table_def chk_hdr_def geo)
qed

lemma chk_tally: "tally_ag ex_crc chk_fs chk_hdr = Inr (tally_empty\<lparr>tl_rsvd := 64\<rparr>)"
proof -
  have geo: "rt_geometry 64 512 = (1, 1)" by (simp add: rt_geometry_def div_ceil_def)
  have "cell_get (1 # fl_read chk_file 1025 511) 0 = CELL_RSVD" by (simp add: cell_get_def)
  then have "tally_cell ex_crc chk_fs chk_hdr 1 (1 # fl_read chk_file 1025 511) 0 t = (Inr (), t\<lparr>tl_rsvd := tl_rsvd t + 64\<rparr>)" for t
    by (simp add: tally_cell_def tl_count_def chk_hdr_def)
  then show ?thesis
    unfolding tally_ag_def Let_def chk_root_table by (simp add: chk_hdr_def geo tally_empty_def table_leaks_def bindS_def)
qed

lemma chk_allocator: "check_allocator ex_crc chk_fs r = (Inr (), r)"
proof -
  have "sum_list (map (\<lambda>s. ucast (sg_blocks s)) (ae_segs (am_entries ex_map ! 0))) = (64 :: u64)"
    by (simp add: ex_map_def)
  then have "check_ag ex_crc chk_fs (0, am_entries ex_map ! 0) 0 r = (Inr 0, r)"
    using chk_header chk_tally
    by (simp add: check_ag_def matchR_def matchS_def askS_def check_counts_def whenS_def bindS_def Let_def tally_empty_def)
      (simp add: ex_map_def chk_hdr_def)
  then show ?thesis by (simp add: check_allocator_def whenS_def bindS_def ex_map_def)
qed

lemma chk_root_inode: "read_inode ex_crc chk_fs (blk_addr 0 40) = Inr chk_root"
proof -
  have "inode_phys chk_fs (blk_addr 0 40) = Inr 10240"
    using ex_resolve [of 20] by (simp add: inode_phys_def g_resolve_def)
  moreover have "in_parse ex_crc (in_to_bytes ex_crc chk_root) = Inr chk_root"
    by (rule in_codec.dec_enc_exact) (simp add: chk_root_def in_wf_def inode_default_def)
  ultimately show ?thesis by (simp add: read_inode_def chk_pread chk_pieces)
qed

lemma chk_namespace:
  "check_namespace ex_sip ex_crc chk_fs fuel r = (Inr (), r\<lparr>rp_info := rp_info r @ [''namespace: {dirs} directorie(s), {files} file(s)'']\<rparr>)"
proof -
  have root: "is_dir chk_root" "in_format chk_root = FMT_EMPTY" "in_nlink chk_root = 2"
    by (simp_all add: chk_root_def is_dir_def inode_default_def)
  then have "dir_check ex_sip ex_crc chk_fs [] chk_root = Inr []" "dir_list ex_crc chk_fs [] chk_root = Inr []"
    by (simp_all add: dir_check_def dir_list_def)
  then have "walk_dir ex_sip ex_crc chk_fs fuel 65 (blk_addr 0 40) \<lparr>wk_report = r, wk_nlinks = [], wk_files = 0, wk_dirs = 0\<rparr>
      = (Inr (), \<lparr>wk_report = r, wk_nlinks = [(blk_addr 0 40, 2)], wk_files = 0, wk_dirs = 1\<rparr>)"
    using root chk_root_inode
    by (simp add: numeral_eq_Suc matchR_def matchS_def askS_def bindS_def)
  then show ?thesis
    using root chk_root_inode
    by (simp add: check_namespace_def check_link_def matchR_def matchS_def askS_def whenS_def bindS_def)
qed

lemma chk_journal: "journal_pending ex_crc (Suc fuel) chk_fs = Inr 0"
proof -
  have "fl_read chk_file 15360 512 = replicate 512 0"
    by (rule chk_zero) (simp_all add: chk_writes_def chk_lengths chk_map(2) apart_def)
  moreover define z :: buffer where "z = replicate 512 0"
  ultimately have "fl_read chk_file 15360 512 = z" by simp
  then have "journal_read chk_fs 0 = Inr z"
    using ex_resolve [of 30] by (simp add: journal_read_def journal_phys_def g_resolve_def chk_pread)
  moreover have "get_bytes z 0 4 \<noteq> JDESC_MAGIC"
    using uniform_plain [of 512 0] unfolding z_def by (auto simp: is_journal_block_def)
  ultimately have "next_txn ex_crc chk_fs 0 1 = Inr None"
    by (simp add: next_txn_def try_read_txn_def jblock_ok_def)
  then show ?thesis by (simp add: journal_pending_def)
qed

lemma chk_clean: "\<exists>r. fsck_check ex_sip ex_crc (Suc fuel) chk_file = Inr r \<and> rp_clean r"
proof -
  have seg: "first_seg chk_fs = Some \<lparr>sg_block = 0, sg_blocks = 64, sg_dev_offset = 0\<rparr>"
    by (simp add: first_seg_def ex_map_def)
  have agmap: "check_agmap chk_fs [Inr 1, Inr 1] r = (Inr (), r\<lparr>rp_info := rp_info r @ [''ag map copy {i}: valid, gen {gen}'', ''ag map copy {i}: valid, gen {gen}'']\<rparr>)" for r
    by (simp add: check_agmap_def whenS_def bindS_def) (simp add: ex_map_def)
  have backup: "check_backup ex_crc chk_fs r = (Inr (), r)" for r
    by (simp add: check_backup_def seg chk_pread chk_pieces chk_super matchR_def matchS_def askS_def whenS_def)
  have journal: "check_journal ex_crc chk_fs (Suc fuel) r = (Inr (), r\<lparr>rp_info := rp_info r @ [''journal: clean (seq {}, head {})'']\<rparr>)" for r
    by (simp add: check_journal_def chk_journal matchR_def matchS_def askS_def)
  have kernel: "check_kernel ex_sip ex_crc chk_fs r = (Inr (), r)" for r
    by (simp add: check_kernel_def whenS_def Let_def)
  have parts: "\<exists>r'. check_parts ex_sip ex_crc (Suc fuel) chk_fs [Inr 1, Inr 1] r = (Inr (), r') \<and> rp_errors r' = rp_errors r" for r
    by (simp add: check_parts_def bindS_def agmap backup journal chk_allocator chk_namespace kernel)
  have "\<exists>r'. check_on ex_sip ex_crc (Suc fuel) chk_fs report_default = (Inr (), r') \<and> rp_errors r' = []"
    using parts [of "report_default\<lparr>rp_info := [''superblock: v2, blocksize {}, inodesize {}, label {}, gen {}'']\<rparr>"]
    by (simp add: check_on_def bindS_def chk_pread chk_pieces chk_super chk_agmap matchR_def matchS_def askS_def)
      (simp add: report_default_def)
  then show ?thesis by (auto simp: fsck_check_def chk_open rp_clean_def)
qed

subsection \<open>A filesystem with one tree node\<close>

definition nd_body :: "u8 \<Rightarrow> u64 \<Rightarrow> buffer" where
  "nd_body st a = TREE_MAGIC @ replicate 12 0 @ [1] @ replicate 7 0 @ [st] @ replicate 15 0 @ to_be 4 (1 :: u32) @
     replicate 4 0 @ to_be 8 a @ replicate 1992 0"

definition nd_fs :: "u8 \<Rightarrow> u64 \<Rightarrow> gofs" where
  "nd_fs st a = \<lparr>g_dev = dv_open (put_writes [(10240, seal ex_crc (nd_body st a))] (blank 131072)) False,
     g_sb = ex_sb\<lparr>sb_blocksize := 2048\<rparr>, g_map = ex_map, g_hints = (\<lambda>_. None)\<rparr>"

definition nd_inode :: inode where
  "nd_inode = inode_default\<lparr>in_format := FMT_TREE,
     in_payload := [2, 0, 3] @ replicate 9 0 @ [0, 0, 0, 0] @ to_be 8 (blk_addr 0 5) @ replicate 104 0\<rparr>"

lemma nd_parts:
  "get_bytes (seal ex_crc (nd_body st a)) 0 4 = TREE_MAGIC"
  "get_u32 (seal ex_crc (nd_body st a)) 4 = csum ex_crc (seal ex_crc (nd_body st a)) 4"
  "length (seal ex_crc (nd_body st a)) = 2048"
  "drop 8 (seal ex_crc (nd_body st a)) = drop 8 (nd_body st a)"
proof -
  have len: "length (nd_body st a) = 2048" by (simp add: nd_body_def TREE_MAGIC_def)
  then show "length (seal ex_crc (nd_body st a)) = 2048" by simp
  show "get_u32 (seal ex_crc (nd_body st a)) 4 = csum ex_crc (seal ex_crc (nd_body st a)) 4"
    using len by (intro seal_verifies) simp
  show "drop 8 (seal ex_crc (nd_body st a)) = drop 8 (nd_body st a)"
    using len by (simp add: seal_def put_u32_def drop_put_bytes)
  show "get_bytes (seal ex_crc (nd_body st a)) 0 4 = TREE_MAGIC"
    by (simp add: seal_def put_u32_def put_bytes_def get_bytes_def nd_body_def TREE_MAGIC_def)
qed

lemma nd_read:
  assumes "l < 64"
  shows "node_read ex_crc (nd_fs st a) [] (blk_addr 0 l) =
    (if l = 5 then Inr (seal ex_crc (nd_body st a)) else Inl (Msg ''block {addr:#x}: not an extent tree node''))"
proof -
  let ?f = "put_writes [(10240, seal ex_crc (nd_body st a))] (blank 131072)"
  have in_: "inside (fl_len (blank 131072)) [(10240, seal ex_crc (nd_body st a))]"
    by (simp add: inside_def nd_parts(3) blank_def)
  have len: "fl_len ?f = 131072" using put_writes_len [OF in_] by (simp add: blank_def)
  have n: "unat l < 64" using assms by (simp add: word_less_nat_alt)
  have res: "am_resolve ex_map (blk_addr 0 l) 2048 = Some (ucast l * 2048)"
    using am_resolve_one_segment [of 0 ex_map 3 64 0 l 2048] assms by (simp add: ex_map_def)
  have off: "unat (ucast l * 2048 :: u64) = unat l * 2048" using n by (simp add: unat_word_ariths)
  have bs: "g_bs (nd_fs st a) = 2048" by (simp add: nd_fs_def g_bs_def)
  have "read_block (nd_fs st a) (blk_addr 0 l) = Inr (fl_read ?f (unat l * 2048) 2048)"
    using res off n len bs
    by (simp add: read_block_def g_resolve_def nd_fs_def dv_pread_def dv_open_def dv_new_def)
  moreover have "fl_read ?f (unat l * 2048) 2048 = (if l = 5 then seal ex_crc (nd_body st a) else fl_read (blank 131072) (unat l * 2048) 2048)"
  proof (cases "l = 5")
    case True
    then show ?thesis by (simp add: nd_parts(3))
  next
    case False
    then have "unat l \<noteq> 5" by (simp add: word_unat_eq_iff)
    then have ap: "apart (unat l * 2048, unat l * 2048 + 2048) (10240, 10240 + 2048)" by (simp add: apart_def) arith
    have "unat l * 2048 + 2048 \<le> fl_len (blank 131072)" using n by (simp add: blank_def)
    then have "fl_read ?f (unat l * 2048) 2048 = fl_read (blank 131072) (unat l * 2048) 2048"
      using ap by (intro put_writes_read_other [OF in_]) (simp add: nd_parts(3))
    then show ?thesis using False by (simp only: if_False)
  qed
  moreover have "get_bytes (fl_read (blank 131072) o1 2048) 0 4 \<noteq> TREE_MAGIC" for o1
  proof -
    have "get_bytes (fl_read (blank 131072) o1 2048) 0 4 ! 0 = 0"
      unfolding blank_read by (simp add: get_bytes_def)
    moreover have "TREE_MAGIC ! 0 = 0x35" by (simp add: TREE_MAGIC_def)
    ultimately show ?thesis by auto
  qed
  ultimately show ?thesis using nd_parts(1,2) by (simp add: node_read_def txn_read_def)
qed

lemma nd_read_Inr: "node_read ex_crc (nd_fs st a) [] x = Inr buf \<Longrightarrow> buf = seal ex_crc (nd_body st a)"
proof -
  assume read: "node_read ex_crc (nd_fs st a) [] x = Inr buf"
  obtain ag l where x: "blk_split x = (ag, l)" by (cases "blk_split x")
  then have "x = blk_addr ag l" using blk_addr_split by simp
  moreover have "ag = 0 \<and> l < 64"
  proof (rule ccontr)
    assume "\<not> (ag = 0 \<and> l < 64)"
    then have "am_resolve ex_map x 2048 = None"
      using x by (auto simp: am_resolve_def ex_map_def Let_def linorder_not_less [symmetric] unat_eq_0)
    then show False using read
      by (simp add: node_read_def txn_read_def read_block_def g_resolve_def nd_fs_def)
  qed
  ultimately show ?thesis using read nd_read [of l st a] by (auto split: if_splits)
qed

lemma nd_at:
  assumes "i < 64"
  shows "node_at (seal ex_crc (nd_body st a)) i =
      Inr (if i < 4 then drop_bit (2 * i) st AND 3 else 0, node_child (seal ex_crc (nd_body st a)) i)"
    and "node_child (seal ex_crc (nd_body st a)) 0 = (1, a)" and "node_level (seal ex_crc (nd_body st a)) = 1"
proof -
  let ?b = "seal ex_crc (nd_body st a)"
  have drop: "drop off ?b = drop off (nd_body st a)" if "8 \<le> off" for off
  proof -
    have "drop off ?b = drop (off - 8) (drop 8 ?b)" using that by simp
    then show ?thesis using that by (simp only: nd_parts(4)) simp
  qed
  then have slice: "get_bytes ?b off n = get_bytes (nd_body st a) off n" if "8 \<le> off" for off n
    using that by (simp add: get_bytes_def)
  have "get_bytes (nd_body st a) 24 16 = st # replicate 15 0"
    by (simp add: get_bytes_def nd_body_def TREE_MAGIC_def)
  moreover have "cell_get (st # replicate 15 0) i = (if i < 4 then drop_bit (2 * i) st AND 3 else 0)"
    using assms by (cases "i < 4") (auto simp: cell_get_def nth_Cons' mult.commute)
  ultimately show "node_at ?b i = Inr (if i < 4 then drop_bit (2 * i) st AND 3 else 0, node_child ?b i)"
    using assms slice [of 24 16] by (simp add: node_at_def node_state_def nd_parts(3))
  show "node_child ?b 0 = (1, a)"
    using slice [of 40 4] slice [of 48 8]
    by (simp add: node_child_def get_int_defs) (simp add: get_bytes_def nd_body_def TREE_MAGIC_def)
  have "?b ! 16 = drop 16 ?b ! 0" using nd_parts(3) [of st a] by simp
  also have "drop 16 ?b = drop 16 (nd_body st a)" by (rule drop) simp
  also have "\<dots> ! 0 = 1" by (simp add: nd_body_def TREE_MAGIC_def)
  finally show "node_level ?b = 1" by (simp only: node_level_def)
qed

lemma nd_levels_fall: "levels_fall ex_crc (nd_fs 2 a)"
proof -
  have "fst c \<noteq> CELL_REFINED" if "node_at (seal ex_crc (nd_body 2 a)) i = Inr c" for i c
  proof -
    have i: "i < 64" using that by (auto simp: node_at_def guardR_def split: if_splits)
    have "drop_bit (2 * i) (2 :: u8) AND 3 \<noteq> 3"
    proof (cases i)
      case (Suc k)
      then have "drop_bit (2 * i) (2 :: u8) = drop_bit (2 * k) (drop_bit 2 2)" by (simp add: drop_bit_drop_bit add.commute)
      then show ?thesis by simp
    qed simp
    then show ?thesis using that nd_at(1) [OF i, of 2 a] by (auto split: if_splits)
  qed
  then show ?thesis unfolding levels_fall_def using nd_read_Inr by fastforce
qed

lemma nd_cycle: "node_read ex_crc (nd_fs 3 (blk_addr 0 5)) [] (blk_addr 0 5) = Inr (seal ex_crc (nd_body 3 (blk_addr 0 5)))"
  "node_at (seal ex_crc (nd_body 3 (blk_addr 0 5))) 0 = Inr (CELL_REFINED, 1, blk_addr 0 5)"
  using nd_read [of 5 3 "blk_addr 0 5"] nd_at(1) [of 0 3 "blk_addr 0 5"] nd_at(2) [of 0 3 "blk_addr 0 5"]
  by simp_all

lemma nd_root:
  "in_format nd_inode = FMT_TREE" "root_level (in_payload nd_inode) = 2" "root_state (in_payload nd_inode) 0 = CELL_REFINED"
  "root_child (in_payload nd_inode) 0 = (0, blk_addr 0 5)"
proof -
  show "in_format nd_inode = FMT_TREE" "root_level (in_payload nd_inode) = 2"
    by (simp_all add: nd_inode_def root_level_def)
  show "root_state (in_payload nd_inode) 0 = CELL_REFINED"
    by (simp add: nd_inode_def root_state_def get_bytes_def cell_get_def)
  show "root_child (in_payload nd_inode) 0 = (0, blk_addr 0 5)"
    by (simp add: nd_inode_def root_child_def get_int_defs get_bytes_def)
qed

lemma nd_root_states: "i < 6 \<Longrightarrow> root_state (in_payload nd_inode) i = CELL_REFINED \<Longrightarrow> i = 0"
proof -
  assume i: "i < 6" "root_state (in_payload nd_inode) i = CELL_REFINED"
  have "get_bytes (in_payload nd_inode) 2 2 = [3, 0]" by (simp add: nd_inode_def get_bytes_def numeral_eq_Suc)
  moreover have "i \<in> {0, 1, 2, 3, 4, 5}" using i(1) by auto
  ultimately show "i = 0" using i(2) by (auto simp: root_state_def cell_get_def)
qed

section \<open>Properties\<close>

text \<open>C8: A clean report means what it says: the image opens, its primary superblock is valid and
  the backup is one of the same filesystem, the journal can be scanned, every AG in use has a
  valid header of its own whose free and full counters are those of the refinement tree and whose
  tree has no problem, and every inode reached from the root exists with the link count the
  directories give it.\<close>

theorem fsck_clean_sound:
  assumes "fsck_check sip crc fuel f = Inr r" and "rp_clean r"
  shows "\<exists>g. open_fs crc fuel f False = Inr g \<and> sb_incompat (g_sb g) = 0 \<and>
    (\<exists>raw sb. dv_pread (g_dev g) SB_SIZE 0 = Inr raw \<and> sb_parse crc raw = Inr sb) \<and>
    (\<forall>s. first_seg g = Some s \<longrightarrow>
      (\<exists>bak b. dv_pread (g_dev g) SB_SIZE (sg_dev_offset s + (ucast (sg_blocks s) - 1) * bs_of g) = Inr bak \<and>
        sb_parse crc bak = Inr b \<and> sb_uuid b = sb_uuid (g_sb g))) \<and>
    (\<exists>n. journal_pending crc fuel g = Inr n) \<and>
    (\<forall>i<length (am_entries (g_map g)). let e = am_entries (g_map g) ! i in
      ae_flags e AND AGF_RETIRED = 0 \<and> ae_flags e AND AGF_PRESENT \<noteq> 0 \<longrightarrow> ag_sound crc g i e) \<and>
    (\<exists>r0 w. walk_dir sip crc g fuel 65 (sb_root_ino (g_sb g))
        \<lparr>wk_report = r0, wk_nlinks = [], wk_files = 0, wk_dirs = 0\<rparr> = (Inr (), w) \<and> rp_clean (wk_report w) \<and>
      (\<forall>(ino, k)\<in>set (wk_nlinks w). \<exists>i. read_inode crc g ino = Inr i \<and> in_nlink i = k))"
proof -
  obtain g where g: "open_fs crc fuel f False = Inr g" and
    res: "(case check_on sip crc fuel g report_default of (Inl e, _) \<Rightarrow> Inl e | (Inr _, r) \<Rightarrow> Inr r) = Inr r"
    using assms(1) by (auto simp: fsck_check_def tryR_Inr_iff)
  then have run: "check_on sip crc fuel g report_default = (Inr (), r)" by (auto split: prod.splits sum.splits)
  have clean: "\<not> dirty r" using assms(2) by (simp add: rp_clean_def)
  obtain raw sb status s0 where sb: "dv_pread (g_dev g) SB_SIZE 0 = Inr raw" "sb_parse crc raw = Inr sb" "sb_incompat (g_sb g) = 0"
    and parts: "check_parts sip crc fuel g status s0 = (Inr (), r)" by (rule check_on_clean [OF run clean])
  obtain s1 s2 n s3 s4 s5 where backup: "check_backup crc g s1 = (Inr (), s2)" "\<not> dirty s2"
    and n: "journal_pending crc fuel g = Inr n" and alloc: "check_allocator crc g s3 = (Inr (), s4)" "\<not> dirty s4"
    and names: "check_namespace sip crc g fuel s4 = (Inr (), s5)" "\<not> dirty s5"
    by (rule check_parts_clean [OF parts clean])
  show ?thesis
    using g sb n check_backup_clean [OF backup] check_allocator_clean [OF alloc _ refl] check_namespace_clean [OF names]
    unfolding Let_def rp_clean_def by (intro exI [of _ g]) blast
qed

lemma fsck_clean_sound_witness:
  "\<exists>r g. fsck_check ex_sip ex_crc 1 chk_file = Inr r \<and> open_fs ex_crc 1 chk_file False = Inr g \<and>
     ag_sound ex_crc g 0 (am_entries (g_map g) ! 0)"
proof -
  obtain r where r: "fsck_check ex_sip ex_crc 1 chk_file = Inr r" "rp_clean r"
    using chk_clean [of 0] by auto
  obtain g where g: "open_fs ex_crc 1 chk_file False = Inr g" and
    ags: "\<forall>i<length (am_entries (g_map g)). let e = am_entries (g_map g) ! i in
      ae_flags e AND AGF_RETIRED = 0 \<and> ae_flags e AND AGF_PRESENT \<noteq> 0 \<longrightarrow> ag_sound ex_crc g i e"
    using fsck_clean_sound [OF r] by blast
  have "g = chk_fs" using g chk_open by simp
  then have "ag_sound ex_crc g 0 (am_entries (g_map g) ! 0)"
    using ags [rule_format, of 0] by (simp add: Let_def) (simp add: ex_map_def)
  then show ?thesis using r g by blast
qed

text \<open>C28: A tally without problems counts every block of its AG exactly once, as free, reserved or
  full, whatever the depth its cell is refined to (when a partial last cell is reserved, as the
  code leaves it).\<close>

theorem fsck_tally_exact:
  assumes "tally_ag crc g hdr = Inr t" and "tl_errs t = []" and "read_root_table g hdr = Inr table"
    and "unat (ah_length hdr) mod CELL_BLOCKS = 0 \<or>
      cell_get table (fst (rt_geometry (ah_length hdr) (sb_blocksize (g_sb g))) - 1) = CELL_RSVD"
  shows "tl_free t + tl_rsvd t + tl_full t = ucast (ah_length hdr)"
  using tally_ag_total [OF assms(1-3) refl assms(4)] by (simp add: tl_total_def)

lemma fsck_tally_exact_witness:
  "\<exists>t. tally_ag ex_crc chk_fs chk_hdr = Inr t \<and> tl_free t + tl_rsvd t + tl_full t = ucast (ah_length chk_hdr)"
proof -
  have "tl_errs (tally_empty\<lparr>tl_rsvd := 64\<rparr>) = []" by (simp add: tally_empty_def)
  moreover have "cell_get (1 # fl_read chk_file 1025 511)
      (fst (rt_geometry (ah_length chk_hdr) (sb_blocksize (g_sb chk_fs))) - 1) = CELL_RSVD"
    by (simp add: chk_hdr_def rt_geometry_def div_ceil_def cell_get_def)
  ultimately show ?thesis using fsck_tally_exact [OF chk_tally _ chk_root_table] chk_tally by blast
qed

text \<open>C29: The walk of a file's extent tree ends when the levels fall along its child references,
  with at most 257 nested nodes.\<close>

theorem fsck_tree_walk_ends:
  assumes "levels_fall crc g"
    and "\<forall>i<ROOT_FANOUT. child_below crc g (root_state (in_payload ino) i, root_child (in_payload ino) i) (root_level (in_payload ino))"
  shows "check_mapping crc g TREE_FUEL ino \<noteq> Inl Diverges"
proof -
  have "check_tree_child crc g TREE_FUEL (root_state (in_payload ino) i, root_child (in_payload ino) i)
      (root_level (in_payload ino)) \<noteq> Inl Diverges" if "i < ROOT_FANOUT" for i
    by (rule check_tree_child_ends [OF assms(1)])
      (use assms(2) that unat_bound [of "root_level (in_payload ino)"] in simp_all)
  then have "mapR (\<lambda>i. check_tree_child crc g TREE_FUEL (root_state (in_payload ino) i, root_child (in_payload ino) i)
      (root_level (in_payload ino))) [0..<ROOT_FANOUT] \<noteq> Inl Diverges"
    by (intro mapR_neq) simp
  then show ?thesis unfolding check_mapping_def Let_def by (auto simp: tryR_Inl_iff split: if_splits)
qed

lemma fsck_tree_walk_ends_witness: "check_mapping ex_crc (nd_fs 2 0) TREE_FUEL nd_inode \<noteq> Inl Diverges"
proof (rule fsck_tree_walk_ends [OF nd_levels_fall])
  show "\<forall>i<ROOT_FANOUT. child_below ex_crc (nd_fs 2 0) (root_state (in_payload nd_inode) i, root_child (in_payload nd_inode) i)
      (root_level (in_payload nd_inode))"
    using nd_root_states nd_root(2) nd_at(3) [of 0] nd_read_Inr by (fastforce simp: child_below_def)
qed

text \<open>C30: But the level is only reported, not enforced: a node whose first child refers to the node
  itself is walked for ever, however many nested calls are allowed, so that the check of a
  corrupt image does not end.\<close>

theorem fsck_tree_cycle_diverges:
  assumes "in_format ino = FMT_TREE" and "root_level (in_payload ino) \<noteq> 0" and "root_state (in_payload ino) 0 = CELL_REFINED"
    and "node_read crc g [] (snd (root_child (in_payload ino) 0)) = Inr buf" and "node_level buf \<noteq> 0"
    and "node_at buf 0 = Inr (CELL_REFINED, b, snd (root_child (in_payload ino) 0))"
    and "NODE_CHILDREN + CHILD_REC * NODE_FANOUT \<le> length buf"
  shows "check_mapping crc g fuel ino = Inl Diverges"
proof -
  have "\<forall>i<NODE_FANOUT. \<exists>c. node_at buf i = Inr c" using assms(7) by (simp add: node_at_def)
  note cycle = check_tree_child_cycle [OF assms(4,6,5) this assms(2), of fuel "fst (root_child (in_payload ino) 0)"]
  have "[0..<ROOT_FANOUT] = 0 # [1..<ROOT_FANOUT]" by (simp add: upt_conv_Cons)
  then show ?thesis using cycle assms(1,3) by (simp add: check_mapping_def Let_def del: upt_rec_numeral upt_Suc)
qed

lemma fsck_tree_cycle_diverges_witness: "check_mapping ex_crc (nd_fs 3 (blk_addr 0 5)) 1000 nd_inode = Inl Diverges"
  by (rule fsck_tree_cycle_diverges [where buf = "seal ex_crc (nd_body 3 (blk_addr 0 5))" and b = 1])
    (simp_all add: nd_root nd_cycle nd_at(3) [of 0] nd_parts(3))

end
