(* ===== verification/FuseProps.thy ===== *)
theory FuseProps
  imports Fuse NamespaceProps
begin

text \<open>
  What the FUSE server answers: the errno of every error that names a file, the errors of creating
  what exists, and directories listed in pages.
\<close>

unbundle bit_operations_syntax

subsection \<open>Searching a text\<close>

lemma has_text_nil: "has_text [] p \<longleftrightarrow> p = []"
  by simp

lemma has_text_sep:
  assumes "p \<noteq> []" and "c \<notin> set p"
  shows "has_text (n @ c # m) p \<longleftrightarrow> has_text n p \<or> has_text m p"
proof (induction n)
  case Nil
  have "take (length p) (c # m) \<noteq> p" using assms by (cases p) auto
  then show ?case using assms(1) by simp
next
  case (Cons x n)
  have "take (length p) (x # n @ c # m) = p \<longleftrightarrow> take (length p) (x # n) = p"
  proof (cases "length p \<le> length (x # n)")
    case True
    then have "take (length p) ((x # n) @ c # m) = take (length p) (x # n)" by (simp only: take_append) simp
    then show ?thesis by simp
  next
    case False
    then have "take (length p) ((x # n) @ c # m) = (x # n) @ take (length p - length (x # n)) (c # m)"
      by (simp only: take_append take_all_iff) simp
    moreover obtain k where "length p - length (x # n) = Suc k" using False by (metis Suc_diff_Suc not_le)
    ultimately have "c \<in> set (take (length p) ((x # n) @ c # m))" by simp
    then have "take (length p) (x # n @ c # m) \<noteq> p" using assms(2) by auto
    moreover have "length (take (length p) (x # n)) < length p" using False by simp
    then have "take (length p) (x # n) \<noteq> p" by auto
    ultimately show ?thesis by blast
  qed
  then show ?case using Cons.IH by simp
qed

lemma chars_colon: "chars (CHR '':'' # m) = 0x3A # chars m"
  by (simp add: chars_def)

lemma phrase_plain:
  "chars ''no such file'' \<noteq> [] \<and> 0x3A \<notin> set (chars ''no such file'')"
  "chars ''already exists'' \<noteq> [] \<and> 0x3A \<notin> set (chars ''already exists'')"
  "chars ''not empty'' \<noteq> [] \<and> 0x3A \<notin> set (chars ''not empty'')"
  "chars ''not a directory'' \<noteq> [] \<and> 0x3A \<notin> set (chars ''not a directory'')"
  "chars ''is a directory'' \<noteq> [] \<and> 0x3A \<notin> set (chars ''is a directory'')"
  "chars ''out of space'' \<noteq> [] \<and> 0x3A \<notin> set (chars ''out of space'')"
  "chars ''no room'' \<noteq> [] \<and> 0x3A \<notin> set (chars ''no room'')"
  "chars ''name too long'' \<noteq> [] \<and> 0x3A \<notin> set (chars ''name too long'')"
  by (simp_all add: chars_def)

lemma named_text:
  "p \<noteq> [] \<and> 0x3A \<notin> set p \<Longrightarrow> has_text (err_text (NameMsg n (CHR '':'' # m))) p \<longleftrightarrow> has_text n p \<or> has_text (chars m) p"
  unfolding err_text.simps chars_colon by (intro has_text_sep) simp_all

lemmas named_texts = phrase_plain [THEN named_text]

subsection \<open>Error numbers\<close>

lemma message_phrases:
  "has_text (chars '' already exists'') (chars ''no such file'') = False"
  "has_text (chars '' already exists'') (chars ''already exists'') = True"
  "has_text (chars '' no such file or directory'') (chars ''no such file'') = True"
  "has_text (chars '' directory not empty'') (chars ''no such file'') = False"
  "has_text (chars '' directory not empty'') (chars ''already exists'') = False"
  "has_text (chars '' directory not empty'') (chars ''not empty'') = True"
  by code_simp+


text \<open>C37: Creating what exists: a file, a directory or a symbolic link with the name of an entry of the
  parent is refused with \<open>EEXIST\<close> and nothing changes, in memory or on the device, except that a
  name that contains \<open>no such file\<close> is answered with \<open>ENOENT\<close>.\<close>

theorem fuse_create_existing:
  assumes "fu_rw s" and "check_name n = Inr ()"
    and "read_inode_txn crc (fu_fs s) [] (real_ino (fu_fs s) parent) = Inr p" and "is_dir p"
    and "dir_find sip crc (fu_fs s) [] p n = Inr (Some e)"
  shows "let x = (if has_text n (chars ''no such file'') then ENOENT else EEXIST) in
    fuse_create sip crc nw parent (Some n) mode s = (Errno x, s) \<and>
    fuse_mkdir sip crc nw parent (Some n) mode s = (Errno x, s) \<and>
    fuse_symlink sip crc nw parent (Some n) (Some t) s = (Errno x, s)"
proof -
  let ?g = "fu_fs s"
  have err: "errno (NameMsg n '': already exists'') = (if has_text n (chars ''no such file'') then ENOENT else EEXIST)"
    by (simp add: errno_def Let_def named_texts message_phrases del: err_text.simps)
  have "mknod sip crc nw (real_ino ?g parent) n m ft nl dat ?g = (Inl (NameMsg n '': already exists''), ?g)" for m ft nl dat
    using assms(2-5) by (simp add: mknod_def mknod_txn_def commit_txn_def in_txn_def bindS_def askF_def askS_def ensureS_def)
  then show ?thesis
    using assms(1) err
    by (simp add: Let_def fuse_create_def fuse_mkdir_def fuse_symlink_def if_rw_def named_def runs_def reply_to_def
        create_at_def mkdir_at_def symlink_at_def is_err_def)
qed

text \<open>A root directory with one entry.\<close>

definition one_entry :: inode where
  "one_entry = inode_default\<lparr>in_mode := 0x41ED, in_nlink := 2, in_format := FMT_EMBED,
     in_payload := dir_image [\<lparr>de_ino = blk_addr 0 41, de_ftype = DT_FILE, de_name = [0x61, 0x62]\<rparr>]\<rparr>"

lemma one_entry_facts: "in_wf one_entry" "is_dir one_entry"
  "dir_parse (in_payload one_entry) = [\<lparr>de_ino = blk_addr 0 41, de_ftype = DT_FILE, de_name = [0x61, 0x62]\<rparr>]"
  "dir_find sip crc g t one_entry [0x61, 0x62] = Inr (Some \<lparr>de_ino = blk_addr 0 41, de_ftype = DT_FILE, de_name = [0x61, 0x62]\<rparr>)"
proof -
  let ?e = "\<lparr>de_ino = blk_addr 0 41, de_ftype = DT_FILE, de_name = [0x61, 0x62]\<rparr>"
  have size: "dirent_size ?e = 14" by (simp add: dirent_size_def utf16_char_def)
  then show "in_wf one_entry" by (simp add: in_wf_def one_entry_def dir_image_def)
  show d: "is_dir one_entry" by (simp add: is_dir_def one_entry_def)
  have "blk_addr 0 41 \<noteq> 0" by (simp add: blk_addr_def)
  then have "dirent_ok ?e" by (simp add: dirent_ok_def rstring_ok_def scalar_def utf16_char_def)
  then show p: "dir_parse (in_payload one_entry) = [?e]" using dir_parse_image [of "[?e]"] by (simp add: one_entry_def)
  have "in_format one_entry = FMT_EMBED" by (simp add: one_entry_def)
  then show "dir_find sip crc g t one_entry [0x61, 0x62] = Inr (Some ?e)" using d p by (simp add: dir_find_def)
qed

lemma one_fs_txn:
  assumes "in_wf i"
  shows "read_inode_txn ex_crc (one_fs i) [] (blk_addr 0 40) = Inr i"
proof -
  let ?f = "put_writes [(10240, in_to_bytes ex_crc i)] (blank 32768)"
  have len: "length (in_to_bytes ex_crc i) = 256" using length_in_to_bytes [OF assms] by simp
  have ins: "inside (fl_len (blank 32768)) [(10240, in_to_bytes ex_crc i)]" by (simp add: inside_def len blank_def)
  have "fl_read (put_writes ([] @ (10240, in_to_bytes ex_crc i) # []) (blank 32768)) 10240 (length (in_to_bytes ex_crc i))
      = in_to_bytes ex_crc i" by (rule put_writes_read) (use ins in simp_all)
  then have "fl_read ?f 10240 512 = in_to_bytes ex_crc i @ fl_read ?f 10496 256"
    using fl_read_split [of ?f 10240 256 256] len by simp
  then have buf: "get_bytes (fl_read ?f 10240 512) 0 INODE_SIZE = in_to_bytes ex_crc i" "length (fl_read ?f 10240 512) = 512"
    using len by (simp_all add: get_bytes_def)
  have "read_block (one_fs i) (blk_addr 0 20) = Inr (fl_read ?f 10240 512)"
    using put_writes_len [OF ins] ex_resolve [of 20]
    by (simp add: read_block_def g_resolve_def dv_pread_def one_fs_def dv_open_def dv_new_def blank_def g_bs_def)
  moreover have "inode_block_off (g_sb (one_fs i)) (blk_addr 0 40) = Inr (blk_addr 0 20, 0)"
    by (simp add: inode_block_off_def one_fs_def)
  ultimately show ?thesis
    using buf in_codec.dec_enc_exact [OF assms, of ex_crc] by (simp add: read_inode_txn_def txn_read_def guardR_def)
qed

lemma fuse_create_existing_witness:
  "fuse_mkdir ex_sip ex_crc (\<lambda>_. ts_default) FUSE_ROOT (Some [0x61, 0x62]) 0x1ED \<lparr>fu_fs = one_fs one_entry, fu_rw = True\<rparr>
    = (Errno EEXIST, \<lparr>fu_fs = one_fs one_entry, fu_rw = True\<rparr>)"
proof -
  let ?s = "\<lparr>fu_fs = one_fs one_entry, fu_rw = True\<rparr>"
  have root: "real_ino (fu_fs ?s) FUSE_ROOT = blk_addr 0 40" by (simp add: real_ino_def one_fs_def)
  have ok: "check_name [0x61, 0x62] = Inr ()" by (simp add: check_name_def utf16_char_def)
  have rd: "read_inode_txn ex_crc (fu_fs ?s) [] (real_ino (fu_fs ?s) FUSE_ROOT) = Inr one_entry"
    unfolding root using one_fs_txn [OF one_entry_facts(1)] by simp
  have "\<not> has_text [0x61, 0x62] (chars ''no such file'')" by code_simp
  then show ?thesis
    using fuse_create_existing [OF _ ok rd one_entry_facts(2,4)] by (simp add: Let_def)
qed

subsection \<open>Directories in pages\<close>

text \<open>What a reply buffer does with an entry: it is full, or it takes the entry at its end.\<close>

definition add_ok :: "('e list \<Rightarrow> 'e \<Rightarrow> bool \<times> 'e list) \<Rightarrow> bool" where
  "add_ok add \<longleftrightarrow> (\<forall>buf x. add buf x = (True, buf) \<or> add buf x = (False, buf @ [x]))"

lemma add_entries_prefix:
  assumes "add_ok add"
  shows "\<exists>k\<le>length xs. add_entries add buf xs = buf @ take k xs"
proof (induction xs arbitrary: buf)
  case (Cons x xs)
  consider "add buf x = (True, buf)" | "add buf x = (False, buf @ [x])" using assms unfolding add_ok_def by blast
  then show ?case
  proof cases
    case 2
    obtain k where "k \<le> length xs" "add_entries add (buf @ [x]) xs = (buf @ [x]) @ take k xs" using Cons.IH by blast
    then show ?thesis using 2 by (intro exI [of _ "Suc k"]) simp
  qed (auto intro: exI [of _ 0])
qed simp

lemma listing_nth:
  "i < length es + 2 \<Longrightarrow> fst (fuse_listing ino es ! i) = of_nat (i + 1)" "length (fuse_listing ino es) = length es + 2"
proof -
  obtain xs where xs: "fuse_listing ino es = map (\<lambda>(i, x). (of_nat (i + 1), x)) (enumerate 0 xs)" "length xs = length es + 2"
    unfolding fuse_listing_def Let_def by fastforce
  then show "length (fuse_listing ino es) = length es + 2" by simp
  show "fst (fuse_listing ino es ! i) = of_nat (i + 1)" if "i < length es + 2"
    using that xs by (simp add: nth_enumerate_eq split_beta)
qed

text \<open>C38: Listing a directory in pages: a request gets a run of the listing (\<open>.\<close>, \<open>..\<close> and the entries, in
  order) from the offset it names, as far as the reply buffer takes it, and the offset that comes
  with the last entry of the page is where the next page starts, so that a reader that goes on
  from there sees every entry exactly once, however the buffer cuts the pages.\<close>

theorem fuse_readdir_pages:
  assumes "add_ok add" and "dir_entries crc (fu_fs s) (real_ino (fu_fs s) ino) = Inr es" and "length es < 2 ^ 62"
    and "unat off \<le> length es + 2"
  shows "\<exists>page. fuse_readdir crc add [] ino off s = (Reply page, s) \<and>
    page = take (length page) (drop (unat off) (fuse_listing ino es)) \<and>
    (if page = [] then True else unat (fst (last page)) = unat off + length page)"
proof -
  let ?L = "fuse_listing ino es"
  obtain k where k: "k \<le> length (drop (unat off) ?L)" "add_entries add [] (drop (unat off) ?L) = take k (drop (unat off) ?L)"
    using add_entries_prefix [OF assms(1), of "drop (unat off) ?L" "[]"] by auto
  let ?page = "take k (drop (unat off) ?L)"
  have len: "length ?page = k" using k(1) by simp
  have "unat (fst (last ?page)) = unat off + k" if "0 < k"
  proof -
    have "last ?page = ?page ! (k - 1)" using that len by (metis last_conv_nth list.size(3) less_irrefl)
    also have "\<dots> = ?L ! (unat off + (k - 1))" using that k(1) by simp
    finally have "fst (last ?page) = of_nat (unat off + (k - 1) + 1)"
      using that k(1) listing_nth(1) [of "unat off + (k - 1)" es ino] by (simp add: listing_nth(2))
    moreover have "unat off + k < 2 ^ 64" using k(1) assms(3,4) by (simp add: listing_nth(2))
    ultimately show ?thesis using that by (simp add: unat_word_ariths unat_of_nat)
  qed
  then have "if ?page = [] then True else unat (fst (last ?page)) = unat off + length ?page"
    using len by (cases "k = 0") auto
  moreover have "fuse_readdir crc add [] ino off s = (Reply ?page, s)"
    using assms(2) k(2) by (simp add: fuse_readdir_def asks_def reply_to_def)
  ultimately show ?thesis using len by (intro exI [of _ ?page]) simp
qed

lemma fuse_readdir_pages_witness:
  "\<exists>page. fuse_readdir ex_crc (\<lambda>buf x. if length buf < 2 then (False, buf @ [x]) else (True, buf)) [] FUSE_ROOT 1
      \<lparr>fu_fs = one_fs one_entry, fu_rw = False\<rparr> = (Reply page, \<lparr>fu_fs = one_fs one_entry, fu_rw = False\<rparr>) \<and>
    page = take (length page) (drop 1 (fuse_listing FUSE_ROOT (projr (dir_list ex_crc (one_fs one_entry) [] one_entry))))"
proof -
  let ?s = "\<lparr>fu_fs = one_fs one_entry, fu_rw = False\<rparr>" and ?add = "\<lambda>buf x. if length buf < 2 then (False, buf @ [x]) else (True, buf)"
  have root: "real_ino (fu_fs ?s) FUSE_ROOT = blk_addr 0 40" by (simp add: real_ino_def one_fs_def)
  have list: "dir_list ex_crc (one_fs one_entry) [] one_entry = Inr (dir_parse (in_payload one_entry))"
    using one_entry_facts(2) by (simp add: dir_list_def) (simp add: one_entry_def)
  then have es: "dir_entries ex_crc (fu_fs ?s) (real_ino (fu_fs ?s) FUSE_ROOT) = Inr (dir_parse (in_payload one_entry))"
    unfolding root using one_fs_inode [OF one_entry_facts(1)] by (simp add: dir_entries_def)
  have "length (dir_parse (in_payload one_entry)) < 2 ^ 62" by (simp add: one_entry_facts(3))
  moreover have "add_ok ?add" by (simp add: add_ok_def)
  ultimately show ?thesis using fuse_readdir_pages [OF _ es, of ?add 1] list by auto
qed

end
