(* ===== verification/Tools.thy ===== *)
theory Tools
  imports Fsck Fuse Resize
begin

text \<open>
  The command-line tools: \<open>src/bin/mkfs5fs.rs\<close>, \<open>src/bin/fsck5fs.rs\<close> and \<open>src/bin/debugfs5fs.rs\<close>.
  The parsed command line (\<open>clap\<close>) is an argument. What a tool prints is a list of lines; a line
  is the literal text of its format string with the values it shows, in their order. \<open>host\<close> reads a
  file of the host (\<open>std::fs::read\<close>).
\<close>

unbundle bit_operations_syntax

subsection \<open>Numbers\<close>

text \<open>\<open>char::to_digit\<close>, and \<open>u64::from_str_radix\<close>, which \<open>str::parse\<close> is with radix 10\<close>

definition to_digit :: "nat \<Rightarrow> u32 \<Rightarrow> nat option" where
  "to_digit r c =
     (let n = unat c;
          d = (if 0x30 \<le> n \<and> n \<le> 0x39 then n - 0x30
               else if 0x41 \<le> n \<and> n \<le> 0x5A then n - 0x41 + 10
               else if 0x61 \<le> n \<and> n \<le> 0x7A then n - 0x61 + 10 else r)
      in if d < r then Some d else None)"

fun parse_digits :: "nat \<Rightarrow> rstring \<Rightarrow> nat \<Rightarrow> nat result" where
  "parse_digits r [] n = Inr n"
| "parse_digits r (c # cs) n =
     (case to_digit r c of
        None \<Rightarrow> Inl (Msg ''invalid digit found in string'')
      | Some d \<Rightarrow>
          guardR (n * r + d < 2 ^ 64) (Msg ''number too large to fit in target type'')
            (parse_digits r cs (n * r + d)))"

abbreviation PLUS :: u32 where "PLUS \<equiv> 0x2B"
abbreviation MINUS :: u32 where "MINUS \<equiv> 0x2D"

definition parse_u64 :: "nat \<Rightarrow> rstring \<Rightarrow> u64 result" where
  "parse_u64 r s =
     (if s = [] then Inl (Msg ''cannot parse integer from empty string'')
      else if s = [PLUS] \<or> s = [MINUS] then Inl (Msg ''invalid digit found in string'')
      else tryR (parse_digits r (if hd s = PLUS then tl s else s) 0) (\<lambda>n. Inr (of_nat n)))"

text \<open>\<open>str::trim\<close>: the characters with the Unicode property White_Space.\<close>

definition white :: "u32 \<Rightarrow> bool" where
  "white c \<longleftrightarrow> (9 \<le> c \<and> c \<le> 13) \<or> c \<in> {0x20, 0x85, 0xA0, 0x1680, 0x2028, 0x2029, 0x202F, 0x205F, 0x3000}
     \<or> (0x2000 \<le> c \<and> c \<le> 0x200A)"

definition trim :: "rstring \<Rightarrow> rstring" where
  "trim s = rev (dropWhile white (rev (dropWhile white s)))"

definition size_mult :: "u32 \<Rightarrow> u64 option" where
  "size_mult c =
     (if c = 0x4B \<or> c = 0x6B then Some (push_bit 10 1)
      else if c = 0x4D \<or> c = 0x6D then Some (push_bit 20 1)
      else if c = 0x47 \<or> c = 0x67 then Some (push_bit 30 1)
      else if c = 0x54 \<or> c = 0x74 then Some (push_bit 40 1)
      else None)"

definition parse_size :: "rstring \<Rightarrow> u64 result" where
  "parse_size s =
     (let s = trim s;
          (num, mult) = (if s = [] then (s, 1)
            else case size_mult (last s) of None \<Rightarrow> (s, 1) | Some m \<Rightarrow> (butlast s, m))
      in tryR (parse_u64 10 num) (\<lambda>n. Inr (n * mult)))"

definition parse_ino :: "rstring \<Rightarrow> u64 result" where
  "parse_ino s = (if take 2 s = [0x30, 0x78] then parse_u64 16 (drop 2 s) else parse_u64 10 s)"

text \<open>Printing in a base up to 16.\<close>

definition digit_char :: "nat \<Rightarrow> u32" where
  "digit_char d = (if d < 10 then of_nat (0x30 + d) else of_nat (0x57 + d))"

fun show_base :: "nat \<Rightarrow> nat \<Rightarrow> rstring" where
  "show_base b n =
     (if b < 2 \<or> n < b then [digit_char n] else show_base b (n div b) @ [digit_char (n mod b)])"

declare show_base.simps [simp del]

definition show_dec :: "u64 \<Rightarrow> rstring" where
  "show_dec n = show_base 10 (unat n)"

definition show_hex :: "u64 \<Rightarrow> rstring" where
  "show_hex n = [0x30, 0x78] @ show_base 16 (unat n)"

text \<open>\<open>{}.{:09}\<close>, of a signed number of seconds and the nanoseconds\<close>

definition show_ts :: "ts \<Rightarrow> rstring" where
  "show_ts t =
     (let sec = sint (ts_sec t); ns = show_base 10 (unat (ts_nsec t))
      in (if sec < 0 then [MINUS] else []) @ show_base 10 (nat \<bar>sec\<bar>) @ [0x2E]
         @ replicate (9 - length ns) 0x30 @ ns)"

subsection \<open>Output\<close>

datatype arg = Num int | Chars rstring | Raw buffer | Err error

datatype out = Line string "arg list" | Stderr string "arg list" | Stdout buffer

abbreviation U :: "'a::len word \<Rightarrow> arg" where "U w \<equiv> Num (uint w)"

subsection \<open>mkfs5fs\<close>

record mkfs_args =
  ma_device :: rstring
  ma_size :: "u64 option"
  ma_label :: rstring
  ma_blocksize :: u32
  ma_journal_size :: "u64 option"
  ma_kernel :: "rstring option"
  ma_force :: bool

text \<open>The formatter on the path of a file that may not exist yet, and what is there afterwards.\<close>

definition empty_file :: vfile where
  "empty_file = \<lparr>fl_bytes = (\<lambda>_. 0), fl_len = 0\<rparr>"

definition mkfs_at ::
  "crc_fun \<Rightarrow> ts \<Rightarrow> buffer \<Rightarrow> mkfs_opts \<Rightarrow> vfile option \<Rightarrow> mkfs_summary result \<times> vfile option" where
  "mkfs_at crc now uuid opts path =
     (case path of
        Some f \<Rightarrow> map_prod id Some (mkfs crc now uuid opts f)
      | None \<Rightarrow>
          (case tryR (mkfs_check opts) (\<lambda>_. guardR (mo_size opts \<noteq> None) IoError (Inr ())) of
             Inl e \<Rightarrow> (Inl e, None)
           | Inr _ \<Rightarrow> map_prod id Some (mkfs crc now uuid opts empty_file)))"

definition looks_used :: "vfile \<Rightarrow> bool" where
  "looks_used f =
     (case dv_pread (dv_open f False) 4 0 of Inl _ \<Rightarrow> False | Inr head \<Rightarrow> head \<noteq> [0, 0, 0, 0])"

definition mkfs_report :: "rstring \<Rightarrow> mkfs_summary \<Rightarrow> out list" where
  "mkfs_report dev s =
     [Line ''5FS v2 created on {}'' [Chars dev],
      Line ''  size:    {} bytes ({} blocks)'' [U (ms_size s), U (ms_blocks s)],
      Line ''  AGs:     {}'' [U (ms_ags s)],
      Line ''  journal: {} blocks'' [U (ms_journal_blocks s)],
      Line ''  root:    inode {:#x}'' [U (ms_root_ino s)],
      Line ''  free:    {} blocks'' [U (ms_free_blocks s)]]
     @ (if ms_kernel_offset s \<noteq> 0
        then [Line ''  kernel:  phys {:#x} (/kernel.bin, contiguous)'' [U (ms_kernel_offset s)]] else [])"

definition mkfs5fs :: "(rstring \<Rightarrow> buffer result) \<Rightarrow> crc_fun \<Rightarrow> ts \<Rightarrow> buffer \<Rightarrow> mkfs_args \<Rightarrow> vfile option
    \<Rightarrow> out list result \<times> vfile option" where
  "mkfs5fs host crc now uuid args path =
     (if (case path of None \<Rightarrow> False | Some f \<Rightarrow> ma_size args = None \<and> \<not> ma_force args \<and> looks_used f)
      then (Inl (Msg ''{} contains data (starts with {:02x?}); use --force''), path)
      else
        case (case ma_kernel args of None \<Rightarrow> Inr None | Some p \<Rightarrow> tryR (host p) (\<lambda>k. Inr (Some k))) of
          Inl e \<Rightarrow> (Inl e, path)
        | Inr kimg \<Rightarrow>
            let opts = mkfs_opts_default\<lparr>mo_size := ma_size args, mo_blocksize := ma_blocksize args,
                  mo_journal := ma_journal_size args, mo_label := ma_label args, mo_kernel := kimg\<rparr>
            in case mkfs_at crc now uuid opts path of
                 (Inl e, path) \<Rightarrow> (Inl e, path)
               | (Inr s, path) \<Rightarrow> (Inr (mkfs_report (ma_device args) s), path))"

subsection \<open>fsck5fs\<close>

record fsck_args =
  fa_device :: rstring
  fa_quiet :: bool

text \<open>The exit status and what is printed; a panic or an endless walk has no status.\<close>

definition fsck5fs :: "hash_fun \<Rightarrow> crc_fun \<Rightarrow> nat \<Rightarrow> fsck_args \<Rightarrow> vfile \<Rightarrow> (u8 \<times> out list) result" where
  "fsck5fs sip crc fuel args f =
     (case fsck_check sip crc fuel f of
        Inl e \<Rightarrow> if is_err e then Inr (8, [Stderr ''fsck.5fs: {e:#}'' [Err e]]) else Inl e
      | Inr report \<Rightarrow>
          let shown = (\<lambda>m. Chars (chars m));
              lines = (if fa_quiet args then [] else map (\<lambda>m. Line ''  {m}'' [shown m]) (rp_info report))
                @ map (\<lambda>m. Line ''WARN  {m}'' [shown m]) (rp_warnings report)
                @ map (\<lambda>m. Line ''ERROR {m}'' [shown m]) (rp_errors report)
          in if rp_clean report
             then Inr (0, lines @ (if fa_quiet args then [] else [Line ''{}: clean'' [Chars (fa_device args)]]))
             else Inr (4, lines @ [Line ''{}: {} error(s)'' [Chars (fa_device args), Num (int (length (rp_errors report)))]]))"

end
