(* ===== verification/Debugfs.thy ===== *)
theory Debugfs
  imports Tools
begin

text \<open>
  \<open>src/bin/debugfs5fs.rs\<close>: the commands that inspect and change an image. The state of the tool is
  the open filesystem and what has been printed; a command that fails leaves both as they are then.
\<close>

unbundle bit_operations_syntax

datatype cmd =
    Sb
  | Agmap
  | Ag u32
  | Inode rstring
  | Ls rstring
  | Cat rstring
  | Import rstring rstring
  | Mkdir rstring
  | Rm rstring
  | Rmdir rstring
  | Mv rstring rstring
  | SymlinkTo rstring rstring
  | Scan
  | JournalState
  | Grow rstring
  | Shrink rstring
  | Relocate u32 u64
  | Retire u32
  | KernelUpdate rstring

fun cmd_writable :: "cmd \<Rightarrow> bool" where
  "cmd_writable (Import _ _) = True"
| "cmd_writable (Mkdir _) = True"
| "cmd_writable (Rm _) = True"
| "cmd_writable (Rmdir _) = True"
| "cmd_writable (Mv _ _) = True"
| "cmd_writable (SymlinkTo _ _) = True"
| "cmd_writable (Grow _) = True"
| "cmd_writable (Shrink _) = True"
| "cmd_writable (Relocate _ _) = True"
| "cmd_writable (Retire _) = True"
| "cmd_writable (KernelUpdate _) = True"
| "cmd_writable _ = False"

record tool =
  td_fs :: gofs
  td_out :: "out list"

type_synonym 'a tool_op = "(tool, 'a) operation"

definition print :: "string \<Rightarrow> arg list \<Rightarrow> unit tool_op" where
  "print s xs = modS (\<lambda>d. d\<lparr>td_out := td_out d @ [Line s xs]\<rparr>)"

definition asking :: "(gofs \<Rightarrow> 'a result) \<Rightarrow> 'a tool_op" where
  "asking f = askS (\<lambda>d. f (td_fs d))"

definition doing :: "(gofs, 'a) operation \<Rightarrow> 'a tool_op" where
  "doing m d = (case m (td_fs d) of (r, g) \<Rightarrow> (r, d\<lparr>td_fs := g\<rparr>))"

subsection \<open>Inspection\<close>

definition show_sb :: "unit tool_op" where
  "show_sb =
     bindS (asking (\<lambda>g. Inr (g_sb g))) (\<lambda>sb.
     bindS (print ''magic      5FSB  version 2  gen {}'' [U (sb_gen sb)]) (\<lambda>_.
     bindS (print ''label      \"{}\"'' [Chars (sb_label sb)]) (\<lambda>_.
     bindS (print ''uuid       {}'' [Raw (sb_uuid sb)]) (\<lambda>_.
     bindS (print ''blocksize  {}   inodesize {}'' [U (sb_blocksize sb), U (sb_inodesize sb)]) (\<lambda>_.
     bindS (print ''root_ino   {:#x}'' [U (sb_root_ino sb)]) (\<lambda>_.
     bindS (print ''next_ag    {}'' [U (sb_next_ag sb)]) (\<lambda>_.
     bindS (print ''agmap      phys {:#x} (+{:#x} per copy)'' [U (sb_agmap_offset sb), U (sb_agmap_length sb)]) (\<lambda>_.
     bindS (print ''journal    blk {:#x} len {} blocks (seq {}, head {})''
       [U (sb_journal_start sb), U (sb_journal_length sb), U (sb_journal_seq sb), U (sb_journal_head sb)]) (\<lambda>_.
     bindS (if sb_kernel_offset sb \<noteq> 0
            then print ''kernel     phys {:#x}..{:#x}'' [U (sb_kernel_offset sb), U (sb_kernel_end sb)]
            else print ''kernel     none'' []) (\<lambda>_.
     print ''blocks     free {}  rsvd {}  full {}''
       [U (sb_free_blocks sb), U (sb_rsvd_blocks sb), U (sb_full_blocks sb)]))))))))))"

text \<open>The names of the flags of an AG, with single spaces between them.\<close>

definition flag_names :: "u16 \<Rightarrow> rstring" where
  "flag_names fl =
     (let names = [nm. (b, nm) \<leftarrow> [(AGF_PRESENT, ''PRESENT''), (AGF_IMMOVABLE, ''IMMOVABLE''), (AGF_RETIRED, ''RETIRED'')],
                   fl AND b \<noteq> 0]
      in trim (concat (map (\<lambda>nm. chars nm @ [0x20]) names)))"

definition show_agmap :: "unit tool_op" where
  "show_agmap =
     bindS (asking (\<lambda>g. Inr (g_map g))) (\<lambda>m.
     bindS (print ''gen {}  {} entries'' [U (am_gen m), Num (int (length (am_entries m)))]) (\<lambda>_.
     forS (\<lambda>(i, e).
       bindS (print ''AG {i}: {} blocks, {}'' [Num (int i), U (ae_length e), Chars (flag_names (ae_flags e))]) (\<lambda>_.
       forS (\<lambda>s. print ''    ag_block {:>10} +{:<10} -> phys {:#x}''
         [U (sg_block s), U (sg_blocks s), U (sg_dev_offset s)]) (ae_segs e)))
       (enumerate 0 (am_entries m))))"

text \<open>The root table of an AG, 64 cells to a line, and how many cells are in each state.\<close>

definition cell_char :: "u8 \<Rightarrow> u32" where
  "cell_char st = [0x2E, 0x72, 0x46, 0x2B] ! unat st"

definition show_cell :: "nat \<Rightarrow> buffer \<Rightarrow> nat \<Rightarrow> u64 list \<times> rstring \<Rightarrow> (u64 list \<times> rstring) tool_op" where
  "show_cell cells table c = (\<lambda>(n, row).
     let st = cell_get table c; n = n[unat st := n ! unat st + 1]; row = row @ [cell_char st]
     in if length row = 64 \<or> c = cells - 1
        then bindS (print ''  {row}'' [Chars row]) (\<lambda>_. retS (n, []))
        else retS (n, row))"

definition show_ag :: "crc_fun \<Rightarrow> u32 \<Rightarrow> unit tool_op" where
  "show_ag crc ag =
     bindS (asking (\<lambda>g. read_ag_header crc g ag)) (\<lambda>h.
     bindS (print ''AG {}  gen {}  length {} blocks  alloc_root blk {}  tbl_arena {}''
       [U (ah_num h), U (ah_gen h), U (ah_length h), U (ah_alloc_root h), U (ah_tbl_arena h)]) (\<lambda>_.
     bindS (print ''counters: free {}  rsvd {}  full {}  ino_hint blk {}''
       [U (ah_free_blocks h), U (ah_rsvd_blocks h), U (ah_full_blocks h), U (ah_ino_hint h)]) (\<lambda>_.
     bindS (asking (\<lambda>g. Inr (fst (rt_geometry (ah_length h) (sb_blocksize (g_sb g)))))) (\<lambda>cells.
     bindS (asking (\<lambda>g. read_root_table g h)) (\<lambda>table.
     bindS (foldS (show_cell cells table) [0..<cells] (replicate 4 0, [])) (\<lambda>(n, row).
     print ''cells: {} free, {} rsvd, {} full, {} refined ('.': free 'r': rsvd 'F': full '+': refined)''
       (map U n)))))))"

definition show_child :: "buffer \<Rightarrow> nat \<Rightarrow> unit tool_op" where
  "show_child p c =
     (let st = root_state p c; (blocks, addr) = root_child p c in
      if st = CELL_FREE then retS ()
      else if st = CELL_FULL then print ''    child {c}: FULL {blocks} blocks @ {addr:#x}'' [Num (int c), U blocks, U addr]
      else if st = CELL_REFINED then print ''    child {c}: REFINED -> node {addr:#x}'' [Num (int c), U addr]
      else print ''    child {c}: bad state {s}'' [Num (int c), U st])"

definition show_payload :: "inode \<Rightarrow> unit tool_op" where
  "show_payload i =
     (let p = in_payload i in
      if in_format i = FMT_EMBED \<and> is_dir i then
        forS (\<lambda>e. print ''  entry: {:#x} type {} \"{}\"'' [U (de_ino e), U (de_ftype e), Chars (de_name e)]) (dir_parse p)
      else if in_format i = FMT_EXTENT then
        forS (\<lambda>e. print ''  extent: file_block {} -> blk {:#x} ({} blocks)''
          [U (ex_file_block e), U (ex_blk e), U (ex_blocks e)]) (extents_parse p)
      else if in_format i = FMT_TREE then
        bindS (print ''  tree root: level {level} (child coverage {} blocks)'' [U (root_level p), U (cov (root_level p))]) (\<lambda>_.
        forS (show_child p) [0..<ROOT_FANOUT])
      else retS ())"

definition show_inode :: "crc_fun \<Rightarrow> rstring \<Rightarrow> unit tool_op" where
  "show_inode crc s =
     bindS (asking (\<lambda>g. parse_ino s)) (\<lambda>num.
     bindS (asking (\<lambda>g. read_inode crc g num)) (\<lambda>i.
     let (ag, slot) = blk_split num in
     bindS (print ''inode {:#x}  (AG {ag}, slot {slot})'' [U num, U ag, U slot]) (\<lambda>_.
     bindS (print ''format {}  mode {:o}  nlink {}  uid {} gid {}  gen {}''
       [U (in_format i), U (in_mode i), U (in_nlink i), U (in_uid i), U (in_gid i), U (in_gen i)]) (\<lambda>_.
     bindS (print ''size {}  nblocks {}  xattr {:#x}'' [U (in_size i), U (in_nblocks i), U (in_xattr i)]) (\<lambda>_.
     bindS (print ''atime {}  mtime {}\<newline>ctime {}  btime {}''
       (map (Chars \<circ> show_ts) [in_atime i, in_mtime i, in_ctime i, in_btime i])) (\<lambda>_.
     show_payload i))))))"

definition show_dir :: "hash_fun \<Rightarrow> crc_fun \<Rightarrow> rstring \<Rightarrow> unit tool_op" where
  "show_dir sip crc path =
     bindS (asking (\<lambda>g. lookup_path sip crc g path)) (\<lambda>dir.
     bindS (asking (\<lambda>g. dir_entries crc g dir)) (\<lambda>es.
     forS (\<lambda>e.
       bindS (asking (\<lambda>g. read_inode crc g (de_ino e))) (\<lambda>i.
       print ''{:o} {:>10} {:#x}  {}'' [U (in_mode i), U (in_size i), U (de_ino e), Chars (de_name e)])) es))"

text \<open>A path, or else the number of an inode.\<close>

definition cat_file :: "hash_fun \<Rightarrow> crc_fun \<Rightarrow> rstring \<Rightarrow> unit tool_op" where
  "cat_file sip crc path =
     bindS (matchS (asking (\<lambda>g. lookup_path sip crc g path)) retS
       (\<lambda>_. asking (\<lambda>g. case parse_ino path of Inl _ \<Rightarrow> Inl (NameMsg path '': not found'') | Inr i \<Rightarrow> Inr i))) (\<lambda>ino.
     bindS (asking (\<lambda>g. read_file crc g ino)) (\<lambda>data.
     modS (\<lambda>d. d\<lparr>td_out := td_out d @ [Stdout data]\<rparr>)))"

text \<open>\<open>[u8]::chunks\<close>: pieces of \<open>n\<close> bytes, the last one maybe shorter.\<close>

definition chunks :: "nat \<Rightarrow> buffer \<Rightarrow> buffer list" where
  "chunks n xs = map (\<lambda>k. take n (drop (k * n) xs)) [0..<div_ceil (length xs) n]"

definition scan_slot :: "crc_fun \<Rightarrow> u32 \<Rightarrow> u32 \<Rightarrow> nat \<Rightarrow> nat \<times> buffer \<Rightarrow> u32 \<Rightarrow> u32 tool_op" where
  "scan_slot crc agi local spb = (\<lambda>(si, slot) found.
     bindS (ensureS (2 \<le> length slot) Panic) (\<lambda>_.
     if get_u16 slot 0 = INODE_MAGIC then
       let ino = ino_addr agi (local * of_nat spb + of_nat si) in
       matchS (asking (\<lambda>g. in_parse crc slot))
         (\<lambda>i. bindS (print ''{:#x}: mode {:o} size {} format {}'' [U ino, U (in_mode i), U (in_size i), U (in_format i)])
                (\<lambda>_. retS (found + 1)))
         (\<lambda>e. bindS (print ''{ino:#x}: signature but invalid: {e}'' [U ino, Err e]) (\<lambda>_. retS found))
     else retS found))"

definition scan_block :: "crc_fun \<Rightarrow> u32 \<Rightarrow> nat \<Rightarrow> u32 \<Rightarrow> u32 tool_op" where
  "scan_block crc agi l found =
     (let local = of_nat l in
      matchS (asking (\<lambda>g. read_block g (blk_addr agi local)))
        (\<lambda>buf.
          bindS (asking (\<lambda>g. Inr (unat (sb_inodesize (g_sb g))))) (\<lambda>isz.
          bindS (ensureS (isz \<noteq> 0) Panic) (\<lambda>_.
          bindS (asking (\<lambda>g. Inr (g_bs g div isz))) (\<lambda>spb.
          foldS (scan_slot crc agi local spb) (enumerate 0 (chunks isz buf)) found))))
        (\<lambda>_. retS found))"

definition scan :: "crc_fun \<Rightarrow> unit tool_op" where
  "scan crc =
     bindS (asking (\<lambda>g. Inr (enumerate 0 (am_entries (g_map g))))) (\<lambda>es.
     bindS (foldS (\<lambda>(agi, e) found.
         if ae_flags e AND AGF_PRESENT = 0 then retS found
         else foldS (scan_block crc (of_nat agi)) [0..<unat (ae_length e)] found) es 0) (\<lambda>found.
     print ''{found} inode(s)'' [Num (sint found)]))"

definition show_journal :: "crc_fun \<Rightarrow> nat \<Rightarrow> unit tool_op" where
  "show_journal crc fuel =
     bindS (asking (\<lambda>g. Inr (g_sb g))) (\<lambda>sb.
     bindS (print ''journal: blk {:#x}, {} blocks, next seq {}, head {}''
       [U (sb_journal_start sb), U (sb_journal_length sb), U (sb_journal_seq sb), U (sb_journal_head sb)]) (\<lambda>_.
     bindS (asking (journal_pending crc fuel)) (\<lambda>n.
     if n = 0 then print ''clean: no transactions pending replay'' []
     else print ''{n} transaction(s) pending replay'' [U n])))"

subsection \<open>All commands\<close>

definition run_cmd :: "hash_fun \<Rightarrow> crc_fun \<Rightarrow> nat \<Rightarrow> clock \<Rightarrow> (rstring \<Rightarrow> buffer result) \<Rightarrow> cmd \<Rightarrow> unit tool_op" where
  "run_cmd sip crc fuel nw host c =
     (case c of
        Sb \<Rightarrow> show_sb
      | Agmap \<Rightarrow> show_agmap
      | Ag ag \<Rightarrow> show_ag crc ag
      | Inode s \<Rightarrow> show_inode crc s
      | Ls path \<Rightarrow> show_dir sip crc path
      | Cat path \<Rightarrow> cat_file sip crc path
      | Import h path \<Rightarrow>
          bindS (asking (\<lambda>g. host h)) (\<lambda>data.
          bindS (doing (import_file sip crc nw path data 0x1A4)) (\<lambda>ino.
          print ''imported {} bytes as \"{path}\" (inode {ino:#x})'' [Num (int (length data)), Chars path, U ino]))
      | Mkdir path \<Rightarrow>
          bindS (doing (mkdir sip crc nw path 0x1ED)) (\<lambda>ino.
          print ''created directory \"{path}\" (inode {ino:#x})'' [Chars path, U ino])
      | Rm path \<Rightarrow> doing (unlink sip crc nw path)
      | Rmdir path \<Rightarrow> doing (rmdir sip crc nw path)
      | Mv from to \<Rightarrow> doing (rename sip crc nw from to)
      | SymlinkTo path target \<Rightarrow>
          bindS (asking (\<lambda>g. resolve_parent sip crc g path)) (\<lambda>(p, n).
          bindS (doing (symlink_at sip crc nw p n target)) (\<lambda>ino.
          print ''created symlink \"{path}\" -> \"{target}\" (inode {ino:#x})'' [Chars path, Chars target, U ino]))
      | Scan \<Rightarrow> scan crc
      | JournalState \<Rightarrow> show_journal crc fuel
      | Grow s \<Rightarrow>
          bindS (asking (\<lambda>g. parse_size s)) (\<lambda>n.
          bindS (doing (grow crc n)) (\<lambda>ag. print ''grown: new AG {ag}'' [U ag]))
      | Shrink s \<Rightarrow>
          bindS (asking (\<lambda>g. parse_size s)) (\<lambda>n.
          bindS (doing (shrink crc n)) (\<lambda>_. print ''shrunk to {size}'' [Chars s]))
      | Relocate ag offset \<Rightarrow>
          bindS (doing (relocate crc ag offset)) (\<lambda>_. print ''AG {ag} relocated to {offset:#x}'' [U ag, U offset])
      | Retire ag \<Rightarrow> bindS (doing (retire crc ag)) (\<lambda>_. print ''AG {ag} retired'' [U ag])
      | KernelUpdate h \<Rightarrow>
          bindS (asking (\<lambda>g. host h)) (\<lambda>data.
          bindS (doing (kernel_update sip crc nw data)) (\<lambda>_.
          bindS (asking (\<lambda>g. Inr (sb_kernel_offset (g_sb g)))) (\<lambda>off.
          print ''kernel updated: {} bytes at phys {:#x}'' [Num (int (length data)), U off]))))"

text \<open>The outer result is that of opening the image.\<close>

definition debugfs5fs :: "hash_fun \<Rightarrow> crc_fun \<Rightarrow> nat \<Rightarrow> clock \<Rightarrow> (rstring \<Rightarrow> buffer result) \<Rightarrow> vfile \<Rightarrow> cmd
    \<Rightarrow> (unit result \<times> tool) result" where
  "debugfs5fs sip crc fuel nw host f c =
     tryR (open_fs crc fuel f (cmd_writable c)) (\<lambda>g.
     Inr (run_cmd sip crc fuel nw host c \<lparr>td_fs = g, td_out = []\<rparr>))"

end
