(* ===== verification/MkfsFacts.thy ===== *)
theory MkfsFacts
  imports Mkfs Crash
begin

text \<open>
  Facts about \<open>mkfs\<close>: the division into AGs, what its writes leave in the file, the layout of the
  AG map it builds, and that the image mounts as a healthy filesystem.
\<close>

unbundle bit_operations_syntax

subsection \<open>The division into AGs\<close>

lemma split_ags_ok:
  assumes "0 < max_blocks" and "unat max_blocks + 1023 < 2 ^ 32" and "unat tot < fuel"
  shows "\<exists>ls. split_ags fuel max_blocks tot = Inr ls \<and> sum_list (map unat ls) = unat tot \<and>
    (\<forall>l\<in>set ls. 0 < l \<and> unat l \<le> unat max_blocks + 1023)"
  using assms(3)
proof (induction fuel arbitrary: tot)
  case (Suc fuel)
  show ?case
  proof (cases "tot = 0")
    case False
    let ?len = "min tot max_blocks"
    have le: "?len \<le> tot" by simp
    have pos: "0 < unat ?len" using False assms(1) by (auto simp: min_def unat_gt_0)
    have len: "unat ?len \<le> unat max_blocks" by (simp add: min_def word_le_nat_alt)
    have "unat ?len \<le> unat tot" using le by (simp only: word_le_nat_alt)
    then have sub: "unat (tot - ?len) = unat tot - unat ?len" by (simp only: unat_sub_if' if_True)
    show ?thesis
    proof (cases "0 < tot - ?len \<and> tot - ?len < 1024")
      case True
      then have "unat (tot - ?len) < 1024" by (simp add: word_less_nat_alt)
      then have small: "unat tot \<le> unat max_blocks + 1023" using sub len by linarith
      then have "unat (ucast tot :: u32) = unat tot" using assms(2) by (intro unat_ucast_small) simp
      moreover have "0 < unat tot" using False by (simp add: unat_gt_0)
      ultimately show ?thesis using True False small by (simp add: word_less_nat_alt)
    next
      case more: False
      have "unat (tot - ?len) < fuel" using sub pos Suc.prems \<open>unat ?len \<le> unat tot\<close> by linarith
      from Suc.IH [OF this] obtain ls where ls: "split_ags fuel max_blocks (tot - ?len) = Inr ls"
        "sum_list (map unat ls) = unat (tot - ?len)" "\<forall>l\<in>set ls. 0 < l \<and> unat l \<le> unat max_blocks + 1023" by blast
      have "unat (ucast ?len :: u32) = unat ?len" using len assms(2) by (intro unat_ucast_small) simp
      moreover from this have "0 < (ucast ?len :: u32)" using pos by (simp add: word_less_nat_alt)
      ultimately show ?thesis
        using ls more False sub len le by (auto simp: word_le_nat_alt)
    qed
  qed simp
qed simp

subsection \<open>What writes leave behind\<close>

definition holds :: "nat \<Rightarrow> buffer \<Rightarrow> device \<Rightarrow> bool" where
  "holds o1 b d \<longleftrightarrow> o1 + length b \<le> fl_len (dv_file d) \<and> fl_read (dv_file d) o1 (length b) = b"

lemma pwrite_cases:
  "dv_pwrite b off d = (r, d') \<Longrightarrow>
     dv_file d' = (if r = Inr () then fl_write (dv_file d) (unat off) b else dv_file d) \<and>
     dv_writable d' = dv_writable d \<and> dv_size d' = dv_size d \<and> (r = Inr () \<longrightarrow> b = [] \<or> unat off + length b < MAX_OFF)"
  by (auto simp: dv_pwrite_def Let_def split: if_splits)

lemma pwrite_holds: "dv_pwrite b off d = (Inr u, d') \<Longrightarrow> b \<noteq> [] \<Longrightarrow> holds (unat off) b d'"
  using pwrite_cases [of b off d "Inr ()" d'] by (simp add: holds_def) (simp add: fl_write_def)

lemma keeps_holds_pwrite:
  assumes "apart (o1, o1 + length b) (unat off, unat off + length c)"
  shows "keeps (holds o1 b) (dv_pwrite c off)"
proof (rule keepsI)
  fix d assume h: "holds o1 b d"
  obtain r d' where run: "dv_pwrite c off d = (r, d')" by fastforce
  have "fl_len (dv_file d) \<le> fl_len (fl_write (dv_file d) (unat off) c)" by (rule fl_len_write_ge)
  then show "holds o1 b (snd (dv_pwrite c off d))"
    using pwrite_cases [OF run] h fl_read_write_apart [OF assms] by (auto simp: run holds_def)
qed

lemma keeps_holds_sync: "keeps (holds o1 b) dv_sync"
  by (simp add: keeps_def holds_def)

text \<open>A device of a certain size that is never cut.\<close>

definition roomy :: "u64 \<Rightarrow> nat \<Rightarrow> device \<Rightarrow> bool" where
  "roomy sz n d \<longleftrightarrow> dv_writable d \<and> dv_size d = sz \<and> n \<le> fl_len (dv_file d) \<and> fl_len (dv_file d) < MAX_OFF"

lemma keeps_roomy_pwrite [keeps_intros]: "keeps (roomy sz n) (dv_pwrite c off)"
proof (rule keepsI)
  fix d assume h: "roomy sz n d"
  obtain r d' where run: "dv_pwrite c off d = (r, d')" by fastforce
  have "fl_len (dv_file d) \<le> fl_len (fl_write (dv_file d) (unat off) c)" by (rule fl_len_write_ge)
  moreover have "c = [] \<or> unat off + length c < MAX_OFF \<Longrightarrow> fl_len (fl_write (dv_file d) (unat off) c) < MAX_OFF"
    using h by (auto simp: roomy_def fl_write_def)
  ultimately show "roomy sz n (snd (dv_pwrite c off d))"
    using pwrite_cases [OF run] h by (auto simp: run roomy_def)
qed

lemma keeps_roomy_sync [keeps_intros]: "keeps (roomy sz n) dv_sync"
  by (simp add: keeps_def roomy_def)

lemma keeps_roomy_ag [keeps_intros]: "keeps (roomy sz n) (mkfs_ag crc now p x st)"
  unfolding mkfs_ag_def inode_cell_def put_meta_def put_root_def put_kernel_def Let_def
  by (intro keeps_intros)

lemma keeps_roomy_finish [keeps_intros]: "keeps (roomy sz n) (mkfs_finish crc p len0 st)"
  unfolding mkfs_finish_def Let_def by (intro keeps_intros)

text \<open>The same block at many places.\<close>

lemma keeps_forS_set: "(\<And>x. x \<in> set xs \<Longrightarrow> keeps P (f x)) \<Longrightarrow> keeps P (forS f xs)"
  by (induction xs) (auto intro: keeps_retS keeps_bindS)

lemma forS_pwrite_holds:
  assumes "forS (\<lambda>i. dv_pwrite b (off i)) is d = (Inr u, d')" and "b \<noteq> []" and "distinct is"
    and "\<And>i j. i \<noteq> j \<Longrightarrow> i \<in> set is \<Longrightarrow> j \<in> set is \<Longrightarrow>
      apart (unat (off i), unat (off i) + length b) (unat (off j), unat (off j) + length b)"
    and "i \<in> set is"
  shows "holds (unat (off i)) b d'"
  using assms(1,3,4,5)
proof (induction "is" arbitrary: d)
  case (Cons k ks)
  obtain v d1 where d1: "dv_pwrite b (off k) d = (Inr v, d1)" "forS (\<lambda>i. dv_pwrite b (off i)) ks d1 = (Inr u, d')"
    using Cons.prems(1) by (auto elim: bindS_okE)
  show ?case
  proof (cases "i = k")
    case True
    have "keeps (holds (unat (off k)) b) (forS (\<lambda>i. dv_pwrite b (off i)) ks)"
      by (intro keeps_forS_set keeps_holds_pwrite Cons.prems(3)) (use Cons.prems(2) in auto)
    from keepsD [OF this pwrite_holds [OF d1(1) assms(2)] d1(2)] show ?thesis using True by simp
  next
    case False
    show ?thesis
      by (rule Cons.IH [OF d1(2)]) (use Cons.prems(2-4) False in auto)
  qed
qed simp

subsection \<open>The AG map that is built\<close>

definition mk_entry :: "u32 \<Rightarrow> u32 \<Rightarrow> u64 \<Rightarrow> ag_entry" where
  "mk_entry ag len off = \<lparr>ae_flags = AGF_PRESENT OR (if ag = 0 then AGF_IMMOVABLE else 0), ae_length = len,
     ae_segs = [\<lparr>sg_block = 0, sg_blocks = len, sg_dev_offset = off\<rparr>]\<rparr>"

lemma mkfs_ag_run:
  assumes "mkfs_ag crc now p (ag, len) st d = (Inr st', d')"
  shows "mk_map st' = (mk_map st)\<lparr>am_entries := am_entries (mk_map st) @ [mk_entry ag len (mk_off st)]\<rparr>"
    and "mk_off st' = mk_off st + ucast len * pl_bs p"
    and "ag \<noteq> 0 \<Longrightarrow> mk_sb st' = mk_sb st"
    and "ag = 0 \<Longrightarrow> \<exists>nxt kstart. head_layout p len (mk_off st) (2 + of_nat (snd (rt_geometry len (pl_blocksize p)))) (mk_sb st)
      = Inr (nxt, kstart, mk_sb st')"
proof -
  have "mk_map st' = (mk_map st)\<lparr>am_entries := am_entries (mk_map st) @ [mk_entry ag len (mk_off st)]\<rparr> \<and>
    mk_off st' = mk_off st + ucast len * pl_bs p \<and> (ag \<noteq> 0 \<longrightarrow> mk_sb st' = mk_sb st) \<and>
    (ag = 0 \<longrightarrow> (\<exists>nxt kstart. head_layout p len (mk_off st) (2 + of_nat (snd (rt_geometry len (pl_blocksize p)))) (mk_sb st)
      = Inr (nxt, kstart, mk_sb st')))"
    using assms unfolding mkfs_ag_def Let_def
    unfolding split_beta by (elim bindS_okE) (cases "ag = 0"; auto simp: mk_entry_def askS_ok)
  then show "mk_map st' = (mk_map st)\<lparr>am_entries := am_entries (mk_map st) @ [mk_entry ag len (mk_off st)]\<rparr>"
    and "mk_off st' = mk_off st + ucast len * pl_bs p"
    and "ag \<noteq> 0 \<Longrightarrow> mk_sb st' = mk_sb st"
    and "ag = 0 \<Longrightarrow> \<exists>nxt kstart. head_layout p len (mk_off st) (2 + of_nat (snd (rt_geometry len (pl_blocksize p)))) (mk_sb st)
      = Inr (nxt, kstart, mk_sb st')" by blast+
qed

text \<open>Segments laid one after the other from the start of the device.\<close>

definition packed :: "mk_plan \<Rightarrow> nat \<Rightarrow> mk_state \<Rightarrow> bool" where
  "packed p n st \<longleftrightarrow> unat (mk_off st) = n * unat (pl_bs p) \<and> am_layout_ok (mk_map st) (pl_blocksize p) \<and>
     list_all (\<lambda>s. snd (sg_range (pl_blocksize p) s) \<le> n * unat (pl_bs p)) (am_segs (mk_map st))"

lemma am_segs_append:
  "am_segs (m\<lparr>am_entries := am_entries m @ [mk_entry ag len off]\<rparr>) = am_segs m @ [\<lparr>sg_block = 0, sg_blocks = len, sg_dev_offset = off\<rparr>]"
  by (simp add: am_segs_def mk_entry_def)

lemma packed_step:
  assumes "packed p n st" and "pl_bs p = ucast (pl_blocksize p)" and "(n + unat len) * unat (pl_bs p) < 2 ^ 64"
    and "mk_map st' = (mk_map st)\<lparr>am_entries := am_entries (mk_map st) @ [mk_entry ag len (mk_off st)]\<rparr>"
    and "mk_off st' = mk_off st + ucast len * pl_bs p"
  shows "packed p (n + unat len) st'"
proof -
  let ?bs = "unat (pl_blocksize p)" and ?s = "\<lparr>sg_block = 0, sg_blocks = len, sg_dev_offset = mk_off st\<rparr>"
  have bs: "unat (pl_bs p) = ?bs" by (simp add: assms(2))
  have off: "unat (mk_off st) = n * ?bs" using assms(1) bs by (simp add: packed_def)
  have lt: "n * ?bs + unat len * ?bs < 2 ^ 64" using assms(3) bs by (simp add: algebra_simps)
  have range: "sg_range (pl_blocksize p) ?s = (n * ?bs, n * ?bs + unat len * ?bs)" by (simp add: sg_range_def off)
  have "unat (ucast len * pl_bs p) = unat len * ?bs" using lt bs by (simp add: unat_word_ariths)
  then have "unat (mk_off st') = n * ?bs + unat len * ?bs" using lt off assms(5) by (simp add: unat_word_ariths)
  moreover have "sg_ok (pl_blocksize p) ?s" using unat_bound [of len] lt by (simp add: sg_ok_def range)
  moreover have "apart (sg_range (pl_blocksize p) s) (n * ?bs, n * ?bs + unat len * ?bs)" if "s \<in> set (am_segs (mk_map st))" for s
    using assms(1) bs that by (auto simp: packed_def list_all_iff apart_def)
  ultimately show ?thesis
    using assms(1) bs unfolding packed_def am_layout_ok_def assms(4) am_segs_append
    by (auto simp: sorted_wrt_append range list_all_iff algebra_simps)
qed

text \<open>The AGs after the first one add their entries and leave the superblock as it is.\<close>

lemma mkfs_rest_run:
  assumes "foldS (mkfs_ag crc now p) (map (\<lambda>(i, len). (of_nat i, len)) (enumerate k lens)) st d = (Inr st', d')"
    and "packed p n st" and "pl_bs p = ucast (pl_blocksize p)" and "(n + sum_list (map unat lens)) * unat (pl_bs p) < 2 ^ 64"
    and "0 < k" and "k + length lens < 2 ^ 32"
  shows "packed p (n + sum_list (map unat lens)) st' \<and> mk_sb st' = mk_sb st \<and> am_gen (mk_map st') = am_gen (mk_map st) \<and>
    (\<exists>es. am_entries (mk_map st') = am_entries (mk_map st) @ es \<and> length es = length lens \<and> (\<forall>e\<in>set es. length (ae_segs e) = 1))"
  using assms
proof (induction lens arbitrary: k st d n)
  case (Cons len lens)
  obtain st1 d1 where run: "mkfs_ag crc now p (of_nat k, len) st d = (Inr st1, d1)"
    "foldS (mkfs_ag crc now p) (map (\<lambda>(i, len). (of_nat i, len)) (enumerate (Suc k) lens)) st1 d1 = (Inr st', d')"
    using Cons.prems(1) by (auto elim: bindS_okE)
  note one = mkfs_ag_run [OF run(1)]
  have "(of_nat k :: u32) \<noteq> 0" using Cons.prems(5,6) of_nat_u32_eq [of k 0] by simp
  then have sb: "mk_sb st1 = mk_sb st" by (rule one(3))
  have lt: "(n + unat len) * unat (pl_bs p) < 2 ^ 64"
    using Cons.prems(4) by (rule le_less_trans [rotated]) (simp add: add.assoc [symmetric])
  have "packed p (n + unat len) st1" by (rule packed_step [OF Cons.prems(2,3) lt one(1,2)])
  from Cons.IH [OF run(2) this Cons.prems(3)] Cons.prems(4-6)
  show ?case using sb one(1) by (auto simp: add.assoc mk_entry_def)
qed simp

subsection \<open>The head of AG 0\<close>

lemma head_layout_ok:
  assumes run: "head_layout p len 0 nxt sb = Inr (nxt', ks, sb')"
    and small: "unat nxt + 2 * unat (pl_agmap p) + unat (pl_journal p) + unat (pl_kblocks p) < 2 ^ 32"
  shows "\<exists>j ko ke. sb' = sb\<lparr>sb_agmap_offset := ucast nxt * pl_bs p, sb_journal_start := blk_addr 0 j,
      sb_kernel_offset := ko, sb_kernel_end := ke\<rparr> \<and>
    unat j = unat nxt + 2 * unat (pl_agmap p) \<and> unat j + unat (pl_journal p) + 768 < unat len"
proof -
  let ?j = "nxt + ucast (2 * pl_agmap p) :: u32"
  let ?e = "?j + ucast (pl_journal p) :: u32"
  have "unat (2 * pl_agmap p) = 2 * unat (pl_agmap p)" using small by (simp add: unat_word_ariths)
  then have "unat (ucast (2 * pl_agmap p) :: u32) = 2 * unat (pl_agmap p)" using small by (simp add: unat_ucast_mod)
  then have j: "unat ?j = unat nxt + 2 * unat (pl_agmap p)" using small by (simp add: unat_word_ariths)
  have "unat (ucast (pl_journal p) :: u32) = unat (pl_journal p)" using small by (simp add: unat_ucast_mod)
  then have e: "unat ?e = unat ?j + unat (pl_journal p)" using small j by (simp add: unat_word_ariths)
  have k: "unat (ucast (pl_kblocks p) :: u32) = unat (pl_kblocks p)" using small by (simp add: unat_ucast_mod)
  then have ek: "unat (?e + ucast (pl_kblocks p)) = unat ?e + unat (pl_kblocks p)"
    using small j e by (simp add: unat_word_ariths)
  have room: "unat ?e + 768 < unat len" if "\<not> (ucast len :: u64) \<le> ucast (x :: u32) + 768" and "unat ?e \<le> unat x" for x
  proof -
    have "unat (ucast x + 768 :: u64) = unat x + 768" using unat_bound [of x] by (simp add: unat_word_ariths)
    then show ?thesis using that by (simp add: word_le_nat_alt)
  qed
  show ?thesis
  proof (cases "0 < pl_kblocks p")
    case True
    then have sb': "sb' = sb\<lparr>sb_agmap_offset := ucast nxt * pl_bs p, sb_journal_start := blk_addr 0 ?j,
        sb_kernel_offset := ucast ?e * pl_bs p, sb_kernel_end := ucast ?e * pl_bs p + pl_klen p\<rparr>"
      and "\<not> (ucast len :: u64) \<le> ucast (?e + ucast (pl_kblocks p)) + 768"
      using run by (auto simp: head_layout_def Let_def split: if_splits)
    then have "unat ?e + 768 < unat len" using ek by (intro room [of "?e + ucast (pl_kblocks p)"]) simp_all
    then show ?thesis using sb' j e
      by (intro exI [of _ ?j] exI [of _ "ucast ?e * pl_bs p"] exI [of _ "ucast ?e * pl_bs p + pl_klen p"]) simp
  next
    case False
    then have sb': "sb' = sb\<lparr>sb_agmap_offset := ucast nxt * pl_bs p, sb_journal_start := blk_addr 0 ?j\<rparr>"
      and "\<not> (ucast len :: u64) \<le> ucast ?e + 768"
      using run by (auto simp: head_layout_def Let_def split: if_splits)
    then have "unat ?e + 768 < unat len" by (intro room [of ?e]) simp_all
    moreover have "sb' = sb\<lparr>sb_agmap_offset := ucast nxt * pl_bs p, sb_journal_start := blk_addr 0 ?j,
        sb_kernel_offset := sb_kernel_offset sb, sb_kernel_end := sb_kernel_end sb\<rparr>" by (simp add: sb')
    ultimately show ?thesis using j e
      by (intro exI [of _ ?j] exI [of _ "sb_kernel_offset sb"] exI [of _ "sb_kernel_end sb"]) simp
  qed
qed

subsection \<open>The last writes\<close>

text \<open>What the finished device holds; \<open>a\<close> is the offset of the AG map, \<open>j\<close> the first journal block.\<close>

lemma mkfs_finish_run:
  assumes run: "mkfs_finish crc p len0 st d = (Inr sb', d')"
    and j: "sb_journal_start (mk_sb st) = blk_addr 0 j" and a: "unat (sb_agmap_offset (mk_sb st)) = a"
    and wf: "sb_wf sb'" and bs: "unat (pl_bs p) = bs" "512 \<le> bs"
    and room: "512 \<le> a" "a + 2 * 65536 \<le> unat j * bs" "unat j + unat (pl_journal p) < unat len0" "unat len0 * bs < 2 ^ 64"
  shows "\<exists>bytes. am_to_bytes crc (mk_map st) 65536 = Inr bytes \<and> holds a bytes d' \<and> holds (a + 65536) bytes d'"
    and "holds 0 (sb_to_bytes crc sb') d'" and "holds ((unat len0 - 1) * bs) (sb_to_bytes crc sb') d'"
    and "i < unat (pl_journal p) \<Longrightarrow> holds ((unat j + i) * bs) (replicate bs 0) d'"
    and "sb' = (mk_sb st)\<lparr>sb_root_ino := mk_root st, sb_free_blocks := mk_free st, sb_rsvd_blocks := mk_rsvd st,
      sb_full_blocks := mk_full st\<rparr>"
proof -
  have m32: "(0xFFFFFFFF :: u64) = mask 32" by (simp add: mask_eq_exp_minus_1)
  have jx: "blk_addr 0 j AND 0xFFFFFFFF = ucast j"
    unfolding m32 by (rule bit_word_eqI) (auto simp: blk_addr_def bit_simps dest: bit_imp_le_length)
  let ?zero = "replicate bs (0 :: u8)" and ?off = "\<lambda>b. (ucast j + of_nat b) * pl_bs p"
  have off: "unat (?off i) = (unat j + i) * bs" if "i < unat (pl_journal p)" for i
  proof -
    have "(unat j + i) * bs \<le> unat len0 * bs" using that room(3) by (intro mult_right_mono) simp_all
    then have lt: "(unat j + i) * bs < 2 ^ 64" using room(4) by linarith
    have "i < 2 ^ 64" using that unat_bound [of "pl_journal p"] by simp
    then have "unat (of_nat i :: u64) = i" by (simp add: unat_of_nat)
    moreover have "unat j + i < 2 ^ 32" using that room(3) unat_bound [of len0] by simp
    ultimately have "unat (ucast j + of_nat i :: u64) = unat j + i" by (simp add: unat_word_ariths)
    then show ?thesis using lt bs(1) by (simp add: unat_word_ariths)
  qed
  have bck: "unat ((ucast len0 - 1) * pl_bs p) = (unat len0 - 1) * bs"
  proof -
    have "unat (ucast len0 - 1 :: u64) = unat len0 - 1" using room(3) by (subst unat_sub_if') simp
    moreover have "(unat len0 - 1) * bs < 2 ^ 64" using room(4) by (rule le_less_trans [rotated]) simp
    ultimately show ?thesis using bs(1) by (simp add: unat_word_ariths)
  qed
  have jend: "(unat j + unat (pl_journal p)) * bs \<le> (unat len0 - 1) * bs" using room(3) by (intro mult_right_mono) simp_all
  let ?sb = "(mk_sb st)\<lparr>sb_root_ino := mk_root st, sb_free_blocks := mk_free st, sb_rsvd_blocks := mk_rsvd st,
      sb_full_blocks := mk_full st\<rparr>"
  have "\<exists>bytes d1 d2 d3 d4 d5. am_to_bytes crc (mk_map st) 65536 = Inr bytes \<and>
    dv_pwrite bytes (sb_agmap_offset (mk_sb st)) d = (Inr (), d1) \<and>
    dv_pwrite bytes (sb_agmap_offset (mk_sb st) + AGMAP_BYTES) d1 = (Inr (), d2) \<and>
    forS (\<lambda>b. dv_pwrite ?zero (?off b)) [0..<unat (pl_journal p)] d2 = (Inr (), d3) \<and>
    dv_pwrite (sb_to_bytes crc ?sb) 0 d3 = (Inr (), d4) \<and>
    dv_pwrite (sb_to_bytes crc ?sb) ((ucast len0 - 1) * pl_bs p) d4 = (Inr (), d5) \<and>
    dv_sync d5 = (Inr (), d') \<and> sb' = ?sb"
    using run unfolding mkfs_finish_def Let_def j jx bs(1)
    by (elim bindS_okE) (clarsimp simp: askS_ok, (intro exI conjI, assumption+)?)
  then obtain bytes d1 d2 d3 d4 d5 where
    bytes: "am_to_bytes crc (mk_map st) 65536 = Inr bytes" and
    w1: "dv_pwrite bytes (sb_agmap_offset (mk_sb st)) d = (Inr (), d1)" and
    w2: "dv_pwrite bytes (sb_agmap_offset (mk_sb st) + AGMAP_BYTES) d1 = (Inr (), d2)" and
    w3: "forS (\<lambda>b. dv_pwrite ?zero (?off b)) [0..<unat (pl_journal p)] d2 = (Inr (), d3)" and
    w4: "dv_pwrite (sb_to_bytes crc ?sb) 0 d3 = (Inr (), d4)" and
    w5: "dv_pwrite (sb_to_bytes crc ?sb) ((ucast len0 - 1) * pl_bs p) d4 = (Inr (), d5)" and
    w6: "dv_sync d5 = (Inr (), d')" and sb': "sb' = ?sb"
    by blast
  note w4 = w4 [folded sb'] and w5 = w5 [folded sb']
  show "sb' = (mk_sb st)\<lparr>sb_root_ino := mk_root st, sb_free_blocks := mk_free st, sb_rsvd_blocks := mk_rsvd st,
      sb_full_blocks := mk_full st\<rparr>" by (rule sb')
  have blen: "length bytes = 65536" by (rule am_to_bytes_length(1) [OF bytes])
  then have bne: "bytes \<noteq> []" by auto
  have slen: "length (sb_to_bytes crc sb') = 512" by (rule length_sb_to_bytes [OF wf])
  then have sne: "sb_to_bytes crc sb' \<noteq> []" by auto
  have m2: "unat (sb_agmap_offset (mk_sb st) + AGMAP_BYTES) = a + 65536"
  proof -
    have "unat j * bs \<le> unat len0 * bs" using room(3) by (intro mult_right_mono) simp_all
    then have "a + 65536 < 2 ^ 64" using room(2,4) by linarith
    then show ?thesis using a by (simp add: unat_word_ariths)
  qed
  have h1: "holds a bytes d1" using pwrite_holds [OF w1 bne] a by simp
  have h1': "holds a bytes d2"
    by (rule keepsD [OF keeps_holds_pwrite h1 w2]) (simp add: m2 blen apart_def)
  have h2: "holds (a + 65536) bytes d2" using pwrite_holds [OF w2 bne] m2 by simp
  have keep3: "keeps (holds o1 bytes) (forS (\<lambda>b. dv_pwrite ?zero (?off b)) [0..<unat (pl_journal p)])"
    if "o1 + 65536 \<le> unat j * bs" for o1
  proof (intro keeps_forS_set keeps_holds_pwrite)
    fix b assume b: "b \<in> set [0..<unat (pl_journal p)]"
    then have "unat (?off b) = (unat j + b) * bs" by (intro off) simp
    then show "apart (o1, o1 + length bytes) (unat (?off b), unat (?off b) + length ?zero)"
      using that by (simp add: blen apart_def add_mult_distrib)
  qed
  have h3: "holds a bytes d3" "holds (a + 65536) bytes d3"
    using keepsD [OF keep3 h1' w3] keepsD [OF keep3 h2 w3] room(2) by simp_all
  have keep4: "keeps (holds o1 b) (dv_pwrite (sb_to_bytes crc sb') 0)" if "512 \<le> o1" for o1 b
    by (rule keeps_holds_pwrite) (use that in \<open>simp add: slen apart_def\<close>)
  have keep5: "keeps (holds o1 b) (dv_pwrite (sb_to_bytes crc sb') ((ucast len0 - 1) * pl_bs p))"
    if "o1 + length b \<le> (unat len0 - 1) * bs" for o1 b
    by (rule keeps_holds_pwrite) (use that in \<open>simp add: bck apart_def\<close>)
  have below: "unat j * bs \<le> (unat len0 - 1) * bs" using room(3) by (intro mult_right_mono) simp_all
  have h5: "holds a bytes d5" "holds (a + 65536) bytes d5"
    using keepsD [OF keep5 keepsD [OF keep4 h3(1) w4] w5] keepsD [OF keep5 keepsD [OF keep4 h3(2) w4] w5]
      room(1) order.trans [OF room(2) below] blen by linarith+
  note sync = keepsD [OF keeps_holds_sync _ w6]
  show "\<exists>bytes. am_to_bytes crc (mk_map st) 65536 = Inr bytes \<and> holds a bytes d' \<and> holds (a + 65536) bytes d'"
    using bytes sync [OF h5(1)] sync [OF h5(2)] by blast
  have "holds 0 (sb_to_bytes crc sb') d4" using pwrite_holds [OF w4 sne] by simp
  then have "holds 0 (sb_to_bytes crc sb') d5" by (rule keepsD [OF keep5 _ w5, rotated])
    (use room(1) order.trans [OF room(2) below] slen in linarith)
  then show "holds 0 (sb_to_bytes crc sb') d'" by (rule sync)
  have "holds ((unat len0 - 1) * bs) (sb_to_bytes crc sb') d5" using pwrite_holds [OF w5 sne] bck by simp
  then show "holds ((unat len0 - 1) * bs) (sb_to_bytes crc sb') d'" by (rule sync)
  show "holds ((unat j + i) * bs) (replicate bs 0) d'" if i: "i < unat (pl_journal p)"
  proof -
    have "holds (unat (?off i)) ?zero d3"
    proof (rule forS_pwrite_holds [OF w3])
      fix x y assume "x \<noteq> y" "x \<in> set [0..<unat (pl_journal p)]" "y \<in> set [0..<unat (pl_journal p)]"
      moreover from this have "unat (?off x) = (unat j + x) * bs" "unat (?off y) = (unat j + y) * bs"
        by (simp_all add: off)
      moreover have "(unat j + x) * bs + bs \<le> (unat j + y) * bs \<or> (unat j + y) * bs + bs \<le> (unat j + x) * bs"
      proof -
        have "unat j + x + 1 \<le> unat j + y \<or> unat j + y + 1 \<le> unat j + x" using \<open>x \<noteq> y\<close> by linarith
        then have "(unat j + x + 1) * bs \<le> (unat j + y) * bs \<or> (unat j + y + 1) * bs \<le> (unat j + x) * bs"
          by (blast intro: mult_right_mono)
        then show ?thesis by (simp add: add_mult_distrib add.commute)
      qed
      ultimately show "apart (unat (?off x), unat (?off x) + length ?zero) (unat (?off y), unat (?off y) + length ?zero)"
        by (simp add: apart_def)
    qed (use bs(2) i in auto)
    then have z: "holds ((unat j + i) * bs) ?zero d3" using off [OF i] by simp
    have "(unat j + i + 1) * bs \<le> (unat j + unat (pl_journal p)) * bs" using i by (intro mult_right_mono) simp_all
    then have "(unat j + i) * bs + bs \<le> (unat len0 - 1) * bs" using jend by (simp add: add_mult_distrib)
    moreover have "512 \<le> (unat j + i) * bs" using room by (simp add: add_mult_distrib)
    ultimately have "holds ((unat j + i) * bs) ?zero d5"
      by (intro keepsD [OF keep5 keepsD [OF keep4 z w4] w5]) simp_all
    then show ?thesis by (rule sync)
  qed
qed

subsection \<open>The quantities of the plan\<close>

text \<open>
  The sizes the journal and the kernel may have: the code adds their block counts up in 32 bits
  without a check.
\<close>

definition mkfs_sane :: "mkfs_opts \<Rightarrow> bool" where
  "mkfs_sane opts \<longleftrightarrow>
     (case mo_journal opts of None \<Rightarrow> True | Some j \<Rightarrow> j \<noteq> 0 \<and> unat j < 2 ^ 40) \<and>
     (case mo_kernel opts of None \<Rightarrow> True | Some k \<Rightarrow> length k < 2 ^ 40)"

lemma div_ceil_le:
  assumes "0 < b"
  shows "div_ceil a b \<le> a div b + 1"
proof -
  have "(a + b - 1) div b \<le> (a + b) div b" by (rule div_le_mono) simp
  moreover have "(a + b) div b = a div b + 1" using assms by (intro div_add_self2) simp
  ultimately show ?thesis by (simp only: div_ceil_def)
qed

lemma div_ceil_mono: "a \<le> a' \<Longrightarrow> div_ceil a b \<le> div_ceil a' b"
  unfolding div_ceil_def by (intro div_le_mono) simp

lemma div_up_bounds:
  assumes "unat a \<le> 2 ^ 40" and "2048 \<le> unat b"
  shows "unat (div_up a b) = div_ceil (unat a) (unat b)" and "unat (div_up a b) \<le> 2 ^ 29 + 1"
proof -
  have "unat a div unat b \<le> unat a div 2048" using assms(2) by (intro div_le_mono2) simp_all
  also have "\<dots> \<le> 2 ^ 40 div 2048" by (rule div_le_mono [OF assms(1)])
  finally have "unat a div unat b \<le> 2 ^ 29" by simp
  moreover have "div_ceil (unat a) (unat b) \<le> unat a div unat b + 1" using assms(2) by (intro div_ceil_le) simp
  ultimately have le: "div_ceil (unat a) (unat b) \<le> 2 ^ 29 + 1" by linarith
  then show "unat (div_up a b) = div_ceil (unat a) (unat b)" by (simp add: div_up_def unat_of_nat)
  then show "unat (div_up a b) \<le> 2 ^ 29 + 1" using le by simp
qed

lemma rt_blocks_bound:
  assumes "2 \<le> unat bs"
  shows "snd (rt_geometry len bs) \<le> 2 ^ 27"
proof -
  define cells where "cells = div_ceil (unat len) CELL_BLOCKS"
  have "cells \<le> unat len div CELL_BLOCKS + 1" unfolding cells_def by (rule div_ceil_le) simp
  moreover have "unat len div CELL_BLOCKS \<le> 2 ^ 32 div CELL_BLOCKS"
    using unat_bound [of len] by (intro div_le_mono) simp
  ultimately have c: "cells \<le> 16777217" by simp
  have "div_ceil cells 4 \<le> cells div 4 + 1" by (rule div_ceil_le) simp
  moreover have "cells div 4 \<le> 16777217 div 4" by (rule div_le_mono [OF c])
  ultimately have "div_ceil cells 4 \<le> 4194305" by simp
  then have "div_ceil cells 4 + cells * 6 \<le> 134217726" using c by linarith
  then have "(div_ceil cells 4 + cells * 6) div unat bs \<le> 134217726 div 2"
    using assms by (intro order.trans [OF div_le_mono2 div_le_mono]) simp_all
  moreover have "div_ceil (div_ceil cells 4 + cells * 6) (unat bs) \<le> (div_ceil cells 4 + cells * 6) div unat bs + 1"
    using assms by (intro div_ceil_le) simp
  ultimately show ?thesis by (simp add: rt_geometry_def Let_def cells_def)
qed

lemma plan_ok:
  fixes sz :: u64
  assumes "mkfs_check opts = Inr ()" and "mkfs_sane opts"
  defines "p \<equiv> mk_plan_of opts sz"
  shows "is_power_of_two (mo_blocksize opts)" and "2048 \<le> unat (mo_blocksize opts)"
    and "pl_bs p = ucast (mo_blocksize opts)" and "pl_blocksize p = mo_blocksize opts"
    and "pl_total p = sz div pl_bs p"
    and "0 < unat (pl_journal p)" and "unat (pl_journal p) \<le> 2 ^ 29 + 1" and "unat (pl_kblocks p) \<le> 2 ^ 29 + 1"
    and "65536 \<le> unat (pl_agmap p) * unat (mo_blocksize opts)" and "unat (pl_agmap p) \<le> 33"
proof -
  let ?bs = "mo_blocksize opts"
  show bs: "is_power_of_two ?bs" "2048 \<le> unat ?bs"
    using assms(1) by (auto simp: mkfs_check_def Let_def word_less_nat_alt split: if_splits)
  show "pl_bs p = ucast ?bs" "pl_blocksize p = ?bs" "pl_total p = sz div pl_bs p"
    by (simp_all add: p_def mk_plan_of_def Let_def)
  have b64: "unat (ucast ?bs :: u64) = unat ?bs" by simp
  let ?jb = "journal_bytes (mo_journal opts) sz"
  have "unat (min 0x8000000 x :: u64) \<le> 2 ^ 40" "min 0x8000000 (max x 0x400000) \<noteq> (0 :: u64)" for x
    by (auto simp: min_def max_def word_le_nat_alt)
  then have jb: "unat ?jb \<le> 2 ^ 40" "?jb \<noteq> 0"
    using assms(2) by (auto simp: journal_bytes_def mkfs_sane_def split: option.splits)
  have j: "pl_journal p = div_up ?jb (ucast ?bs)" by (simp add: p_def mk_plan_of_def Let_def)
  note ju = div_up_bounds [OF jb(1), of "ucast ?bs", unfolded b64, OF bs(2)]
  have "0 < unat ?jb" using jb(2) by (simp add: unat_gt_0)
  moreover have "unat ?jb \<le> div_ceil (unat ?jb) (unat ?bs) * unat ?bs" using bs(2) by (intro div_ceil_ge) simp
  ultimately have "div_ceil (unat ?jb) (unat ?bs) \<noteq> 0" by (metis less_le_trans mult_zero_left less_numeral_extra(3))
  then show "0 < unat (pl_journal p)" using ju(1) by (simp add: j)
  show "unat (pl_journal p) \<le> 2 ^ 29 + 1" using ju(2) by (simp add: j)
  let ?kl = "(case mo_kernel opts of None \<Rightarrow> 0 | Some k \<Rightarrow> of_nat (length k)) :: u64"
  have "unat ?kl \<le> 2 ^ 40" using assms(2) by (auto simp: mkfs_sane_def unat_of_nat split: option.splits)
  then have "unat (div_up ?kl (ucast ?bs)) \<le> 2 ^ 29 + 1" using bs(2) by (intro div_up_bounds(2)) simp_all
  moreover have "pl_kblocks p = div_up ?kl (ucast ?bs)" by (simp add: p_def mk_plan_of_def Let_def)
  ultimately show "unat (pl_kblocks p) \<le> 2 ^ 29 + 1" by simp
  have a: "unat (pl_agmap p) = div_ceil 65536 (unat ?bs)"
    using div_up_bounds(1) [of AGMAP_BYTES "ucast ?bs"] bs(2) by (simp add: p_def mk_plan_of_def Let_def)
  show "65536 \<le> unat (pl_agmap p) * unat ?bs" unfolding a using bs(2) by (intro div_ceil_ge) simp
  have "div_ceil 65536 (unat ?bs) \<le> 65536 div unat ?bs + 1" using bs(2) by (intro div_ceil_le) simp
  moreover have "65536 div unat ?bs \<le> 65536 div 2048" using bs(2) by (intro div_le_mono2) simp_all
  ultimately show "unat (pl_agmap p) \<le> 33" unfolding a by simp
qed

lemma ag_lengths_ok:
  assumes "2048 \<le> unat (mo_blocksize opts)" and "pl_bs p = ucast (mo_blocksize opts)"
  shows "\<exists>ls. ag_lengths p = Inr ls \<and> sum_list (map unat ls) = unat (pl_total p) \<and>
    (\<forall>l\<in>set ls. 0 < l \<and> unat l \<le> unat (MAX_AG_BYTES div pl_bs p) + 1023)"
proof -
  let ?bs = "unat (mo_blocksize opts)"
  have m: "unat (MAX_AG_BYTES div pl_bs p) = 0x1000000000 div ?bs" by (simp add: assms(2) unat_div)
  have "0x1000000000 div ?bs \<le> 0x1000000000 div 2048" using assms(1) by (intro div_le_mono2) simp_all
  then have "unat (MAX_AG_BYTES div pl_bs p) + 1023 < 2 ^ 32" unfolding m by simp
  moreover have "0 < MAX_AG_BYTES div pl_bs p"
  proof -
    have "?bs \<le> 0x1000000000" using unat_bound [of "mo_blocksize opts"] by simp
    then have "0 < 0x1000000000 div ?bs" using assms(1) by (simp add: div_greater_zero_iff)
    then show ?thesis unfolding m [symmetric] by (simp add: unat_gt_0 word_greater_zero_iff)
  qed
  ultimately show ?thesis unfolding ag_lengths_def by (intro split_ags_ok) simp_all
qed

subsection \<open>The image\<close>

lemma mkfs_device_roomy:
  assumes "mkfs_device opts f = Inr d" and "fl_len f < MAX_OFF"
  shows "roomy (dv_size d) (unat (dv_size d)) d"
proof -
  have "fl_len f < 2 ^ 64" using assms(2) by (simp add: MAX_OFF_def)
  then have "unat (of_nat (fl_len f) :: u64) = fl_len f" by (simp add: unat_of_nat)
  then show ?thesis
    using assms by (auto simp: mkfs_device_def dv_create_def dv_open_def dv_new_def roomy_def fl_set_len_def guardR_def
        split: option.splits if_splits)
qed

text \<open>
  The file that \<open>mkfs\<close> leaves: both superblocks and both AG map copies, the journal from block
  \<open>j\<close> of AG 0 on zeroed, an AG map of AGs laid one after the other.
\<close>

definition fresh_image :: "crc_fun \<Rightarrow> vfile \<Rightarrow> superblock \<Rightarrow> agmap \<Rightarrow> u32 \<Rightarrow> u32 \<Rightarrow> bool" where
  "fresh_image crc f sb m j len0 \<longleftrightarrow> sb_wf sb \<and> fl_len f < MAX_OFF \<and>
     sb_journal_start sb = blk_addr 0 j \<and> sb_journal_head sb = 0 \<and> sb_journal_seq sb = 1 \<and>
     sb_agmap_length sb = AGMAP_BYTES \<and> 0 < unat (sb_journal_length sb) \<and> 0 < unat j \<and>
     unat j + unat (sb_journal_length sb) + 768 < unat len0 \<and>
     unat (sb_agmap_offset sb) + 2 * 65536 < 2 ^ 64 \<and>
     am_layout_ok m (sb_blocksize sb) \<and>
     list_all (\<lambda>s. snd (sg_range (sb_blocksize sb) s) \<le> fl_len f) (am_segs m) \<and>
     (\<exists>es. am_entries m = mk_entry 0 len0 0 # es \<and> (\<forall>e\<in>set es. length (ae_segs e) = 1)) \<and>
     (\<exists>bytes. am_to_bytes crc m 65536 = Inr bytes \<and> fl_read f (unat (sb_agmap_offset sb)) 65536 = bytes \<and>
        fl_read f (unat (sb_agmap_offset sb) + 65536) 65536 = bytes) \<and> unat (sb_agmap_offset sb) + 2 * 65536 \<le> fl_len f \<and>
     fl_read f 0 512 = sb_to_bytes crc sb \<and>
     fl_read f ((unat len0 - 1) * unat (sb_blocksize sb)) 512 = sb_to_bytes crc sb \<and>
     (\<forall>i<unat (sb_journal_length sb). fl_read f ((unat j + i) * unat (sb_blocksize sb)) (unat (sb_blocksize sb))
        = replicate (unat (sb_blocksize sb)) 0)"

lemma mkfs_stages:
  assumes "mkfs_on crc now uuid opts d = (Inr sm, d')"
  defines "sz \<equiv> dv_size d - dv_size d mod ucast (mo_blocksize opts)"
  defines "p \<equiv> mk_plan_of opts sz"
  obtains len0 lens st1 d1 st2 d2 sb where "ag_lengths p = Inr (len0 # lens)"
    and "mkfs_ag crc now p (0, len0) \<lparr>mk_map = \<lparr>am_gen = 1, am_entries = []\<rparr>, mk_off = 0, mk_free = 0, mk_rsvd = 0,
        mk_full = 0, mk_root = 0, mk_sb = sb_proto opts uuid (of_nat (length (len0 # lens))) (pl_journal p)\<rparr> d = (Inr st1, d1)"
    and "foldS (mkfs_ag crc now p) (map (\<lambda>(i, len). (of_nat i, len)) (enumerate 1 lens)) st1 d1 = (Inr st2, d2)"
    and "mkfs_finish crc p len0 st2 d2 = (Inr sb, d')"
    and "sm = \<lparr>ms_size = sz, ms_blocks = pl_total p, ms_ags = of_nat (length (len0 # lens)), ms_journal_blocks = pl_journal p,
      ms_root_ino = mk_root st2, ms_free_blocks = mk_free st2, ms_kernel_offset = sb_kernel_offset sb\<rparr>"
proof -
  let ?st0 = "\<lambda>lens. \<lparr>mk_map = \<lparr>am_gen = 1, am_entries = []\<rparr>, mk_off = 0, mk_free = 0, mk_rsvd = 0,
        mk_full = 0, mk_root = 0, mk_sb = sb_proto opts uuid (of_nat (length lens)) (pl_journal p)\<rparr>"
  have "\<exists>ls st2 d2 sb. ag_lengths p = Inr ls \<and>
    foldS (mkfs_ag crc now p) (map (\<lambda>(i, len). (of_nat i, len)) (enumerate 0 ls)) (?st0 ls) d = (Inr st2, d2) \<and>
    ls \<noteq> [] \<and> mkfs_finish crc p (hd ls) st2 d2 = (Inr sb, d') \<and>
    sm = \<lparr>ms_size = sz, ms_blocks = pl_total p, ms_ags = of_nat (length ls), ms_journal_blocks = pl_journal p,
      ms_root_ino = mk_root st2, ms_free_blocks = mk_free st2, ms_kernel_offset = sb_kernel_offset sb\<rparr>"
    using assms(1) unfolding mkfs_on_def Let_def p_def sz_def
    by (elim bindS_okE) (clarsimp simp: askS_ok ensureS_ok, (intro exI conjI, assumption+, simp_all)?)
  then obtain ls st2 d2 sb where ls: "ag_lengths p = Inr ls" "ls \<noteq> []"
    and fold: "foldS (mkfs_ag crc now p) (map (\<lambda>(i, len). (of_nat i, len)) (enumerate 0 ls)) (?st0 ls) d = (Inr st2, d2)"
    and fin: "mkfs_finish crc p (hd ls) st2 d2 = (Inr sb, d')"
    and sm: "sm = \<lparr>ms_size = sz, ms_blocks = pl_total p, ms_ags = of_nat (length ls), ms_journal_blocks = pl_journal p,
      ms_root_ino = mk_root st2, ms_free_blocks = mk_free st2, ms_kernel_offset = sb_kernel_offset sb\<rparr>" by blast
  obtain len0 lens where l: "ls = len0 # lens" using ls(2) by (cases ls) auto
  have "foldS (mkfs_ag crc now p) ((0, len0) # map (\<lambda>(i, len). (of_nat i, len)) (enumerate 1 lens)) (?st0 ls) d = (Inr st2, d2)"
    using fold by (simp add: l)
  then obtain st1 d1 where "mkfs_ag crc now p (0, len0) (?st0 ls) d = (Inr st1, d1)"
    "foldS (mkfs_ag crc now p) (map (\<lambda>(i, len). (of_nat i, len)) (enumerate 1 lens)) st1 d1 = (Inr st2, d2)"
    unfolding foldS.simps by (elim bindS_okE)
  then show thesis using that ls(1) fin sm unfolding l by simp
qed

lemma mkfs_finish_sb:
  assumes "mkfs_finish crc p len0 st d = (Inr sb', d')"
  shows "sb' = (mk_sb st)\<lparr>sb_root_ino := mk_root st, sb_free_blocks := mk_free st, sb_rsvd_blocks := mk_rsvd st,
      sb_full_blocks := mk_full st\<rparr>" and "\<exists>bytes. am_to_bytes crc (mk_map st) 65536 = Inr bytes"
  using assms unfolding mkfs_finish_def Let_def by (elim bindS_okE, simp add: askS_ok)+

lemma am_used_ge: "8 * length es \<le> am_used es"
  by (induction es) auto

lemma mkfs_entries_len:
  "foldS (mkfs_ag crc now p) (map (\<lambda>(i, len). (of_nat i, len)) (enumerate k lens)) st d = (Inr st', d') \<Longrightarrow>
    length (am_entries (mk_map st')) = length (am_entries (mk_map st)) + length lens"
proof (induction lens arbitrary: k st d)
  case (Cons len lens)
  obtain st1 d1 where "mkfs_ag crc now p (of_nat k, len) st d = (Inr st1, d1)"
    "foldS (mkfs_ag crc now p) (map (\<lambda>(i, len). (of_nat i, len)) (enumerate (Suc k) lens)) st1 d1 = (Inr st', d')"
    using Cons.prems by (auto elim: bindS_okE)
  then show ?case using mkfs_ag_run(1) Cons.IH by fastforce
qed simp

lemma sb_proto_fields:
  "sb_blocksize (sb_proto opts uuid n j) = mo_blocksize opts" "sb_uuid (sb_proto opts uuid n j) = uuid"
  "length (sb_disk_name (sb_proto opts uuid n j)) = 16" "sb_agmap_length (sb_proto opts uuid n j) = AGMAP_BYTES"
  "sb_journal_length (sb_proto opts uuid n j) = j" "sb_journal_head (sb_proto opts uuid n j) = 0"
  "sb_journal_seq (sb_proto opts uuid n j) = 1" "sb_next_ag (sb_proto opts uuid n j) = n"
  "sb_incompat (sb_proto opts uuid n j) = 0"
  by (simp_all add: sb_proto_def Let_def)

text \<open>What the loop over the AGs leaves: the superblock as AG 0 laid it out, and the AGs in a row.\<close>

lemma mkfs_ags_run:
  fixes sz :: u64
  assumes chk: "mkfs_check opts = Inr ()" and sane: "mkfs_sane opts"
  defines "p \<equiv> mk_plan_of opts sz" and "nxt \<equiv> \<lambda>len0. 2 + of_nat (snd (rt_geometry len0 (mo_blocksize opts))) :: u32"
  assumes ag0: "mkfs_ag crc now p (0, len0) \<lparr>mk_map = \<lparr>am_gen = 1, am_entries = []\<rparr>, mk_off = 0, mk_free = 0, mk_rsvd = 0,
        mk_full = 0, mk_root = 0, mk_sb = proto\<rparr> d = (Inr st1, d1)"
    and rest: "foldS (mkfs_ag crc now p) (map (\<lambda>(i, len). (of_nat i, len)) (enumerate 1 lens)) st1 d1 = (Inr st2, d2)"
    and fit: "(unat len0 + sum_list (map unat lens)) * unat (mo_blocksize opts) \<le> unat sz"
    and count: "length lens \<le> 65536"
  shows "\<exists>j ko ke. mk_sb st2 = proto\<lparr>sb_agmap_offset := ucast (nxt len0) * pl_bs p, sb_journal_start := blk_addr 0 j,
      sb_kernel_offset := ko, sb_kernel_end := ke\<rparr> \<and> unat j = unat (nxt len0) + 2 * unat (pl_agmap p) \<and>
      unat j + unat (pl_journal p) + 768 < unat len0"
    and "packed p (unat len0 + sum_list (map unat lens)) st2"
    and "\<exists>es. am_entries (mk_map st2) = mk_entry 0 len0 0 # es \<and> length es = length lens \<and> (\<forall>e\<in>set es. length (ae_segs e) = 1)"
    and "unat (nxt len0) = 2 + snd (rt_geometry len0 (mo_blocksize opts))"
proof -
  let ?bs = "unat (mo_blocksize opts)" and ?n = "nxt len0"
  note plan = plan_ok(1,2) [OF chk sane] plan_ok(3-10) [OF chk sane, where sz = sz, folded p_def]
  have fit64: "(unat len0 + sum_list (map unat lens)) * ?bs < 2 ^ 64" using fit unat_bound [of sz] by simp
  note one = mkfs_ag_run [OF ag0, simplified]
  have rt: "snd (rt_geometry len0 (mo_blocksize opts)) \<le> 2 ^ 27" using plan(2) by (intro rt_blocks_bound) simp
  then show nxt: "unat ?n = 2 + snd (rt_geometry len0 (mo_blocksize opts))"
    by (simp add: nxt_def unat_word_ariths unat_of_nat)
  have small: "unat ?n + 2 * unat (pl_agmap p) + unat (pl_journal p) + unat (pl_kblocks p) < 2 ^ 32"
    using rt plan(7,8,10) unfolding nxt by simp
  obtain nx ks where lay: "head_layout p len0 0 ?n proto = Inr (nx, ks, mk_sb st1)"
    using one(4) plan(4) by (auto simp: nxt_def)
  have "packed p 0 \<lparr>mk_map = \<lparr>am_gen = 1, am_entries = []\<rparr>, mk_off = 0, mk_free = 0, mk_rsvd = 0,
      mk_full = 0, mk_root = 0, mk_sb = proto\<rparr>" by (simp add: packed_def am_segs_def am_layout_ok_def)
  then have "packed p (0 + unat len0) st1"
    by (rule packed_step) (use one(1,2) plan(3,4) fit64 in \<open>simp_all add: add_mult_distrib\<close>)
  then have "packed p (unat len0 + sum_list (map unat lens)) st2 \<and> mk_sb st2 = mk_sb st1 \<and> am_gen (mk_map st2) = am_gen (mk_map st1) \<and>
    (\<exists>es. am_entries (mk_map st2) = am_entries (mk_map st1) @ es \<and> length es = length lens \<and> (\<forall>e\<in>set es. length (ae_segs e) = 1))"
    by (intro mkfs_rest_run [OF rest]) (use plan(3,4) fit64 count in simp_all)
  then show "packed p (unat len0 + sum_list (map unat lens)) st2"
    and "\<exists>es. am_entries (mk_map st2) = mk_entry 0 len0 0 # es \<and> length es = length lens \<and> (\<forall>e\<in>set es. length (ae_segs e) = 1)"
    and "\<exists>j ko ke. mk_sb st2 = proto\<lparr>sb_agmap_offset := ucast ?n * pl_bs p, sb_journal_start := blk_addr 0 j,
      sb_kernel_offset := ko, sb_kernel_end := ke\<rparr> \<and> unat j = unat ?n + 2 * unat (pl_agmap p) \<and>
      unat j + unat (pl_journal p) + 768 < unat len0"
    using one(1) head_layout_ok [OF lay small] by auto
qed

lemma mkfs_fresh:
  assumes run: "mkfs crc now uuid opts f = (Inr sm, f')" and f: "fl_len f < MAX_OFF" and sane: "mkfs_sane opts"
    and uuid: "length uuid = 16"
  shows "\<exists>sb m j len0. fresh_image crc f' sb m j len0 \<and> sb_uuid sb = uuid \<and> sb_blocksize sb = mo_blocksize opts \<and>
    sb_root_ino sb = ms_root_ino sm \<and> sb_next_ag sb = ms_ags sm \<and> sb_free_blocks sb = ms_free_blocks sm \<and>
    sb_journal_length sb = ms_journal_blocks sm \<and> sb_incompat sb = 0"
proof -
  obtain d d' where chk: "mkfs_check opts = Inr ()" and dev: "mkfs_device opts f = Inr d"
    and on: "mkfs_on crc now uuid opts d = (Inr sm, d')" and f': "f' = dv_file d'"
    using run by (auto simp: mkfs_def split: sum.splits prod.splits elim!: tryR_InrE)
  define sz where "sz = dv_size d - dv_size d mod ucast (mo_blocksize opts)"
  define p where "p = mk_plan_of opts sz"
  let ?bs = "unat (mo_blocksize opts)"
  note plan = plan_ok(1,2) [OF chk sane] plan_ok(3-10) [OF chk sane, where sz = sz, folded p_def]
  obtain len0 lens st1 d1 st2 d2 sb where lens: "ag_lengths p = Inr (len0 # lens)"
    and ag0: "mkfs_ag crc now p (0, len0) \<lparr>mk_map = \<lparr>am_gen = 1, am_entries = []\<rparr>, mk_off = 0, mk_free = 0, mk_rsvd = 0,
        mk_full = 0, mk_root = 0, mk_sb = sb_proto opts uuid (of_nat (length (len0 # lens))) (pl_journal p)\<rparr> d = (Inr st1, d1)"
    (is "mkfs_ag crc now p (0, len0) ?st0 d = _")
    and rest: "foldS (mkfs_ag crc now p) (map (\<lambda>(i, len). (of_nat i, len)) (enumerate 1 lens)) st1 d1 = (Inr st2, d2)"
    and fin: "mkfs_finish crc p len0 st2 d2 = (Inr sb, d')"
    and sm: "sm = \<lparr>ms_size = sz, ms_blocks = pl_total p, ms_ags = of_nat (length (len0 # lens)), ms_journal_blocks = pl_journal p,
      ms_root_ino = mk_root st2, ms_free_blocks = mk_free st2, ms_kernel_offset = sb_kernel_offset sb\<rparr>"
    by (rule mkfs_stages [OF on, folded sz_def, folded p_def])
  have room0: "roomy (dv_size d) (unat (dv_size d)) d" by (rule mkfs_device_roomy [OF dev f])
  have "roomy (dv_size d) (unat (dv_size d)) d1" by (rule keepsD [OF keeps_roomy_ag room0 ag0])
  moreover have "keeps (roomy (dv_size d) (unat (dv_size d))) (foldS (mkfs_ag crc now p) xs st)" for xs st
    by (intro keeps_intros)
  ultimately have "roomy (dv_size d) (unat (dv_size d)) d2" using rest by (blast dest: keepsD)
  then have "roomy (dv_size d) (unat (dv_size d)) d'" by (rule keepsD [OF keeps_roomy_finish _ fin])
  then have flen: "unat (dv_size d) \<le> fl_len f'" "fl_len f' < MAX_OFF" by (simp_all add: roomy_def f')
  have "unat sz \<le> unat (dv_size d)"
  proof -
    have "dv_size d mod ucast (mo_blocksize opts) \<le> dv_size d" by (simp add: word_le_nat_alt unat_mod)
    then show ?thesis by (simp add: sz_def word_le_nat_alt [symmetric] word_sub_le)
  qed
  then have szf: "unat sz \<le> fl_len f'" using flen(1) by linarith
  have sum: "unat len0 + sum_list (map unat lens) = unat (pl_total p)"
    using ag_lengths_ok [OF plan(2,3)] lens by auto
  have "unat (pl_total p) * ?bs \<le> unat sz" using plan(3,5) by (simp add: unat_div)
  then have fit: "(unat len0 + sum_list (map unat lens)) * ?bs \<le> unat sz" unfolding sum .
  then have fit64: "(unat len0 + sum_list (map unat lens)) * ?bs < 2 ^ 64" using unat_bound [of sz] by simp
  have "length lens \<le> 65536"
  proof -
    obtain bytes where "am_to_bytes crc (mk_map st2) 65536 = Inr bytes" using mkfs_finish_sb(2) [OF fin] by blast
    then show ?thesis
      using am_to_bytes_fits [of crc "mk_map st2" 65536] am_used_ge [of "am_entries (mk_map st2)"] mkfs_entries_len [OF rest] by auto
  qed
  note ags = mkfs_ags_run [OF chk sane, where sz = sz, folded p_def, OF ag0 rest fit \<open>length lens \<le> 65536\<close>]
  let ?nxt = "2 + of_nat (snd (rt_geometry len0 (mo_blocksize opts))) :: u32"
  obtain j ko ke where sb2: "mk_sb st2 = (sb_proto opts uuid (of_nat (length (len0 # lens))) (pl_journal p))\<lparr>
      sb_agmap_offset := ucast ?nxt * pl_bs p, sb_journal_start := blk_addr 0 j, sb_kernel_offset := ko, sb_kernel_end := ke\<rparr>"
    and j: "unat j = unat ?nxt + 2 * unat (pl_agmap p)" "unat j + unat (pl_journal p) + 768 < unat len0"
    using ags(1) by blast
  note packed = ags(2) and es0 = ags(3) and nxt = ags(4)
  have es: "\<exists>es. am_entries (mk_map st2) = mk_entry 0 len0 0 # es \<and> (\<forall>e\<in>set es. length (ae_segs e) = 1)" using es0 by blast
  note sb = mkfs_finish_sb(1) [OF fin, unfolded sb2]
  have wf: "sb_wf sb" using plan(1,2) uuid by (simp add: sb sb_wf_def sb_proto_fields word_le_nat_alt)
  have len0: "unat len0 * ?bs \<le> unat sz" using fit by (simp add: add_mult_distrib)
  have a: "unat (ucast ?nxt * pl_bs p) = unat ?nxt * ?bs"
  proof -
    have "unat ?nxt * ?bs \<le> unat len0 * ?bs" using j by (intro mult_right_mono) simp_all
    moreover have "unat sz < 2 ^ 64" using unat_bound [of sz] by simp
    ultimately have "unat ?nxt * ?bs < 2 ^ 64" using len0 by linarith
    then show ?thesis using plan(3) by (simp only: unat_word_ariths unat_ucast_up) simp
  qed
  have agmap: "unat ?nxt * ?bs + 2 * 65536 \<le> unat j * ?bs"
    using plan(9) unfolding j(1) by (simp add: add_mult_distrib)
  have jend: "unat j * ?bs \<le> unat len0 * ?bs" using j(2) by (intro mult_right_mono) simp_all
  have fin_room: "512 \<le> unat ?nxt * ?bs" "unat j + unat (pl_journal p) < unat len0" "unat len0 * ?bs < 2 ^ 64"
    using nxt plan(2) j(2) len0 unat_bound [of sz] by simp_all
  have starts: "sb_journal_start (mk_sb st2) = blk_addr 0 j" "unat (sb_agmap_offset (mk_sb st2)) = unat ?nxt * ?bs"
    by (simp_all add: sb2 a)
  have bs: "unat (pl_bs p) = ?bs" "512 \<le> ?bs" using plan(2,3) by simp_all
  note fin_facts = mkfs_finish_run [OF fin starts wf bs fin_room(1) agmap fin_room(2,3)]
  obtain bytes where bytes: "am_to_bytes crc (mk_map st2) 65536 = Inr bytes"
    "holds (unat ?nxt * ?bs) bytes d'" "holds (unat ?nxt * ?bs + 65536) bytes d'" using fin_facts(1) by blast
  have blen: "length bytes = 65536" by (rule am_to_bytes_length(1) [OF bytes(1)])
  have slen: "length (sb_to_bytes crc sb) = 512" by (rule length_sb_to_bytes [OF wf])
  have reads: "fl_read f' (unat ?nxt * ?bs) 65536 = bytes" "fl_read f' (unat ?nxt * ?bs + 65536) 65536 = bytes"
    "unat ?nxt * ?bs + 2 * 65536 \<le> fl_len f'" "fl_read f' 0 512 = sb_to_bytes crc sb"
    "fl_read f' ((unat len0 - 1) * ?bs) 512 = sb_to_bytes crc sb"
    using bytes(2,3) fin_facts(2,3) blen slen by (simp_all add: holds_def f')
  have zero: "\<forall>i<unat (pl_journal p). fl_read f' ((unat j + i) * ?bs) ?bs = replicate ?bs 0"
    using fin_facts(4) by (simp add: holds_def f')
  have segs: "list_all (\<lambda>s. snd (sg_range (mo_blocksize opts) s) \<le> fl_len f') (am_segs (mk_map st2))"
    using packed plan(4) fit szf bs(1) unfolding packed_def by (auto simp: list_all_iff)
  have lay2: "am_layout_ok (mk_map st2) (mo_blocksize opts)" using packed plan(4) by (simp add: packed_def)
  define A where "A = unat ?nxt * ?bs"
  note rd = reads [folded A_def]
  have A: "unat (sb_agmap_offset sb) = A" using a by (simp add: sb A_def)
  have fields: "sb_journal_start sb = blk_addr 0 j" "sb_journal_head sb = 0" "sb_journal_seq sb = 1"
    "sb_agmap_length sb = AGMAP_BYTES" "sb_journal_length sb = pl_journal p" "sb_blocksize sb = mo_blocksize opts"
    by (simp_all add: sb sb_proto_fields)
  have small: "A + 2 * 65536 < 2 ^ 64" using agmap [folded A_def] jend fin_room(3) by linarith
  have jpos: "0 < unat j" using j(1) nxt by linarith
  have "fresh_image crc f' sb (mk_map st2) j len0"
    unfolding fresh_image_def fields A
    by (intro conjI wf flen(2) refl plan(6) jpos j(2) small lay2 segs es rd(3) rd(4) rd(5) zero exI [of _ bytes] bytes(1) rd(1,2))
  then show ?thesis using sm by (intro exI [of _ sb] exI [of _ "mk_map st2"] exI [of _ j] exI [of _ len0])
    (simp add: sb sb_proto_fields)
qed

end
