(* ===== verification/MkfsRuns.thy ===== *)
theory MkfsRuns
  imports MkfsFacts
begin

text \<open>
  When \<open>mkfs\<close> succeeds: every write of it lies below the largest file offset and every check of
  it passes, once the options are valid and AG 0 has room for the journal and the kernel. An
  operation \<open>works\<close> when it ends without an error from every state of an invariant, keeps the
  invariant and has a result with a certain property.
\<close>

unbundle bit_operations_syntax

subsection \<open>Operations that succeed\<close>

definition works :: "('s \<Rightarrow> bool) \<Rightarrow> ('a \<Rightarrow> bool) \<Rightarrow> ('s, 'a) operation \<Rightarrow> bool" where
  "works I Q m \<longleftrightarrow> (\<forall>s. I s \<longrightarrow> (\<exists>x s'. m s = (Inr x, s') \<and> I s' \<and> Q x))"

abbreviation "anything \<equiv> \<lambda>_. True"

lemma works_retS: "Q x \<Longrightarrow> works I Q (retS x)"
  by (simp add: works_def retS_def)

lemma works_askS: "(\<And>s. I s \<Longrightarrow> \<exists>x. f s = Inr x \<and> Q x) \<Longrightarrow> works I Q (askS f)"
  by (auto simp: works_def askS_def)

lemma works_ensureS: "b \<Longrightarrow> works I anything (ensureS b e)"
  by (simp add: works_def ensureS_def)

lemma works_bindS: "works I R m \<Longrightarrow> (\<And>x. R x \<Longrightarrow> works I Q (k x)) \<Longrightarrow> works I Q (bindS m k)"
  unfolding works_def by (metis bindS_Inr)

lemma works_thenS: "works I anything m \<Longrightarrow> (\<And>x. works I Q (k x)) \<Longrightarrow> works I Q (bindS m k)"
  by (rule works_bindS)

lemma works_forS: "(\<And>x. x \<in> set xs \<Longrightarrow> works I anything (f x)) \<Longrightarrow> works I anything (forS f xs)"
  by (induction xs) (auto intro: works_retS works_bindS)

lemma worksE:
  assumes "works I Q m" and "I s"
  obtains x s' where "m s = (Inr x, s')" and "I s'" and "Q x"
  using assms unfolding works_def by blast

lemma works_pwrite:
  assumes "unat off + length b < MAX_OFF"
  shows "works (roomy sz n) anything (dv_pwrite b off)"
  unfolding works_def
proof (intro allI impI)
  fix d assume h: "roomy sz n d"
  have "dv_writable (dv_record off b d)" using h by (simp add: roomy_def dv_record_def split: option.splits)
  then have "fst (dv_pwrite b off d) = Inr ()" using assms by (simp add: dv_pwrite_def Let_def)
  then obtain d' where run: "dv_pwrite b off d = (Inr (), d')" by (cases "dv_pwrite b off d") auto
  show "\<exists>x d'. dv_pwrite b off d = (Inr x, d') \<and> roomy sz n d' \<and> True"
    using run keepsD [OF keeps_roomy_pwrite h run] by blast
qed

lemma works_sync: "works (roomy sz n) anything dv_sync"
  using keeps_roomy_sync [of sz n] by (simp add: works_def keeps_def dv_sync_def)

text \<open>Offsets of blocks: far below the largest file offset, whatever wraps around.\<close>

lemma unat_add_le: "unat (a + b) \<le> unat a + unat b"
  by (simp add: unat_word_ariths)

lemma unat_mult_le: "unat (a * b) \<le> unat a * unat b"
  by (simp add: unat_word_ariths)

lemma off_small:
  fixes off bs x :: u64
  assumes "unat off \<le> 2 ^ 46" and "unat bs \<le> 2 ^ 22" and "unat x \<le> 2 ^ 33"
  shows "unat (off + x * bs) \<le> 2 ^ 56"
proof -
  have "unat x * unat bs \<le> 2 ^ 33 * 2 ^ 22" by (intro mult_le_mono assms)
  then show ?thesis using unat_add_le [of off "x * bs"] unat_mult_le [of x bs] assms(1) by simp
qed

lemma u32_small: "unat (ucast (x :: u32) :: u64) \<le> 2 ^ 33"
  using unat_bound [of x] by simp

lemma MAX_OFF_big: "unat off \<le> 2 ^ 56 \<Longrightarrow> n \<le> 2 ^ 55 \<Longrightarrow> unat off + n < MAX_OFF"
  by (simp add: MAX_OFF_def)

subsection \<open>The pieces of one AG\<close>

lemma fold_cell_set_length: "length (fold (\<lambda>c t. cell_set t c st) cs t) = length t"
  by (induction cs arbitrary: t) auto

lemma head_table_works:
  assumes "head \<le> 4 * (rt * unat (pl_bs p))"
  shows "\<exists>table rsvd. head_table p ag len cells rt head = Inr (table, rsvd) \<and> length table = rt * unat (pl_bs p)"
  using assms by (auto simp: head_table_def Let_def guardR_def fold_cell_set_length split: prod.splits if_splits)

lemma put_len:
  "length b = n \<Longrightarrow> off + length xs \<le> n \<Longrightarrow> length (put_bytes b off xs) = n"
  "length b = n \<Longrightarrow> off + 4 \<le> n \<Longrightarrow> length (put_u32 b off w) = n"
  "length b = n \<Longrightarrow> off + 2 \<le> n \<Longrightarrow> length (put_u16 b off h) = n"
  "length b = n \<Longrightarrow> off + 4 \<le> n \<Longrightarrow> length (put_bytes b off (cell_set (get_bytes c k 4) i st)) = n"
  by (simp_all add: put_int_defs length_put_bytes get_bytes_def)

lemma length_arena_block:
  assumes "2048 \<le> unat (pl_bs p)"
  shows "length (arena_block crc p arena) = unat (pl_bs p)"
proof -
  have seal: "length b = n \<Longrightarrow> 8 \<le> n \<Longrightarrow> length (seal crc b) = n" for b n by simp
  have magic: "length ALLOC_MAGIC = 4" by (simp add: ALLOC_MAGIC_def)
  note room = assms
  show ?thesis
  proof (cases "0 < pl_kblocks p")
    case True
    show ?thesis unfolding arena_block_def Let_def if_P [OF True]
      by (rule seal, (rule put_len(4) put_len(3) put_len(2))+, rule put_len(1)) (use room in \<open>simp_all add: magic\<close>)
  next
    case False
    show ?thesis unfolding arena_block_def Let_def if_not_P [OF False]
      by (rule seal, (rule put_len(4) put_len(3) put_len(2))+, rule put_len(1)) (use room in \<open>simp_all add: magic\<close>)
  qed
qed

lemma put_meta_works:
  assumes "unat off \<le> 2 ^ 46" and "unat (pl_bs p) \<le> 2 ^ 22" and "2048 \<le> unat (pl_bs p)"
  shows "works (roomy sz n) anything (put_meta crc p off nxt hb hdr table)"
proof -
  have len: "length (put_bytes (replicate (unat (pl_bs p)) 0) 0 (get_bytes table k (unat (pl_bs p)))) = unat (pl_bs p)"
    "length (put_bytes (replicate (unat (pl_bs p)) 0) 0 (ah_to_bytes crc hdr)) = unat (pl_bs p)" for k
    using assms(3) by (simp_all add: length_put_bytes get_bytes_def)
  have b: "unat (of_nat b :: u64) \<le> 2 ^ 33" if "b \<in> set [0..<unat nxt]" for b
  proof -
    have "b < 2 ^ 32" using that unat_bound [of nxt] by simp
    then show ?thesis by (simp add: unat_of_nat)
  qed
  show ?thesis
    unfolding put_meta_def Let_def using assms b
    by (intro works_thenS works_forS works_pwrite MAX_OFF_big off_small u32_small) (auto simp: len)
qed

lemma inode_cell_works:
  assumes "unat off \<le> 2 ^ 46" and "unat (pl_bs p) \<le> 2 ^ 22" and "2048 \<le> unat (pl_bs p)"
    and "head + 2 < cells" and "div_ceil cells 4 + cells * 6 \<le> length table"
  shows "works (roomy sz n) anything (inode_cell crc p off cells head table)"
  unfolding inode_cell_def Let_def using assms
  by (intro works_thenS works_ensureS works_retS works_pwrite MAX_OFF_big off_small u32_small)
    (auto simp: length_arena_block rt_ref_off_def)

lemma kernel_entry:
  "\<exists>b. dir_append (dir_image []) \<lparr>de_ino = ino, de_ftype = t, de_name = KERNEL_NAME\<rparr> = Inr b \<and> length b = INODE_PAYLOAD"
proof -
  let ?e = "\<lparr>de_ino = ino, de_ftype = t, de_name = KERNEL_NAME\<rparr>"
  have len: "length (encode_utf16 KERNEL_NAME) \<le> 10" by (simp add: KERNEL_NAME_def utf16_char_def)
  then have size: "dirent_size ?e \<le> 30" by (simp add: dirent_size_def)
  have "dir_append (dir_image []) ?e = Inr (dir_image ([] @ [?e]))"
    by (rule dir_append_image) (use len size in simp_all)
  moreover have "length (dir_image [?e]) = INODE_PAYLOAD" using size by (simp add: dir_image_def)
  ultimately show ?thesis unfolding append_Nil by blast
qed

lemma kernel_extent: "\<exists>b. extents_store [e] = Inr b \<and> length b = INODE_PAYLOAD"
  using extents_store_image [of "[e]"] by auto

lemma fresh_payload: "in_payload (fresh_inode now) = dir_image []"
  unfolding fresh_inode_def inode_default_def dir_image_def pad_def by simp

lemma length_dir_image_Nil: "length (dir_image []) = INODE_PAYLOAD"
  by (simp add: dir_image_def)

definition plan_small :: "mk_plan \<Rightarrow> bool" where
  "plan_small p \<longleftrightarrow> 2048 \<le> unat (pl_bs p) \<and> unat (pl_bs p) \<le> 2 ^ 22 \<and> unat (pl_kblocks p) \<le> 2 ^ 30 \<and>
     unat (pl_blocksize p) = unat (pl_bs p) \<and>
     (case pl_kernel p of None \<Rightarrow> True | Some k \<Rightarrow> length k \<le> 2 ^ 40)"

lemma put_kernel_works:
  assumes "unat off \<le> 2 ^ 46" and "plan_small p" and "pl_kernel p = Some k" and "in_payload root = dir_image []"
  shows "works (roomy sz n) in_wf (put_kernel crc p now off ks hint ri k root)"
proof -
  have small: "unat (pl_bs p) \<le> 2 ^ 22" using assms(2) by (simp add: plan_small_def)
  have len: "length (pad k (unat (pl_kblocks p * pl_bs p) - length k)) \<le> 2 ^ 55"
  proof -
    have "unat (pl_kblocks p) * unat (pl_bs p) \<le> 2 ^ 30 * 2 ^ 22"
      using assms(2) by (intro mult_le_mono) (simp_all add: plan_small_def)
    then have "unat (pl_kblocks p * pl_bs p) \<le> 2 ^ 52" using unat_mult_le [of "pl_kblocks p" "pl_bs p"] by simp
    moreover have "length k \<le> 2 ^ 40" using assms(2,3) by (simp add: plan_small_def)
    ultimately show ?thesis by simp
  qed
  have at: "unat (off + ucast hint * pl_bs p + ucast (pl_inodesize p)) + INODE_SIZE < MAX_OFF"
    using off_small [OF assms(1) small u32_small, of hint]
      unat_add_le [of "off + ucast hint * pl_bs p" "ucast (pl_inodesize p)"] unat_bound [of "pl_inodesize p"]
    by (simp add: MAX_OFF_def)
  obtain rp where rp: "dir_append (in_payload root) \<lparr>de_ino = ri + 1, de_ftype = DT_FILE, de_name = KERNEL_NAME\<rparr> = Inr rp"
    "length rp = INODE_PAYLOAD" unfolding assms(4) using kernel_entry by blast
  obtain pay where pay: "extents_store [\<lparr>ex_file_block = 0, ex_blk = blk_addr 0 ks, ex_blocks = ucast (pl_kblocks p)\<rparr>] = Inr pay"
    "length pay = INODE_PAYLOAD" using kernel_extent by blast
  show ?thesis
    unfolding put_kernel_def Let_def
    by (rule works_thenS [OF works_pwrite [OF MAX_OFF_big [OF off_small [OF assms(1) small u32_small] len]]],
        rule works_bindS [OF works_askS [where Q = "\<lambda>b. length b = INODE_PAYLOAD"]],
        use pay in simp,
        rule works_thenS [OF works_pwrite],
        use at length_in_to_bytes in \<open>simp add: in_wf_def\<close>,
        rule works_bindS [OF works_askS [where Q = "\<lambda>b. length b = INODE_PAYLOAD"]],
        use rp in simp, rule works_retS, simp add: in_wf_def)
qed

lemma put_root_works:
  assumes "unat off \<le> 2 ^ 46" and "plan_small p"
  shows "works (roomy sz n) anything (put_root crc p now off ks hint)"
proof -
  have small: "unat (pl_bs p) \<le> 2 ^ 22" using assms(2) by (simp add: plan_small_def)
  note at = off_small [OF assms(1) small u32_small, of hint]
  have inode: "works (roomy sz n) in_wf (case pl_kernel p of None \<Rightarrow> retS ((fresh_inode now)\<lparr>in_format := FMT_EMPTY, in_mode := 0x41ED, in_nlink := 2\<rparr>)
      | Some k \<Rightarrow> put_kernel crc p now off ks hint ri k ((fresh_inode now)\<lparr>in_format := FMT_EMPTY, in_mode := 0x41ED, in_nlink := 2\<rparr>))" for ri
  proof (cases "pl_kernel p")
    case None
    then show ?thesis
      unfolding None option.case by (intro works_retS) (simp add: in_wf_def fresh_payload length_dir_image_Nil)
  next
    case (Some k)
    show ?thesis
      unfolding Some option.case by (rule put_kernel_works [OF assms Some]) (simp add: fresh_payload)
  qed
  have len: "length (replicate (unat (pl_bs p)) (0 :: u8)) \<le> 2 ^ 55" unfolding length_replicate using small by simp
  have wr: "works (roomy sz n) anything (dv_pwrite (in_to_bytes crc i) (off + ucast hint * pl_bs p))" if "in_wf i" for i
    by (intro works_pwrite MAX_OFF_big at) (simp add: length_in_to_bytes [OF that])
  show ?thesis
    unfolding put_root_def Let_def
    by (rule works_thenS [OF works_pwrite [OF MAX_OFF_big [OF at len]]], rule works_bindS [OF inode],
        rule works_thenS [OF wr], assumption, rule works_retS, simp)
qed

text \<open>How far the head of an AG reaches into its cells.\<close>

definition head_room :: "mk_plan \<Rightarrow> u32 \<Rightarrow> nat \<Rightarrow> nat \<Rightarrow> u32 \<Rightarrow> bool" where
  "head_room p ag cells rt nxt \<longleftrightarrow>
     (let head = div_ceil (unat nxt) CELL_BLOCKS in head \<le> 4 * (rt * unat (pl_bs p)) \<and> (ag = 0 \<longrightarrow> head + 2 < cells))"

lemma geometry_bounds:
  assumes "plan_small p" and "rt_geometry len (pl_blocksize p) = (cells, rt)"
  shows "cells = div_ceil (unat len) CELL_BLOCKS" and "div_ceil cells 4 + cells * 6 \<le> rt * unat (pl_bs p)"
    and "cells \<le> 4 * (rt * unat (pl_bs p))" and "rt \<le> 2 ^ 27"
proof -
  have bs: "unat (pl_blocksize p) = unat (pl_bs p)" "2048 \<le> unat (pl_bs p)" using assms(1) by (simp_all add: plan_small_def)
  show "cells = div_ceil (unat len) CELL_BLOCKS" using assms(2) by (simp add: rt_geometry_def Let_def)
  have rt: "rt = div_ceil (div_ceil cells 4 + cells * 6) (unat (pl_bs p))"
    using assms(2) bs by (auto simp: rt_geometry_def Let_def)
  show fits: "div_ceil cells 4 + cells * 6 \<le> rt * unat (pl_bs p)"
    unfolding rt using bs(2) by (intro div_ceil_ge) simp
  then show "cells \<le> 4 * (rt * unat (pl_bs p))" by linarith
  show "rt \<le> 2 ^ 27" using rt_blocks_bound [of "pl_blocksize p" len] assms(2) bs by simp
qed

lemma head_room_rest:
  assumes "plan_small p" and "rt_geometry len (pl_blocksize p) = (cells, rt)" and "0 < len" and "ag \<noteq> 0"
  shows "head_room p ag cells rt (1 + of_nat rt)"
proof -
  note g = geometry_bounds [OF assms(1,2)]
  have "0 < unat len" using assms(3) by (simp add: word_less_nat_alt)
  then have "0 < cells * 256" using div_ceil_ge [of 256 "unat len"] by (simp add: g(1))
  then have "0 < rt * unat (pl_bs p)" using g(2) by linarith
  then have "1 \<le> rt" by simp
  have bs: "2048 \<le> unat (pl_bs p)" using assms(1) by (simp add: plan_small_def)
  have "rt * 2048 \<le> rt * unat (pl_bs p)" using bs by (rule mult_le_mono2)
  moreover have "unat (1 + of_nat rt :: u32) \<le> 1 + rt"
    using unat_add_le [of 1 "of_nat rt :: u32"] g(4) by (simp add: unat_of_nat)
  then have "unat (1 + of_nat rt :: u32) div 256 \<le> 1 + rt" using div_le_dividend le_trans by blast
  moreover have "div_ceil (unat (1 + of_nat rt :: u32)) 256 \<le> unat (1 + of_nat rt :: u32) div 256 + 1"
    by (rule div_ceil_le) simp
  ultimately have "div_ceil (unat (1 + of_nat rt :: u32)) 256 \<le> 4 * (rt * unat (pl_bs p))" using \<open>1 \<le> rt\<close> by linarith
  then show ?thesis using assms(4) unfolding head_room_def Let_def by blast
qed

lemma div_ceil_add: "0 < b \<Longrightarrow> div_ceil (a + k * b) b = div_ceil a b + k"
proof -
  assume b: "0 < b"
  have "a + k * b + b - 1 = (a + b - 1) + k * b" using b by simp
  then show ?thesis using b unfolding div_ceil_def by (simp only: div_mult_self1)
qed

lemma head_layout_room:
  assumes "head_layout p len off nxt sb = Inr (nx, ks, sb')"
  shows "unat nx + 768 < unat len"
proof -
  have "\<not> (ucast len :: u64) \<le> ucast nx + 768"
    using assms by (auto simp: head_layout_def Let_def split: if_splits)
  moreover have "unat (ucast nx + 768 :: u64) = unat nx + 768" using unat_bound [of nx] by (simp add: unat_word_ariths)
  ultimately show ?thesis by (simp add: word_le_nat_alt)
qed

lemma head_room_first:
  assumes "plan_small p" and "rt_geometry len (pl_blocksize p) = (cells, rt)" and "unat nx + 768 < unat len"
  shows "head_room p 0 cells rt nx"
proof -
  note g = geometry_bounds [OF assms(1,2)]
  have "div_ceil (unat nx + 3 * 256) 256 \<le> cells" unfolding g(1) using assms(3) by (intro div_ceil_mono) simp
  moreover have "div_ceil (unat nx + 3 * 256) 256 = div_ceil (unat nx) 256 + 3" by (rule div_ceil_add) simp
  ultimately show ?thesis using g(3) by (simp add: head_room_def)
qed

lemma mkfs_ag_works:
  assumes off: "unat (mk_off st) \<le> 2 ^ 46" and p: "plan_small p" and len: "0 < len"
    and head: "ag = 0 \<Longrightarrow> \<exists>r. head_layout p len (mk_off st) (2 + of_nat (snd (rt_geometry len (pl_blocksize p)))) (mk_sb st) = Inr r"
  shows "works (roomy sz n) anything (mkfs_ag crc now p (ag, len) st)"
proof -
  obtain cells rt where rt: "rt_geometry len (pl_blocksize p) = (cells, rt)" by fastforce
  have bs: "unat (pl_bs p) \<le> 2 ^ 22" "2048 \<le> unat (pl_bs p)" using p by (simp_all add: plan_small_def)
  note g = geometry_bounds [OF p rt]
  let ?hb = "if ag = 0 then 1 else 0 :: u32"
  have lay: "\<exists>x. (if ag = 0 then head_layout p len (mk_off st) (?hb + 1 + of_nat rt) (mk_sb st) else Inr (?hb + 1 + of_nat rt, 0, mk_sb st)) = Inr x \<and>
    head_room p ag cells rt (fst x)"
  proof (cases "ag = 0")
    case True
    then obtain nx ks sb' where "head_layout p len (mk_off st) (2 + of_nat rt) (mk_sb st) = Inr (nx, ks, sb')"
      using head rt by auto
    then show ?thesis using True head_room_first [OF p rt head_layout_room] by auto
  next
    case False
    then show ?thesis using head_room_rest [OF p rt len] by simp
  qed
  have cell: "works (roomy sz n) anything (if ag = 0 then inode_cell crc p (mk_off st) cells (div_ceil (unat nx) CELL_BLOCKS) table
      else retS (table, 0, 0))" if "head_room p ag cells rt nx" and "length table = rt * unat (pl_bs p)" for nx table
    using inode_cell_works [OF off bs] that g(2) by (cases "ag = 0") (auto simp: head_room_def Let_def intro: works_retS)
  have root: "works (roomy sz n) anything (if ag = 0 then put_root crc p now (mk_off st) ks hint else retS (mk_root st))" for ks hint
    using put_root_works [OF off p] by (simp add: works_retS)
  have table: "\<exists>y. head_table p ag len cells rt (div_ceil (unat nx) CELL_BLOCKS) = Inr y \<and> length (fst y) = rt * unat (pl_bs p)"
    if "head_room p ag cells rt nx" for nx
    using head_table_works [of "div_ceil (unat nx) CELL_BLOCKS" rt p ag len cells] that by (auto simp: head_room_def Let_def)
  show ?thesis
    unfolding mkfs_ag_def Let_def split_beta fst_conv snd_conv rt
    by (rule works_bindS [OF works_askS [where Q = "\<lambda>x. head_room p ag cells rt (fst x)"]], rule lay,
        rule works_bindS [OF works_askS [where Q = "\<lambda>y. length (fst y) = rt * unat (pl_bs p)"]], rule table, assumption,
        rule works_thenS [OF cell], assumption, assumption,
        rule works_thenS [OF put_meta_works [OF off bs]], rule works_thenS [OF root], rule works_retS, simp)
qed

subsection \<open>All AGs\<close>

lemma split_ags_shape:
  assumes "split_ags fuel max_blocks tot = Inr ls" and "0 < max_blocks" and "unat max_blocks + 1023 < 2 ^ 32" and "tot \<noteq> 0"
  shows "ls \<noteq> [] \<and> (length ls - 1) * unat max_blocks \<le> unat tot"
  using assms(1,4)
proof (induction fuel arbitrary: tot ls)
  case (Suc fuel)
  let ?len = "min tot max_blocks"
  have le: "unat ?len \<le> unat tot" "unat ?len \<le> unat max_blocks" "unat ?len = min (unat tot) (unat max_blocks)"
    by (auto simp: min_def word_le_nat_alt)
  then have sub: "unat (tot - ?len) = unat tot - unat ?len" by (simp add: unat_sub_if')
  have small: "unat (ucast ?len :: u32) = unat ?len" using le assms(3) by (intro unat_ucast_small) simp
  show ?case
  proof (cases "0 < tot - ?len \<and> tot - ?len < 1024")
    case True
    then have "unat (tot - ?len) < 1024" by (simp add: word_less_nat_alt)
    then have "unat tot < 2 ^ 32" using sub le assms(3) by linarith
    then have "unat (ucast tot :: u32) = unat tot" by (intro unat_ucast_small) simp
    moreover have "ls = [ucast tot]" using Suc.prems True by simp
    ultimately show ?thesis by simp
  next
    case False
    then obtain rest where rest: "split_ags fuel max_blocks (tot - ?len) = Inr rest" "ls = ucast ?len # rest"
      using Suc.prems by (auto simp: tryR_Inr_iff Let_def)
    show ?thesis
    proof (cases "tot - ?len = 0")
      case True
      then have "rest = []" using rest(1) by (cases fuel) auto
      then show ?thesis using rest(2) small le(3) by simp
    next
      case more: False
      from Suc.IH [OF rest(1) more] have ih: "rest \<noteq> []" "(length rest - 1) * unat max_blocks \<le> unat (tot - ?len)" by simp_all
      have "0 < unat (tot - ?len)" using more by (simp add: unat_gt_0)
      then have "unat ?len = unat max_blocks" using sub le(3) by linarith
      moreover have "length rest * unat max_blocks = (length rest - 1) * unat max_blocks + unat max_blocks"
        using ih(1) by (cases rest) simp_all
      ultimately have "length rest * unat max_blocks \<le> unat tot" using ih(2) sub le(1) by linarith
      then show ?thesis using rest(2) small le(3) by simp
    qed
  qed
qed simp

lemma mkfs_rest_works:
  assumes "roomy sz n d" and "unat (mk_off st) + sum_list (map unat lens) * unat (pl_bs p) \<le> 2 ^ 46" and "plan_small p"
    and "\<forall>l\<in>set lens. 0 < l" and "0 < k" and "k + length lens < 2 ^ 32"
  shows "\<exists>st' d'. foldS (mkfs_ag crc now p) (map (\<lambda>(i, len). (of_nat i, len)) (enumerate k lens)) st d = (Inr st', d') \<and>
    roomy sz n d'"
  using assms
proof (induction lens arbitrary: k st d)
  case (Cons len lens)
  have k: "(of_nat k :: u32) \<noteq> 0" using Cons.prems(5,6) of_nat_u32_eq [of k 0] by simp
  have "unat (mk_off st) \<le> 2 ^ 46" using Cons.prems(2) by linarith
  then have "works (roomy sz n) anything (mkfs_ag crc now p (of_nat k, len) st)"
    by (rule mkfs_ag_works) (use Cons.prems(3,4) k in auto)
  with Cons.prems(1) obtain st1 d1 where run: "mkfs_ag crc now p (of_nat k, len) st d = (Inr st1, d1)" "roomy sz n d1"
    unfolding works_def by blast
  have "unat (mk_off st1) \<le> unat (mk_off st) + unat len * unat (pl_bs p)"
    unfolding mkfs_ag_run(2) [OF run(1)]
    using unat_add_le [of "mk_off st" "ucast len * pl_bs p"] unat_mult_le [of "ucast len" "pl_bs p"] by simp
  then have "unat (mk_off st1) + sum_list (map unat lens) * unat (pl_bs p) \<le> 2 ^ 46"
    using Cons.prems(2) by (simp add: add_mult_distrib)
  from Cons.IH [OF run(2) this Cons.prems(3), of "Suc k"] Cons.prems(4-6) run(1)
  show ?case by (auto simp: bindS_def)
qed (auto simp: retS_def)

lemma mkfs_finish_works:
  assumes p: "plan_small p" "unat (pl_journal p) \<le> 2 ^ 30" and fits: "AGMAP_HDR + am_used (am_entries (mk_map st)) \<le> 65536"
    and off: "unat (sb_agmap_offset (mk_sb st)) \<le> 2 ^ 55"
    and wf: "sb_wf ((mk_sb st)\<lparr>sb_root_ino := mk_root st, sb_free_blocks := mk_free st, sb_rsvd_blocks := mk_rsvd st,
      sb_full_blocks := mk_full st\<rparr>)"
    and pos: "0 < len0"
  shows "works (roomy sz n) anything (mkfs_finish crc p len0 st)"
proof -
  have bs: "unat (pl_bs p) \<le> 2 ^ 22" using p by (simp add: plan_small_def)
  obtain bytes where bytes: "am_to_bytes crc (mk_map st) 65536 = Inr bytes" using am_to_bytes_concat [OF fits] by blast
  have len: "length bytes = 65536" by (rule am_to_bytes_length(1) [OF bytes])
  have off': "unat (sb_agmap_offset (mk_sb st) + AGMAP_BYTES) \<le> 2 ^ 56"
    using unat_add_le [of "sb_agmap_offset (mk_sb st)" AGMAP_BYTES] off by simp
  have "sb_journal_start (mk_sb st) AND 0xFFFFFFFF \<le> 0xFFFFFFFF" by (rule word_and_le1)
  then have js: "unat (sb_journal_start (mk_sb st) AND 0xFFFFFFFF) \<le> 2 ^ 32" by (simp add: word_le_nat_alt)
  have jb: "unat (((sb_journal_start (mk_sb st) AND 0xFFFFFFFF) + of_nat b) * pl_bs p) \<le> 2 ^ 56"
    if "b \<in> set [0..<unat (pl_journal p)]" for b
  proof -
    have "unat (of_nat b :: u64) \<le> 2 ^ 30" using that p(2) by (simp add: unat_of_nat)
    then have "unat ((sb_journal_start (mk_sb st) AND 0xFFFFFFFF) + of_nat b) \<le> 2 ^ 33"
      using unat_add_le [of "sb_journal_start (mk_sb st) AND 0xFFFFFFFF" "of_nat b"] js by simp
    then show ?thesis using off_small [of 0 "pl_bs p"] bs by simp
  qed
  have last: "unat ((ucast len0 - 1) * pl_bs p) \<le> 2 ^ 56"
  proof -
    have "unat (ucast len0 :: u64) = unat len0" by simp
    moreover have "0 < unat len0" using pos by (simp add: word_less_nat_alt)
    ultimately have "(ucast len0 :: u64) \<noteq> 0" by (metis less_irrefl unat_0)
    then have "unat (ucast len0 - 1 :: u64) = unat (ucast len0 :: u64) - 1" by (rule unat_minus_one)
    then have "unat (ucast len0 - 1 :: u64) \<le> 2 ^ 33" using unat_bound [of len0] by simp
    then show ?thesis using off_small [of 0 "pl_bs p"] bs by simp
  qed
  show ?thesis
    unfolding mkfs_finish_def Let_def
    by (rule works_bindS [OF works_askS [where Q = "\<lambda>b. length b = 65536"]], use bytes len in simp,
        intro works_thenS works_forS works_pwrite works_sync works_retS MAX_OFF_big)
      (use off off' jb bs last length_sb_to_bytes [OF wf] in \<open>simp_all add: MAX_OFF_def\<close>)
qed

subsection \<open>The whole run\<close>

text \<open>
  Room for everything: a device of 8 MiB to 64 TiB, and an AG 0 that takes its header, its root
  table, the AG map copies, the journal and the kernel with more than three cells to spare, which
  is the code's own condition without its wrap-around.
\<close>

definition mkfs_fits :: "mkfs_opts \<Rightarrow> u64 \<Rightarrow> bool" where
  "mkfs_fits opts sz \<longleftrightarrow>
     (let p = mk_plan_of opts sz in
      2 ^ 23 \<le> unat sz \<and> unat sz \<le> 2 ^ 46 \<and>
      (case ag_lengths p of
         Inr (len0 # _) \<Rightarrow>
           2 + snd (rt_geometry len0 (mo_blocksize opts)) + 2 * unat (pl_agmap p) + unat (pl_journal p) + unat (pl_kblocks p)
             + 3 * CELL_BLOCKS < unat len0
       | _ \<Rightarrow> False))"

lemma mkfs_check_blocksize:
  assumes "mkfs_check opts = Inr ()"
  shows "unat (mo_blocksize opts) \<le> 2 ^ 22"
proof -
  let ?bs = "mo_blocksize opts" and ?isz = "ucast (mo_inodesize opts) :: u32"
  have "\<not> of_nat ALLOC_FANOUT < ?bs div ?isz" and "\<not> ?isz < 128"
    using assms by (auto simp: mkfs_check_def Let_def split: if_splits)
  then have "unat ?bs div unat ?isz \<le> 32" and pos: "128 \<le> unat ?isz" by (simp_all add: word_less_nat_alt unat_div)
  have "unat ?bs < 33 * unat ?isz"
    using \<open>unat ?bs div unat ?isz \<le> 32\<close> pos by (subst div_less_iff_less_mult [symmetric]) linarith+
  then show ?thesis using unat_bound [of "mo_inodesize opts"] by simp
qed

lemma mkfs_plan_small:
  assumes "mkfs_check opts = Inr ()" and "mkfs_sane opts"
  shows "plan_small (mk_plan_of opts sz)"
proof -
  note b = mkfs_check_blocksize [OF assms(1)] and p = plan_ok(1,2) [OF assms] plan_ok(3-10) [OF assms, where sz = sz]
  have "pl_kernel (mk_plan_of opts sz) = mo_kernel opts" by (simp add: mk_plan_of_def Let_def)
  then show ?thesis using b p assms(2) unfolding plan_small_def by (simp add: mkfs_sane_def split: option.splits)
qed

lemma head_layout_fits:
  assumes "unat nxt + 2 * unat (pl_agmap p) + unat (pl_journal p) + unat (pl_kblocks p) + 768 < unat len"
  shows "\<exists>r. head_layout p len off nxt sb = Inr r"
proof -
  have l: "unat len < 2 ^ 32" using unat_bound [of len] by simp
  let ?a = "nxt + ucast (2 * pl_agmap p) + ucast (pl_journal p) :: u32"
  have m: "unat (2 * pl_agmap p) = 2 * unat (pl_agmap p)" using assms l by (simp add: unat_word_ariths)
  have c: "unat (ucast (2 * pl_agmap p) :: u32) = 2 * unat (pl_agmap p)" "unat (ucast (pl_journal p) :: u32) = unat (pl_journal p)"
    "unat (ucast (pl_kblocks p) :: u32) = unat (pl_kblocks p)" using assms l m by (simp_all add: unat_ucast_mod)
  have "unat ?a = unat nxt + 2 * unat (pl_agmap p) + unat (pl_journal p)"
    "unat (?a + ucast (pl_kblocks p)) = unat nxt + 2 * unat (pl_agmap p) + unat (pl_journal p) + unat (pl_kblocks p)"
    using assms l c by (simp_all add: unat_word_ariths)
  then have "unat ?a + 768 < unat len" "unat (?a + ucast (pl_kblocks p)) + 768 < unat len" using assms by linarith+
  moreover have "\<not> (ucast len :: u64) \<le> ucast x + 768" if "unat x + 768 < unat len" for x :: u32
    using that l unat_bound [of x] by (simp add: word_le_nat_alt unat_word_ariths)
  ultimately show ?thesis by (auto simp: head_layout_def Let_def)
qed

lemma ag_lengths_shape:
  assumes "2048 \<le> unat (mo_blocksize opts)" and "unat (mo_blocksize opts) \<le> 2 ^ 22"
    and p: "pl_bs p = ucast (mo_blocksize opts)" "pl_total p = sz div pl_bs p"
    and sz: "unat sz \<le> 2 ^ 46" "0 < unat sz div unat (mo_blocksize opts)"
  shows "\<exists>len0 lens. ag_lengths p = Inr (len0 # lens) \<and> (unat len0 + sum_list (map unat lens)) * unat (mo_blocksize opts) \<le> unat sz \<and>
    length lens \<le> 2048 \<and> (\<forall>l\<in>set (len0 # lens). 0 < l)"
proof -
  let ?bs = "unat (mo_blocksize opts)"
  have m: "unat (MAX_AG_BYTES div pl_bs p) = 2 ^ 36 div ?bs" and t: "unat (pl_total p) = unat sz div ?bs"
    by (simp_all add: p unat_div)
  obtain ls where ls: "ag_lengths p = Inr ls" "sum_list (map unat ls) = unat (pl_total p)"
    "\<forall>l\<in>set ls. 0 < l \<and> unat l \<le> unat (MAX_AG_BYTES div pl_bs p) + 1023"
    using ag_lengths_ok [OF assms(1) p(1)] by blast
  have "2 ^ 36 div ?bs \<le> 2 ^ 36 div 2048" using assms(1) by (intro div_le_mono2) simp_all
  then have mx: "2 ^ 36 div ?bs \<le> 2 ^ 25" by simp
  have "2 ^ 36 div 2 ^ 22 \<le> 2 ^ 36 div ?bs" using assms(1,2) by (intro div_le_mono2) simp_all
  then have mn: "0 < 2 ^ 36 div ?bs" by simp
  have "0 < MAX_AG_BYTES div pl_bs p" using mn unfolding m [symmetric] by (simp add: unat_gt_0 word_greater_zero_iff)
  moreover have "pl_total p \<noteq> 0" using sz(2) unfolding t [symmetric] by (simp add: unat_gt_0)
  ultimately have sh: "ls \<noteq> []" "(length ls - 1) * unat (MAX_AG_BYTES div pl_bs p) \<le> unat (pl_total p)"
    using split_ags_shape [OF ls(1) [unfolded ag_lengths_def]] mx unfolding m by auto
  obtain len0 lens where l: "ls = len0 # lens" using sh(1) by (cases ls) auto
  have count: "length lens \<le> 2048"
  proof -
    have "2 ^ 36 < 2 ^ 36 div ?bs * ?bs + ?bs" using assms(1) dividend_less_div_times [of ?bs "2 ^ 36"] by simp
    then have "2 ^ 35 \<le> 2 ^ 36 div ?bs * ?bs" using assms(2) by simp
    then have "length lens * 2 ^ 35 \<le> length lens * (2 ^ 36 div ?bs * ?bs)" by (rule mult_le_mono2)
    also have "\<dots> = length lens * (2 ^ 36 div ?bs) * ?bs" by simp
    also have "\<dots> \<le> unat sz div ?bs * ?bs" using sh(2) unfolding m t l by (intro mult_le_mono1) simp
    also have "\<dots> \<le> 2 ^ 46" using sz(1) by (rule order.trans [rotated]) simp
    finally show ?thesis by simp
  qed
  have "unat len0 + sum_list (map unat lens) = unat sz div ?bs" using ls(2) unfolding l t by simp
  then have "(unat len0 + sum_list (map unat lens)) * ?bs \<le> unat sz" by simp
  then show ?thesis using ls(1,3) count unfolding l by auto
qed

lemma mkfs_runs:
  assumes chk: "mkfs_check opts = Inr ()" and sane: "mkfs_sane opts" and uuid: "length uuid = 16" and f: "fl_len f < MAX_OFF"
    and dev: "mkfs_device opts f = Inr d" and fits: "mkfs_fits opts (dv_size d - dv_size d mod ucast (mo_blocksize opts))"
  shows "\<exists>sm f'. mkfs crc now uuid opts f = (Inr sm, f')"
proof -
  define sz where "sz = dv_size d - dv_size d mod ucast (mo_blocksize opts)"
  define p where "p = mk_plan_of opts sz"
  let ?bs = "unat (mo_blocksize opts)"
  note plan = plan_ok(1,2) [OF chk sane] plan_ok(3-10) [OF chk sane, where sz = sz, folded p_def]
  have small: "plan_small p" unfolding p_def by (rule mkfs_plan_small [OF chk sane])
  have b22: "?bs \<le> 2 ^ 22" by (rule mkfs_check_blocksize [OF chk])
  have sz: "2 ^ 23 \<le> unat sz" "unat sz \<le> 2 ^ 46"
    using fits by (simp_all add: mkfs_fits_def Let_def sz_def)
  have "?bs * 1 \<le> unat sz" using sz(1) b22 by simp
  then have "1 \<le> unat sz div ?bs" using plan(2) by (subst less_eq_div_iff_mult_less_eq) simp_all
  then have "0 < unat sz div ?bs" by simp
  from ag_lengths_shape [OF plan(2) b22 plan(3,5) sz(2) this] obtain len0 lens where
    lens: "ag_lengths p = Inr (len0 # lens)" and fit: "(unat len0 + sum_list (map unat lens)) * ?bs \<le> unat sz"
    and count: "length lens \<le> 2048" and pos: "\<forall>l\<in>set (len0 # lens). 0 < l" by blast
  have room: "2 + snd (rt_geometry len0 (mo_blocksize opts)) + 2 * unat (pl_agmap p) + unat (pl_journal p) + unat (pl_kblocks p)
      + 768 < unat len0" using fits lens by (simp add: mkfs_fits_def Let_def sz_def p_def)
  let ?proto = "sb_proto opts uuid (of_nat (length (len0 # lens))) (pl_journal p)"
  let ?st0 = "\<lparr>mk_map = \<lparr>am_gen = 1, am_entries = []\<rparr>, mk_off = 0, mk_free = 0, mk_rsvd = 0, mk_full = 0, mk_root = 0, mk_sb = ?proto\<rparr>"
  let ?I = "roomy (dv_size d) (unat (dv_size d))"
  have d: "?I d" by (rule mkfs_device_roomy [OF dev f])
  have rt: "snd (rt_geometry len0 (mo_blocksize opts)) \<le> 2 ^ 27" using plan(2) by (intro rt_blocks_bound) simp
  then have "unat (2 + of_nat (snd (rt_geometry len0 (pl_blocksize p))) :: u32) = 2 + snd (rt_geometry len0 (mo_blocksize opts))"
    using plan(4) by (simp add: unat_word_ariths unat_of_nat)
  then have "\<exists>r. head_layout p len0 0 (2 + of_nat (snd (rt_geometry len0 (pl_blocksize p)))) ?proto = Inr r"
    using room by (intro head_layout_fits) linarith
  then have "works ?I anything (mkfs_ag crc now p (0, len0) ?st0)"
    by (intro mkfs_ag_works small) (use pos in simp_all)
  with d obtain st1 d1 where ag0: "mkfs_ag crc now p (0, len0) ?st0 d = (Inr st1, d1)" "?I d1"
    unfolding works_def by blast
  have "unat (mk_off st1) \<le> unat len0 * ?bs"
    using mkfs_ag_run(2) [OF ag0(1)] unat_mult_le [of "ucast len0" "pl_bs p"] plan(3) by simp
  then have "unat (mk_off st1) + sum_list (map unat lens) * unat (pl_bs p) \<le> 2 ^ 46"
    using fit sz(2) plan(3) by (simp add: add_mult_distrib)
  then have "\<exists>st2 d2. foldS (mkfs_ag crc now p) (map (\<lambda>(i, len). (of_nat i, len)) (enumerate 1 lens)) st1 d1 = (Inr st2, d2) \<and> ?I d2"
    by (rule mkfs_rest_works [OF ag0(2) _ small]) (use pos count in simp_all)
  then obtain st2 d2 where
    rest: "foldS (mkfs_ag crc now p) (map (\<lambda>(i, len). (of_nat i, len)) (enumerate 1 lens)) st1 d1 = (Inr st2, d2)" "?I d2"
    by blast
  have "length lens \<le> 65536" using count by simp
  note ags = mkfs_ags_run [OF chk sane, where sz = sz, folded p_def, OF ag0(1) rest(1) fit this]
  let ?nxt = "2 + of_nat (snd (rt_geometry len0 (mo_blocksize opts))) :: u32"
  obtain j ko ke where sb2: "mk_sb st2 = ?proto\<lparr>sb_agmap_offset := ucast ?nxt * pl_bs p,
      sb_journal_start := blk_addr 0 j, sb_kernel_offset := ko, sb_kernel_end := ke\<rparr>" using ags(1) by blast
  have off: "unat (sb_agmap_offset (mk_sb st2)) \<le> 2 ^ 55"
  proof -
    have "unat (ucast ?nxt * pl_bs p) \<le> unat ?nxt * unat (pl_bs p)" using unat_mult_le [of "ucast ?nxt" "pl_bs p"] by simp
    also have "\<dots> \<le> (2 + 2 ^ 27) * 2 ^ 22" using rt plan(3,4) b22 unfolding ags(4) by (intro mult_le_mono) simp_all
    finally show ?thesis unfolding sb2 by simp
  qed
  obtain es where es: "am_entries (mk_map st2) = mk_entry 0 len0 0 # es" "length es = length lens"
    "\<forall>e\<in>set es. length (ae_segs e) = 1" using ags(3) by blast
  have "am_used es = 24 * length es" using es(3) by (induction es) auto
  then have used: "AGMAP_HDR + am_used (am_entries (mk_map st2)) \<le> 65536" using es(1,2) count by (simp add: mk_entry_def)
  have wf: "sb_wf ((mk_sb st2)\<lparr>sb_root_ino := mk_root st2, sb_free_blocks := mk_free st2, sb_rsvd_blocks := mk_rsvd st2,
      sb_full_blocks := mk_full st2\<rparr>)"
    using plan(1,2) uuid unfolding sb2 by (simp add: sb_wf_def sb_proto_fields word_le_nat_alt)
  have "works ?I anything (mkfs_finish crc p len0 st2)"
    by (rule mkfs_finish_works [OF small _ used off wf]) (use plan(7) pos in simp_all)
  with rest(2) obtain sb d3 where fin: "mkfs_finish crc p len0 st2 d2 = (Inr sb, d3)" unfolding works_def by blast
  have all: "foldS (mkfs_ag crc now p) (map (\<lambda>(i, len). (of_nat i, len)) (enumerate 0 (len0 # lens))) ?st0 d = (Inr st2, d2)"
    using ag0(1) rest(1) by (simp add: bindS_Inr)
  have steps: "askS (\<lambda>d. Inr (dv_size d - dv_size d mod ucast (mo_blocksize opts))) d = (Inr sz, d)"
    "ensureS (8 * 2 ^ 20 \<le> sz) e d = (Inr (), d)" "askS (\<lambda>d. ag_lengths p) d = (Inr (len0 # lens), d)"
    "ensureS (len0 # lens \<noteq> []) e d2 = (Inr (), d2)" for e
    using sz(1) lens by (simp_all add: askS_def ensureS_def sz_def word_le_nat_alt)
  have "mkfs_finish crc p (hd (len0 # lens)) st2 d2 = (Inr sb, d3)" using fin by simp
  then have "\<exists>sm. mkfs_on crc now uuid opts d = (Inr sm, d3)"
    unfolding mkfs_on_def Let_def
    by (simp only: bindS_def steps all p_def [symmetric] prod.case sum.case) (simp add: retS_def)
  then show ?thesis using chk dev by (auto simp: mkfs_def)
qed

end
