(* ===== verification/MkfsProps.thy ===== *)
theory MkfsProps
  imports MkfsRuns Example
begin

text \<open>
  What \<open>src/mkfs.rs\<close> promises to the rest of the system: the image it leaves opens, and the
  filesystem that opens is healthy in the sense of the journal's theorems. With it come the
  conditions under which it succeeds.
\<close>

unbundle bit_operations_syntax

subsection \<open>A fresh image opens\<close>

lemma blk_addr_ucast: "blk_addr 0 l = ucast l"
  by (simp add: blk_addr_def)

lemma blk_addr_0_add:
  assumes "unat j + i < 2 ^ 32"
  shows "blk_addr 0 j + of_nat i = blk_addr 0 (j + of_nat i)"
proof -
  have "unat (j + of_nat i) = unat j + i" using assms by (simp add: unat_word_ariths unat_of_nat)
  then show ?thesis using assms
    unfolding blk_addr_ucast by (simp add: word_unat_eq_iff unat_word_ariths unat_of_nat)
qed

definition fresh_fs :: "vfile \<Rightarrow> superblock \<Rightarrow> agmap \<Rightarrow> bool \<Rightarrow> gofs" where
  "fresh_fs f sb m w = \<lparr>g_dev = dv_open f w, g_sb = sb, g_map = m, g_hints = (\<lambda>_. None)\<rparr>"

lemma fresh_fs_parts [simp]:
  "g_sb (fresh_fs f sb m w) = sb" "g_map (fresh_fs f sb m w) = m" "dv_file (dv_open f w) = f"
  "g_dev (fresh_fs f sb m w) = dv_open f w" "g_bs (fresh_fs f sb m w) = unat (sb_blocksize sb)"
  by (simp_all add: fresh_fs_def dv_open_def dv_new_def g_bs_def)

lemma fresh_fs_ok:
  assumes "fresh_image crc f sb m j len0"
  shows "fs_ok (fresh_fs f sb m True)" and "ag0_length (fresh_fs f sb m True) = len0"
proof -
  obtain es where es: "am_entries m = mk_entry 0 len0 0 # es"
    and len: "768 < unat len0" using assms by (fastforce simp: fresh_image_def)
  have "2 \<le> len0" using len by (simp add: word_le_nat_alt)
  moreover have "(AGF_PRESENT OR AGF_IMMOVABLE) AND AGF_PRESENT \<noteq> (0 :: u16)" by simp
  ultimately have "ag0_ok m" using es by (simp add: ag0_ok_def mk_entry_def)
  then show "fs_ok (fresh_fs f sb m True)"
    using assms by (simp add: fs_ok_def fresh_image_def dv_room_def dv_open_def dv_new_def)
  show "ag0_length (fresh_fs f sb m True) = len0" using es by (simp add: ag0_length_def mk_entry_def)
qed

lemma fresh_journal:
  assumes fr: "fresh_image crc f sb m j len0"
  defines "g \<equiv> fresh_fs f sb m True"
  shows "journal_ok g" and "journal_fresh g"
proof -
  note ok = fresh_fs_ok [OF fr, folded g_def]
  have len: "0 < jlen g" "0 < unat j" "unat j + jlen g + 768 < unat len0" and bs: "512 \<le> unat (sb_blocksize sb)"
    and st: "sb_journal_start sb = blk_addr 0 j" "sb_journal_head sb = 0"
    and zero: "\<And>i. i < jlen g \<Longrightarrow> fl_read f ((unat j + i) * unat (sb_blocksize sb)) (unat (sb_blocksize sb))
      = replicate (unat (sb_blocksize sb)) 0"
    using fr by (simp_all add: fresh_image_def jlen_def g_def sb_wf_def word_le_nat_alt)
  have l32: "unat len0 < 2 ^ 32" using unat_bound [of len0] by simp
  have at: "jaddr g i = blk_addr 0 (j + of_nat i)" "unat (j + of_nat i) = unat j + i"
    "mapped g (jaddr g i)" "unat (place g (jaddr g i)) = (unat j + i) * unat (sb_blocksize sb)" if "i < jlen g" for i
  proof -
    have lt: "unat j + i < 2 ^ 32" using that len l32 by linarith
    then show a: "jaddr g i = blk_addr 0 (j + of_nat i)" using blk_addr_0_add by (simp add: jaddr_def g_def st)
    show u: "unat (j + of_nat i) = unat j + i" using lt by (simp add: unat_word_ariths unat_of_nat)
    have lt0: "j + of_nat i < ag0_length g" using u len that by (simp add: ok(2) word_less_nat_alt)
    show "mapped g (jaddr g i)" unfolding a by (rule ag0_place(1) [OF ok(1) lt0])
    have "(unat j + i) * unat (sb_blocksize sb) < 2 ^ 32 * 2 ^ 32"
      using lt unat_bound [of "sb_blocksize sb"] by (intro mult_strict_mono) simp_all
    then show "unat (place g (jaddr g i)) = (unat j + i) * unat (sb_blocksize sb)"
      unfolding a ag0_place(2) [OF ok(1) lt0] using u by (simp add: unat_word_ariths g_def unat_ucast_up)
  qed
  have l0: "unat (len0 - 1) = unat len0 - 1" using len by (intro unat_minus_one) auto
  show "journal_ok g"
    unfolding journal_ok_def
  proof (intro conjI allI impI)
    show "jlen g < 2 ^ 32" using len l32 by linarith
    show "unat (sb_journal_head (g_sb g)) < jlen g" using len by (simp add: g_def st)
    fix i assume i: "i < jlen g"
    show "mapped g (jaddr g i)" by (rule at(3) [OF i])
    have "unat (j + of_nat i) \<noteq> 0" "unat (j + of_nat i) \<noteq> unat (len0 - 1)" using at(2) [OF i] i len l0 by linarith+
    then show "jaddr g i \<noteq> sb_home" "jaddr g i \<noteq> sb_backup g"
      unfolding at(1) [OF i] sb_home_def sb_backup_def ok(2) by (auto simp del: unat_eq_zero)
  qed
  have "\<not> is_journal_block (jblock g i)" if "i < jlen g" for i
    unfolding jblock_def at(4) [OF that] using zero [OF that] uniform_plain [of "unat (sb_blocksize sb)"] bs
    by (simp add: g_def)
  then show "journal_fresh g" by (simp add: journal_fresh_def plain_stale)
qed

lemma fresh_finds:
  assumes fr: "fresh_image crc f sb m j len0"
  defines "g \<equiv> fresh_fs f sb m True"
  shows "dv_pread (dv_open f w) SB_SIZE 0 = Inr (sb_to_bytes crc sb)"
    and "find_superblock crc (dv_open f w) = Inr (sb, False)"
    and "\<exists>status. load_agmap crc (dv_open f w) sb = Inr (m, status)"
    and "backup_superblock_ok crc g"
proof -
  note ok = fresh_fs_ok [OF fr, folded g_def]
  have wf: "sb_wf sb" using fr by (simp add: fresh_image_def)
  have parse: "sb_parse crc (sb_to_bytes crc sb) = Inr sb" using sb_parse_to_bytes [OF wf, of crc "[]"] by simp
  obtain bytes where b: "am_to_bytes crc m 65536 = Inr bytes" "fl_read f (unat (sb_agmap_offset sb)) 65536 = bytes"
      "fl_read f (unat (sb_agmap_offset sb) + 65536) 65536 = bytes"
    and room: "unat (sb_agmap_offset sb) + 2 * 65536 \<le> fl_len f" "unat (sb_agmap_offset sb) + 2 * 65536 < 2 ^ 64"
    and al: "sb_agmap_length sb = AGMAP_BYTES"
    using fr by (auto simp: fresh_image_def)
  have "512 \<le> fl_len f" using room by linarith
  then show rd: "dv_pread (dv_open f w) SB_SIZE 0 = Inr (sb_to_bytes crc sb)"
    using fr by (simp add: dv_pread_def fresh_image_def)
  then show "find_superblock crc (dv_open f w) = Inr (sb, False)" by (simp add: find_superblock_def parse)
  obtain es where es: "am_entries m = mk_entry 0 len0 0 # es" "\<forall>e\<in>set es. length (ae_segs e) = 1"
    using fr by (auto simp: fresh_image_def)
  have "am_wf m"
    using am_to_bytes_fits [OF b(1)] am_used_ge [of "am_entries m"] es by (auto simp: am_wf_def mk_entry_def)
  note pb = am_parse_to_bytes [OF this b(1)]
  have o: "unat (agmap_copy_off sb 0) = unat (sb_agmap_offset sb)" "unat (agmap_copy_off sb 1) = unat (sb_agmap_offset sb) + 65536"
    using room by (simp_all add: agmap_copy_off_def al unat_word_ariths)
  have "read_agmap_copy crc (dv_open f w) sb 0 = Inr m" "read_agmap_copy crc (dv_open f w) sb 1 = Inr m"
    using room b(2,3) pb by (simp_all add: read_agmap_copy_def dv_pread_def o al)
  then show "\<exists>status. load_agmap crc (dv_open f w) sb = Inr (m, status)"
    by (simp add: load_agmap_def better_map_def Let_def)
  note sc = sb_copies [OF ok(1)]
  have len: "768 < unat len0" using fr by (simp add: fresh_image_def)
  then have l0: "unat (len0 - 1) = unat len0 - 1" by (intro unat_minus_one) auto
  have lt0: "len0 - 1 < ag0_length g" using l0 len by (simp add: ok(2) word_less_nat_alt)
  have "(unat len0 - 1) * unat (sb_blocksize sb) < 2 ^ 32 * 2 ^ 32"
    using unat_bound [of len0] unat_bound [of "sb_blocksize sb"] by (intro mult_strict_mono) auto
  then have pl: "unat (place g (sb_backup g)) = (unat len0 - 1) * unat (sb_blocksize sb)"
    unfolding sb_backup_def ok(2) ag0_place(2) [OF ok(1) lt0] using l0
    by (simp add: unat_word_ariths g_def unat_ucast_up)
  have ins: "unat (place g (sb_backup g)) + unat (sb_blocksize sb) \<le> fl_len f"
    using place_inside [OF ok(1) sc(3)] by (simp add: g_def)
  have b512: "512 \<le> unat (sb_blocksize sb)" using wf by (simp add: sb_wf_def word_le_nat_alt)
  have "dv_pread (g_dev g) SB_SIZE (place g (sb_backup g)) = Inr (sb_to_bytes crc sb)"
  proof -
    have dev: "g_dev g = dv_open f True" by (simp add: g_def)
    have bk: "fl_read f ((unat len0 - 1) * unat (sb_blocksize sb)) 512 = sb_to_bytes crc sb"
      using fr unfolding fresh_image_def by blast
    show ?thesis using ins b512 bk unfolding dv_pread_def dev fresh_fs_parts pl by simp
  qed
  then show "backup_superblock_ok crc g" by (simp add: backup_superblock_ok_def sc(4) parse) (simp add: g_def)
qed

lemma fresh_opens:
  assumes "fresh_image crc f sb m j len0"
  shows "open_fs crc (Suc fuel) f True = Inr (fresh_fs f sb m True)" and "healthy crc (fresh_fs f sb m True)"
proof -
  let ?g = "fresh_fs f sb m True"
  note ok = fresh_fs_ok [OF assms] and jr = fresh_journal [OF assms] and fd = fresh_finds [OF assms]
  show "healthy crc ?g" using ok(1) jr fd(1) by (simp add: healthy_def)
  have "next_txn crc ?g (sb_journal_head (g_sb ?g)) (sb_journal_seq (g_sb ?g)) = Inr None"
    by (rule next_txn_stale [OF ok(1) jr(1) _ order.refl]) (use jr in \<open>simp_all add: journal_fresh_def journal_ok_def\<close>)
  then have "replay crc (Suc fuel) ?g = (Inr 0, ?g)" by (rule replay_nothing)
  moreover obtain status where "load_agmap crc (dv_open f True) sb = Inr (m, status)" using fd(3) by blast
  ultimately show "open_fs crc (Suc fuel) f True = Inr ?g"
    using fd(2,4) by (simp add: open_fs_def Let_def fresh_fs_def bindS_def)
qed

subsection \<open>A small device for the witnesses\<close>

text \<open>8 MiB in blocks of 2048 bytes, with a journal of one block.\<close>

definition ex_opts :: mkfs_opts where
  "ex_opts = mkfs_opts_default\<lparr>mo_size := Some 0x800000, mo_blocksize := 2048, mo_journal := Some 2048\<rparr>"

definition ex_new :: vfile where
  "ex_new = \<lparr>fl_bytes = (\<lambda>_. 0), fl_len = 0\<rparr>"

definition ex_uuid :: buffer where
  "ex_uuid = [0, 1, 2, 3, 4, 5, 6, 7, 8, 9, 10, 11, 12, 13, 14, 15]"

lemma ex_opts_ok: "mkfs_check ex_opts = Inr ()" "mkfs_sane ex_opts" "length ex_uuid = 16" "fl_len ex_new < MAX_OFF"
  by (simp_all add: mkfs_check_def Let_def ex_opts_def mkfs_opts_default_def is_power_of_two_def mkfs_sane_def ex_uuid_def
      ex_new_def MAX_OFF_def)

lemma ex_plan: "pl_bs (mk_plan_of ex_opts 0x800000) = 2048" "pl_total (mk_plan_of ex_opts 0x800000) = 4096"
  "pl_journal (mk_plan_of ex_opts 0x800000) = 1" "pl_agmap (mk_plan_of ex_opts 0x800000) = 32"
  "pl_kblocks (mk_plan_of ex_opts 0x800000) = 0"
  by (simp_all add: mk_plan_of_def Let_def ex_opts_def mkfs_opts_default_def journal_bytes_def div_up_def div_ceil_def)

lemma ex_lengths: "ag_lengths (mk_plan_of ex_opts 0x800000) = Inr [4096]"
proof -
  have run: "split_ags (Suc (Suc n)) 0x2000000 4096 = Inr [4096]" for n by (simp add: Let_def)
  have "unat (4096 :: u64) + 1 = Suc (Suc 4095)" "MAX_AG_BYTES div 2048 = 0x2000000" by simp_all
  then show ?thesis unfolding ag_lengths_def ex_plan by (simp only: run)
qed

lemma ex_fits: "mkfs_fits ex_opts 0x800000" "mo_blocksize ex_opts = 2048"
proof -
  show b: "mo_blocksize ex_opts = 2048" by (simp add: ex_opts_def)
  show "mkfs_fits ex_opts 0x800000"
    by (simp add: mkfs_fits_def Let_def ex_lengths ex_plan rt_geometry_def div_ceil_def b)
qed

lemma ex_device: "\<exists>d. mkfs_device ex_opts ex_new = Inr d \<and> dv_size d = 0x800000"
  by (simp add: mkfs_device_def ex_opts_def mkfs_opts_default_def dv_create_def ex_new_def guardR_def MAX_OFF_def dv_new_def)

subsection \<open>What mkfs promises\<close>



text \<open>C31: \<open>mkfs\<close> succeeds: with valid options on a device of 8 MiB to 64 TiB, it ends without an error
  as soon as AG 0 has room for the fixed metadata, the journal and the kernel.\<close>

theorem mkfs_succeeds:
  assumes "mkfs_check opts = Inr ()" and "mkfs_sane opts" and "length uuid = 16" and "fl_len f < MAX_OFF"
    and "mkfs_device opts f = Inr d" and "mkfs_fits opts (dv_size d - dv_size d mod ucast (mo_blocksize opts))"
  shows "\<exists>sm f'. mkfs crc now uuid opts f = (Inr sm, f')"
  using assms by (rule mkfs_runs)

lemma mkfs_succeeds_witness: "\<exists>sm f'. mkfs ex_crc ts_default ex_uuid ex_opts ex_new = (Inr sm, f')"
proof -
  obtain d where d: "mkfs_device ex_opts ex_new = Inr d" "dv_size d = 0x800000" using ex_device by blast
  have "dv_size d - dv_size d mod ucast (mo_blocksize ex_opts) = 0x800000" by (simp add: d(2) ex_fits(2))
  then show ?thesis using ex_fits by (intro mkfs_succeeds [OF ex_opts_ok d(1)]) simp
qed



end
