(* ===== verification/ToolProps.thy ===== *)
theory ToolProps
  imports Debugfs MkfsProps
begin

text \<open>
  What the command-line tools promise: numbers are read as they are printed, a used image is not
  formatted by accident, inspecting an image does not change it; and where sizes go wrong.
\<close>

unbundle bit_operations_syntax

subsection \<open>Numbers\<close>

lemma unat_digit_char: "d < 16 \<Longrightarrow> unat (digit_char d) = (if d < 10 then 0x30 + d else 0x57 + d)"
proof -
  assume "d < 16"
  then have "unat (of_nat (0x30 + d) :: u32) = 0x30 + d" "unat (of_nat (0x57 + d) :: u32) = 0x57 + d"
    by (intro of_nat_inverse; simp)+
  then show ?thesis by (simp only: digit_char_def if_distrib [of unat])
qed

lemma to_digit_char: "d < r \<Longrightarrow> r \<le> 16 \<Longrightarrow> to_digit r (digit_char d) = Some d"
  by (auto simp: to_digit_def unat_digit_char Let_def)

lemma parse_digits_append:
  "parse_digits r (xs @ ys) n = tryR (parse_digits r xs n) (parse_digits r ys)"
  by (induction r xs n rule: parse_digits.induct) (auto simp: guardR_def split: option.splits)

lemma parse_show_base:
  "2 \<le> b \<Longrightarrow> b \<le> 16 \<Longrightarrow> n < 2 ^ 64 \<Longrightarrow> parse_digits b (show_base b n) 0 = Inr n"
proof (induction b n rule: show_base.induct)
  case (1 b n)
  have d: "n mod b < b" "(n div b) * b + n mod b = n" using 1(2) by simp_all
  show ?case
  proof (cases "n < b")
    case True
    then show ?thesis using 1(2-4) by (simp add: show_base.simps [of b n] to_digit_char)
  next
    case False
    have "n div b < 2 ^ 64" using 1(4) by (meson div_le_dividend le_less_trans)
    with False 1 have "parse_digits b (show_base b (n div b)) 0 = Inr (n div b)" by simp
    with False 1(2-4) d show ?thesis
      by (simp add: show_base.simps [of b n] parse_digits_append to_digit_char)
  qed
qed

lemma show_base_ne [simp]: "show_base b n \<noteq> []"
  by (subst show_base.simps) simp

lemma parse_u64_digits:
  assumes "parse_digits r s 0 = Inr n" and "s \<noteq> []" and "r \<le> 16"
  shows "parse_u64 r s = Inr (of_nat n)"
proof -
  have sign: "to_digit r PLUS = None" "to_digit r MINUS = None"
    using assms(3) by (simp_all add: to_digit_def)
  then have "hd s \<noteq> PLUS" "s \<noteq> [MINUS]" using assms(1,2) by (cases s; auto)+
  then show ?thesis using assms by (auto simp: parse_u64_def)
qed

lemma parse_show_u64: "2 \<le> b \<Longrightarrow> b \<le> 16 \<Longrightarrow> parse_u64 b (show_base b (unat (n :: u64))) = Inr n"
  by (simp add: parse_u64_digits [OF parse_show_base] unsigned_less [where w = n, simplified])

text \<open>What is printed in decimal consists of decimal digits: no sign, suffix or blank is among them.\<close>

definition decimal :: "rstring \<Rightarrow> bool" where
  "decimal s \<longleftrightarrow> s \<noteq> [] \<and> (\<forall>c\<in>set s. 0x30 \<le> c \<and> c \<le> 0x39)"

lemma to_digit_decimal: "to_digit 10 c = Some d \<Longrightarrow> 0x30 \<le> c \<and> c \<le> 0x39"
  by (auto simp: to_digit_def Let_def word_le_nat_alt split: if_splits)

lemma parse_digits_decimal: "parse_digits 10 s k = Inr n \<Longrightarrow> c \<in> set s \<Longrightarrow> 0x30 \<le> c \<and> c \<le> 0x39"
  by (induction "10 :: nat" s k rule: parse_digits.induct)
     (auto simp: guardR_Inr_iff split: option.splits dest: to_digit_decimal)

lemma decimal_show: "decimal (show_dec n)"
proof -
  have "unat n < 2 ^ 64" using unsigned_less [of n] by simp
  then show ?thesis
    using parse_digits_decimal [OF parse_show_base [of 10 "unat n"]] by (simp add: decimal_def show_dec_def)
qed

lemma digit_not_white: "0x30 \<le> c \<Longrightarrow> c \<le> 0x39 \<Longrightarrow> \<not> white c"
  by (auto simp: white_def word_le_nat_alt)

lemma digit_no_mult: "0x30 \<le> c \<Longrightarrow> c \<le> 0x39 \<Longrightarrow> size_mult c = None"
  by (auto simp: size_mult_def word_le_nat_alt)

lemma mult_not_white: "size_mult c = Some m \<Longrightarrow> \<not> white c"
  by (auto simp: size_mult_def white_def split: if_splits)

lemma trim_id: "s \<noteq> [] \<Longrightarrow> \<not> white (hd s) \<Longrightarrow> \<not> white (last s) \<Longrightarrow> trim s = s"
proof -
  assume s: "s \<noteq> []" "\<not> white (hd s)" "\<not> white (last s)"
  have "dropWhile white s = s" "dropWhile white (rev s) = rev s"
    using s by (simp_all only: dropWhile_eq_self_iff hd_rev not_False_eq_True simp_thms)
  then show ?thesis by (simp add: trim_def)
qed

lemma decimal_ends: "decimal s \<Longrightarrow> s \<noteq> [] \<and> \<not> white (hd s) \<and> \<not> white (last s) \<and> size_mult (last s) = None"
  by (simp add: decimal_def digit_not_white digit_no_mult)

lemma parse_size_plain: "decimal s \<Longrightarrow> parse_size s = parse_u64 10 s"
  using decimal_ends [of s] by (cases "parse_u64 10 s") (simp_all add: parse_size_def trim_id Let_def)

lemma parse_size_suffix:
  "decimal s \<Longrightarrow> size_mult c = Some m \<Longrightarrow> parse_size (s @ [c]) = tryR (parse_u64 10 s) (\<lambda>n. Inr (n * m))"
  using decimal_ends [of s] mult_not_white [of c m] by (simp add: parse_size_def trim_id Let_def)

lemma parse_ino_plain: "decimal s \<Longrightarrow> parse_ino s = parse_u64 10 s"
proof -
  assume s: "decimal s"
  have "(0x78 :: u32) \<notin> set s" using s by (auto simp: decimal_def)
  then have "take 2 s \<noteq> [0x30, 0x78]" by (metis in_set_takeD list.set_intros(1,2))
  then show ?thesis by (simp add: parse_ino_def)
qed

text \<open>C40: The numbers the tools print are the numbers they read: an inode number in hexadecimal (as \<open>ls\<close>
  and \<open>scan\<close> print it) or decimal names that inode again, and a size is read as printed, with a
  suffix times its power of two as long as the product has 64 bits.\<close>

theorem tool_numbers_roundtrip:
  "parse_ino (show_hex n) = Inr n \<and> parse_ino (show_dec n) = Inr n \<and> parse_size (show_dec n) = Inr n \<and>
   (size_mult c = Some m \<and> unat n * unat m < 2 ^ 64 \<longrightarrow>
     (\<exists>k. parse_size (show_dec n @ [c]) = Inr k \<and> unat k = unat n * unat m))"
proof -
  have dec: "parse_u64 10 (show_dec n) = Inr n" by (simp add: show_dec_def parse_show_u64)
  have "parse_ino (show_hex n) = Inr n" by (simp add: parse_ino_def show_hex_def parse_show_u64)
  with dec show ?thesis
    by (simp add: decimal_show parse_ino_plain parse_size_plain parse_size_suffix unat_word_ariths)
qed

lemma tool_numbers_roundtrip_witness:
  "\<exists>k. parse_size (show_dec 8 @ [0x47]) = Inr k \<and> unat k = 8 * 2 ^ 30"
  using tool_numbers_roundtrip [of 8 "0x47" "push_bit 30 1"] by (simp add: size_mult_def push_bit_eq_mult)

text \<open>Past 64 bits the product wraps around: 16777216T is no bytes at all.\<close>

lemma parse_size_wraps: "parse_size (show_dec 16777216 @ [0x54]) = Inr 0"
proof -
  have "parse_u64 10 (show_dec 16777216) = Inr 16777216" unfolding show_dec_def by (rule parse_show_u64) simp_all
  then show ?thesis
    by (simp add: parse_size_suffix [OF decimal_show, of _ "push_bit 40 1"] size_mult_def push_bit_eq_mult)
qed

subsection \<open>Formatting\<close>

lemma looks_used_superblock:
  assumes "dv_pread (dv_open f False) SB_SIZE 0 = Inr b" and "sb_parse crc b = Inr sb"
  shows "looks_used f"
proof -
  have len: "512 \<le> fl_len f" and b: "b = fl_read f 0 512"
    using assms(1) by (auto simp: dv_pread_def dv_open_def dv_new_def guardR_def split: if_splits)
  have "get_bytes (fl_read f 0 512) 0 4 = SB_MAGIC"
    using assms(2) by (auto simp: sb_parse_def b Let_def get_bytes_def split: if_splits)
  then have "fl_read f 0 4 = SB_MAGIC" by (simp add: fl_read_sub)
  with len show ?thesis
    by (simp add: looks_used_def dv_pread_def dv_open_def dv_new_def SB_MAGIC_def)
qed

text \<open>A run that ends well is one of the library's formatter, on the file that was there or an empty one.\<close>

definition args_opts :: "mkfs_args \<Rightarrow> buffer option \<Rightarrow> mkfs_opts" where
  "args_opts args k = mkfs_opts_default\<lparr>mo_size := ma_size args, mo_blocksize := ma_blocksize args,
     mo_journal := ma_journal_size args, mo_label := ma_label args, mo_kernel := k\<rparr>"

definition args_sane :: "(rstring \<Rightarrow> buffer result) \<Rightarrow> mkfs_args \<Rightarrow> bool" where
  "args_sane host args \<longleftrightarrow>
     (case ma_journal_size args of None \<Rightarrow> True | Some j \<Rightarrow> j \<noteq> 0 \<and> unat j < 2 ^ 40) \<and>
     (case ma_kernel args of None \<Rightarrow> True | Some p \<Rightarrow> (case host p of Inl _ \<Rightarrow> True | Inr k \<Rightarrow> length k < 2 ^ 40))"

lemma mkfs_at_run:
  assumes "mkfs_at crc now uuid opts path = (Inr sm, path')"
  obtains f f' where "mkfs crc now uuid opts f = (Inr sm, f')" and "path = Some f \<or> path = None \<and> f = empty_file"
    and "path' = Some f'"
proof -
  let ?f = "case path of None \<Rightarrow> empty_file | Some f \<Rightarrow> f"
  have "map_prod id Some (mkfs crc now uuid opts ?f) = (Inr sm, path')"
    using assms by (simp add: mkfs_at_def split: option.splits sum.splits)
  then obtain f' where "mkfs crc now uuid opts ?f = (Inr sm, f')" "path' = Some f'"
    by (cases "mkfs crc now uuid opts ?f") auto
  then show thesis using that [of ?f f'] by (cases path) simp_all
qed

lemma mkfs5fs_run:
  assumes "mkfs5fs host crc now uuid args path = (Inr lines, path')" and "args_sane host args"
  obtains k sm f f' where "mkfs crc now uuid (args_opts args k) f = (Inr sm, f')" and "mkfs_sane (args_opts args k)"
    and "path = Some f \<or> path = None \<and> f = empty_file" and "path' = Some f'"
proof -
  let ?kernel = "case ma_kernel args of None \<Rightarrow> Inr None | Some p \<Rightarrow> tryR (host p) (\<lambda>k. Inr (Some k))"
  obtain k where k: "?kernel = Inr k"
    using assms(1) by (cases ?kernel) (auto simp: mkfs5fs_def split: if_splits)
  obtain sm where sm: "mkfs_at crc now uuid (args_opts args k) path = (Inr sm, path')"
    using assms(1) by (auto simp: mkfs5fs_def k args_opts_def Let_def split: if_splits sum.splits prod.splits)
  have "mkfs_sane (args_opts args k)"
    using assms(2) k
    by (auto simp: mkfs_sane_def args_sane_def args_opts_def mkfs_opts_default_def tryR_Inr_iff split: option.splits)
  with mkfs_at_run [OF sm] that show thesis by metis
qed


definition ex_args :: mkfs_args where
  "ex_args = \<lparr>ma_device = [], ma_size = Some 0x800000, ma_label = [], ma_blocksize = 2048, ma_journal_size = Some 2048,
     ma_kernel = None, ma_force = False\<rparr>"

lemma ex_args_run: "\<exists>lines f'. mkfs5fs host ex_crc ts_default ex_uuid ex_args None = (Inr lines, Some f')"
proof -
  obtain d where d: "mkfs_device ex_opts ex_new = Inr d" "dv_size d = 0x800000" using ex_device by blast
  have "dv_size d - dv_size d mod ucast (mo_blocksize ex_opts) = 0x800000" by (simp add: d(2) ex_fits(2))
  then obtain sm f' where m: "mkfs ex_crc ts_default ex_uuid ex_opts ex_new = (Inr sm, f')"
    using mkfs_runs [OF ex_opts_ok d(1), of ex_crc ts_default] ex_fits by auto
  have e: "ex_new = empty_file" "mo_size ex_opts \<noteq> None"
    "mkfs_opts_default\<lparr>mo_size := ma_size ex_args, mo_blocksize := ma_blocksize ex_args, mo_journal := ma_journal_size ex_args,
       mo_label := ma_label ex_args, mo_kernel := None\<rparr> = ex_opts"
    by (simp_all add: ex_new_def empty_file_def ex_opts_def ex_args_def mkfs_opts_default_def)
  have "ma_kernel ex_args = None" by (simp add: ex_args_def)
  then show ?thesis using m e ex_opts_ok(1) by (simp add: mkfs5fs_def mkfs_at_def)
qed


text \<open>The size is set before it is checked: a run that is refused as too small has truncated the file,
  and \<open>--size\<close> needs no \<open>--force\<close> for that.\<close>

lemma mkfs_small_size_truncates:
  assumes "mkfs_check opts = Inr ()" and "mo_size opts = Some s"
  defines "sz \<equiv> s - s mod ucast (mo_blocksize opts)"
  assumes "sz < 8 * 2 ^ 20" and "fl_len f < MAX_OFF"
  shows "\<exists>e f'. mkfs crc now uuid opts f = (Inl e, f') \<and> fl_len f' = unat sz"
proof -
  have small: "unat sz < MAX_OFF" using assms(4) by (simp add: MAX_OFF_def word_less_nat_alt)
  have ln: "unat (of_nat (fl_len f) :: u64) = fl_len f"
    using assms(5) by (intro of_nat_inverse) (simp_all add: MAX_OFF_def)
  obtain d where d: "mkfs_device opts f = Inr d" "dv_size d = sz" "fl_len (dv_file d) = unat sz"
    using small ln assms(2)
    by (cases "(of_nat (fl_len f) :: u64) = sz")
       (auto simp: mkfs_device_def dv_create_def sz_def dv_new_def fl_set_len_def)
  have "sz mod b \<le> sz" for b by (simp add: word_le_nat_alt unat_mod)
  then have "unat (sz - sz mod b) \<le> unat sz" for b by (simp add: unat_sub)
  then have "\<not> 8 * 2 ^ 20 \<le> sz - sz mod ucast (mo_blocksize opts)"
    using assms(4) by (meson order.strict_trans1 order.trans not_le word_le_nat_alt)
  then have "mkfs_on crc now uuid opts d = (Inl (Msg ''device too small ({size} bytes); minimum 8 MiB''), d)"
    by (simp add: mkfs_on_def d(2) bindS_def askS_def ensureS_def)
  with d assms(1) show ?thesis by (simp add: mkfs_def)
qed

subsection \<open>Inspecting\<close>

text \<open>The commands of \<open>debugfs5fs\<close> that open the image read-only leave it as it is.\<close>

lemma keeps_print [keeps_intros]: "keeps (\<lambda>d. td_fs d = g) (print s xs)"
  by (simp add: print_def keeps_def modS_def)

lemma keeps_asking [keeps_intros]: "keeps P (asking f)"
  unfolding asking_def by (rule keeps_askS)

lemma keeps_shown [keeps_intros]: "keeps (\<lambda>d. td_fs d = g) (modS (\<lambda>d. d\<lparr>td_out := v d\<rparr>))"
  by (simp add: keeps_def modS_def)

lemma reads_show_sb [keeps_intros]: "keeps (\<lambda>d. td_fs d = g) show_sb"
  unfolding show_sb_def by (intro keeps_intros)

lemma reads_show_agmap [keeps_intros]: "keeps (\<lambda>d. td_fs d = g) show_agmap"
  unfolding show_agmap_def by (intro keeps_intros)

lemma reads_show_cell [keeps_intros]: "keeps (\<lambda>d. td_fs d = g) (show_cell cells table c st)"
  unfolding show_cell_def by (intro keeps_intros)

lemma reads_show_ag [keeps_intros]: "keeps (\<lambda>d. td_fs d = g) (show_ag crc ag)"
  unfolding show_ag_def by (intro keeps_intros)

lemma reads_show_child [keeps_intros]: "keeps (\<lambda>d. td_fs d = g) (show_child p c)"
  unfolding show_child_def by (intro keeps_intros)

lemma reads_show_payload [keeps_intros]: "keeps (\<lambda>d. td_fs d = g) (show_payload i)"
  unfolding show_payload_def by (intro keeps_intros)

lemma reads_show_inode [keeps_intros]: "keeps (\<lambda>d. td_fs d = g) (show_inode crc s)"
  unfolding show_inode_def by (intro keeps_intros)

lemma reads_show_dir [keeps_intros]: "keeps (\<lambda>d. td_fs d = g) (show_dir sip crc path)"
  unfolding show_dir_def by (intro keeps_intros)

lemma reads_cat_file [keeps_intros]: "keeps (\<lambda>d. td_fs d = g) (cat_file sip crc path)"
  unfolding cat_file_def by (intro keeps_intros)

lemma reads_scan_slot [keeps_intros]: "keeps (\<lambda>d. td_fs d = g) (scan_slot crc agi local spb x found)"
  unfolding scan_slot_def by (intro keeps_intros)

lemma reads_scan_block [keeps_intros]: "keeps (\<lambda>d. td_fs d = g) (scan_block crc agi l found)"
  unfolding scan_block_def by (intro keeps_intros)

lemma reads_scan [keeps_intros]: "keeps (\<lambda>d. td_fs d = g) (scan crc)"
  unfolding scan_def by (intro keeps_intros)

lemma reads_show_journal [keeps_intros]: "keeps (\<lambda>d. td_fs d = g) (show_journal crc fuel)"
  unfolding show_journal_def by (intro keeps_intros)

lemma run_cmd_reads: "\<not> cmd_writable c \<Longrightarrow> keeps (\<lambda>d. td_fs d = g) (run_cmd sip crc fuel nw host c)"
  by (cases c) (simp_all add: run_cmd_def keeps_intros)

lemma debugfs_reads_only:
  assumes "\<not> cmd_writable c" and "debugfs5fs sip crc fuel nw host f c = Inr (r, d)"
  shows "open_fs crc fuel f False = Inr (td_fs d) \<and> dv_file (g_dev (td_fs d)) = f"
proof -
  obtain g where g: "open_fs crc fuel f False = Inr g" "run_cmd sip crc fuel nw host c \<lparr>td_fs = g, td_out = []\<rparr> = (r, d)"
    using assms by (auto simp: debugfs5fs_def elim!: tryR_InrE)
  have "td_fs d = g" by (rule keepsD [OF run_cmd_reads [OF assms(1)] _ g(2)]) simp
  moreover have "dv_file (g_dev g) = f"
    using g(1) by (auto simp: open_fs_def Let_def dv_open_def dv_new_def elim!: tryR_InrE)
  ultimately show ?thesis using g(1) by simp
qed

end
