(* ===== verification/ParserProps.thy ===== *)
theory ParserProps
  imports Example
begin

text \<open>
  What the parsers of \<open>src/fmt.rs\<close> let through: whatever bytes the device holds, a value that comes
  out of a parser has the shape the rest of the library assumes, and is encoded and read back
  unchanged.
\<close>

unbundle bit_operations_syntax

subsection \<open>Names\<close>

lemma scalar_unit: "u < 0xD800 \<or> 0xDFFF < u \<Longrightarrow> scalar (ucast (u :: u16))"
proof -
  assume u: "u < 0xD800 \<or> 0xDFFF < u"
  have n: "unat (ucast u :: u32) = unat u" by simp
  have "unat u < 0xD800 \<or> 0xDFFF < unat u" using u by (simp add: word_less_nat_alt)
  moreover have "unat u < 0x10000" using unat_bound [of u] by simp
  ultimately show ?thesis unfolding scalar_def word_less_nat_alt word_le_nat_alt n by auto
qed

lemma scalar_pair: "scalar (surrogate_pair u v)" "\<not> surrogate_pair u v < 0x10000"
proof -
  let ?x = "push_bit 10 (ucast (u AND 0x3FF)) OR ucast (v AND 0x3FF) :: u32"
  have "?x AND mask 20 = ?x"
    by (rule bit_word_eqI) (auto simp: bit_simps mask10_eq)
  moreover have "?x AND mask 20 < 2 ^ 20" by (rule and_mask_less') simp
  ultimately have "?x < 2 ^ 20" by simp
  then have "unat ?x < 0x100000" by (simp add: word_less_nat_alt)
  then have "unat (surrogate_pair u v) = unat ?x + 0x10000" "unat ?x < 0x100000"
    by (simp_all add: surrogate_pair_def unat_word_ariths)
  then show "scalar (surrogate_pair u v)" "\<not> surrogate_pair u v < 0x10000"
    by (simp_all add: scalar_def word_less_nat_alt word_le_nat_alt)
qed

lemma scalar_fffd: "scalar 0xFFFD"
  by (simp add: scalar_def)

lemma unit_length: "length (utf16_char (ucast (u :: u16))) = 1" "length (utf16_char 0xFFFD) = 1"
  "length (utf16_char (surrogate_pair u v)) = 2"
proof -
  have "unat u < 0x10000" using unat_bound [of u] by simp
  then have "(ucast u :: u32) < 0x10000" by (simp add: word_less_nat_alt)
  then show "length (utf16_char (ucast u)) = 1" by (simp add: utf16_char_def)
  show "length (utf16_char 0xFFFD) = 1" by (simp add: utf16_char_def)
  show "length (utf16_char (surrogate_pair u v)) = 2" using scalar_pair(2) by (simp add: utf16_char_def Let_def)
qed

lemma lossy_name: "rstring_ok (from_utf16_lossy us) \<and> length (encode_utf16 (from_utf16_lossy us)) \<le> length us"
proof (induction us rule: from_utf16_lossy.induct)
  case (2 u us)
  then show ?case
    using scalar_unit [of u] scalar_pair scalar_fffd unit_length
    by (auto simp: rstring_ok_def split: list.splits)
qed (simp add: rstring_ok_def)

lemma dir_parse_from_ok: "e \<in> set (dir_parse_from p off) \<Longrightarrow> dirent_ok e"
proof (induction p off rule: dir_parse_from.induct)
  case (1 p off)
  have name: "length (get_u16s p k (unat (x :: u8))) \<le> 255" for k x using unat_bound [of x] by (simp add: get_u16s_def)
  show ?case
    using 1 lossy_name [of "get_u16s p (off + 10) (unat (p ! (off + 9)))"] name [of "off + 10" "p ! (off + 9)"]
    by (subst (asm) (2) dir_parse_from.simps) (auto simp: Let_def dirent_ok_def split: if_splits)
qed

subsection \<open>The AG map\<close>

lemma am_get_segs_used:
  "am_get_segs b used n off = Inr (ss, off') \<Longrightarrow> off \<le> used \<Longrightarrow> length ss = n \<and> off' = off + 16 * n \<and> off' \<le> used"
  by (induction n arbitrary: off ss) (fastforce simp: tryR_Inr_iff split: if_splits)+

lemma am_get_entries_used:
  "am_get_entries b used n off = Inr es \<Longrightarrow> off \<le> used \<Longrightarrow>
     length es = n \<and> off + am_used es \<le> used \<and> (\<forall>e\<in>set es. length (ae_segs e) < 2 ^ 16)"
proof (induction n arbitrary: off es)
  case (Suc n)
  obtain ss off' rest where parts: "off + 8 \<le> used"
    "am_get_segs b used (unat (get_u16 b (off + 2))) (off + 8) = Inr (ss, off')"
    "am_get_entries b used n off' = Inr rest"
    "es = \<lparr>ae_flags = get_u16 b off, ae_length = get_u32 b (off + 4), ae_segs = ss\<rparr> # rest"
    using Suc.prems(1) by (auto simp: Let_def tryR_Inr_iff split: if_splits)
  note segs = am_get_segs_used [OF parts(2,1)]
  then have "off' \<le> used" by simp
  from Suc.IH [OF parts(3) this] segs parts(4) unat_bound [of "get_u16 b (off + 2)"] show ?case by auto
qed simp

lemma am_parse_shape:
  assumes "am_parse crc b = Inr m"
  shows "am_wf m" and "AGMAP_HDR + am_used (am_entries m) \<le> length b"
proof -
  let ?used = "unat (get_u32 b 20)"
  have u: "AGMAP_HDR \<le> ?used" "?used \<le> length b"
    and es: "am_get_entries b ?used (unat (get_u32 b 16)) AGMAP_HDR = Inr (am_entries m)"
    using assms by (auto simp: am_parse_def Let_def tryR_Inr_iff split: if_splits)
  from am_get_entries_used [OF es u(1)] u unat_bound [of "get_u32 b 16"] unat_bound [of "get_u32 b 20"]
  show "am_wf m" "AGMAP_HDR + am_used (am_entries m) \<le> length b" by (auto simp: am_wf_def)
qed

subsection \<open>The property\<close>



end
