(* ===== verification/Spec2Isabelle.thy ===== *)
theory Spec2Isabelle
  imports Crash AllocFacts Example Frame ResizeProps DirProps FuseProps ToolProps ParserProps
begin

text \<open>
  5FS (GoFS), a filesystem in Rust: an on-disk format, a library that mounts it, a checker, a
  formatter, a FUSE server and command-line tools. This development models all of them as Isabelle
  functions, in the order of the code, and proves what makes each part correct.

  \<^bold>\<open>Parts and theories.\<close> A definition has the name of the Rust item it models; a suffix or a shorter
  name is used where Isabelle has the name already, and a long function is cut into steps that are
  composed the way the code composes them.

  \<^item> \<open>src/fmt.rs\<close>, the format. \<open>Bytes\<close>: big-endian integers in byte lists, checksums, 2-bit cells
    (the interface \<open>cell_array\<close> states what every array of cells offers). \<open>Text\<close>, \<open>Utf8\<close>: UTF-16 and
    UTF-8 of names. \<open>FmtSuper\<close>: superblock, AG header, root table geometry (the interface \<open>codec\<close>).
    \<open>FmtMap\<close>: AG map and address resolution. \<open>FmtInode\<close>: inodes, inline extents, embedded directories.
  \<^item> \<open>src/device.rs\<close>. \<open>Device\<close>: a file as bytes and a length, with the write recorder.
  \<^item> \<open>src/fs.rs\<close> to line 226. \<open>Core\<close>: the mounted filesystem (record \<open>gofs\<close>: device, superblock, AG
    map, allocator hints), finding the superblock, loading and writing the AG map, block and inode I/O.
    \<open>Store\<close>: the interface \<open>block_store\<close>, with interpretations for the device and for a transaction
    over it, and the safety of address resolution.
  \<^item> \<open>src/journal.rs\<close>. \<open>Journal\<close>: commit, replay, the read-only scan, mounting. \<open>Recovery\<close>, \<open>Replay\<close>,
    \<open>Crash\<close>: the image a commit writes, its decoding, and power cuts as subsets of the writes of a
    sync epoch (\<open>crash_file\<close>).
  \<^item> \<open>src/alloc.rs\<close>. \<open>Alloc\<close>, \<open>AllocFacts\<close>: the refinement tree of an AG.
  \<^item> \<open>src/extent.rs\<close>. \<open>Extent\<close>: inline extents and radix trees of extents.
  \<^item> \<open>src/dir.rs\<close>. \<open>Dir\<close>, and \<open>DirFacts\<close>, \<open>DirTable\<close>, \<open>HashedDir\<close>, \<open>DirProps\<close>: extendible hashing
    directories refine a set of entries; the bucket table as a state machine.
  \<^item> the rest of \<open>src/fs.rs\<close>. \<open>Files\<close> (paths, reading, writing), \<open>Namespace\<close> (truncation, creating,
    linking, removing, renaming, attributes), \<open>Frame\<close> (what code in a transaction leaves alone),
    \<open>NamespaceProps\<close>.
  \<^item> \<open>src/resize.rs\<close>. \<open>Resize\<close>, and \<open>ResizeFacts\<close>, \<open>Relocate\<close>, \<open>Shrink\<close>, \<open>ResizeProps\<close>.
  \<^item> \<open>src/mkfs.rs\<close>. \<open>Mkfs\<close>, and \<open>MkfsFacts\<close> (what a run leaves), \<open>MkfsRuns\<close> (when it succeeds),
    \<open>MkfsProps\<close>. \<open>src/fsck.rs\<close>. \<open>Fsck\<close>, \<open>FsckFacts\<close>, \<open>FsckProps\<close>.
  \<^item> \<open>src/bin/mount5fs.rs\<close>. \<open>Fuse\<close>, \<open>FuseProps\<close>: the request handlers as functions from the mounted
    filesystem to a reply. \<open>src/bin/mkfs5fs.rs\<close>, \<open>fsck5fs.rs\<close>: \<open>Tools\<close>; \<open>src/bin/debugfs5fs.rs\<close>:
    \<open>Debugfs\<close>; \<open>ToolProps\<close>.

  \<^bold>\<open>State and effects.\<close> Integers keep their width: \<open>u8\<close> to \<open>u64\<close> are words, and wrap around as release
  builds do. A \<open>Result\<close> is a sum (\<open>Inl\<close> an error); an error is the literal text of its format string,
  with the file name where it holds one; a panic (slice out of range, division by zero) is the error
  \<open>Panic\<close>, which no \<open>match\<close> catches. A method on \<open>&mut self\<close> is an \<open>operation\<close>, a function from the state
  to a result and the next state, which is kept on errors. Code in a transaction runs on the pair of
  the filesystem and the transaction (\<open>fsop\<close>), an association list sorted by block address as the
  code's \<open>BTreeMap\<close>. \<open>commit_txn\<close> runs such code and commits, as every namespace operation does.

  \<^bold>\<open>Parameters.\<close> The checksum (\<open>crc32c\<close>) and the keyed hash (\<open>siphasher\<close>) are arbitrary functions: no
  theorem relies on their quality. The clock and new UUIDs are arguments, as is the reply buffer of
  \<open>fuser\<close>, of which one theorem assumes that it either takes an entry at its end or is full.

  \<^bold>\<open>Loops and fuel.\<close> A loop that ends by its own measure has it as fuel, and a lemma that it is enough:
  the journal scan (journal length plus one), the division into AGs (blocks plus one), \<open>shrink\<close>
  (number of AGs plus one), reading and zeroing (bytes), \<open>merge_loop\<close> (block size plus 256), directory
  insertion (\<open>DIR_FUEL\<close> 512, above any depth of the table), the growth of a tree root (12, above the
  levels a 64-bit block number needs). Recursion that only corrupt images make endless has the bound of well-formed
  ones: extent trees \<open>TREE_FUEL\<close> 257, as levels are bytes. Out of fuel is the error \<open>Diverges\<close>, never a
  result; \<open>fsck\<close>'s walk of a cyclic tree is proved to be one for every fuel. \<open>walk_dir\<close> stops at depth
  64 as the code does.

  \<^bold>\<open>Properties.\<close> C1 to C6: a commit survives a power cut at any write, and replay finds what was
  committed and nothing else. C7 to C12: a new filesystem is healthy, a clean check means what it
  says, shrinking and moving AGs lose no data, directories refine sets, namespace operations are
  all or nothing. Then, component by component: address resolution, block, inode, map and superblock
  round trips, what parsers let through, allocation, directories, resizing, reading, the FUSE
  replies, the tools. A healthy filesystem (\<open>healthy\<close>) has its superblock on disk, a journal with nothing to
  replay, AGs that do not overlap and lie on the device, and AG 0 in one piece from the start.

  \<^bold>\<open>Not modelled.\<close> Failures of the operating system on valid requests and of memory allocation; the
  overflow panics of debug builds; how a format string lays out its values; the parsing of the command
  line by \<open>clap\<close>; the example \<open>modeldbg\<close>, a randomised driver for the library; the
  \<open>fuser\<close> loop. Block sizes from 512 on are covered, as the superblock parser accepts them. The
  crash theorems are about the writes of \<open>commit\<close>; file data, which \<open>write\<close> and \<open>truncate\<close> put in place
  outside the journal, has no crash guarantee in the code and none here.
\<close>

section \<open>The journal\<close>

text \<open>C1: A power cut while a committed transaction is being applied in place (in the second sync
  epoch of a commit, with any of that epoch's writes lost and in any order) loses nothing: the
  superblock is found on the next mount, replay applies exactly one transaction, and every
  block a transaction may name then holds what it held after the commit without a cut.\<close>

theorem commit_survives_crash:
  assumes "healthy crc g" and "txn_fits g t" and "txn_plain t" and "sb_journal_seq (g_sb g) \<noteq> -1"
    and "dv_recorder (g_dev g) = Some (0, [])" and "commit crc t g = (Inr (), g1)"
    and "dv_recorder (g_dev g1) = Some (e, log)"
    and "crash_file (dv_file (g_dev g)) log 1 f"
  shows "find_superblock crc (g_dev (remount g f)) = Inr (g_sb g, False) \<and>
    (\<exists>g2. replay crc (Suc (Suc fuel)) (remount g f) = (Inr 1, g2) \<and> healthy crc g2 \<and>
       (\<forall>a. target_ok g a \<longrightarrow> read_block g2 a = read_block g1 a))"
proof -
  have ready: "ready g t" using assms(1-4) by (simp add: ready_def healthy_def)
  let ?J = "jwrites g (txn_at g (length t)) (jimage crc g t)"
  obtain ws where log: "log = tagged 0 (phys g ?J) @ tagged 1 (phys g t) @ tagged 2 ws"
    using commit_log [OF ready assms(5,6)] assms(7) by auto
  then have ep: "epoch_writes 1 log = phys g t" "before_epoch 1 log = phys g ?J"
    by simp_all
  from assms(8) obtain us where us: "set us \<subseteq> set (phys g t)"
    and f: "f = apply_writes (apply_writes (dv_file (g_dev g)) (phys g ?J)) us"
    by (auto simp: crash_file.simps ep)
  obtain vs where vs: "us = phys g vs" "set vs \<subseteq> set t" using us by (rule phys_sublist)
  let ?G = "blk.wr_all vs (synced (journaled crc t g))"
  note half = crash_apply_half [OF ready vs(2), of crc]
  have f': "f = dv_file (g_dev ?G)"
    using crash_apply_file [OF ready vs(2), of crc] by (simp add: f vs(1))
  have G: "same_layout g ?G" "fs_ok ?G" using half(1) by (simp_all add: half_applied_def)
  note rm = remount_same [OF G f']
  have half': "half_applied crc t g (remount g f)"
    using half(1) rm by (simp add: half_applied_def)
  have ok: "fs_ok g" using assms(1) by (simp add: healthy_def)
  have find: "find_superblock crc (g_dev (remount g f)) = Inr (g_sb g, False)"
    by (rule home_superblock [OF rm(2) ok rm(1)]) (use half(2) rm(3) assms(1) in \<open>simp_all add: healthy_def\<close>)
  obtain g2 where g2: "replay crc (Suc (Suc fuel)) (remount g f) = (Inr 1, g2)" "healthy crc g2"
    "\<And>a. target_ok g a \<Longrightarrow> read_block g2 a = read_block (applied crc t g) a"
    using replay_half_healthy [OF ready half', of fuel] by blast
  obtain g1' where "commit crc t g = (Inr (), g1')"
    "\<And>a. target_ok g a \<Longrightarrow> read_block g1' a = read_block (applied crc t g) a"
    using commit_effect [OF ready, of crc] by (metis target_ok_def)
  with assms(6) g2 find show ?thesis by auto
qed

lemma commit_survives_crash_witness:
  "\<exists>g1 log f g2. commit ex_crc ex_txn ex_fs = (Inr (), g1) \<and>
     dv_recorder (g_dev g1) = Some (2, log) \<and> crash_file (dv_file (g_dev ex_fs)) log 1 f \<and>
     replay ex_crc 2 (remount ex_fs f) = (Inr 1, g2) \<and>
     read_block g2 (blk_addr 0 20) = read_block g1 (blk_addr 0 20)"
proof -
  obtain g1 where g1: "commit ex_crc ex_txn ex_fs = (Inr (), g1)"
    using commit_effect [OF ex_ready, of ex_crc] by blast
  then obtain log where log: "dv_recorder (g_dev g1) = Some (2, log)"
    using commit_log [OF ex_ready ex_recorder] by blast
  define f where "f = apply_writes (apply_writes (dv_file (g_dev ex_fs)) (before_epoch 1 log)) []"
  have f: "crash_file (dv_file (g_dev ex_fs)) log 1 f"
    unfolding f_def by (rule crash_file.cut) simp
  have "sb_journal_seq (g_sb ex_fs) \<noteq> -1" by (simp add: ex_seq)
  from commit_survives_crash [OF ex_healthy ex_txn_fits ex_txn_plain this ex_recorder g1 log f, of 0]
  obtain g2 where "replay ex_crc 2 (remount ex_fs f) = (Inr 1, g2)"
    "\<forall>a. target_ok ex_fs a \<longrightarrow> read_block g2 a = read_block g1 a"
    by (auto simp: numeral_2_eq_2)
  with g1 log f ex_target_ok show ?thesis by blast
qed

text \<open>C2: A power cut while the transaction is being journaled that loses the commit block (any
  other of the journal writes may be lost too, in any order) leaves no trace of the transaction:
  replay on the next mount applies nothing and every block reads as before the commit.\<close>

theorem crash_without_commit_block:
  assumes "healthy crc g" and "txn_fits g t" and "txn_plain t" and "sb_journal_seq (g_sb g) \<noteq> -1"
    and "dv_recorder (g_dev g) = Some (0, [])" and "commit crc t g = (Inr (), g1)"
    and "dv_recorder (g_dev g1) = Some (e, log)"
    and "set ws \<subseteq> set (epoch_writes 0 log)"
    and "\<forall>w\<in>set ws. fst w \<noteq> place g (jaddr g (txn_at g (length t) + length t + 1))"
    and "f = apply_writes (dv_file (g_dev g)) ws"
  shows "replay crc (Suc fuel) (remount g f) = (Inr 0, remount g f) \<and>
    (\<forall>a. target_ok g a \<longrightarrow> read_block (remount g f) a = read_block g a)"
proof -
  have ready: "ready g t" using assms(1-4) by (simp add: ready_def healthy_def)
  let ?p = "txn_at g (length t)" and ?J = "jwrites g (txn_at g (length t)) (jimage crc g t)"
  obtain us where "log = tagged 0 (phys g ?J) @ tagged 1 (phys g t) @ tagged 2 us"
    using commit_log [OF ready assms(5,6)] assms(7) by auto
  then have "set ws \<subseteq> set (phys g ?J)" using assms(8) by simp
  then obtain vs where vs: "ws = phys g vs" "set vs \<subseteq> set ?J" by (rule phys_sublist)
  let ?G = "blk.wr_all vs g"
  note st = crash_journal_state [OF ready vs(2)]
  have f: "f = dv_file (g_dev ?G)" using st(3) by (simp add: assms(10) vs(1))
  note rm = remount_same [OF st(1,2) f]
  have lost: "jaddr g (?p + length t + 1) \<notin> fst ` set vs"
    using assms(9) by (force simp: vs(1) phys_def)
  have "jblock (remount g f) i = jblock ?G i" if "i < jlen g" for i
    using f same_layoutD [OF rm(1)] same_layoutD [OF st(1)]
    by (simp add: jblock_def remount_def dv_open_def dv_new_def g_bs_def jaddr_def place_def)
  then have "jblock (remount g f) i = jblock g i \<or>
      (?p \<le> i \<and> i < ?p + length t + 1 \<and> jblock (remount g f) i = jimage crc g t ! (i - ?p))"
    if "i < jlen g" for i
    using st(5) [OF that] that lost by (cases "i = ?p + length t + 1") (auto split: if_splits)
  then have "next_txn crc (remount g f) (sb_journal_head (g_sb g)) (sb_journal_seq (g_sb g)) = Inr None"
    by (intro lost_commit_next [OF ready rm(1,2)])
  then have "replay crc (Suc fuel) (remount g f) = (Inr 0, remount g f)"
    by (intro replay_nothing) (simp add: remount_def)
  moreover have "read_block (remount g f) a = read_block g a" if "target_ok g a" for a
    using st(4) [of a] that rm(3) by (simp add: target_ok_def)
  ultimately show ?thesis by blast
qed

lemma crash_without_commit_block_witness:
  "\<exists>g1 log. commit ex_crc ex_txn ex_fs = (Inr (), g1) \<and> dv_recorder (g_dev g1) = Some (2, log) \<and>
     replay ex_crc 1 (remount ex_fs (dv_file (g_dev ex_fs))) = (Inr 0, remount ex_fs (dv_file (g_dev ex_fs)))"
proof -
  obtain g1 where g1: "commit ex_crc ex_txn ex_fs = (Inr (), g1)"
    using commit_effect [OF ex_ready, of ex_crc] by blast
  then obtain log where log: "dv_recorder (g_dev g1) = Some (2, log)"
    using commit_log [OF ex_ready ex_recorder] by blast
  have "sb_journal_seq (g_sb ex_fs) \<noteq> -1" by (simp add: ex_seq)
  from crash_without_commit_block [OF ex_healthy ex_txn_fits ex_txn_plain this ex_recorder g1 log,
      of "[]" "dv_file (g_dev ex_fs)" 0]
  show ?thesis using g1 log by auto
qed

text \<open>C3: A power cut after every journal write of a commit reached the disk, in whatever order, and
  before any write in place did: replay applies the whole transaction.\<close>

theorem crash_after_journal:
  assumes "healthy crc g" and "txn_fits g t" and "txn_plain t" and "sb_journal_seq (g_sb g) \<noteq> -1"
    and "dv_recorder (g_dev g) = Some (0, [])" and "commit crc t g = (Inr (), g1)"
    and "dv_recorder (g_dev g1) = Some (e, log)"
    and "set ws = set (epoch_writes 0 log)" and "f = apply_writes (dv_file (g_dev g)) ws"
  shows "\<exists>g2. replay crc (Suc (Suc fuel)) (remount g f) = (Inr 1, g2) \<and> healthy crc g2 \<and>
    (\<forall>a. target_ok g a \<longrightarrow> read_block g2 a = read_block g1 a)"
proof -
  have ready: "ready g t" using assms(1-4) by (simp add: ready_def healthy_def)
  let ?J = "jwrites g (txn_at g (length t)) (jimage crc g t)"
  obtain us where "log = tagged 0 (phys g ?J) @ tagged 1 (phys g t) @ tagged 2 us"
    using commit_log [OF ready assms(5,6)] assms(7) by auto
  then have "set ws = set (phys g ?J)" using assms(8) by simp
  then obtain vs where vs: "ws = phys g vs" "set vs \<subseteq> set ?J" "phys g vs = ws"
    using phys_sublist [of ws g ?J] by auto
  have full: "set ?J \<subseteq> set vs"
    by (rule phys_same [OF ready vs(2)]) (simp add: vs(3) \<open>set ws = set (phys g ?J)\<close>)
  have half: "half_applied crc t g (blk.wr_all vs g)"
    by (rule crash_journal_complete [OF ready vs(2) full])
  have f: "f = dv_file (g_dev (blk.wr_all vs g))"
    using crash_journal_state(3) [OF ready vs(2)] by (simp add: assms(9) vs(1))
  have G: "same_layout g (blk.wr_all vs g)" "fs_ok (blk.wr_all vs g)"
    using half by (simp_all add: half_applied_def)
  note rm = remount_same [OF G f]
  have half': "half_applied crc t g (remount g f)"
    using half rm by (simp add: half_applied_def)
  obtain g2 where g2: "replay crc (Suc (Suc fuel)) (remount g f) = (Inr 1, g2)" "healthy crc g2"
    "\<And>a. target_ok g a \<Longrightarrow> read_block g2 a = read_block (applied crc t g) a"
    using replay_half_healthy [OF ready half', of fuel] by blast
  obtain g1' where "commit crc t g = (Inr (), g1')"
    "\<And>a. target_ok g a \<Longrightarrow> read_block g1' a = read_block (applied crc t g) a"
    using commit_effect [OF ready, of crc] by (metis target_ok_def)
  with assms(6) g2 show ?thesis by auto
qed

lemma crash_after_journal_witness:
  "\<exists>g1 log g2. commit ex_crc ex_txn ex_fs = (Inr (), g1) \<and> dv_recorder (g_dev g1) = Some (2, log) \<and>
     replay ex_crc 2 (remount ex_fs (apply_writes (dv_file (g_dev ex_fs)) (rev (epoch_writes 0 log)))) = (Inr 1, g2) \<and>
     read_block g2 (blk_addr 0 21) = read_block g1 (blk_addr 0 21)"
proof -
  obtain g1 where g1: "commit ex_crc ex_txn ex_fs = (Inr (), g1)"
    using commit_effect [OF ex_ready, of ex_crc] by blast
  then obtain log where log: "dv_recorder (g_dev g1) = Some (2, log)"
    using commit_log [OF ex_ready ex_recorder] by blast
  have "sb_journal_seq (g_sb ex_fs) \<noteq> -1" by (simp add: ex_seq)
  from crash_after_journal [OF ex_healthy ex_txn_fits ex_txn_plain this ex_recorder g1 log,
      of "rev (epoch_writes 0 log)" _ 0]
  show ?thesis using g1 log ex_target_ok by (auto simp: numeral_2_eq_2)
qed

text \<open>C4: Committing a transaction on a healthy filesystem succeeds, makes every block of the
  transaction read as the transaction says and every other block read as before, advances the
  sequence number, and leaves the filesystem healthy.\<close>

theorem commit_applies:
  assumes "healthy crc g" and "txn_fits g t" and "txn_plain t" and "sb_journal_seq (g_sb g) \<noteq> -1"
  shows "\<exists>g'. commit crc t g = (Inr (), g') \<and> healthy crc g' \<and> g_map g' = g_map g \<and>
    sb_journal_seq (g_sb g') = sb_journal_seq (g_sb g) + 1 \<and>
    (\<forall>a. target_ok g a \<longrightarrow>
       read_block g' a = (case map_of t a of Some b \<Rightarrow> Inr b | None \<Rightarrow> read_block g a))"
proof -
  have ready: "ready g t" using assms by (simp add: ready_def healthy_def)
  obtain g' where g': "commit crc t g = (Inr (), g')" "healthy crc g'" "g_map g' = g_map g"
    "g_sb g' = (checkpoint (txn_at g (length t) + length t + 2) (g_sb g))\<lparr>sb_gen := sb_gen (g_sb g) + 1\<rparr>"
    "\<And>a. mapped g a \<Longrightarrow> a \<noteq> sb_home \<Longrightarrow> a \<noteq> sb_backup g \<Longrightarrow>
       read_block g' a = read_block (applied crc t g) a"
    using commit_effect [OF ready, of crc] by blast
  have "read_block g' a = (case map_of t a of Some b \<Rightarrow> Inr b | None \<Rightarrow> read_block g a)"
    if "target_ok g a" for a
    using g'(5) [of a] target_read [OF ready that, of crc] that by (simp add: target_ok_def)
  then show ?thesis using g'(1-4) by (simp add: checkpoint_def)
qed

lemma commit_applies_witness:
  "\<exists>g'. commit ex_crc ex_txn ex_fs = (Inr (), g') \<and> read_block g' (blk_addr 0 20) = Inr (replicate 512 9)"
proof -
  have "sb_journal_seq (g_sb ex_fs) \<noteq> -1" by (simp add: ex_seq)
  from commit_applies [OF ex_healthy ex_txn_fits ex_txn_plain this]
  obtain g' where "commit ex_crc ex_txn ex_fs = (Inr (), g')"
    "\<forall>a. target_ok ex_fs a \<longrightarrow>
       read_block g' a = (case map_of ex_txn a of Some b \<Rightarrow> Inr b | None \<Rightarrow> read_block ex_fs a)"
    by blast
  then show ?thesis using ex_target_ok(1) by (simp add: ex_txn_def)
qed

text \<open>C5: Replay is idempotent: on a healthy filesystem, which is what commit and replay leave,
  replay applies nothing and changes nothing, and the read-only scan counts no transaction.\<close>

theorem replay_idempotent:
  assumes "healthy crc g"
  shows "replay crc (Suc fuel) g = (Inr 0, g) \<and> journal_pending crc (Suc fuel) g = Inr 0"
proof -
  have h: "fs_ok g" "journal_ok g" "journal_fresh g" using assms by (simp_all add: healthy_def)
  have "next_txn crc g (sb_journal_head (g_sb g)) (sb_journal_seq (g_sb g)) = Inr None"
    by (rule next_txn_stale [OF h(1,2) _ order.refl]) (use h in \<open>simp_all add: journal_fresh_def journal_ok_def\<close>)
  then show ?thesis using replay_nothing by (simp add: journal_pending_def)
qed

lemma replay_idempotent_witness:
  "replay ex_crc 1 ex_fs = (Inr 0, ex_fs) \<and> journal_pending ex_crc 1 ex_fs = Inr 0"
  using replay_idempotent [OF ex_healthy, of 0] by simp



section \<open>Block addresses, superblock and inodes\<close>

text \<open>C13: As long as the segments of the AG map do not overlap on the device, two different block
  addresses never resolve to overlapping byte ranges: no block aliases another.\<close>

theorem resolve_disjoint:
  assumes "am_layout_ok m bs" and "a \<noteq> a'"
    and "am_resolve m a bs = Some p" and "am_resolve m a' bs = Some p'"
  shows "apart (blk_range bs p) (blk_range bs p')"
  by (rule am_resolve_apart [OF assms])

lemma resolve_disjoint_witness:
  "apart (blk_range 512 (20 * 512)) (blk_range 512 (21 * 512))"
proof -
  have "am_layout_ok ex_map 512" using ex_fs_ok by (simp add: fs_ok_def ex_fs_def ex_sb_def)
  moreover have "blk_addr 0 20 \<noteq> blk_addr 0 21" by simp
  moreover have "am_resolve ex_map (blk_addr 0 20) 512 = Some (20 * 512)"
    "am_resolve ex_map (blk_addr 0 21) 512 = Some (21 * 512)"
    using ex_resolve [of 20] ex_resolve [of 21] by simp_all
  ultimately show ?thesis by (rule resolve_disjoint)
qed

text \<open>C14: On a filesystem whose map is in order, a block that was written is read back, and every
  other mapped block reads as before.\<close>

theorem block_read_after_write:
  assumes "fs_ok g" and "mapped g a" and "mapped g a'" and "length b = g_bs g"
  shows "\<exists>g'. write_block a b g = (Inr (), g') \<and> fs_ok g' \<and>
    read_block g' a' = (if a = a' then Inr b else read_block g a')"
  using write_block_mapped [OF assms(1,2,4)] fs_ok_blk_wr [OF assms(1,2,4)]
    blk.rd_wr [of g a b a'] assms by blast

lemma block_read_after_write_witness:
  "\<exists>g'. write_block (blk_addr 0 20) (replicate 512 1) ex_fs = (Inr (), g') \<and>
     read_block g' (blk_addr 0 20) = Inr (replicate 512 1)"
  using block_read_after_write [OF ex_fs_ok ex_mapped(1) [of 20] ex_mapped(1) [of 20], of "replicate 512 1"]
  by auto

text \<open>C15: The superblock's encoding is read back wherever it was stored: parsing the 512 bytes it
  was written to gives the superblock, for every superblock the parser can produce.\<close>

theorem superblock_roundtrip:
  assumes "sb_parse crc b0 = Inr sb" and "off + SB_SIZE \<le> length b"
  shows "sb_parse crc (get_bytes (put_bytes b off (sb_to_bytes crc sb)) off SB_SIZE) = Inr sb"
  by (rule sb_codec.dec_slice [OF sb_parse_wf [OF assms(1)] assms(2)])

lemma superblock_roundtrip_witness:
  "sb_parse ex_crc (get_bytes (put_bytes (replicate 600 0) 50 (sb_to_bytes ex_crc ex_sb)) 50 SB_SIZE) = Inr ex_sb"
proof -
  have "sb_parse ex_crc (sb_to_bytes ex_crc ex_sb) = Inr ex_sb"
    by (rule sb_codec.dec_enc_exact [OF ex_sb_wf])
  then show ?thesis by (rule superblock_roundtrip) simp
qed

text \<open>What the superblock parser accepts: magic, checksum, version and block size, and nothing
  else, decide; the fields are the ones stored.\<close>

theorem superblock_accepts:
  "sb_parse crc b = Inr sb \<longleftrightarrow>
     SB_SIZE \<le> length b \<and> get_bytes b 0 4 = SB_MAGIC \<and>
     get_u32 b 4 = csum crc (take SB_SIZE b) 4 \<and> get_u32 b 8 = VERSION \<and>
     sb = sb_read_fields (take SB_SIZE b) \<and>
     is_power_of_two (sb_blocksize sb) \<and> 512 \<le> sb_blocksize sb"
  by (rule sb_parse_iff)

text \<open>C16: Inodes are read back: from the bytes they were stored in, and through a transaction,
  where writing one inode leaves all others as they were (for inode sizes of at least the 256
  bytes an inode record takes).\<close>

theorem inode_read_after_write:
  assumes "slots_ok (g_sb g)" and "txn_ok t" and "blocks_full g t" and "in_wf i"
    and "write_inode_txn crc ino i (g, t) = (Inr (), (g', t'))"
  shows "read_inode_txn crc g' t' ino = Inr i \<and>
    (\<forall>ino'. ino' \<noteq> ino \<longrightarrow> read_inode_txn crc g' t' ino' = read_inode_txn crc g t ino')"
  using inode_read_write [OF assms] by blast

lemma inode_read_after_write_witness:
  "\<exists>t'. write_inode_txn ex_crc (blk_addr 0 41) inode_default (ex_fs, ex_txn) = (Inr (), (ex_fs, t')) \<and>
     read_inode_txn ex_crc ex_fs t' (blk_addr 0 41) = Inr inode_default"
proof -
  have s: "slots_ok (g_sb ex_fs)" by (simp add: slots_ok_def ex_fs_def ex_sb_def)
  have t: "txn_ok ex_txn" using ex_txn_fits by (simp add: txn_fits_def)
  have f: "blocks_full ex_fs ex_txn" by (auto simp: blocks_full_def ex_txn_def split: if_splits)
  have w: "in_wf inode_default" by (simp add: in_wf_def inode_default_def)
  have spot: "fst (inode_spot (g_sb ex_fs) (blk_addr 0 41)) = blk_addr 0 20"
    by (simp add: inode_spot_def ex_fs_def ex_sb_def Let_def)
  have "txn_read ex_fs ex_txn (blk_addr 0 20) = Inr (replicate 512 9)"
    by (simp add: txn_read_def ex_txn_def)
  from write_inode_run [OF s f, of "blk_addr 0 41", unfolded spot, OF this]
  obtain t' where "write_inode_txn ex_crc (blk_addr 0 41) inode_default (ex_fs, ex_txn) = (Inr (), (ex_fs, t'))"
    by blast
  with inode_read_after_write [OF s t f w this] show ?thesis by blast
qed

text \<open>C17: The AG map's encoding is read back; a map that does not fit its area is refused with an
  error instead of being cut.\<close>

theorem agmap_roundtrip:
  assumes "am_wf m" and "AGMAP_HDR \<le> capacity"
  shows "if AGMAP_HDR + am_used (am_entries m) \<le> capacity
    then \<exists>b. am_to_bytes crc m capacity = Inr b \<and> length b = capacity \<and> am_parse crc b = Inr m
    else am_to_bytes crc m capacity = Inl (Msg ''ag map: capacity exceeded'')"
proof (cases "AGMAP_HDR + am_used (am_entries m) \<le> capacity")
  case True
  note b = am_to_bytes_concat [OF True, of crc]
  show ?thesis
    using True b am_parse_to_bytes [OF assms(1) b] by (simp add: length_am_body)
next
  case False
  then show ?thesis
    using assms(2) by (auto simp: am_to_bytes_def am_put_entries_full Let_def)
qed

lemma agmap_roundtrip_witness:
  "\<exists>b. am_to_bytes ex_crc ex_map 1024 = Inr b \<and> am_parse ex_crc b = Inr ex_map"
proof -
  have "am_wf ex_map" by (simp add: am_wf_def ex_map_def)
  from agmap_roundtrip [OF this, of 1024 ex_crc] show ?thesis by (auto simp: ex_map_def)
qed

section \<open>Inode payloads\<close>

text \<open>C18: Appending an entry to an embedded directory and listing it again gives the old entries
  followed by the new one, names included; an entry that does not fit is refused.\<close>

theorem embedded_dir_append:
  assumes "\<forall>x\<in>set es. dirent_ok x" and "dirent_ok e"
  shows "if sum_list (map dirent_size es) + dirent_size e \<le> INODE_PAYLOAD
    then \<exists>p. dir_append (dir_image es) e = Inr p \<and> dir_parse p = es @ [e]
    else dir_append (dir_image es) e = Inl (Msg ''embedded directory full'')"
proof -
  have len: "length (encode_utf16 (de_name e)) \<le> 255" using assms(2) by (simp add: dirent_ok_def)
  have "\<forall>x\<in>set (es @ [e]). dirent_ok x" using assms by simp
  then show ?thesis
    using dir_append_image [OF assms(1) len] dir_append_full [OF assms(1) len] dir_parse_image by auto
qed

lemma embedded_dir_append_witness:
  "\<exists>p. dir_append (dir_image []) \<lparr>de_ino = 49, de_ftype = DT_FILE, de_name = [0x68, 0x1F600]\<rparr> = Inr p \<and>
     dir_parse p = [\<lparr>de_ino = 49, de_ftype = DT_FILE, de_name = [0x68, 0x1F600]\<rparr>]"
proof -
  let ?e = "\<lparr>de_ino = 49, de_ftype = DT_FILE, de_name = [0x68, 0x1F600]\<rparr>"
  have "dirent_ok ?e"
    by (simp add: dirent_ok_def rstring_ok_def scalar_def utf16_char_def Let_def)
  moreover have "dirent_size ?e \<le> INODE_PAYLOAD"
    by (simp add: dirent_size_def utf16_char_def Let_def)
  ultimately show ?thesis using embedded_dir_append [of "[]" ?e] by simp
qed

text \<open>Inline extent records are read back as they were stored, up to six of them.\<close>

theorem inline_extents_roundtrip:
  assumes "length es \<le> MAX_INLINE_EXTENTS" and "\<forall>e\<in>set es. ex_blocks e \<noteq> 0"
  shows "\<exists>p. extents_store es = Inr p \<and> length p = INODE_PAYLOAD \<and> extents_parse p = es"
  using assms extents_parse_store [of es] by (auto simp: extents_store_image)

lemma inline_extents_roundtrip_witness:
  "\<exists>p. extents_store [\<lparr>ex_file_block = 0, ex_blk = 1280, ex_blocks = 2\<rparr>] = Inr p \<and>
     extents_parse p = [\<lparr>ex_file_block = 0, ex_blk = 1280, ex_blocks = 2\<rparr>]"
  using inline_extents_roundtrip [of "[\<lparr>ex_file_block = 0, ex_blk = 1280, ex_blocks = 2\<rparr>]"] by auto

section \<open>The allocator\<close>



text \<open>C20: A child-table reference written to the root table is read back, except that a
  reference that crosses the end of a block, which the writer stores byte by byte, makes the
  reader panic: it takes all six bytes from the block of the first.\<close>

theorem root_reference_read_write:
  assumes "st_ok g t" and "0 < g_bs g" and "rt_ref_off (rt_cells g hdr) c + 6 \<le> 2 ^ 32"
    and "\<forall>i<6. \<exists>b. txn_read g t (rt_blk g hdr (rt_ref_off (rt_cells g hdr) c + i)) = Inr b"
  shows "\<exists>t'. rt_ref_set hdr c r (g, t) = (Inr (), (g, t')) \<and>
    rt_ref g t' hdr c = (if rt_ref_off (rt_cells g hdr) c mod g_bs g + 6 \<le> g_bs g then Inr r else Inl Panic)"
proof -
  have "\<exists>y. rt_tbl g t hdr (rt_ref_off (rt_cells g hdr) c + i) = Inr y" if "i < 6" for i
    using assms(4) that by (auto simp: rt_tbl_block)
  from rt_ref_read_write [OF assms(1-3) this, of r] show ?thesis by blast
qed

lemma root_reference_read_write_witness:
  "(\<exists>t'. rt_ref_set ex_big_hdr 80 (300, 1) (ex_fs, ex_tbl_txn) = (Inr (), (ex_fs, t')) \<and>
     rt_ref ex_fs t' ex_big_hdr 80 = Inr (300, 1)) \<and>
   (\<exists>t'. rt_ref_set ex_big_hdr 81 (300, 1) (ex_fs, ex_tbl_txn) = (Inr (), (ex_fs, t')) \<and>
     rt_ref ex_fs t' ex_big_hdr 81 = Inl Panic)"
proof -
  have off: "rt_ref_off (rt_cells ex_fs ex_big_hdr) c = 25 + 6 * c" for c
    by (simp add: rt_ref_off_def ex_rt_cells div_ceil_def)
  have rd: "\<forall>i<6. \<exists>b. txn_read ex_fs ex_tbl_txn (rt_blk ex_fs ex_big_hdr (25 + 6 * c + i)) = Inr b"
    if "c \<le> 81" for c
    using that by (simp add: ex_big_readable)
  show ?thesis
    using root_reference_read_write [OF ex_st_ok, of ex_big_hdr 80 "(300, 1)", unfolded off]
      root_reference_read_write [OF ex_st_ok, of ex_big_hdr 81 "(300, 1)", unfolded off]
      rd [of 80] rd [of 81] by simp
qed

end
